(* ===== verification/Prelude.thy ===== *)
theory Prelude
  imports Main "HOL-Library.Char_ord" "HOL-Library.Multiset"
begin

text \<open>
  What every component of the model shares.

  A Python function that reads and changes a state and may raise becomes a value of type
  \<open>('s, 'e, 'a) prog\<close>: from a state to either the exception raised (\<open>Inl\<close>) or the value
  returned (\<open>Inr\<close>), with the state left behind in both cases (a Python exception does not undo
  what was done before it).  \<open>bindP\<close> is sequencing, \<open>raiseP\<close> is \<^verbatim>\<open>raise\<close>, \<open>getsP\<close> reads, \<open>modifyP\<close>
  writes, \<open>catchP\<close> is \<^verbatim>\<open>try/except\<close>.

  Machine strings (Redis keys, tokens, hashes, e-mail addresses as their UTF-8 bytes) are
  \<open>string\<close>; text typed by people (titles, nicknames, passwords, comments) is \<open>utext\<close>, a list of
  Unicode code points, because the code counts and splits code points.  The file also holds the
  pieces of Python's string library the code calls (\<^verbatim>\<open>split\<close>, \<^verbatim>\<open>strip\<close>, \<^verbatim>\<open>lower\<close>, \<^verbatim>\<open>int\<close>,
  formatting of integers) and lemmas on lists.
\<close>

named_theorems prog_simps \<open>unfolding of the state-and-exception combinators\<close>
named_theorems key_simps \<open>Redis keys: injectivity and separation\<close>
named_theorems db_simps \<open>reads and writes of the database session\<close>

type_synonym utext = "nat list"
type_synonym time = nat

section \<open>Programs with state and exceptions\<close>

type_synonym ('s, 'e, 'a) prog = "'s \<Rightarrow> ('e + 'a) \<times> 's"

definition returnP :: "'a \<Rightarrow> ('s, 'e, 'a) prog" where
  "returnP a = (\<lambda>s. (Inr a, s))"

definition raiseP :: "'e \<Rightarrow> ('s, 'e, 'a) prog" where
  "raiseP e = (\<lambda>s. (Inl e, s))"

definition bindP :: "('s, 'e, 'a) prog \<Rightarrow> ('a \<Rightarrow> ('s, 'e, 'b) prog) \<Rightarrow> ('s, 'e, 'b) prog" where
  "bindP m f = (\<lambda>s. case m s of (Inl e, s') \<Rightarrow> (Inl e, s') | (Inr a, s') \<Rightarrow> f a s')"

definition getsP :: "('s \<Rightarrow> 'a) \<Rightarrow> ('s, 'e, 'a) prog" where
  "getsP f = (\<lambda>s. (Inr (f s), s))"

definition modifyP :: "('s \<Rightarrow> 's) \<Rightarrow> ('s, 'e, unit) prog" where
  "modifyP f = (\<lambda>s. (Inr (), f s))"

definition liftP :: "'e + 'a \<Rightarrow> ('s, 'e, 'a) prog" where
  "liftP r = (\<lambda>s. (r, s))"

definition whenP :: "bool \<Rightarrow> ('s, 'e, unit) prog \<Rightarrow> ('s, 'e, unit) prog" where
  "whenP b m = (if b then m else returnP ())"

text \<open>\<^verbatim>\<open>try: m except e: h e\<close>; the handler runs in the state the exception left.\<close>

definition catchP :: "('s, 'e, 'a) prog \<Rightarrow> ('e \<Rightarrow> ('s, 'e, 'a) prog) \<Rightarrow> ('s, 'e, 'a) prog" where
  "catchP m h = (\<lambda>s. case m s of (Inl e, s') \<Rightarrow> h e s' | (Inr a, s') \<Rightarrow> (Inr a, s'))"

fun mapP :: "('a \<Rightarrow> ('s, 'e, 'b) prog) \<Rightarrow> 'a list \<Rightarrow> ('s, 'e, 'b list) prog" where
  "mapP f [] = returnP []"
| "mapP f (x # xs) = bindP (f x) (\<lambda>y. bindP (mapP f xs) (\<lambda>ys. returnP (y # ys)))"

lemma bindP_returnP [simp]: "bindP (returnP a) f = f a"
  by (simp add: bindP_def returnP_def)

lemma bindP_raiseP [simp]: "bindP (raiseP e) f = raiseP e"
  by (simp add: bindP_def raiseP_def)

lemma bindP_assoc: "bindP (bindP m f) g = bindP m (\<lambda>a. bindP (f a) g)"
  by (rule ext) (simp add: bindP_def split: prod.splits sum.splits)

lemma returnP_apply [prog_simps]: "returnP a s = (Inr a, s)"
  by (simp add: returnP_def)

lemma raiseP_apply [prog_simps]: "raiseP e s = (Inl e, s)"
  by (simp add: raiseP_def)

lemma getsP_apply [prog_simps]: "getsP f s = (Inr (f s), s)"
  by (simp add: getsP_def)

lemma modifyP_apply [prog_simps]: "modifyP f s = (Inr (), f s)"
  by (simp add: modifyP_def)

lemma liftP_apply [prog_simps]: "liftP r s = (r, s)"
  by (simp add: liftP_def)

lemma bindP_apply [prog_simps]:
  "bindP m f s = (case m s of (Inl e, s') \<Rightarrow> (Inl e, s') | (Inr a, s') \<Rightarrow> f a s')"
  by (simp add: bindP_def)

lemma liftP_Inr: "liftP (Inr a) = returnP a"
  by (simp add: liftP_def returnP_def)

text \<open>A step that only reads.\<close>

lemma bindP_read: "snd (m s) = s \<Longrightarrow> bindP m f s = (case fst (m s) of Inl e \<Rightarrow> (Inl e, s) | Inr a \<Rightarrow> f a s)"
  by (cases "m s") (simp add: bindP_def split: sum.split)

lemma catchP_apply [prog_simps]:
  "catchP m h s = (case m s of (Inl e, s') \<Rightarrow> h e s' | (Inr a, s') \<Rightarrow> (Inr a, s'))"
  by (simp add: catchP_def)

lemma whenP_apply [prog_simps]: "whenP b m s = (if b then m s else (Inr (), s))"
  by (simp add: whenP_def returnP_def)

text \<open>An invariant of the state, kept whether the program returns or raises.\<close>

definition keeps :: "('s \<Rightarrow> bool) \<Rightarrow> ('s, 'e, 'a) prog \<Rightarrow> bool" where
  "keeps I m \<longleftrightarrow> (\<forall>s. I s \<longrightarrow> I (snd (m s)))"

lemma keepsI: "(\<And>s. I s \<Longrightarrow> I (snd (m s))) \<Longrightarrow> keeps I m"
  by (simp add: keeps_def)

lemma keepsD: "keeps I m \<Longrightarrow> I s \<Longrightarrow> I (snd (m s))"
  by (simp add: keeps_def)

lemma keeps_returnP [intro!, simp]: "keeps I (returnP a)"
  by (simp add: keeps_def returnP_def)

lemma keeps_raiseP [intro!, simp]: "keeps I (raiseP e)"
  by (simp add: keeps_def raiseP_def)

lemma keeps_getsP [intro!, simp]: "keeps I (getsP f)"
  by (simp add: keeps_def getsP_def)

lemma keeps_liftP [intro!, simp]: "keeps I (liftP r)"
  by (simp add: keeps_def liftP_def)

lemma keeps_bindP [intro]:
  assumes "keeps I m" and "\<And>a. keeps I (f a)"
  shows "keeps I (bindP m f)"
proof (rule keepsI)
  fix s assume "I s"
  with assms(1) have "I (snd (m s))" by (rule keepsD)
  then show "I (snd (bindP m f s))"
    using assms(2) by (auto simp: bindP_def keeps_def split: prod.splits sum.splits)
qed

lemma keeps_catchP [intro]:
  assumes "keeps I m" and "\<And>e. keeps I (h e)"
  shows "keeps I (catchP m h)"
proof (rule keepsI)
  fix s assume "I s"
  with assms(1) have "I (snd (m s))" by (rule keepsD)
  then show "I (snd (catchP m h s))"
    using assms(2) by (auto simp: catchP_def keeps_def split: prod.splits sum.splits)
qed

lemma keeps_whenP [intro]: "keeps I m \<Longrightarrow> keeps I (whenP b m)"
  by (simp add: whenP_def)

lemma keeps_mapP [intro]: "(\<And>x. keeps I (f x)) \<Longrightarrow> keeps I (mapP f xs)"
  by (induction xs) auto

section \<open>Request bodies\<close>

text \<open>
  A field of a PATCH body as pydantic's \<^verbatim>\<open>exclude_unset\<close> sees it: not sent, sent as \<^verbatim>\<open>null\<close>, or sent
  with a value.
\<close>

datatype 'a sent = Unset | Null | Sent 'a

text \<open>A field that may be left out or null, and is validated otherwise.\<close>

fun sent_valid :: "('a \<Rightarrow> 'b option) \<Rightarrow> 'a sent \<Rightarrow> 'b sent option" where
  "sent_valid f Unset = Some Unset"
| "sent_valid f Null = Some Null"
| "sent_valid f (Sent v) = map_option Sent (f v)"

section \<open>Results of queries\<close>

text \<open>
  SQLAlchemy's \<^verbatim>\<open>one_or_none()\<close>: no row is \<open>None\<close>, one row is that row, more than one raises
  \<^verbatim>\<open>MultipleResultsFound\<close>.  The exception is the first argument, so that this theory does not
  depend on the exception type.
\<close>

fun one_or_none :: "'e \<Rightarrow> 'a list \<Rightarrow> 'e + 'a option" where
  "one_or_none e [] = Inr None"
| "one_or_none e [x] = Inr (Some x)"
| "one_or_none e (x # y # zs) = Inl e"

lemma one_or_none_Some: "one_or_none e xs = Inr (Some x) \<Longrightarrow> x \<in> set xs"
  by (cases "(e, xs)" rule: one_or_none.cases) auto

lemma filter_unique:
  assumes "distinct (map k xs)"
  shows "filter (\<lambda>x. k x = i \<and> P x) xs =
    (case find (\<lambda>x. k x = i) xs of None \<Rightarrow> [] | Some x \<Rightarrow> if P x then [x] else [])"
  using assms
proof (induction xs)
  case Nil
  then show ?case by simp
next
  case (Cons a xs)
  have "filter (\<lambda>x. k x = i \<and> P x) xs = []" if "k a = i"
    using Cons.prems that by (auto simp: filter_empty_conv image_iff)
  then show ?case
    using Cons by (auto split: option.splits)
qed

lemma one_or_none_unique:
  assumes "distinct (map k xs)"
  shows "one_or_none e (filter (\<lambda>x. k x = i \<and> P x) xs) =
    Inr (case find (\<lambda>x. k x = i) xs of None \<Rightarrow> None | Some x \<Rightarrow> if P x then Some x else None)"
  by (simp add: filter_unique [OF assms] split: option.splits)

lemma find_unique_Some:
  assumes "distinct (map k xs)" and "x \<in> set xs" and "k x = i"
  shows "find (\<lambda>x. k x = i) xs = Some x"
  using assms by (induction xs) (auto simp: image_iff)

lemma find_SomeD: "find P xs = Some x \<Longrightarrow> x \<in> set xs \<and> P x"
  by (auto simp: find_Some_iff in_set_conv_nth)

text \<open>Sorting by a key that determines the element gives a strict order.\<close>

lemma sort_key_strict:
  fixes f :: "'a \<Rightarrow> 'b::linorder"
  assumes "distinct (map f xs)"
  shows "sorted_wrt (\<lambda>x y. f x < f y) (sort_key f xs)"
proof -
  have "mset (map f (sort_key f xs)) = mset (map f xs)" by simp
  then have "distinct (map f (sort_key f xs))" using assms mset_eq_imp_distinct_iff by blast
  then have "sorted_wrt (<) (map f (sort_key f xs))"
    by (simp only: strict_sorted_iff sorted_sort_key simp_thms)
  then show ?thesis by (simp add: sorted_wrt_map)
qed

lemma map_fst_filter: "map fst (filter (\<lambda>(a, _). P a) xs) = filter P (map fst xs)"
  by (induction xs) auto

end
