(* ===== verification/PyString.thy ===== *)
theory PyString
  imports Prelude
begin

text \<open>
  The parts of Python's \<^verbatim>\<open>str\<close> the application calls: formatting of integers in f-strings, \<^verbatim>\<open>int(s)\<close>,
  \<^verbatim>\<open>s.split(sep)\<close>, \<^verbatim>\<open>s.rsplit(sep, 1)\<close>, \<^verbatim>\<open>s.split()\<close>, \<^verbatim>\<open>s.strip()\<close>, \<^verbatim>\<open>s.lower()\<close>, \<^verbatim>\<open>sep.join\<close>,
  \<^verbatim>\<open>s.encode("utf-8")\<close> and \<^verbatim>\<open>part in s\<close>.  The functions on \<open>string\<close> are exact on ASCII; those on
  \<open>utext\<close> (\<open>split_ws\<close>, \<open>strip_text\<close>, \<open>trim_text\<close>, \<open>utf8\<close>) on all of Unicode.
\<close>

section \<open>Decimal integers\<close>

definition digit_char :: "nat \<Rightarrow> char" where
  "digit_char d = char_of (48 + d)"

definition is_digit :: "char \<Rightarrow> bool" where
  "is_digit c \<longleftrightarrow> (48::nat) \<le> of_char c \<and> of_char c \<le> (57::nat)"

definition digit_val :: "char \<Rightarrow> nat" where
  "digit_val c = of_char c - 48"

fun show_nat :: "nat \<Rightarrow> string" where
  "show_nat n = (if n < 10 then [digit_char n] else show_nat (n div 10) @ [digit_char (n mod 10)])"

declare show_nat.simps [simp del]

definition show_int :: "int \<Rightarrow> string" where
  "show_int i = (if i < 0 then CHR ''-'' # show_nat (nat (- i)) else show_nat (nat i))"

text \<open>Digits with single underscores between them, as \<^verbatim>\<open>int()\<close> accepts them; the flag says that
  the last character read was a digit.\<close>

fun parse_digits :: "bool \<Rightarrow> nat \<Rightarrow> string \<Rightarrow> nat option" where
  "parse_digits d acc [] = (if d then Some acc else None)"
| "parse_digits d acc (c # cs) =
     (if is_digit c then parse_digits True (10 * acc + digit_val c) cs
      else if c = CHR ''_'' \<and> d then parse_digits False acc cs
      else None)"

definition is_space :: "char \<Rightarrow> bool" where
  "is_space c \<longleftrightarrow> c \<in> {CHR '' '', CHR 0x09, CHR 0x0A, CHR 0x0B, CHR 0x0C, CHR 0x0D,
     CHR 0x1C, CHR 0x1D, CHR 0x1E, CHR 0x1F}"

definition strip :: "string \<Rightarrow> string" where
  "strip s = rev (dropWhile is_space (rev (dropWhile is_space s)))"

text \<open>\<^verbatim>\<open>int(s)\<close>; \<open>None\<close> is the \<^verbatim>\<open>ValueError\<close>.\<close>

definition py_int :: "string \<Rightarrow> int option" where
  "py_int s =
     (case strip s of
        [] \<Rightarrow> None
      | c # cs \<Rightarrow>
          if c = CHR ''-'' then map_option (\<lambda>n. - int n) (parse_digits False 0 cs)
          else if c = CHR ''+'' then map_option int (parse_digits False 0 cs)
          else map_option int (parse_digits False 0 (c # cs)))"

lemma of_char_digit: "d < 10 \<Longrightarrow> of_char (digit_char d) = 48 + d"
  by (simp add: digit_char_def)

lemma digit_char_props:
  assumes "d < 10"
  shows "is_digit (digit_char d)" "digit_val (digit_char d) = d" "\<not> is_space (digit_char d)"
proof -
  show "is_digit (digit_char d)" "digit_val (digit_char d) = d"
    using assms by (simp_all add: is_digit_def digit_val_def of_char_digit)
  have "of_char (digit_char d) \<notin> {32, 9, 10, 11, 12, 13, 28, 29, 30, 31 :: nat}"
    using assms by (simp add: of_char_digit)
  then show "\<not> is_space (digit_char d)"
    by (auto simp: is_space_def)
qed

lemma show_nat_nonempty [simp]: "show_nat n \<noteq> []"
  by (subst show_nat.simps) simp

lemma set_show_nat: "c \<in> set (show_nat n) \<Longrightarrow> is_digit c"
proof (induction n rule: show_nat.induct)
  case (1 n)
  then show ?case
    by (cases "n < 10") (auto simp: show_nat.simps [of n] digit_char_props)
qed

lemma is_digit_not [simp]:
  "\<not> is_digit (CHR '':'')" "\<not> is_digit (CHR ''-'')" "\<not> is_digit (CHR ''_'')" "\<not> is_digit (CHR ''+'')"
  by (simp_all add: is_digit_def)

lemma is_digit_not_space: "is_digit c \<Longrightarrow> \<not> is_space c"
  by (auto simp: is_digit_def is_space_def)

lemma parse_digits_append:
  "\<forall>c\<in>set xs. is_digit c \<Longrightarrow> xs \<noteq> [] \<Longrightarrow>
   parse_digits d acc (xs @ ys) = parse_digits True (foldl (\<lambda>a c. 10 * a + digit_val c) acc xs) ys"
proof (induction xs arbitrary: d acc)
  case Nil
  then show ?case by simp
next
  case (Cons c cs)
  then show ?case by (cases "cs = []") auto
qed

lemma foldl_show_nat: "foldl (\<lambda>a c. 10 * a + digit_val c) 0 (show_nat n) = n"
proof (induction n rule: show_nat.induct)
  case (1 n)
  then show ?case
    by (cases "n < 10") (auto simp: show_nat.simps [of n] digit_char_props)
qed

lemma parse_show_nat: "parse_digits False 0 (show_nat n) = Some n"
  using parse_digits_append [of "show_nat n" False 0 "[]"] set_show_nat
  by (simp add: foldl_show_nat)

lemma show_int_no_sep [simp]: "CHR '':'' \<notin> set (show_int i)"
  by (auto simp: show_int_def dest: set_show_nat)

lemma show_int_nonempty [simp]: "show_int i \<noteq> []"
  by (simp add: show_int_def)

lemma show_int_no_space: "c \<in> set (show_int i) \<Longrightarrow> \<not> is_space c"
  by (auto simp: show_int_def is_space_def is_digit_def dest: set_show_nat split: if_splits)

lemma dropWhile_id: "\<forall>x\<in>set xs. \<not> P x \<Longrightarrow> dropWhile P xs = xs"
  by (cases xs) auto

lemma strip_no_space: "\<forall>c\<in>set s. \<not> is_space c \<Longrightarrow> strip s = s"
  by (simp add: strip_def dropWhile_id)

text \<open>Reading back what an f-string printed: \<^verbatim>\<open>int(f"{i}") == i\<close>.\<close>

lemma py_int_show_int [simp]: "py_int (show_int i) = Some i"
proof -
  have s: "strip (show_int i) = show_int i"
    by (rule strip_no_space) (use show_int_no_space in blast)
  show ?thesis
  proof (cases "i < 0")
    case True
    then have "show_int i = CHR ''-'' # show_nat (nat (- i))"
      by (simp add: show_int_def)
    with True s show ?thesis by (simp add: py_int_def parse_show_nat)
  next
    case False
    then have e: "show_int i = show_nat (nat i)"
      by (simp add: show_int_def)
    obtain c cs where c: "show_nat (nat i) = c # cs"
      by (cases "show_nat (nat i)") auto
    have "is_digit c"
      using c set_show_nat [of c "nat i"] by simp
    then have "c \<noteq> CHR ''-''" "c \<noteq> CHR ''+''" by auto
    moreover have "parse_digits False 0 (c # cs) = Some (nat i)"
      using parse_show_nat [of "nat i"] c by simp
    ultimately show ?thesis
      using False s e c by (simp add: py_int_def del: parse_digits.simps)
  qed
qed

lemma show_int_inject [simp]: "show_int i = show_int j \<longleftrightarrow> i = j"
proof
  assume "show_int i = show_int j"
  then have "py_int (show_int i) = py_int (show_int j)" by simp
  then show "i = j" by simp
qed simp

section \<open>Splitting and joining\<close>

text \<open>\<^verbatim>\<open>s.split(sep)\<close> for a one-character separator.\<close>

fun split_on :: "'a \<Rightarrow> 'a list \<Rightarrow> 'a list list" where
  "split_on c [] = [[]]"
| "split_on c (x # xs) =
     (if x = c then [] # split_on c xs
      else (case split_on c xs of [] \<Rightarrow> [[x]] | y # ys \<Rightarrow> (x # y) # ys))"

text \<open>\<^verbatim>\<open>s.rsplit(sep, 1)[1]\<close>: what follows the last separator (the code uses it on keys that have one).\<close>

definition after_last :: "'a \<Rightarrow> 'a list \<Rightarrow> 'a list" where
  "after_last c s = rev (takeWhile (\<lambda>x. x \<noteq> c) (rev s))"

lemma split_on_nonempty [simp]: "split_on c xs \<noteq> []"
  by (induction xs) (auto split: list.splits)

lemma split_on_none: "c \<notin> set xs \<Longrightarrow> split_on c xs = [xs]"
  by (induction xs) auto

lemma split_on_append: "c \<notin> set xs \<Longrightarrow> split_on c (xs @ c # ys) = xs # split_on c ys"
  by (induction xs) auto

lemma after_last_append: "c \<notin> set ys \<Longrightarrow> after_last c (xs @ c # ys) = ys"
proof -
  assume "c \<notin> set ys"
  then have "takeWhile (\<lambda>x. x \<noteq> c) (rev ys) = rev ys"
    by (auto simp: takeWhile_eq_all_conv)
  then have "rev (takeWhile (\<lambda>x. x \<noteq> c) (rev ys)) = ys"
    by (simp only: rev_rev_ident)
  then show ?thesis by (simp add: after_last_def takeWhile_tail)
qed

lemma append_sep_inject:
  assumes "c \<notin> set xs" and "c \<notin> set xs'"
  shows "xs @ c # ys = xs' @ c # ys' \<longleftrightarrow> xs = xs' \<and> ys = ys'"
  using assms
proof (induction xs arbitrary: xs')
  case Nil
  then show ?case by (cases xs') auto
next
  case (Cons x xs)
  then show ?case by (cases xs') auto
qed

fun join :: "string \<Rightarrow> string list \<Rightarrow> string" where
  "join sep [] = []"
| "join sep [x] = x"
| "join sep (x # y # zs) = x @ sep @ join sep (y # zs)"

text \<open>\<^verbatim>\<open>part in s\<close>\<close>

fun contains_sub :: "'a list \<Rightarrow> 'a list \<Rightarrow> bool" where
  "contains_sub p [] \<longleftrightarrow> p = []"
| "contains_sub p (x # xs) \<longleftrightarrow> take (length p) (x # xs) = p \<or> contains_sub p xs"

lemma contains_sub_iff: "contains_sub p s \<longleftrightarrow> (\<exists>u v. s = u @ p @ v)"
proof (induction s)
  case Nil
  then show ?case by simp
next
  case (Cons x xs)
  have "take (length p) (x # xs) = p \<longleftrightarrow> (\<exists>v. x # xs = p @ v)"
    by (metis append_eq_conv_conj append_take_drop_id)
  moreover have "(\<exists>u v. x # xs = u @ p @ v) \<longleftrightarrow>
      (\<exists>v. x # xs = p @ v) \<or> (\<exists>u v. xs = u @ p @ v)"
  proof
    assume "\<exists>u v. x # xs = u @ p @ v"
    then obtain u v where "x # xs = u @ p @ v" by blast
    then show "(\<exists>v. x # xs = p @ v) \<or> (\<exists>u v. xs = u @ p @ v)"
      by (cases u) auto
  next
    assume "(\<exists>v. x # xs = p @ v) \<or> (\<exists>u v. xs = u @ p @ v)"
    then show "\<exists>u v. x # xs = u @ p @ v"
      by (metis append_Cons append_Nil)
  qed
  ultimately show ?case using Cons.IH by simp
qed

text \<open>\<^verbatim>\<open>s.lower()\<close> on ASCII letters.\<close>

definition lower_char :: "char \<Rightarrow> char" where
  "lower_char c = (let n = of_char c :: nat in if 65 \<le> n \<and> n \<le> 90 then char_of (n + 32) else c)"

definition lower :: "string \<Rightarrow> string" where
  "lower s = map lower_char s"

section \<open>Text: code points\<close>

text \<open>The code points Python's \<^verbatim>\<open>str.isspace\<close> accepts, which \<^verbatim>\<open>split()\<close> and \<^verbatim>\<open>strip()\<close> use.\<close>

definition uspace :: "nat \<Rightarrow> bool" where
  "uspace c \<longleftrightarrow> (9 \<le> c \<and> c \<le> 13) \<or> (28 \<le> c \<and> c \<le> 32) \<or> c = 133 \<or> c = 160 \<or> c = 5760 \<or>
     (8192 \<le> c \<and> c \<le> 8202) \<or> c = 8232 \<or> c = 8233 \<or> c = 8239 \<or> c = 8287 \<or> c = 12288"

definition strip_by :: "(nat \<Rightarrow> bool) \<Rightarrow> utext \<Rightarrow> utext" where
  "strip_by space s = rev (dropWhile space (rev (dropWhile space s)))"

definition strip_text :: "utext \<Rightarrow> utext" where
  "strip_text s = strip_by uspace s"

text \<open>
  pydantic's \<^verbatim>\<open>strip_whitespace\<close> is Rust's \<^verbatim>\<open>str::trim\<close>: the code points with Unicode's
  \<^verbatim>\<open>White_Space\<close> property, to which the separators U+001C to U+001F do not belong.
\<close>

definition white_space :: "nat \<Rightarrow> bool" where
  "white_space c \<longleftrightarrow> (9 \<le> c \<and> c \<le> 13) \<or> c = 32 \<or> c = 133 \<or> c = 160 \<or> c = 5760 \<or>
     (8192 \<le> c \<and> c \<le> 8202) \<or> c = 8232 \<or> c = 8233 \<or> c = 8239 \<or> c = 8287 \<or> c = 12288"

definition trim_text :: "utext \<Rightarrow> utext" where
  "trim_text s = strip_by white_space s"

lemma strip_by_idem [simp]: "strip_by P (strip_by P s) = strip_by P s"
proof -
  let ?a = "dropWhile P s"
  let ?b = "rev (dropWhile P (rev ?a))"
  have "dropWhile P ?b = ?b"
  proof (cases ?b)
    case (Cons c b)
    have "?a = ?b @ rev (takeWhile P (rev ?a))"
      by (metis rev_append rev_rev_ident takeWhile_dropWhile_id)
    then have "?a = c # b @ rev (takeWhile P (rev ?a))" by (simp add: Cons)
    then have "\<not> P c" by (metis hd_dropWhile list.sel(1) list.distinct(1))
    then show ?thesis by (simp add: Cons)
  next
    case Nil
    then show ?thesis by (simp only: dropWhile.simps)
  qed
  then show ?thesis by (simp add: strip_by_def dropWhile_idem)
qed

lemma trim_text_idem [simp]: "trim_text (trim_text s) = trim_text s"
  by (simp add: trim_text_def)

text \<open>Where the two differ: \<^verbatim>\<open>"\x1cab"\<close> is stripped by Python and kept by pydantic.\<close>

lemma trim_is_not_strip: "strip_text [28, 97, 98] = [97, 98]" "trim_text [28, 97, 98] = [28, 97, 98]"
  by (simp_all add: strip_text_def trim_text_def strip_by_def uspace_def white_space_def)

text \<open>\<^verbatim>\<open>s.split()\<close>: the maximal runs of code points that are not white space.\<close>

function split_ws :: "utext \<Rightarrow> utext list" where
  "split_ws s =
     (let t = dropWhile uspace s in
      if t = [] then []
      else takeWhile (\<lambda>c. \<not> uspace c) t # split_ws (dropWhile (\<lambda>c. \<not> uspace c) t))"
  by pat_completeness auto
termination
proof (relation "measure length")
  fix s t :: utext
  assume t: "t = dropWhile uspace s" and ne: "t \<noteq> []"
  then obtain c cs where c: "t = c # cs" "\<not> uspace c"
    by (metis hd_dropWhile list.exhaust_sel)
  have "length (dropWhile (\<lambda>c. \<not> uspace c) cs) \<le> length cs"
    by (rule length_dropWhile_le)
  moreover have "length t \<le> length s"
    unfolding t by (rule length_dropWhile_le)
  ultimately show "(dropWhile (\<lambda>c. \<not> uspace c) t, s) \<in> measure length"
    using c by simp
qed simp

declare split_ws.simps [simp del]

text \<open>The number of bytes \<^verbatim>\<open>s.encode("utf-8")\<close> has, and the bytes themselves.\<close>

definition utf8_char :: "nat \<Rightarrow> nat list" where
  "utf8_char c =
     (if c < 128 then [c]
      else if c < 2048 then [192 + c div 64, 128 + c mod 64]
      else if c < 65536 then [224 + c div 4096, 128 + (c div 64) mod 64, 128 + c mod 64]
      else [240 + c div 262144, 128 + (c div 4096) mod 64, 128 + (c div 64) mod 64, 128 + c mod 64])"

definition utf8 :: "utext \<Rightarrow> nat list" where
  "utf8 s = concat (map utf8_char s)"

lemma utf8_char_length: "1 \<le> length (utf8_char c) \<and> length (utf8_char c) \<le> 4"
  by (simp add: utf8_char_def)

lemma length_utf8_ge: "length s \<le> length (utf8 s)"
proof (induction s)
  case (Cons c s)
  then show ?case using utf8_char_length [of c] by (simp add: utf8_def)
qed (simp add: utf8_def)

text \<open>ASCII text as code points, for the concrete examples.\<close>

definition u :: "string \<Rightarrow> utext" where
  "u s = map of_char s"

end
