(* ===== verification/Errors.thy ===== *)
theory Errors
  imports PyString
begin

text \<open>
  \<^verbatim>\<open>app/core/exceptions.py\<close>, \<^verbatim>\<open>app/core/exception_handlers.py\<close> and the error schema of
  \<^verbatim>\<open>app/common/schemas.py\<close>: the exception hierarchy and its translation into the one response
  shape of the API.  Each distinct Korean message text of the source is one constant of type \<open>message\<close> with an
  English name.
\<close>

datatype message = MsgText string | MsgMentionUnknown utext

abbreviation MsgInternal :: message where "MsgInternal \<equiv> MsgText ''internal''"
abbreviation MsgBadRequest :: message where "MsgBadRequest \<equiv> MsgText ''bad request''"
abbreviation MsgAuthRequired :: message where "MsgAuthRequired \<equiv> MsgText ''auth required''"
abbreviation MsgForbidden :: message where "MsgForbidden \<equiv> MsgText ''forbidden''"
abbreviation MsgNotFound :: message where "MsgNotFound \<equiv> MsgText ''not found''"
abbreviation MsgConflict :: message where "MsgConflict \<equiv> MsgText ''conflict''"
abbreviation MsgRateLimited :: message where "MsgRateLimited \<equiv> MsgText ''rate limited''"
abbreviation MsgUnavailable :: message where "MsgUnavailable \<equiv> MsgText ''unavailable''"
abbreviation MsgStorageNotConfigured :: message where "MsgStorageNotConfigured \<equiv> MsgText ''storage not configured''"
abbreviation MsgValidation :: message where "MsgValidation \<equiv> MsgText ''validation''"
abbreviation MsgDatabase :: message where "MsgDatabase \<equiv> MsgText ''database''"
abbreviation MsgInvalidToken :: message where "MsgInvalidToken \<equiv> MsgText ''invalid token''"
abbreviation MsgInactive :: message where "MsgInactive \<equiv> MsgText ''inactive''"
abbreviation MsgLoginFailed :: message where "MsgLoginFailed \<equiv> MsgText ''login failed''"
abbreviation MsgTooManyLogins :: message where "MsgTooManyLogins \<equiv> MsgText ''too many logins''"
abbreviation MsgSessionExpired :: message where "MsgSessionExpired \<equiv> MsgText ''session expired''"
abbreviation MsgEmailTaken :: message where "MsgEmailTaken \<equiv> MsgText ''email taken''"
abbreviation MsgUserNotFound :: message where "MsgUserNotFound \<equiv> MsgText ''user not found''"
abbreviation MsgPasswordBytes :: message where "MsgPasswordBytes \<equiv> MsgText ''password bytes''"
abbreviation MsgPostNotFound :: message where "MsgPostNotFound \<equiv> MsgText ''post not found''"
abbreviation MsgPostNotOwner :: message where "MsgPostNotOwner \<equiv> MsgText ''post not owner''"
abbreviation MsgImageNotOwner :: message where "MsgImageNotOwner \<equiv> MsgText ''image not owner''"
abbreviation MsgImageTooLarge :: message where "MsgImageTooLarge \<equiv> MsgText ''image too large''"
abbreviation MsgImageUnsupported :: message where "MsgImageUnsupported \<equiv> MsgText ''image unsupported''"
abbreviation MsgImageTooTall :: message where "MsgImageTooTall \<equiv> MsgText ''image too tall''"
abbreviation MsgCommentNotFound :: message where "MsgCommentNotFound \<equiv> MsgText ''comment not found''"
abbreviation MsgCommentOtherPost :: message where "MsgCommentOtherPost \<equiv> MsgText ''comment other post''"
abbreviation MsgReplyToReply :: message where "MsgReplyToReply \<equiv> MsgText ''reply to reply''"
abbreviation MsgCommentNotOwner :: message where "MsgCommentNotOwner \<equiv> MsgText ''comment not owner''"
abbreviation MsgMenuNotFound :: message where "MsgMenuNotFound \<equiv> MsgText ''menu not found''"
abbreviation MsgMenuParentNotFound :: message where "MsgMenuParentNotFound \<equiv> MsgText ''menu parent not found''"
abbreviation MsgMenuNameTaken :: message where "MsgMenuNameTaken \<equiv> MsgText ''menu name taken''"
abbreviation MsgMenuSelfParent :: message where "MsgMenuSelfParent \<equiv> MsgText ''menu self parent''"
abbreviation MsgMenuDescendant :: message where "MsgMenuDescendant \<equiv> MsgText ''menu descendant''"
abbreviation MsgMenuHasChildren :: message where "MsgMenuHasChildren \<equiv> MsgText ''menu has children''"
abbreviation MsgReportNotFound :: message where "MsgReportNotFound \<equiv> MsgText ''report not found''"
abbreviation MsgReportDone :: message where "MsgReportDone \<equiv> MsgText ''report done''"
abbreviation MsgReportPostTarget :: message where "MsgReportPostTarget \<equiv> MsgText ''report post target''"
abbreviation MsgReportCommentTarget :: message where "MsgReportCommentTarget \<equiv> MsgText ''report comment target''"
abbreviation MsgReportUserTarget :: message where "MsgReportUserTarget \<equiv> MsgText ''report user target''"
abbreviation MsgReportUserMissing :: message where "MsgReportUserMissing \<equiv> MsgText ''report user missing''"
abbreviation MsgReportUnsupported :: message where "MsgReportUnsupported \<equiv> MsgText ''report unsupported''"
abbreviation MsgReportPostGone :: message where "MsgReportPostGone \<equiv> MsgText ''report post gone''"
abbreviation MsgReportCommentGone :: message where "MsgReportCommentGone \<equiv> MsgText ''report comment gone''"
abbreviation MsgReportCommentElsewhere :: message where "MsgReportCommentElsewhere \<equiv> MsgText ''report comment elsewhere''"
abbreviation MsgReportCommentPostGone :: message where "MsgReportCommentPostGone \<equiv> MsgText ''report comment post gone''"
abbreviation MsgReportRejectedSanction :: message where "MsgReportRejectedSanction \<equiv> MsgText ''report rejected sanction''"
abbreviation MsgReportNoPostId :: message where "MsgReportNoPostId \<equiv> MsgText ''report no post id''"
abbreviation MsgSuspensionNeedsExpiry :: message where "MsgSuspensionNeedsExpiry \<equiv> MsgText ''suspension needs expiry''"
abbreviation MsgExpiryOnlySuspension :: message where "MsgExpiryOnlySuspension \<equiv> MsgText ''expiry only suspension''"
abbreviation MsgHidePostMissing :: message where "MsgHidePostMissing \<equiv> MsgText ''hide post missing''"

section \<open>The hierarchy\<close>

text \<open>
  The subclasses of \<^verbatim>\<open>AppError\<close>, each with the message argument of its constructor
  (\<open>None\<close> when the call gives none) and, for \<^verbatim>\<open>RateLimitedError\<close>, \<open>retry_after\<close>.
\<close>

datatype app_error =
    BadRequestError "message option"
  | UnauthorizedError "message option"
  | ForbiddenError "message option"
  | NotFoundError "message option"
  | ConflictError "message option"
  | RateLimitedError "message option" int
  | ServiceUnavailableError "message option"
  | StorageNotConfiguredError "message option"

fun status_code :: "app_error \<Rightarrow> int" where
  "status_code (BadRequestError _) = 400"
| "status_code (UnauthorizedError _) = 401"
| "status_code (ForbiddenError _) = 403"
| "status_code (NotFoundError _) = 404"
| "status_code (ConflictError _) = 409"
| "status_code (RateLimitedError _ _) = 429"
| "status_code (ServiceUnavailableError _) = 503"
| "status_code (StorageNotConfiguredError _) = 503"

fun error_code :: "app_error \<Rightarrow> string" where
  "error_code (BadRequestError _) = ''BAD_REQUEST''"
| "error_code (UnauthorizedError _) = ''UNAUTHORIZED''"
| "error_code (ForbiddenError _) = ''FORBIDDEN''"
| "error_code (NotFoundError _) = ''NOT_FOUND''"
| "error_code (ConflictError _) = ''CONFLICT''"
| "error_code (RateLimitedError _ _) = ''RATE_LIMITED''"
| "error_code (ServiceUnavailableError _) = ''SERVICE_UNAVAILABLE''"
| "error_code (StorageNotConfiguredError _) = ''STORAGE_NOT_CONFIGURED''"

text \<open>\<^verbatim>\<open>message or self.message\<close> of \<^verbatim>\<open>AppError.__init__\<close>.\<close>

fun message_or :: "message option \<Rightarrow> message \<Rightarrow> message" where
  "message_or (Some m) d = m"
| "message_or None d = d"

fun error_message :: "app_error \<Rightarrow> message" where
  "error_message (BadRequestError m) = message_or m MsgBadRequest"
| "error_message (UnauthorizedError m) = message_or m MsgAuthRequired"
| "error_message (ForbiddenError m) = message_or m MsgForbidden"
| "error_message (NotFoundError m) = message_or m MsgNotFound"
| "error_message (ConflictError m) = message_or m MsgConflict"
| "error_message (RateLimitedError m _) = message_or m MsgRateLimited"
| "error_message (ServiceUnavailableError m) = message_or m MsgUnavailable"
| "error_message (StorageNotConfiguredError m) = message_or m MsgStorageNotConfigured"

text \<open>
  Everything a request handler can raise: the application's own errors, FastAPI's validation
  errors (each with its location, message and type; a location has a first part), Starlette's
  \<^verbatim>\<open>HTTPException\<close>, SQLAlchemy's errors, \<^verbatim>\<open>ValueError\<close> and any other exception (by its \<^verbatim>\<open>repr\<close>).
\<close>

datatype sql_error = IntegrityError | MultipleResultsFound | OtherSqlError

datatype loc_part = LocStr string | LocInt int

type_synonym field_error = "(loc_part \<times> loc_part list) \<times> string \<times> string"

datatype exn =
    AppError app_error
  | RequestValidationError "field_error list"
  | HTTPException int string "(string \<times> string) list"
  | SQLAlchemyError sql_error
  | ValueError message
  | OtherError string

section \<open>The handlers\<close>

datatype log_level = Info | Warning | Error

datatype detail =
    NoDetail
  | Fields "(string \<times> string \<times> string) list"
  | Repr exn

record error_response =
  resp_status :: int
  resp_code :: string
  resp_message :: message
  resp_detail :: detail
  resp_request_id :: "string option"
  resp_headers :: "(string \<times> string) list"

definition build_response ::
  "string option \<Rightarrow> int \<Rightarrow> string \<Rightarrow> message \<Rightarrow> detail \<Rightarrow> (string \<times> string) list \<Rightarrow> error_response" where
  "build_response rid status code msg dt hs =
     \<lparr>resp_status = status, resp_code = code, resp_message = msg, resp_detail = dt,
      resp_request_id = rid, resp_headers = hs\<rparr>"

fun retry_header :: "app_error \<Rightarrow> (string \<times> string) list" where
  "retry_header (RateLimitedError _ n) = [(''Retry-After'', show_int n)]"
| "retry_header _ = []"

definition app_exception_handler ::
  "string option \<Rightarrow> app_error \<Rightarrow> log_level option \<times> error_response" where
  "app_exception_handler rid exc =
     (Some (if status_code exc \<ge> 500 then Error else Warning),
      build_response rid (status_code exc) (error_code exc) (error_message exc) NoDetail
        (retry_header exc))"

fun loc_string :: "loc_part \<Rightarrow> string" where
  "loc_string (LocStr s) = s"
| "loc_string (LocInt i) = show_int i"

text \<open>\<^verbatim>\<open>".".join(str(part) for part in loc[1:]) or str(loc[0])\<close>\<close>

definition field_name :: "loc_part \<times> loc_part list \<Rightarrow> string" where
  "field_name loc =
     (let s = join ''.'' (map loc_string (snd loc)) in if s \<noteq> [] then s else loc_string (fst loc))"

definition validation_exception_handler ::
  "string option \<Rightarrow> field_error list \<Rightarrow> log_level option \<times> error_response" where
  "validation_exception_handler rid es =
     (Some Warning,
      build_response rid 422 ''VALIDATION_ERROR'' MsgValidation
        (Fields (map (\<lambda>(loc, msg, ty). (field_name loc, msg, ty)) es)) [])"

text \<open>\<^verbatim>\<open>HTTPStatus(n).name\<close>; \<open>None\<close> where the standard library raises \<^verbatim>\<open>ValueError\<close>.\<close>

definition http_status_name :: "int \<Rightarrow> string option" where
  "http_status_name n = map_of
    [(100, ''CONTINUE''), (101, ''SWITCHING_PROTOCOLS''), (102, ''PROCESSING''), (103, ''EARLY_HINTS''),
     (200, ''OK''), (201, ''CREATED''), (202, ''ACCEPTED''), (203, ''NON_AUTHORITATIVE_INFORMATION''),
     (204, ''NO_CONTENT''), (205, ''RESET_CONTENT''), (206, ''PARTIAL_CONTENT''), (207, ''MULTI_STATUS''),
     (208, ''ALREADY_REPORTED''), (226, ''IM_USED''),
     (300, ''MULTIPLE_CHOICES''), (301, ''MOVED_PERMANENTLY''), (302, ''FOUND''), (303, ''SEE_OTHER''),
     (304, ''NOT_MODIFIED''), (305, ''USE_PROXY''), (307, ''TEMPORARY_REDIRECT''),
     (308, ''PERMANENT_REDIRECT''),
     (400, ''BAD_REQUEST''), (401, ''UNAUTHORIZED''), (402, ''PAYMENT_REQUIRED''), (403, ''FORBIDDEN''),
     (404, ''NOT_FOUND''), (405, ''METHOD_NOT_ALLOWED''), (406, ''NOT_ACCEPTABLE''),
     (407, ''PROXY_AUTHENTICATION_REQUIRED''), (408, ''REQUEST_TIMEOUT''), (409, ''CONFLICT''),
     (410, ''GONE''), (411, ''LENGTH_REQUIRED''), (412, ''PRECONDITION_FAILED''),
     (413, ''CONTENT_TOO_LARGE''), (414, ''URI_TOO_LONG''), (415, ''UNSUPPORTED_MEDIA_TYPE''),
     (416, ''RANGE_NOT_SATISFIABLE''), (417, ''EXPECTATION_FAILED''), (418, ''IM_A_TEAPOT''),
     (421, ''MISDIRECTED_REQUEST''), (422, ''UNPROCESSABLE_CONTENT''), (423, ''LOCKED''),
     (424, ''FAILED_DEPENDENCY''), (425, ''TOO_EARLY''), (426, ''UPGRADE_REQUIRED''),
     (428, ''PRECONDITION_REQUIRED''), (429, ''TOO_MANY_REQUESTS''),
     (431, ''REQUEST_HEADER_FIELDS_TOO_LARGE''), (451, ''UNAVAILABLE_FOR_LEGAL_REASONS''),
     (500, ''INTERNAL_SERVER_ERROR''), (501, ''NOT_IMPLEMENTED''), (502, ''BAD_GATEWAY''),
     (503, ''SERVICE_UNAVAILABLE''), (504, ''GATEWAY_TIMEOUT''), (505, ''HTTP_VERSION_NOT_SUPPORTED''),
     (506, ''VARIANT_ALSO_NEGOTIATES''), (507, ''INSUFFICIENT_STORAGE''), (508, ''LOOP_DETECTED''),
     (510, ''NOT_EXTENDED''), (511, ''NETWORK_AUTHENTICATION_REQUIRED'')] n"

definition http_exception_handler ::
  "string option \<Rightarrow> int \<Rightarrow> string \<Rightarrow> (string \<times> string) list \<Rightarrow>
   exn + log_level option \<times> error_response" where
  "http_exception_handler rid status dt hs =
     (case http_status_name status of
        None \<Rightarrow> Inl (ValueError (MsgText ''not a valid HTTPStatus''))
      | Some name \<Rightarrow> Inr (None, build_response rid status name (MsgText dt) NoDetail hs))"

definition sqlalchemy_exception_handler ::
  "string option \<Rightarrow> log_level option \<times> error_response" where
  "sqlalchemy_exception_handler rid =
     (Some Error, build_response rid 500 ''DATABASE_ERROR'' MsgDatabase NoDetail [])"

definition unhandled_exception_handler ::
  "bool \<Rightarrow> string option \<Rightarrow> exn \<Rightarrow> log_level option \<times> error_response" where
  "unhandled_exception_handler is_production rid exc =
     (Some Error,
      build_response rid 500 ''INTERNAL_ERROR'' MsgInternal
        (if is_production then NoDetail else Repr exc) [])"

text \<open>
  \<^verbatim>\<open>register_exception_handlers\<close>: the handler of the most specific registered class.  The first
  argument is \<^verbatim>\<open>settings.is_production\<close>, the second the request id of the middleware.
\<close>

fun handle :: "bool \<Rightarrow> string option \<Rightarrow> exn \<Rightarrow> exn + log_level option \<times> error_response" where
  "handle production rid (AppError e) = Inr (app_exception_handler rid e)"
| "handle production rid (RequestValidationError es) = Inr (validation_exception_handler rid es)"
| "handle production rid (HTTPException st dt hs) = http_exception_handler rid st dt hs"
| "handle production rid (SQLAlchemyError e) = Inr (sqlalchemy_exception_handler rid)"
| "handle production rid (ValueError m) = Inr (unhandled_exception_handler production rid (ValueError m))"
| "handle production rid (OtherError r) = Inr (unhandled_exception_handler production rid (OtherError r))"

lemmas handler_defs = app_exception_handler_def validation_exception_handler_def
  http_exception_handler_def sqlalchemy_exception_handler_def unhandled_exception_handler_def
  build_response_def

lemma status_code_range: "400 \<le> status_code e \<and> status_code e < 600"
  by (cases e) auto

text \<open>What the wire carries for an internal failure never depends on the failure in production.\<close>

lemma handle_internal:
  "handle True rid (SQLAlchemyError e) = handle True rid (SQLAlchemyError e')"
  "handle True rid (ValueError m) = handle True rid (ValueError m')"
  "handle True rid (ValueError m) = handle True rid (OtherError r)"
  by (simp_all add: handler_defs)

section \<open>Properties\<close>

text \<open>
  C40.  Every failure the application or its database raises becomes one uniform answer: it
  carries the request id, its status is an error status, it is logged as an error exactly when
  the status is 5xx and as a warning otherwise, in production it carries no internal description,
  and a \<open>Retry-After\<close> header appears exactly for the rate limit.
\<close>

theorem error_contract:
  assumes "\<And>st d hs. e \<noteq> HTTPException st d hs"
  shows "\<exists>lvl r. handle production rid e = Inr (Some lvl, r) \<and> resp_request_id r = rid \<and>
    400 \<le> resp_status r \<and> resp_status r < 600 \<and>
    lvl = (if resp_status r \<ge> 500 then Error else Warning) \<and>
    (\<forall>x. resp_detail r = Repr x \<longrightarrow> \<not> production \<and> x = e) \<and>
    ((resp_headers r \<noteq> []) \<longleftrightarrow> (\<exists>m n. e = AppError (RateLimitedError m n)))"
proof (cases e)
  case (AppError a)
  then show ?thesis using status_code_range [of a]
    by (cases a) (auto simp: handler_defs)
qed (use assms in \<open>auto simp: handler_defs\<close>)

theorem error_contract_witness:
  "\<exists>lvl r. handle True (Some ''rid'') (AppError (RateLimitedError None 12)) = Inr (Some lvl, r) \<and>
     resp_status r = 429 \<and> lvl = Warning \<and> resp_headers r = [(''Retry-After'', ''12'')]"
proof -
  have "show_int 12 = ''12''"
    by code_simp
  then show ?thesis
    using error_contract [of "AppError (RateLimitedError None 12)" True "Some ''rid''"]
    by (auto simp: handler_defs)
qed

end
