(* ===== verification/Security.thy ===== *)
theory Security
  imports Errors
begin

text \<open>
  \<^verbatim>\<open>app/core/security.py\<close>: passwords, JWTs, token hashes.  bcrypt, PyJWT, the random \<^verbatim>\<open>uuid4\<close> and
  SHA-256 are not in the repository: they are the fields of \<open>crypto\<close>, an argument of the
  definitions.  What the code relies on is \<open>crypto_ok\<close>: a password verifies against its own hash,
  and a token signed with an HMAC algorithm decodes to the claims it was encoded with, for the key and
  algorithm it was signed with, while it is not expired.  For other algorithm names \<^verbatim>\<open>jwt.encode\<close> raises
  (or needs another kind of key), and a life time that ends after the year 9999 overflows \<^verbatim>\<open>datetime\<close>;
  \<open>create_token\<close> is the code where neither happens, and \<open>issuable\<close> says so where it matters.
\<close>

section \<open>External functions\<close>

datatype json = JStr string | JInt int | JOther string

text \<open>The claims the code reads and writes; \<open>iat\<close> and \<open>exp\<close> are whole seconds, as PyJWT encodes them.\<close>

record claims =
  c_sub :: json
  c_type :: json
  c_jti :: json
  c_iat :: time
  c_exp :: time

record crypto =
  bcrypt_hashpw :: "nat list \<Rightarrow> string \<Rightarrow> string"
  bcrypt_checkpw :: "nat list \<Rightarrow> string \<Rightarrow> bool option"
  jwt_encode :: "claims \<Rightarrow> string \<Rightarrow> string \<Rightarrow> string"
  jwt_decode :: "time \<Rightarrow> string \<Rightarrow> string \<Rightarrow> string list \<Rightarrow> claims option"
  sha256 :: "string \<Rightarrow> string"

text \<open>
  \<open>bcrypt_hashpw b salt\<close>; \<open>bcrypt_checkpw\<close> is \<open>None\<close> where bcrypt raises \<^verbatim>\<open>ValueError\<close> (a damaged
  hash).  \<open>jwt_decode now token key algs\<close> is \<open>None\<close> where PyJWT raises a \<^verbatim>\<open>PyJWTError\<close> (bad
  signature, wrong algorithm, missing required claim, expired, issued in the future).
\<close>

definition hmac_algorithms :: "string list" where
  "hmac_algorithms = [''HS256'', ''HS384'', ''HS512'']"

text \<open>The last second of the year 9999.\<close>

definition datetime_max :: time where
  "datetime_max = 253402300799"

definition crypto_ok :: "crypto \<Rightarrow> bool" where
  "crypto_ok C \<longleftrightarrow>
     (\<forall>b salt. length b \<le> 72 \<longrightarrow> bcrypt_checkpw C b (bcrypt_hashpw C b salt) = Some True) \<and>
     (\<forall>now c k a. a \<in> set hmac_algorithms \<longrightarrow> c_exp c \<le> datetime_max \<longrightarrow> c_iat c \<le> now \<longrightarrow> now < c_exp c \<longrightarrow>
        jwt_decode C now (jwt_encode C c k a) k [a] = Some c)"

record jwt_settings =
  secret_key :: string
  jwt_algorithm :: string
  access_token_expire_minutes :: nat
  refresh_token_expire_days :: nat

text \<open>A token of \<open>delta\<close> seconds can be issued now.\<close>

definition issuable :: "jwt_settings \<Rightarrow> time \<Rightarrow> nat \<Rightarrow> bool" where
  "issuable S now delta \<longleftrightarrow> jwt_algorithm S \<in> set hmac_algorithms \<and> now + delta \<le> datetime_max"

lemmas issuable_simps [simp] = issuable_def hmac_algorithms_def datetime_max_def

section \<open>Passwords\<close>

definition bcrypt_max_password_bytes :: nat where
  "bcrypt_max_password_bytes = 72"

definition hash_password :: "crypto \<Rightarrow> string \<Rightarrow> utext \<Rightarrow> exn + string" where
  "hash_password C salt password =
     (let password_bytes = utf8 password in
      if length password_bytes > bcrypt_max_password_bytes then Inl (ValueError MsgPasswordBytes)
      else Inr (bcrypt_hashpw C password_bytes salt))"

definition verify_password :: "crypto \<Rightarrow> utext \<Rightarrow> string \<Rightarrow> bool" where
  "verify_password C password password_hash =
     (let password_bytes = utf8 password in
      if length password_bytes > bcrypt_max_password_bytes then False
      else (case bcrypt_checkpw C password_bytes password_hash of Some b \<Rightarrow> b | None \<Rightarrow> False))"

section \<open>JWT\<close>

datatype token_type = ACCESS | REFRESH

fun token_type_value :: "token_type \<Rightarrow> string" where
  "token_type_value ACCESS = ''access''"
| "token_type_value REFRESH = ''refresh''"

record token_payload =
  tp_user_id :: int
  tp_token_type :: token_type
  tp_jti :: string
  tp_expires_at :: time

text \<open>\<open>jti\<close> is the value \<^verbatim>\<open>uuid.uuid4().hex\<close> returned, \<open>delta\<close> the life time in seconds.\<close>

definition create_token ::
  "crypto \<Rightarrow> jwt_settings \<Rightarrow> time \<Rightarrow> string \<Rightarrow> int \<Rightarrow> token_type \<Rightarrow> nat \<Rightarrow> string \<times> string \<times> time" where
  "create_token C S now jti user_id token_type delta =
     (let expires_at = now + delta;
          payload = \<lparr>c_sub = JStr (show_int user_id), c_type = JStr (token_type_value token_type),
                     c_jti = JStr jti, c_iat = now, c_exp = expires_at\<rparr>
      in (jwt_encode C payload (secret_key S) (jwt_algorithm S), jti, expires_at))"

definition create_access_token :: "crypto \<Rightarrow> jwt_settings \<Rightarrow> time \<Rightarrow> string \<Rightarrow> int \<Rightarrow> string" where
  "create_access_token C S now jti user_id =
     fst (create_token C S now jti user_id ACCESS (access_token_expire_minutes S * 60))"

definition create_refresh_token ::
  "crypto \<Rightarrow> jwt_settings \<Rightarrow> time \<Rightarrow> string \<Rightarrow> int \<Rightarrow> string \<times> string" where
  "create_refresh_token C S now jti user_id =
     (let (token, jti', _) = create_token C S now jti user_id REFRESH
            (refresh_token_expire_days S * 24 * 60 * 60)
      in (token, jti'))"

text \<open>
  \<^verbatim>\<open>int(x)\<close> and \<^verbatim>\<open>str(x)\<close> on a decoded claim; \<open>None\<close> is \<^verbatim>\<open>TypeError\<close> or \<^verbatim>\<open>ValueError\<close>.  From 2.10 on,
  which the project requires, PyJWT itself refuses a \<^verbatim>\<open>sub\<close> or a \<^verbatim>\<open>jti\<close> that is not a string, so floats and booleans,
  which \<^verbatim>\<open>int\<close> would convert, do not come here.
\<close>

fun json_int :: "json \<Rightarrow> int option" where
  "json_int (JStr s) = py_int s"
| "json_int (JInt i) = Some i"
| "json_int (JOther r) = None"

fun json_str :: "json \<Rightarrow> string" where
  "json_str (JStr s) = s"
| "json_str (JInt i) = show_int i"
| "json_str (JOther r) = r"

definition invalid_token :: exn where
  "invalid_token = AppError (UnauthorizedError (Some MsgInvalidToken))"

definition decode_token ::
  "crypto \<Rightarrow> jwt_settings \<Rightarrow> time \<Rightarrow> string \<Rightarrow> token_type \<Rightarrow> exn + token_payload" where
  "decode_token C S now token expected_type =
     (case jwt_decode C now token (secret_key S) [jwt_algorithm S] of
        None \<Rightarrow> Inl invalid_token
      | Some claims \<Rightarrow>
          if c_type claims \<noteq> JStr (token_type_value expected_type) then Inl invalid_token
          else (case json_int (c_sub claims) of
                  None \<Rightarrow> Inl invalid_token
                | Some user_id \<Rightarrow>
                    Inr \<lparr>tp_user_id = user_id, tp_token_type = expected_type,
                         tp_jti = json_str (c_jti claims), tp_expires_at = c_exp claims\<rparr>))"

section \<open>Token hashes\<close>

definition hash_token :: "crypto \<Rightarrow> string \<Rightarrow> string" where
  "hash_token C token = sha256 C token"

definition verify_token_hash :: "crypto \<Rightarrow> string \<Rightarrow> string \<Rightarrow> bool" where
  "verify_token_hash C token stored_hash \<longleftrightarrow> hash_token C token = stored_hash"

section \<open>Lemmas\<close>

lemma verify_hash_password:
  "crypto_ok C \<Longrightarrow> hash_password C salt p = Inr h \<Longrightarrow> verify_password C p h"
  by (auto simp: hash_password_def verify_password_def crypto_ok_def bcrypt_max_password_bytes_def
      Let_def split: if_splits)

lemma decode_create:
  assumes "crypto_ok C" and "issuable S now d" and "now \<le> t" and "t < now + d"
  shows "decode_token C S t (fst (create_token C S now jti uid ty d)) ty' =
    (if ty = ty' then Inr \<lparr>tp_user_id = uid, tp_token_type = ty, tp_jti = jti, tp_expires_at = now + d\<rparr>
     else Inl invalid_token)"
  using assms
  by (cases ty; cases ty') (auto simp: decode_token_def create_token_def Let_def crypto_ok_def)

lemma decode_error: "decode_token C S t token ty = Inl e \<Longrightarrow> e = invalid_token"
  by (auto simp: decode_token_def split: option.splits if_splits)

lemma decode_access:
  assumes "crypto_ok C" and "issuable S now (access_token_expire_minutes S * 60)" and "now \<le> t" and "t < now + access_token_expire_minutes S * 60"
  shows "decode_token C S t (create_access_token C S now jti uid) ACCESS =
    Inr \<lparr>tp_user_id = uid, tp_token_type = ACCESS, tp_jti = jti,
         tp_expires_at = now + access_token_expire_minutes S * 60\<rparr>"
  using decode_create [OF assms] by (simp add: create_access_token_def)

lemma create_refresh_jti [simp]: "snd (create_refresh_token C S now jti uid) = jti"
  by (simp add: create_refresh_token_def create_token_def Let_def)

lemma fst_create_refresh:
  "fst (create_refresh_token C S now jti uid) =
   fst (create_token C S now jti uid REFRESH (refresh_token_expire_days S * 24 * 60 * 60))"
  by (simp add: create_refresh_token_def case_prod_unfold Let_def)

section \<open>A concrete provider\<close>

text \<open>
  Hashes and tokens that carry their content, length-prefixed, and are opened only with the key
  and an admitted algorithm: \<open>crypto_ok\<close> can hold, and the examples can be evaluated.
\<close>

definition enc_str :: "string \<Rightarrow> string" where
  "enc_str s = show_nat (length s) @ CHR '':'' # s"

definition dec_str :: "string \<Rightarrow> (string \<times> string) option" where
  "dec_str s =
     (case (parse_digits False 0 (takeWhile (\<lambda>c. c \<noteq> CHR '':'') s), dropWhile (\<lambda>c. c \<noteq> CHR '':'') s) of
        (Some n, _ # r) \<Rightarrow> Some (take n r, drop n r)
      | _ \<Rightarrow> None)"

fun enc_json :: "json \<Rightarrow> string" where
  "enc_json (JStr s) = CHR ''s'' # enc_str s"
| "enc_json (JInt i) = CHR ''i'' # enc_str (show_int i)"
| "enc_json (JOther r) = CHR ''o'' # enc_str r"

definition dec_json :: "string \<Rightarrow> (json \<times> string) option" where
  "dec_json s =
     (case s of
        [] \<Rightarrow> None
      | c # cs \<Rightarrow>
          (case dec_str cs of
             None \<Rightarrow> None
           | Some (x, r) \<Rightarrow>
               if c = CHR ''s'' then Some (JStr x, r)
               else if c = CHR ''i'' then map_option (\<lambda>i. (JInt i, r)) (py_int x)
               else Some (JOther x, r)))"

definition demo_encode :: "claims \<Rightarrow> string \<Rightarrow> string \<Rightarrow> string" where
  "demo_encode c key alg =
     enc_str key @ enc_str alg @ enc_json (c_sub c) @ enc_json (c_type c) @ enc_json (c_jti c) @
     enc_json (JInt (int (c_iat c))) @ enc_json (JInt (int (c_exp c)))"

definition demo_decode :: "time \<Rightarrow> string \<Rightarrow> string \<Rightarrow> string list \<Rightarrow> claims option" where
  "demo_decode now token key algs =
     Option.bind (dec_str token) (\<lambda>(k, r1).
     Option.bind (dec_str r1) (\<lambda>(a, r2).
     Option.bind (dec_json r2) (\<lambda>(sub, r3).
     Option.bind (dec_json r3) (\<lambda>(ty, r4).
     Option.bind (dec_json r4) (\<lambda>(jti, r5).
     Option.bind (dec_json r5) (\<lambda>(iat, r6).
     Option.bind (dec_json r6) (\<lambda>(ex, r7).
       (case (iat, ex) of
          (JInt i, JInt e) \<Rightarrow>
            if k = key \<and> a \<in> set algs \<and> i \<le> int now \<and> int now < e
            then Some \<lparr>c_sub = sub, c_type = ty, c_jti = jti, c_iat = nat i, c_exp = nat e\<rparr>
            else None
        | _ \<Rightarrow> None))))))))"

definition demo_crypto :: crypto where
  "demo_crypto =
     \<lparr>bcrypt_hashpw = (\<lambda>b salt. concat (map (\<lambda>n. show_nat n @ '','') b)),
      bcrypt_checkpw = (\<lambda>b h. Some (concat (map (\<lambda>n. show_nat n @ '','') b) = h)),
      jwt_encode = demo_encode, jwt_decode = demo_decode, sha256 = (\<lambda>s. s)\<rparr>"

lemma dec_enc_str [simp]: "dec_str (enc_str s @ t) = Some (s, t)"
proof -
  have n: "\<forall>c\<in>set (show_nat (length s)). c \<noteq> CHR '':''"
    using set_show_nat is_digit_not(1) by metis
  then have "takeWhile (\<lambda>c. c \<noteq> CHR '':'') (enc_str s @ t) = show_nat (length s)"
    by (simp add: enc_str_def takeWhile_append2)
  moreover from n have "dropWhile (\<lambda>c. c \<noteq> CHR '':'') (enc_str s @ t) = CHR '':'' # s @ t"
    by (simp add: enc_str_def dropWhile_append2)
  ultimately show ?thesis
    by (simp add: dec_str_def parse_show_nat)
qed

lemma dec_enc_json [simp]: "dec_json (enc_json j @ t) = Some (j, t)"
  by (cases j) (simp_all add: dec_json_def)

lemma dec_enc_json_end [simp]: "dec_json (enc_json j) = Some (j, [])"
  using dec_enc_json [of j "[]"] by (simp del: dec_enc_json)

lemma demo_crypto_ok: "crypto_ok demo_crypto"
  by (simp add: crypto_ok_def demo_crypto_def demo_decode_def demo_encode_def
      del: enc_json.simps)

section \<open>Properties\<close>

text \<open>
  C39.  Tokens.  With an HMAC algorithm, during its life, a token decodes, as its own type, to the user and the jti it was
  issued for; an access token presented as a refresh token (and the reverse) is refused; and
  every refusal of whatever token is one and the same error.
\<close>

theorem tokens_round_trip:
  assumes "crypto_ok C" and "issuable S now (access_token_expire_minutes S * 60)"
    and "issuable S now (refresh_token_expire_days S * 24 * 60 * 60)" and "now \<le> t"
    and "t < now + access_token_expire_minutes S * 60" and "t < now + refresh_token_expire_days S * 24 * 60 * 60"
  shows "decode_token C S t (create_access_token C S now i uid) ACCESS =
      Inr \<lparr>tp_user_id = uid, tp_token_type = ACCESS, tp_jti = i,
           tp_expires_at = now + access_token_expire_minutes S * 60\<rparr> \<and>
    decode_token C S t (fst (create_refresh_token C S now j uid)) REFRESH =
      Inr \<lparr>tp_user_id = uid, tp_token_type = REFRESH, tp_jti = j,
           tp_expires_at = now + refresh_token_expire_days S * 24 * 60 * 60\<rparr> \<and>
    decode_token C S t (create_access_token C S now i uid) REFRESH = Inl invalid_token \<and>
    decode_token C S t (fst (create_refresh_token C S now j uid)) ACCESS = Inl invalid_token \<and>
    decode_token C S t' tok ty \<in> insert (Inl invalid_token) (range Inr)"
  using decode_create [OF assms(1,2,4,5)] decode_create [OF assms(1,3,4,6)]
    decode_error [of C S t' tok ty]
  by (cases "decode_token C S t' tok ty") (simp_all add: create_access_token_def fst_create_refresh)

definition demo_settings :: jwt_settings where
  "demo_settings = \<lparr>secret_key = ''key'', jwt_algorithm = ''HS256'',
     access_token_expire_minutes = 30, refresh_token_expire_days = 14\<rparr>"

lemma demo_issuable: "jwt_algorithm demo_settings = ''HS256''"
  by (simp add: demo_settings_def)

theorem tokens_round_trip_witness:
  "decode_token demo_crypto demo_settings 100 (create_access_token demo_crypto demo_settings 90 ''i'' 7) ACCESS =
     Inr \<lparr>tp_user_id = 7, tp_token_type = ACCESS, tp_jti = ''i'', tp_expires_at = 1890\<rparr> \<and>
   decode_token demo_crypto demo_settings 100 (create_access_token demo_crypto demo_settings 90 ''i'' 7) REFRESH =
     Inl invalid_token"
  using tokens_round_trip [OF demo_crypto_ok, of demo_settings 90 100 "''i''" 7]
  by (simp add: demo_settings_def)

text \<open>
  Passwords.  A password that \<open>hash_password\<close> accepts verifies against its hash; a password of
  more than 72 UTF-8 bytes, whose tail bcrypt would ignore, is refused at hashing and never
  verifies, against any hash; verification never raises, also on a damaged hash.
\<close>

theorem password_round_trip:
  assumes "crypto_ok C"
  shows "(\<forall>h. hash_password C salt p = Inr h \<longrightarrow> verify_password C p h) \<and>
    (length (utf8 p) > 72 \<longleftrightarrow> hash_password C salt p = Inl (ValueError MsgPasswordBytes)) \<and>
    (length (utf8 p) > 72 \<longrightarrow> \<not> verify_password C p h') \<and>
    (bcrypt_checkpw C (utf8 p) h' = None \<longrightarrow> \<not> verify_password C p h')"
proof -
  have "\<forall>h. hash_password C salt p = Inr h \<longrightarrow> verify_password C p h"
    using assms by (auto intro: verify_hash_password)
  then show ?thesis
    by (auto simp: hash_password_def verify_password_def Let_def bcrypt_max_password_bytes_def)
qed

theorem password_round_trip_witness:
  "verify_password demo_crypto (u ''pw'') (bcrypt_hashpw demo_crypto (utf8 (u ''pw'')) ''salt'')"
proof -
  have "hash_password demo_crypto ''salt'' (u ''pw'') =
      Inr (bcrypt_hashpw demo_crypto (utf8 (u ''pw'')) ''salt'')"
    by (simp add: hash_password_def Let_def bcrypt_max_password_bytes_def utf8_def utf8_char_def u_def)
  then show ?thesis
    using password_round_trip [OF demo_crypto_ok, of "''salt''" "u ''pw''"] by blast
qed

end
