(* ===== verification/Redis_Api.thy ===== *)
theory Redis_Api
  imports PyString "HOL-Library.FSet" "HOL-Library.List_Lexorder"
begin

text \<open>
  Redis is not part of the repository: every definition that talks to it takes the commands it
  uses as an argument, a record \<open>'r redis_api\<close> over an arbitrary store type \<open>'r\<close>.  What the code
  relies on is the locale \<open>redis\<close>: the documented effect of each command, written through
  one observation \<open>r_lookup\<close>, the value of a key and the seconds it still has to live (\<open>None\<close>: no
  expiry).  The reference store \<open>ref_redis\<close> shows that the laws hold together: the locale is
  interpreted on it, and the witnesses of the properties run on it.

  Commands and documentation: GET / SET / SET EX, DEL, EXISTS, SADD / SREM / SMEMBERS,
  EXPIRE, EXPIRE NX, INCR, TTL, SCAN MATCH.  A pipeline (redis-py's default, \<^verbatim>\<open>transaction=True\<close>,
  hence MULTI/EXEC) is the sequence of its commands.  \<open>r_tick\<close> is not a command: it is the passing
  of time.  Commands on a key of the wrong type do not arise: the key families of the application
  are disjoint (\<open>Token_Store\<close>, \<open>Rate_Limit\<close>, \<open>Likes\<close>).
\<close>

section \<open>The interface\<close>

datatype rvalue = RString string | RSet "string fset"

type_synonym entry = "rvalue \<times> nat option"

record 'r redis_api =
  r_lookup :: "'r \<Rightarrow> string \<Rightarrow> entry option"
  r_set :: "string \<Rightarrow> string \<Rightarrow> 'r \<Rightarrow> 'r"
  r_set_ex :: "string \<Rightarrow> string \<Rightarrow> nat \<Rightarrow> 'r \<Rightarrow> 'r"
  r_delete :: "string \<Rightarrow> 'r \<Rightarrow> 'r"
  r_sadd :: "string \<Rightarrow> string \<Rightarrow> 'r \<Rightarrow> 'r"
  r_srem :: "string \<Rightarrow> string \<Rightarrow> 'r \<Rightarrow> 'r"
  r_expire :: "string \<Rightarrow> nat \<Rightarrow> 'r \<Rightarrow> 'r"
  r_expire_nx :: "string \<Rightarrow> nat \<Rightarrow> 'r \<Rightarrow> 'r"
  r_incr :: "string \<Rightarrow> 'r \<Rightarrow> 'r"
  r_tick :: "nat \<Rightarrow> 'r \<Rightarrow> 'r"
  r_keys :: "'r \<Rightarrow> string list"

text \<open>The replies are functions of the observation.\<close>

definition r_get :: "'r redis_api \<Rightarrow> 'r \<Rightarrow> string \<Rightarrow> string option" where
  "r_get R s k = (case r_lookup R s k of Some (RString v, _) \<Rightarrow> Some v | _ \<Rightarrow> None)"

definition r_exists :: "'r redis_api \<Rightarrow> 'r \<Rightarrow> string \<Rightarrow> bool" where
  "r_exists R s k \<longleftrightarrow> r_lookup R s k \<noteq> None"

definition r_smembers :: "'r redis_api \<Rightarrow> 'r \<Rightarrow> string \<Rightarrow> string fset" where
  "r_smembers R s k = (case r_lookup R s k of Some (RSet m, _) \<Rightarrow> m | _ \<Rightarrow> {||})"

text \<open>INCR replies with the new value.\<close>

definition r_incr_reply :: "'r redis_api \<Rightarrow> 'r \<Rightarrow> string \<Rightarrow> int" where
  "r_incr_reply R s k =
     (case r_get R (r_incr R k s) k of
        Some v \<Rightarrow> (case py_int v of Some i \<Rightarrow> i | None \<Rightarrow> 0)
      | None \<Rightarrow> 0)"

text \<open>TTL: -2 for a missing key, -1 for a key without expiry.\<close>

definition r_ttl :: "'r redis_api \<Rightarrow> 'r \<Rightarrow> string \<Rightarrow> int" where
  "r_ttl R s k = (case r_lookup R s k of None \<Rightarrow> -2 | Some (_, None) \<Rightarrow> -1 | Some (_, Some n) \<Rightarrow> int n)"

text \<open>SADD / SREM / EXPIRE / INCR on one entry; a set that becomes empty is removed.\<close>

fun sadd_entry :: "string \<Rightarrow> entry option \<Rightarrow> entry option" where
  "sadd_entry x (Some (RSet m, t)) = Some (RSet (finsert x m), t)"
| "sadd_entry x (Some (RString v, t)) = Some (RString v, t)"
| "sadd_entry x None = Some (RSet {|x|}, None)"

fun srem_entry :: "string \<Rightarrow> entry option \<Rightarrow> entry option" where
  "srem_entry x (Some (RSet m, t)) = (if m |\<subseteq>| {|x|} then None else Some (RSet (m |-| {|x|}), t))"
| "srem_entry x e = e"

fun expire_entry :: "nat \<Rightarrow> entry option \<Rightarrow> entry option" where
  "expire_entry n (Some (v, t)) = (if n = 0 then None else Some (v, Some n))"
| "expire_entry n None = None"

fun expire_nx_entry :: "nat \<Rightarrow> entry option \<Rightarrow> entry option" where
  "expire_nx_entry n (Some (v, None)) = (if n = 0 then None else Some (v, Some n))"
| "expire_nx_entry n e = e"

fun incr_entry :: "entry option \<Rightarrow> entry option" where
  "incr_entry None = Some (RString (show_int 1), None)"
| "incr_entry (Some (RString v, t)) =
     (case py_int v of Some i \<Rightarrow> Some (RString (show_int (i + 1)), t) | None \<Rightarrow> Some (RString v, t))"
| "incr_entry (Some (RSet m, t)) = Some (RSet m, t)"

text \<open>After \<open>d\<close> seconds.\<close>

fun age_entry :: "nat \<Rightarrow> entry option \<Rightarrow> entry option" where
  "age_entry d (Some (v, Some n)) = (if n \<le> d then None else Some (v, Some (n - d)))"
| "age_entry d e = e"

section \<open>The laws\<close>

locale redis =
  fixes R :: "'r redis_api"
  assumes lookup_set: "r_lookup R (r_set R k v s) = (r_lookup R s)(k \<mapsto> (RString v, None))"
    and lookup_set_ex: "0 < n \<Longrightarrow> r_lookup R (r_set_ex R k v n s) = (r_lookup R s)(k \<mapsto> (RString v, Some n))"
    and lookup_delete: "r_lookup R (r_delete R k s) = (r_lookup R s)(k := None)"
    and lookup_sadd: "r_lookup R (r_sadd R k x s) = (r_lookup R s)(k := sadd_entry x (r_lookup R s k))"
    and lookup_srem: "r_lookup R (r_srem R k x s) = (r_lookup R s)(k := srem_entry x (r_lookup R s k))"
    and lookup_expire: "r_lookup R (r_expire R k n s) = (r_lookup R s)(k := expire_entry n (r_lookup R s k))"
    and lookup_expire_nx:
      "r_lookup R (r_expire_nx R k n s) = (r_lookup R s)(k := expire_nx_entry n (r_lookup R s k))"
    and lookup_incr: "r_lookup R (r_incr R k s) = (r_lookup R s)(k := incr_entry (r_lookup R s k))"
    and lookup_tick: "r_lookup R (r_tick R d s) k = age_entry d (r_lookup R s k)"
    and keys_lookup: "set (r_keys R s) = dom (r_lookup R s)"
begin

lemmas lookup_simps = lookup_set lookup_set_ex lookup_delete lookup_sadd lookup_srem lookup_expire
  lookup_expire_nx lookup_incr lookup_tick

lemma fold_delete_lookup:
  "r_lookup R (fold (r_delete R) ks s) k = (if k \<in> set ks then None else r_lookup R s k)"
  by (induction ks arbitrary: s) (auto simp: lookup_delete)

lemma finite_dom: "finite (dom (r_lookup R s))"
  using keys_lookup [of s] by (metis finite_set)

end

section \<open>A reference store\<close>

text \<open>
  An association list from keys to a value and its remaining seconds; the keys are distinct by
  the type, so that SCAN, which lists every key once, has its law.
\<close>

definition upd_key :: "string \<Rightarrow> entry option \<Rightarrow> (string \<times> entry) list \<Rightarrow> (string \<times> entry) list" where
  "upd_key k e xs =
     (case e of
        None \<Rightarrow> filter (\<lambda>p. fst p \<noteq> k) xs
      | Some v \<Rightarrow> if k \<in> fst ` set xs then map (\<lambda>p. if fst p = k then (k, v) else p) xs
                  else xs @ [(k, v)])"

fun age_keys :: "nat \<Rightarrow> (string \<times> entry) list \<Rightarrow> (string \<times> entry) list" where
  "age_keys d [] = []"
| "age_keys d ((k, e) # xs) =
     (case age_entry d (Some e) of None \<Rightarrow> age_keys d xs | Some e' \<Rightarrow> (k, e') # age_keys d xs)"

lemma map_fst_replace: "map fst (map (\<lambda>p. if fst p = k then (k, v) else p) xs) = map fst xs"
  by (induction xs) auto

lemma map_of_none: "k \<notin> fst ` set xs \<Longrightarrow> map_of xs k = None"
  by (simp add: map_of_eq_None_iff)

lemma distinct_upd_key: "distinct (map fst xs) \<Longrightarrow> distinct (map fst (upd_key k e xs))"
  by (cases e) (simp_all add: upd_key_def distinct_map_filter map_fst_replace del: map_map)

lemma map_of_upd_key: "map_of (upd_key k e xs) = (map_of xs)(k := e)"
proof (cases e)
  case None
  have "map_of (filter (\<lambda>p. fst p \<noteq> k) xs) = (map_of xs)(k := None)"
    by (induction xs) auto
  with None show ?thesis by (simp add: upd_key_def)
next
  case (Some v)
  have "k \<in> fst ` set xs \<Longrightarrow> map_of (map (\<lambda>p. if fst p = k then (k, v) else p) xs) = (map_of xs)(k \<mapsto> v)"
  proof (induction xs)
    case Nil
    then show ?case by simp
  next
    case (Cons a xs)
    have "k \<notin> fst ` set xs \<Longrightarrow> map (\<lambda>p. if fst p = k then (k, v) else p) xs = xs"
      by (induction xs) auto
    with Cons show ?case by (cases "k \<in> fst ` set xs") auto
  qed
  moreover have "map_of (xs @ [(k, v)]) x = ((map_of xs)(k \<mapsto> v)) x" if "k \<notin> fst ` set xs" for x
    using map_of_none [OF that] by (simp add: map_add_def split: option.splits)
  ultimately show ?thesis using Some by (auto simp: upd_key_def)
qed

lemma fst_age_keys: "fst ` set (age_keys d xs) \<subseteq> fst ` set xs"
  by (induction d xs rule: age_keys.induct) (auto split: option.splits)

lemma distinct_age_keys: "distinct (map fst xs) \<Longrightarrow> distinct (map fst (age_keys d xs))"
proof (induction d xs rule: age_keys.induct)
  case (2 d k e xs)
  then show ?case
    using fst_age_keys [of d xs] by (auto split: option.splits)
qed simp

lemma map_of_age_keys: "distinct (map fst xs) \<Longrightarrow> map_of (age_keys d xs) k = age_entry d (map_of xs k)"
proof (induction d xs rule: age_keys.induct)
  case (1 d)
  then show ?case by simp
next
  case (2 d k' e xs)
  then have "map_of xs k' = None"
    by (simp add: map_of_none)
  with 2 show ?case by (cases "k = k'") (auto split: option.splits)
qed

typedef store = "{xs :: (string \<times> entry) list. distinct (map fst xs)}"
  by (rule exI [of _ "[]"]) simp

setup_lifting type_definition_store

lift_definition empty_store :: store is "[]" by simp

lift_definition s_lookup :: "store \<Rightarrow> string \<Rightarrow> entry option" is "\<lambda>xs k. map_of xs k" .

lift_definition s_update :: "string \<Rightarrow> (entry option \<Rightarrow> entry option) \<Rightarrow> store \<Rightarrow> store"
  is "\<lambda>k f xs. upd_key k (f (map_of xs k)) xs" by (rule distinct_upd_key)

lift_definition s_tick :: "nat \<Rightarrow> store \<Rightarrow> store" is age_keys by (rule distinct_age_keys)

lift_definition s_keys :: "store \<Rightarrow> string list" is "map fst" .

definition ref_redis :: "store redis_api" where
  "ref_redis =
     \<lparr>r_lookup = s_lookup,
      r_set = (\<lambda>k v. s_update k (\<lambda>_. Some (RString v, None))),
      r_set_ex = (\<lambda>k v n. s_update k (\<lambda>_. if n = 0 then None else Some (RString v, Some n))),
      r_delete = (\<lambda>k. s_update k (\<lambda>_. None)),
      r_sadd = (\<lambda>k x. s_update k (sadd_entry x)),
      r_srem = (\<lambda>k x. s_update k (srem_entry x)),
      r_expire = (\<lambda>k n. s_update k (expire_entry n)),
      r_expire_nx = (\<lambda>k n. s_update k (expire_nx_entry n)),
      r_incr = (\<lambda>k. s_update k incr_entry),
      r_tick = s_tick,
      r_keys = s_keys\<rparr>"

lemma s_lookup_empty [simp]: "s_lookup empty_store k = None"
  by transfer simp

lemma s_lookup_update [simp]: "s_lookup (s_update k f s) = (s_lookup s)(k := f (s_lookup s k))"
  by transfer (simp add: map_of_upd_key)

lemma s_lookup_tick [simp]: "s_lookup (s_tick d s) k = age_entry d (s_lookup s k)"
  by transfer (simp add: map_of_age_keys)

lemma s_keys_props: "set (s_keys s) = dom (s_lookup s)" "distinct (s_keys s)"
  by (transfer, simp add: dom_map_of_conv_image_fst)+

lemma s_keys_empty [simp]: "s_keys empty_store = []"
  by transfer simp

lemma s_keys_update: "s_keys (s_update k f s) =
   (case f (s_lookup s k) of
      None \<Rightarrow> filter (\<lambda>k'. k' \<noteq> k) (s_keys s)
    | Some _ \<Rightarrow> if k \<in> set (s_keys s) then s_keys s else s_keys s @ [k])"
proof transfer
  fix k f and xs :: "(string \<times> entry) list"
  have "map fst (filter (\<lambda>p. fst p \<noteq> k) xs) = filter (\<lambda>k'. k' \<noteq> k) (map fst xs)"
    by (induction xs) auto
  then show "map fst (upd_key k (f (map_of xs k)) xs) =
     (case f (map_of xs k) of
        None \<Rightarrow> filter (\<lambda>k'. k' \<noteq> k) (map fst xs)
      | Some _ \<Rightarrow> if k \<in> set (map fst xs) then map fst xs else map fst xs @ [k])"
    by (simp add: upd_key_def map_fst_replace del: map_map split: option.splits)
qed

lemma ref_redis_sel [simp]:
  "r_lookup ref_redis = s_lookup"
  "r_set ref_redis = (\<lambda>k v. s_update k (\<lambda>_. Some (RString v, None)))"
  "r_set_ex ref_redis = (\<lambda>k v n. s_update k (\<lambda>_. if n = 0 then None else Some (RString v, Some n)))"
  "r_delete ref_redis = (\<lambda>k. s_update k (\<lambda>_. None))"
  "r_sadd ref_redis = (\<lambda>k x. s_update k (sadd_entry x))"
  "r_srem ref_redis = (\<lambda>k x. s_update k (srem_entry x))"
  "r_expire ref_redis = (\<lambda>k n. s_update k (expire_entry n))"
  "r_expire_nx ref_redis = (\<lambda>k n. s_update k (expire_nx_entry n))"
  "r_incr ref_redis = (\<lambda>k. s_update k incr_entry)"
  "r_tick ref_redis = s_tick"
  "r_keys ref_redis = s_keys"
  by (simp_all add: ref_redis_def)

interpretation ref: redis ref_redis
  by unfold_locales (simp_all add: s_keys_props)

lemma ref_redis_ok: "redis ref_redis"
  by unfold_locales

end
