(* ===== verification/Token_Store.thy ===== *)
theory Token_Store
  imports Security Redis_Api
begin

text \<open>
  \<^verbatim>\<open>app/modules/auth/token_store.py\<close>: the refresh-token store.  The definitions take the Redis
  commands; the lemmas are proved in the locale \<open>redis\<close>, from the documented laws alone.

  The invariant \<open>index_ok\<close> is what makes "log out everywhere" and the reaction to a stolen token
  work: every live token of a user is listed in the user's index set, and the index lives at least
  as long as the token.  \<open>run_events\<close> runs any sequence of store operations, of time passing and
  of foreign commands (rate limiter, likes) on the store.
\<close>

section \<open>Keys\<close>

definition token_key :: "int \<Rightarrow> string \<Rightarrow> string" where
  "token_key user_id jti = ''refresh:'' @ show_int user_id @ CHR '':'' # jti"

definition index_key :: "int \<Rightarrow> string" where
  "index_key user_id = ''refresh_index:'' @ show_int user_id"

definition used_key :: "int \<Rightarrow> string \<Rightarrow> string" where
  "used_key user_id jti = ''refresh_used:'' @ show_int user_id @ CHR '':'' # jti"

lemma token_key_inject [key_simps, simp]: "token_key a i = token_key b j \<longleftrightarrow> a = b \<and> i = j"
  by (auto simp: token_key_def append_sep_inject)

lemma used_key_inject [key_simps, simp]: "used_key a i = used_key b j \<longleftrightarrow> a = b \<and> i = j"
  by (auto simp: used_key_def append_sep_inject)

lemma index_key_inject [key_simps, simp]: "index_key a = index_key b \<longleftrightarrow> a = b"
  by (simp add: index_key_def)

lemma store_keys_disjoint [key_simps, simp]:
  "token_key a i \<noteq> index_key b" "index_key b \<noteq> token_key a i"
  "token_key a i \<noteq> used_key b j" "used_key b j \<noteq> token_key a i"
  "used_key a i \<noteq> index_key b" "index_key b \<noteq> used_key a i"
  by (simp_all add: token_key_def index_key_def used_key_def)

section \<open>Operations\<close>

datatype token_state = TS_ACTIVE | TS_REUSED | TS_FORGED | TS_UNKNOWN

definition ttl_seconds :: "jwt_settings \<Rightarrow> nat" where
  "ttl_seconds S = refresh_token_expire_days S * 24 * 60 * 60"

definition save :: "'r redis_api \<Rightarrow> nat \<Rightarrow> int \<Rightarrow> string \<Rightarrow> string \<Rightarrow> 'r \<Rightarrow> 'r" where
  "save R ttl user_id jti token_hash s =
     (let s1 = r_set_ex R (token_key user_id jti) token_hash ttl s;
          s2 = r_sadd R (index_key user_id) jti s1
      in r_expire R (index_key user_id) ttl s2)"

definition verify :: "'r redis_api \<Rightarrow> crypto \<Rightarrow> int \<Rightarrow> string \<Rightarrow> string \<Rightarrow> 'r \<Rightarrow> token_state" where
  "verify R C user_id jti token s =
     (case r_get R s (token_key user_id jti) of
        Some stored \<Rightarrow> if verify_token_hash C token stored then TS_ACTIVE else TS_FORGED
      | None \<Rightarrow> if r_exists R s (used_key user_id jti) then TS_REUSED else TS_UNKNOWN)"

definition rotate :: "'r redis_api \<Rightarrow> int \<Rightarrow> string \<Rightarrow> int \<Rightarrow> 'r \<Rightarrow> 'r" where
  "rotate R user_id jti remaining_ttl_seconds s =
     (let s1 = r_delete R (token_key user_id jti) s;
          s2 = r_srem R (index_key user_id) jti s1
      in r_set_ex R (used_key user_id jti) ''1'' (nat (max remaining_ttl_seconds 1)) s2)"

definition revoke :: "'r redis_api \<Rightarrow> int \<Rightarrow> string \<Rightarrow> 'r \<Rightarrow> 'r" where
  "revoke R user_id jti s =
     (let s1 = r_delete R (token_key user_id jti) s in r_srem R (index_key user_id) jti s1)"

text \<open>
  \<open>revoke_all\<close> in its two round trips: SMEMBERS, then one pipeline that deletes the keys read and
  the index.  The order in which the set is enumerated does not matter (\<open>fold_delete_lookup\<close>).
\<close>

definition revoke_all_read :: "'r redis_api \<Rightarrow> int \<Rightarrow> 'r \<Rightarrow> string fset" where
  "revoke_all_read R user_id s = r_smembers R s (index_key user_id)"

definition revoke_all_delete :: "'r redis_api \<Rightarrow> int \<Rightarrow> string fset \<Rightarrow> 'r \<Rightarrow> 'r" where
  "revoke_all_delete R user_id jtis s =
     r_delete R (index_key user_id)
       (fold (r_delete R) (map (token_key user_id) (sorted_list_of_fset jtis)) s)"

definition revoke_all :: "'r redis_api \<Rightarrow> int \<Rightarrow> 'r \<Rightarrow> nat \<times> 'r" where
  "revoke_all R user_id s =
     (let jtis = revoke_all_read R user_id s in (fcard jtis, revoke_all_delete R user_id jtis s))"

section \<open>What is stored after each operation\<close>

definition token_family :: "string \<Rightarrow> bool" where
  "token_family k \<longleftrightarrow> (\<exists>a i. k = token_key a i) \<or> (\<exists>a. k = index_key a) \<or> (\<exists>a i. k = used_key a i)"

lemma token_family_keys [simp]:
  "token_family (token_key a i)" "token_family (index_key a)" "token_family (used_key a i)"
  by (auto simp: token_family_def)

text \<open>Live tokens: the key exists.\<close>

definition live :: "'r redis_api \<Rightarrow> 'r \<Rightarrow> int \<Rightarrow> string \<Rightarrow> bool" where
  "live R s user_id jti \<longleftrightarrow> r_exists R s (token_key user_id jti)"

text \<open>
  The invariant.  \<open>ttl\<close> is the life time every token is saved with; no token lives longer than it,
  and the index of its owner lists it and lives at least as long.
\<close>

definition index_ok :: "'r redis_api \<Rightarrow> nat \<Rightarrow> 'r \<Rightarrow> bool" where
  "index_ok R ttl s \<longleftrightarrow>
     (\<forall>a i e t. r_lookup R s (token_key a i) = Some (e, t) \<longrightarrow>
        (\<exists>h n m k. e = RString h \<and> t = Some n \<and> n \<le> ttl \<and>
           r_lookup R s (index_key a) = Some (RSet m, Some k) \<and> i |\<in>| m \<and> n \<le> k)) \<and>
     (\<forall>a. r_lookup R s (index_key a) = None \<or>
        (\<exists>m k. r_lookup R s (index_key a) = Some (RSet m, Some k) \<and> k \<le> ttl))"

lemma index_ok_tokenD:
  assumes "index_ok R ttl s" and "r_lookup R s (token_key a i) = Some (e, t)"
  obtains h n m k where "e = RString h" "t = Some n" "n \<le> ttl"
    "r_lookup R s (index_key a) = Some (RSet m, Some k)" "i |\<in>| m" "n \<le> k"
  using assms unfolding index_ok_def by blast

lemma index_ok_indexD:
  assumes "index_ok R ttl s"
  obtains "r_lookup R s (index_key a) = None"
    | m k where "r_lookup R s (index_key a) = Some (RSet m, Some k)" "k \<le> ttl"
proof -
  from assms have "r_lookup R s (index_key a) = None \<or>
      (\<exists>m k. r_lookup R s (index_key a) = Some (RSet m, Some k) \<and> k \<le> ttl)"
    by (simp add: index_ok_def)
  then show ?thesis using that by blast
qed

lemma index_ok_frame:
  "index_ok R ttl s \<Longrightarrow> (\<And>k. token_family k \<Longrightarrow> r_lookup R s' k = r_lookup R s k) \<Longrightarrow> index_ok R ttl s'"
  by (simp add: index_ok_def)

context redis
begin

lemma lookup_save:
  assumes "0 < ttl"
  shows "r_lookup R (save R ttl a i h s) =
    (r_lookup R s)(token_key a i \<mapsto> (RString h, Some ttl),
      index_key a := expire_entry ttl (sadd_entry i (r_lookup R s (index_key a))))"
  using assms by (simp add: save_def Let_def lookup_simps fun_upd_twist)

lemma lookup_rotate:
  "r_lookup R (rotate R a i n s) =
    (r_lookup R s)(token_key a i := None, index_key a := srem_entry i (r_lookup R s (index_key a)),
      used_key a i \<mapsto> (RString ''1'', Some (nat (max n 1))))"
  by (simp add: rotate_def Let_def lookup_simps)

lemma lookup_revoke:
  "r_lookup R (revoke R a i s) =
    (r_lookup R s)(token_key a i := None, index_key a := srem_entry i (r_lookup R s (index_key a)))"
  by (simp add: revoke_def Let_def lookup_simps)

lemma lookup_revoke_all_delete:
  "r_lookup R (revoke_all_delete R a m s) k =
    (if k = index_key a \<or> (\<exists>i. i |\<in>| m \<and> k = token_key a i) then None else r_lookup R s k)"
  by (auto simp: revoke_all_delete_def lookup_delete fold_delete_lookup)

lemma lookup_revoke_all:
  "r_lookup R (snd (revoke_all R a s)) k =
    (if k = index_key a \<or> (\<exists>i. i |\<in>| revoke_all_read R a s \<and> k = token_key a i) then None
     else r_lookup R s k)"
  by (simp add: revoke_all_def lookup_revoke_all_delete Let_def)

section \<open>The invariant is kept\<close>

lemma srem_index_cases:
  "srem_entry i e = None \<or> (\<exists>m k. e = Some (RSet m, k) \<and> srem_entry i e = Some (RSet (m |-| {|i|}), k))
   \<or> (\<exists>v k. e = Some (RString v, k) \<and> srem_entry i e = e)"
  by (cases "(i, e)" rule: srem_entry.cases) auto

lemma index_after_save:
  assumes "index_ok R ttl s" and "0 < ttl"
  obtains m where "r_lookup R (save R ttl a i h s) (index_key a) = Some (RSet m, Some ttl)" and "i |\<in>| m"
    and "\<And>m' k. r_lookup R s (index_key a) = Some (RSet m', k) \<Longrightarrow> m' |\<subseteq>| m"
proof -
  have "\<exists>m. r_lookup R (save R ttl a i h s) (index_key a) = Some (RSet m, Some ttl) \<and> i |\<in>| m \<and>
      (\<forall>m' k. r_lookup R s (index_key a) = Some (RSet m', k) \<longrightarrow> m' |\<subseteq>| m)"
    using assms by (elim index_ok_indexD [of _ _ _ a]) (auto simp: lookup_save)
  then show ?thesis using that by blast
qed

text \<open>A token that was there before stays covered by the index of its user, whoever saves.\<close>

lemma save_covers_old:
  assumes "index_ok R ttl s" and "0 < ttl" and "r_lookup R s (token_key b j) = Some (e, t)"
  shows "\<exists>h' n m k. e = RString h' \<and> t = Some n \<and> n \<le> ttl \<and>
    r_lookup R (save R ttl a i h s) (index_key b) = Some (RSet m, Some k) \<and> j |\<in>| m \<and> n \<le> k"
proof -
  from assms(1,3) obtain h' n m k where o: "e = RString h'" "t = Some n" "n \<le> ttl"
    "r_lookup R s (index_key b) = Some (RSet m, Some k)" "j |\<in>| m" "n \<le> k"
    by (rule index_ok_tokenD)
  show ?thesis
  proof (cases "b = a")
    case True
    obtain m' where m': "r_lookup R (save R ttl a i h s) (index_key a) = Some (RSet m', Some ttl)"
      "\<And>m k. r_lookup R s (index_key a) = Some (RSet m, k) \<Longrightarrow> m |\<subseteq>| m'"
      using index_after_save [OF assms(1,2)] by metis
    then have "j |\<in>| m'" using o(4,5) True by blast
    with m'(1) o True show ?thesis by simp
  next
    case False
    with o(4) assms(2) have "r_lookup R (save R ttl a i h s) (index_key b) = Some (RSet m, Some k)"
      by (simp add: lookup_save)
    with o show ?thesis by blast
  qed
qed

lemma index_ok_save:
  assumes ok: "index_ok R ttl s" and ttl: "0 < ttl"
  shows "index_ok R ttl (save R ttl a i h s)"
  unfolding index_ok_def
proof (intro conjI allI impI)
  obtain m where m: "r_lookup R (save R ttl a i h s) (index_key a) = Some (RSet m, Some ttl)" "i |\<in>| m"
    using index_after_save [OF ok ttl] by metis
  fix b j e t
  assume t: "r_lookup R (save R ttl a i h s) (token_key b j) = Some (e, t)"
  show "\<exists>h' n m' k. e = RString h' \<and> t = Some n \<and> n \<le> ttl \<and>
      r_lookup R (save R ttl a i h s) (index_key b) = Some (RSet m', Some k) \<and> j |\<in>| m' \<and> n \<le> k"
  proof (cases "b = a \<and> j = i")
    case True
    with t m ttl show ?thesis by (auto simp: lookup_save)
  next
    case False
    with t ttl have "r_lookup R s (token_key b j) = Some (e, t)"
      by (auto simp: lookup_save split: if_splits)
    then show ?thesis by (rule save_covers_old [OF ok ttl])
  qed
next
  fix b
  show "r_lookup R (save R ttl a i h s) (index_key b) = None \<or>
      (\<exists>m' k. r_lookup R (save R ttl a i h s) (index_key b) = Some (RSet m', Some k) \<and> k \<le> ttl)"
  proof (cases "b = a")
    case True
    then show ?thesis using index_after_save [OF ok ttl] by (metis order_refl)
  next
    case False
    with ttl have "r_lookup R (save R ttl a i h s) (index_key b) = r_lookup R s (index_key b)"
      by (simp add: lookup_save)
    with ok show ?thesis by (simp add: index_ok_def)
  qed
qed

text \<open>Removing one token and its entry in the index, whatever else is stored under other keys.\<close>

lemma index_ok_remove:
  assumes ok: "index_ok R ttl s"
    and tok: "r_lookup R s' (token_key a i) = None"
    and idx: "r_lookup R s' (index_key a) = srem_entry i (r_lookup R s (index_key a))"
    and toks: "\<And>b j. (b, j) \<noteq> (a, i) \<Longrightarrow> r_lookup R s' (token_key b j) = r_lookup R s (token_key b j)"
    and idxs: "\<And>b. b \<noteq> a \<Longrightarrow> r_lookup R s' (index_key b) = r_lookup R s (index_key b)"
  shows "index_ok R ttl s'"
  unfolding index_ok_def
proof (intro conjI allI impI)
  fix b j e t
  assume t: "r_lookup R s' (token_key b j) = Some (e, t)"
  with tok have ne: "(b, j) \<noteq> (a, i)" by auto
  with t toks have "r_lookup R s (token_key b j) = Some (e, t)" by simp
  with ok obtain h n m k where o: "e = RString h" "t = Some n" "n \<le> ttl"
    "r_lookup R s (index_key b) = Some (RSet m, Some k)" "j |\<in>| m" "n \<le> k"
    by (rule index_ok_tokenD)
  show "\<exists>h n m k. e = RString h \<and> t = Some n \<and> n \<le> ttl \<and>
      r_lookup R s' (index_key b) = Some (RSet m, Some k) \<and> j |\<in>| m \<and> n \<le> k"
  proof (cases "b = a")
    case True
    with ne o idx show ?thesis by auto
  next
    case False
    with o idxs show ?thesis by auto
  qed
next
  fix b
  show "r_lookup R s' (index_key b) = None \<or>
      (\<exists>m k. r_lookup R s' (index_key b) = Some (RSet m, Some k) \<and> k \<le> ttl)"
  proof (cases "b = a")
    case True
    with idx show ?thesis
      using ok by (elim index_ok_indexD [of _ _ _ a]) auto
  next
    case False
    with ok idxs show ?thesis by (simp add: index_ok_def)
  qed
qed

lemma index_ok_rotate: "index_ok R ttl s \<Longrightarrow> index_ok R ttl (rotate R a i n s)"
  by (erule index_ok_remove [where a = a and i = i]) (auto simp: lookup_rotate)

lemma index_ok_revoke: "index_ok R ttl s \<Longrightarrow> index_ok R ttl (revoke R a i s)"
  by (erule index_ok_remove [where a = a and i = i]) (auto simp: lookup_revoke)

text \<open>A live token is among those SMEMBERS returns: the reason \<open>revoke_all\<close> is complete.\<close>

lemma live_in_index:
  assumes "index_ok R ttl s" and "live R s a i"
  shows "i |\<in>| revoke_all_read R a s"
proof -
  from assms(2) obtain e t where "r_lookup R s (token_key a i) = Some (e, t)"
    by (auto simp: live_def r_exists_def)
  with assms(1) show ?thesis
    by (elim index_ok_tokenD) (auto simp: revoke_all_read_def r_smembers_def)
qed

lemma revoke_all_token:
  assumes "index_ok R ttl s"
  shows "r_lookup R (snd (revoke_all R a s)) (token_key b i) =
    (if b = a then None else r_lookup R s (token_key b i))"
proof -
  have "i |\<notin>| revoke_all_read R a s \<Longrightarrow> r_lookup R s (token_key a i) = None"
    using live_in_index [OF assms, of a i]
    by (cases "r_lookup R s (token_key a i)") (auto simp: live_def r_exists_def)
  then show ?thesis by (auto simp: lookup_revoke_all)
qed

lemma revoke_all_index: "r_lookup R (snd (revoke_all R a s)) (index_key b) =
    (if b = a then None else r_lookup R s (index_key b))"
  by (simp add: lookup_revoke_all)

lemma revoke_all_used [simp]:
  "r_lookup R (snd (revoke_all R a s)) (used_key b i) = r_lookup R s (used_key b i)"
  by (auto simp: lookup_revoke_all)

lemma index_ok_revoke_all:
  assumes "index_ok R ttl s" shows "index_ok R ttl (snd (revoke_all R a s))"
  using assms by (auto simp: index_ok_def revoke_all_token [OF assms] revoke_all_index)

lemma index_ok_tick:
  assumes ok: "index_ok R ttl s" shows "index_ok R ttl (r_tick R d s)"
  unfolding index_ok_def
proof (intro conjI allI impI)
  fix a i e t
  assume t: "r_lookup R (r_tick R d s) (token_key a i) = Some (e, t)"
  then obtain e0 t0 where e0: "r_lookup R s (token_key a i) = Some (e0, t0)"
    by (cases "r_lookup R s (token_key a i)") (auto simp: lookup_tick)
  with ok obtain h n m k where "e0 = RString h" "t0 = Some n" "n \<le> ttl"
    "r_lookup R s (index_key a) = Some (RSet m, Some k)" "i |\<in>| m" "n \<le> k"
    by (rule index_ok_tokenD)
  with t e0 show "\<exists>h n m k. e = RString h \<and> t = Some n \<and> n \<le> ttl \<and>
      r_lookup R (r_tick R d s) (index_key a) = Some (RSet m, Some k) \<and> i |\<in>| m \<and> n \<le> k"
    by (auto simp: lookup_tick split: if_splits)
next
  fix a
  show "r_lookup R (r_tick R d s) (index_key a) = None \<or>
      (\<exists>m k. r_lookup R (r_tick R d s) (index_key a) = Some (RSet m, Some k) \<and> k \<le> ttl)"
    using ok by (elim index_ok_indexD [of _ _ _ a]) (auto simp: lookup_tick)
qed

lemma index_ok_empty: "(\<And>k. token_family k \<Longrightarrow> r_lookup R s k = None) \<Longrightarrow> index_ok R ttl s"
  by (simp add: index_ok_def)

lemma verify_live: "verify R C a i tok s = TS_ACTIVE \<Longrightarrow> live R s a i"
  by (auto simp: verify_def live_def r_get_def r_exists_def split: option.splits rvalue.splits if_splits)

lemma verify_rotated:
  "verify R C a i tok (rotate R a i n s) = TS_REUSED"
  by (simp add: verify_def r_get_def r_exists_def lookup_rotate)

lemma verify_saved: "0 < ttl \<Longrightarrow> verify R C a i tok (save R ttl a i (hash_token C tok) s) = TS_ACTIVE"
  by (simp add: verify_def r_get_def lookup_save verify_token_hash_def)

lemma verify_revoke_all:
  "index_ok R ttl s \<Longrightarrow> verify R C a i tok (snd (revoke_all R a s)) \<noteq> TS_ACTIVE"
  by (simp add: verify_def r_get_def revoke_all_token)

lemma verify_same:
  assumes "r_lookup R s' (token_key a i) = r_lookup R s (token_key a i)"
    and "r_lookup R s' (used_key a i) = r_lookup R s (used_key a i)"
  shows "verify R C a i tok s' = verify R C a i tok s"
  unfolding verify_def r_get_def r_exists_def by (simp only: assms)

end

section \<open>Runs\<close>

text \<open>
  Everything the application does to this Redis: the store's operations, the limiter's keys
  (\<^verbatim>\<open>ratelimit:\<close>), the pending likes (\<^verbatim>\<open>post_like:\<close>), and the passing of time.  Each event is one
  complete call; \<open>revoke_all_race\<close> below looks inside one.
\<close>

datatype store_event =
    Ev_save int string string
  | Ev_rotate int string int
  | Ev_revoke int string
  | Ev_revoke_all int
  | Ev_ratelimit_hit string nat
  | Ev_ratelimit_reset string
  | Ev_like_set string string
  | Ev_like_del string
  | Ev_tick nat

fun store_step :: "'r redis_api \<Rightarrow> nat \<Rightarrow> store_event \<Rightarrow> 'r \<Rightarrow> 'r" where
  "store_step R ttl (Ev_save a i h) s = save R ttl a i h s"
| "store_step R ttl (Ev_rotate a i n) s = rotate R a i n s"
| "store_step R ttl (Ev_revoke a i) s = revoke R a i s"
| "store_step R ttl (Ev_revoke_all a) s = snd (revoke_all R a s)"
| "store_step R ttl (Ev_ratelimit_hit k w) s =
     r_expire_nx R (''ratelimit:'' @ k) w (r_incr R (''ratelimit:'' @ k) s)"
| "store_step R ttl (Ev_ratelimit_reset k) s = r_delete R (''ratelimit:'' @ k) s"
| "store_step R ttl (Ev_like_set k v) s = r_set R (''post_like:'' @ k) v s"
| "store_step R ttl (Ev_like_del k) s = r_delete R (''post_like:'' @ k) s"
| "store_step R ttl (Ev_tick d) s = r_tick R d s"

definition run_events :: "'r redis_api \<Rightarrow> nat \<Rightarrow> store_event list \<Rightarrow> 'r \<Rightarrow> 'r" where
  "run_events R ttl es s = fold (store_step R ttl) es s"

lemma foreign_keys:
  "\<not> token_family (''ratelimit:'' @ k)" "\<not> token_family (''post_like:'' @ k)"
  by (auto simp: token_family_def token_key_def index_key_def used_key_def)

text \<open>The events of the other users of Redis.\<close>

fun foreign :: "store_event \<Rightarrow> bool" where
  "foreign (Ev_ratelimit_hit k w) \<longleftrightarrow> True"
| "foreign (Ev_ratelimit_reset k) \<longleftrightarrow> True"
| "foreign (Ev_like_set k v) \<longleftrightarrow> True"
| "foreign (Ev_like_del k) \<longleftrightarrow> True"
| "foreign _ \<longleftrightarrow> False"

context redis
begin

lemma foreign_step:
  assumes "foreign e" and "token_family k"
  shows "r_lookup R (store_step R ttl e s) k = r_lookup R s k"
proof -
  have "k \<noteq> ''ratelimit:'' @ k'" "k \<noteq> ''post_like:'' @ k'" for k'
    using assms(2) foreign_keys by auto
  with assms(1) show ?thesis by (cases e) (simp_all add: lookup_simps)
qed

lemma index_ok_store_step:
  assumes "index_ok R ttl s" and "0 < ttl"
  shows "index_ok R ttl (store_step R ttl e s)"
proof (cases "foreign e")
  case True
  then show ?thesis by (intro index_ok_frame [OF assms(1)] foreign_step)
next
  case False
  with assms show ?thesis
    by (cases e) (auto intro: index_ok_save index_ok_rotate index_ok_revoke index_ok_revoke_all index_ok_tick)
qed

lemma index_ok_run:
  assumes "index_ok R ttl s" and "0 < ttl"
  shows "index_ok R ttl (run_events R ttl es s)"
  unfolding run_events_def using assms
  by (induction es arbitrary: s) (auto intro: index_ok_store_step)

end

section \<open>Properties\<close>

text \<open>
  C2.  "Log out everywhere" is complete.  Take any history of store operations, limiter and like
  commands and passing time, from a Redis without token keys.  \<open>revoke_all\<close> of a user then leaves no
  live token of that user, and leaves every token of every other user exactly as it was.
\<close>

theorem revoke_all_complete:
  assumes "redis R" and "0 < ttl" and "\<And>k. token_family k \<Longrightarrow> r_lookup R s0 k = None"
    and "s = run_events R ttl es s0"
  shows "\<not> live R (snd (revoke_all R a s)) a i \<and>
    (b \<noteq> a \<longrightarrow> r_lookup R (snd (revoke_all R a s)) (token_key b i) = r_lookup R s (token_key b i))"
proof -
  have "index_ok R ttl s0"
    using assms(1,3) by (rule redis.index_ok_empty)
  with assms(1,2,4) have "index_ok R ttl s"
    by (simp add: redis.index_ok_run)
  with assms(1) show ?thesis
    by (simp add: live_def r_exists_def redis.revoke_all_token)
qed

theorem revoke_all_complete_witness:
  "let s = run_events ref_redis 100 [Ev_save 7 ''x'' ''h'', Ev_tick 5, Ev_save 8 ''z'' ''g''] empty_store
   in live ref_redis s 7 ''x'' \<and> \<not> live ref_redis (snd (revoke_all ref_redis 7 s)) 7 ''x'' \<and>
      s_lookup (snd (revoke_all ref_redis 7 s)) (token_key 8 ''z'') = s_lookup s (token_key 8 ''z'') \<and>
      s_lookup s (token_key 8 ''z'') = Some (RString ''g'', Some 100)"
proof -
  let ?s = "run_events ref_redis 100 [Ev_save 7 ''x'' ''h'', Ev_tick 5, Ev_save 8 ''z'' ''g''] empty_store"
  have l: "s_lookup ?s (token_key 7 ''x'') = Some (RString ''h'', Some 95)"
    "s_lookup ?s (token_key 8 ''z'') = Some (RString ''g'', Some 100)"
    by (simp_all add: run_events_def save_def Let_def)
  have "\<not> live ref_redis (snd (revoke_all ref_redis 7 ?s)) 7 i \<and>
      (8 \<noteq> (7::int) \<longrightarrow> r_lookup ref_redis (snd (revoke_all ref_redis 7 ?s)) (token_key 8 j) =
         r_lookup ref_redis ?s (token_key 8 j))" for i j
    using revoke_all_complete [OF ref_redis_ok _ _ refl, of 100 empty_store 7 
        "[Ev_save 7 ''x'' ''h'', Ev_tick 5, Ev_save 8 ''z'' ''g'']" i 8]
      revoke_all_complete [OF ref_redis_ok _ _ refl, of 100 empty_store 7 
        "[Ev_save 7 ''x'' ''h'', Ev_tick 5, Ev_save 8 ''z'' ''g'']" j 8] by simp
  with l show ?thesis
    by (simp add: Let_def live_def r_exists_def)
qed

text \<open>
  The store's own protocol.  Whatever the store holds, a token just saved verifies as ACTIVE;
  after \<open>rotate\<close> the same token verifies as REUSED, and keeps doing so for as long as the token
  would have lived (its remaining life time); after \<open>revoke\<close> it is neither ACTIVE nor FORGED.
\<close>

theorem token_life_cycle:
  assumes "redis R" and "0 < ttl" and "d < nat (max n 1)"
  shows "verify R C a i tok (save R ttl a i (hash_token C tok) s) = TS_ACTIVE \<and>
    verify R C a i tok (r_tick R d (rotate R a i n s)) = TS_REUSED \<and>
    verify R C a i tok (revoke R a i s) \<in> {TS_REUSED, TS_UNKNOWN}"
proof (intro conjI)
  show "verify R C a i tok (save R ttl a i (hash_token C tok) s) = TS_ACTIVE"
    using assms(1,2) by (rule redis.verify_saved)
  show "verify R C a i tok (r_tick R d (rotate R a i n s)) = TS_REUSED"
    using assms(1,3)
    by (simp add: verify_def r_get_def r_exists_def redis.lookup_rotate redis.lookup_tick)
  show "verify R C a i tok (revoke R a i s) \<in> {TS_REUSED, TS_UNKNOWN}"
    using assms(1) by (simp add: verify_def r_get_def r_exists_def redis.lookup_revoke)
qed

theorem token_life_cycle_witness:
  "let s = save ref_redis 100 7 ''x'' ''tok'' empty_store
   in verify ref_redis demo_crypto 7 ''x'' ''tok'' (save ref_redis 100 7 ''x'' (hash_token demo_crypto ''tok'') s) = TS_ACTIVE \<and>
      verify ref_redis demo_crypto 7 ''x'' ''tok'' (s_tick 39 (rotate ref_redis 7 ''x'' 40 s)) = TS_REUSED \<and>
      verify ref_redis demo_crypto 7 ''x'' ''tok'' (revoke ref_redis 7 ''x'' s) \<in> {TS_REUSED, TS_UNKNOWN}"
  unfolding Let_def
  using token_life_cycle [OF ref_redis_ok, of 100 39 40 demo_crypto 7 "''x''" "''tok''"
      "save ref_redis 100 7 ''x'' ''tok'' empty_store"]
  by (simp only: ref_redis_sel)

text \<open>
  The two round trips of \<open>revoke_all\<close> are not atomic.  If a login or a refresh of the same user
  stores a token between SMEMBERS and the deletion, the token survives, the index that should list
  it is gone, and a later complete \<open>revoke_all\<close> does not remove it either.
\<close>

theorem revoke_all_race:
  assumes "redis R" and "0 < ttl" and "i |\<notin>| revoke_all_read R a s"
    and "t = revoke_all_delete R a (revoke_all_read R a s) (save R ttl a i h s)"
  shows "live R t a i \<and> live R (snd (revoke_all R a t)) a i"
proof -
  have tok: "r_lookup R t (token_key a i) = Some (RString h, Some ttl)"
    using assms by (auto simp: redis.lookup_revoke_all_delete redis.lookup_save)
  have "r_lookup R t (index_key a) = None"
    using assms(1,4) by (simp add: redis.lookup_revoke_all_delete)
  then have "revoke_all_read R a t = {||}"
    by (simp add: revoke_all_read_def r_smembers_def)
  with tok assms(1) show ?thesis
    by (simp add: live_def r_exists_def redis.lookup_revoke_all)
qed

theorem revoke_all_race_witness:
  "let s = save ref_redis 100 7 ''x'' ''h'' empty_store;
       t = revoke_all_delete ref_redis 7 (revoke_all_read ref_redis 7 s) (save ref_redis 100 7 ''y'' ''g'' s)
   in revoke_all_read ref_redis 7 s = {|''x''|} \<and> \<not> live ref_redis t 7 ''x'' \<and>
      live ref_redis (snd (revoke_all ref_redis 7 t)) 7 ''y''"
proof -
  let ?s = "save ref_redis 100 7 ''x'' ''h'' empty_store"
  have r: "revoke_all_read ref_redis 7 ?s = {|''x''|}"
    by (simp add: revoke_all_read_def r_smembers_def save_def Let_def)
  then show ?thesis
    using revoke_all_race [OF ref_redis_ok _ _ refl, of 100 "''y''" 7 ?s "''g''"]
    by (simp add: Let_def live_def r_exists_def ref.lookup_revoke_all_delete [simplified])
qed

end
