(* ===== verification/Token_Spec.thy ===== *)
theory Token_Spec
  imports Token_Store
begin

text \<open>
  What the refresh-token store promises, without keys, index sets and pipelines: for every user and
  token id, whether the token is active (with its hash and the seconds left) or spent (remembered as
  used up).  The Redis store refines it over every history: the abstraction of what it holds is what
  the specification holds, and it answers \<open>verify\<close> the same way.
\<close>

section \<open>The specification\<close>

record token_spec =
  active :: "int \<times> string \<Rightarrow> (string \<times> nat) option"
  spent :: "int \<times> string \<Rightarrow> nat option"

definition left :: "nat \<Rightarrow> nat \<Rightarrow> nat option" where
  "left d n = (if n \<le> d then None else Some (n - d))"

text \<open>\<open>Ev_revoke_all\<close> forgets every active token of the user, whatever an index may list.\<close>

fun spec_step :: "nat \<Rightarrow> store_event \<Rightarrow> token_spec \<Rightarrow> token_spec" where
  "spec_step ttl (Ev_save a i h) t = t\<lparr>active := (active t)((a, i) \<mapsto> (h, ttl))\<rparr>"
| "spec_step ttl (Ev_rotate a i n) t =
     \<lparr>active = (active t)((a, i) := None), spent = (spent t)((a, i) \<mapsto> nat (max n 1))\<rparr>"
| "spec_step ttl (Ev_revoke a i) t = t\<lparr>active := (active t)((a, i) := None)\<rparr>"
| "spec_step ttl (Ev_revoke_all a) t = t\<lparr>active := (\<lambda>(b, i). if b = a then None else active t (b, i))\<rparr>"
| "spec_step ttl (Ev_tick d) t =
     \<lparr>active = (\<lambda>x. Option.bind (active t x) (\<lambda>(h, n). map_option (Pair h) (left d n))),
      spent = (\<lambda>x. Option.bind (spent t x) (left d))\<rparr>"
| "spec_step ttl _ t = t"

definition spec_verify :: "crypto \<Rightarrow> int \<Rightarrow> string \<Rightarrow> string \<Rightarrow> token_spec \<Rightarrow> token_state" where
  "spec_verify C a i tok t =
     (case active t (a, i) of
        Some (h, _) \<Rightarrow> if verify_token_hash C tok h then TS_ACTIVE else TS_FORGED
      | None \<Rightarrow> if spent t (a, i) \<noteq> None then TS_REUSED else TS_UNKNOWN)"

section \<open>The abstraction\<close>

definition abs_tokens :: "'r redis_api \<Rightarrow> 'r \<Rightarrow> token_spec" where
  "abs_tokens R s =
     \<lparr>active = (\<lambda>(a, i). case r_lookup R s (token_key a i) of Some (RString h, Some n) \<Rightarrow> Some (h, n) | _ \<Rightarrow> None),
      spent = (\<lambda>(a, i). case r_lookup R s (used_key a i) of Some (_, n) \<Rightarrow> n | None \<Rightarrow> None)\<rparr>"

definition used_ok :: "'r redis_api \<Rightarrow> 'r \<Rightarrow> bool" where
  "used_ok R s \<longleftrightarrow> (\<forall>a i e t. r_lookup R s (used_key a i) = Some (e, t) \<longrightarrow> t \<noteq> None)"

lemma used_ok_frame: "used_ok R s \<Longrightarrow> (\<And>a i. r_lookup R s' (used_key a i) = r_lookup R s (used_key a i)) \<Longrightarrow> used_ok R s'"
  by (simp add: used_ok_def)

lemma abs_tokens_frame:
  "(\<And>a i. r_lookup R s' (token_key a i) = r_lookup R s (token_key a i)) \<Longrightarrow>
   (\<And>a i. r_lookup R s' (used_key a i) = r_lookup R s (used_key a i)) \<Longrightarrow> abs_tokens R s' = abs_tokens R s"
  by (simp add: abs_tokens_def)

lemma token_shape: "index_ok R ttl s \<Longrightarrow> r_lookup R s (token_key a i) = Some e \<Longrightarrow> \<exists>h n. e = (RString h, Some n)"
  by (cases e) (metis index_ok_tokenD)

text \<open>The invariants make the abstraction faithful: a token is active exactly if its key is there.\<close>

lemma abs_verify:
  assumes "index_ok R ttl s" and "used_ok R s"
  shows "verify R C a i tok s = spec_verify C a i tok (abs_tokens R s)"
proof -
  have "spent (abs_tokens R s) (a, i) \<noteq> None \<longleftrightarrow> r_exists R s (used_key a i)"
    using assms(2) by (auto simp: abs_tokens_def used_ok_def r_exists_def split: option.split)
  then show ?thesis
    using token_shape [OF assms(1), of a i]
    by (cases "r_lookup R s (token_key a i)")
      (auto simp: verify_def spec_verify_def abs_tokens_def r_get_def split: if_splits)
qed

context redis
begin

lemma used_ok_step:
  assumes "used_ok R s" and "0 < ttl"
  shows "used_ok R (store_step R ttl e s)"
proof (cases "foreign e")
  case True
  then show ?thesis by (intro used_ok_frame [OF assms(1)] foreign_step) simp_all
next
  case False
  have "age_entry d x = Some (v, t) \<Longrightarrow> \<exists>t'. x = Some (v, t') \<and> (t' \<noteq> None \<longrightarrow> t \<noteq> None)" for d x v t
    by (cases "(d, x)" rule: age_entry.cases) (auto split: if_splits)
  then have "used_ok R (r_tick R d s)" for d
    using assms(1) unfolding used_ok_def lookup_tick by metis
  with False assms show ?thesis
    by (cases e) (auto simp: used_ok_def lookup_save lookup_rotate lookup_revoke split: if_splits)
qed

text \<open>The simulation, event by event.\<close>

lemma abs_tick:
  assumes "index_ok R ttl s" and "used_ok R s"
  shows "abs_tokens R (r_tick R d s) = spec_step ttl (Ev_tick d) (abs_tokens R s)"
proof -
  have "(case age_entry d (r_lookup R s (token_key a i)) of Some (RString h, Some n) \<Rightarrow> Some (h, n) | _ \<Rightarrow> None) =
      Option.bind (case r_lookup R s (token_key a i) of Some (RString h, Some n) \<Rightarrow> Some (h, n) | _ \<Rightarrow> None)
        (\<lambda>(h, n). map_option (Pair h) (left d n))" for a i
    using token_shape [OF assms(1), of a i]
    by (cases "r_lookup R s (token_key a i)") (auto simp: left_def)
  moreover have "(case age_entry d (r_lookup R s (used_key a i)) of Some (_, n) \<Rightarrow> n | None \<Rightarrow> None) =
      Option.bind (case r_lookup R s (used_key a i) of Some (_, n) \<Rightarrow> n | None \<Rightarrow> None) (left d)" for a i
    using assms(2) unfolding used_ok_def
    by (cases "r_lookup R s (used_key a i)") (fastforce simp: left_def)+
  ultimately show ?thesis by (simp add: abs_tokens_def lookup_tick fun_eq_iff)
qed

lemma abs_step:
  assumes "index_ok R ttl s" and "used_ok R s" and "0 < ttl"
  shows "abs_tokens R (store_step R ttl e s) = spec_step ttl e (abs_tokens R s)"
proof (cases "foreign e")
  case True
  then have "spec_step ttl e t = t" for t by (cases e) simp_all
  moreover have "abs_tokens R (store_step R ttl e s) = abs_tokens R s"
    using True by (intro abs_tokens_frame foreign_step) simp_all
  ultimately show ?thesis by simp
next
  case False
  then show ?thesis
    using assms(3) abs_tick [OF assms(1,2)]
    by (cases e) (simp_all add: abs_tokens_def lookup_save lookup_rotate lookup_revoke revoke_all_token [OF assms(1)] fun_eq_iff)
qed

lemma refines:
  assumes "index_ok R ttl s" and "used_ok R s" and "0 < ttl"
  shows "used_ok R (run_events R ttl es s) \<and>
    abs_tokens R (run_events R ttl es s) = fold (spec_step ttl) es (abs_tokens R s)"
  unfolding run_events_def using assms
  by (induction es arbitrary: s) (simp_all add: index_ok_store_step used_ok_step abs_step)

end

section \<open>Properties\<close>

text \<open>
  C10.  The token store refines its specification.  Start from a Redis without token keys and run any history of store
  operations, limiter and like commands and passing time: what the store holds abstracts to what the
  specification holds after the same history, \<open>verify\<close> gives the specified answer for every token (so a
  saved token is ACTIVE or FORGED until it expires, a rotated one REUSED for as long as it would have lived, a
  revoked one unknown), and \<open>revoke_all\<close> reports at least the number of active tokens.
\<close>

theorem store_refines_spec:
  assumes "redis R" and "0 < ttl" and "\<And>k. token_family k \<Longrightarrow> r_lookup R s0 k = None"
    and "s = run_events R ttl es s0"
    and "t = fold (spec_step ttl) es \<lparr>active = (\<lambda>_. None), spent = (\<lambda>_. None)\<rparr>"
  shows "abs_tokens R s = t \<and> verify R C a i tok s = spec_verify C a i tok t \<and>
    card {k. active t (a, k) \<noteq> None} \<le> fst (revoke_all R a s)"
proof -
  have s0: "index_ok R ttl s0" "used_ok R s0" "abs_tokens R s0 = \<lparr>active = (\<lambda>_. None), spent = (\<lambda>_. None)\<rparr>"
    using assms(3) by (simp_all add: redis.index_ok_empty [OF assms(1)] used_ok_def abs_tokens_def fun_eq_iff)
  note r = redis.refines [OF assms(1) s0(1,2) assms(2), of es, folded assms(4), unfolded s0(3), folded assms(5)]
  have ok: "index_ok R ttl s"
    unfolding assms(4) by (rule redis.index_ok_run [OF assms(1) s0(1) assms(2)])
  have "{k. active (abs_tokens R s) (a, k) \<noteq> None} \<subseteq> fset (revoke_all_read R a s)"
    using redis.live_in_index [OF assms(1) ok, of a]
    by (auto simp: abs_tokens_def live_def r_exists_def split: option.splits)
  then have "card {k. active t (a, k) \<noteq> None} \<le> fst (revoke_all R a s)"
    using r by (simp add: revoke_all_def Let_def fcard.rep_eq card_mono)
  with r ok show ?thesis by (simp add: abs_verify)
qed

theorem store_refines_spec_witness:
  "verify ref_redis demo_crypto 7 ''x'' ''tok''
     (run_events ref_redis 100 [Ev_save 7 ''x'' ''h'', Ev_rotate 7 ''x'' 40, Ev_tick 39] empty_store) = TS_REUSED \<and>
   verify ref_redis demo_crypto 7 ''x'' ''tok''
     (run_events ref_redis 100 [Ev_save 7 ''x'' ''h'', Ev_rotate 7 ''x'' 40, Ev_tick 40] empty_store) = TS_UNKNOWN"
  using store_refines_spec [OF ref_redis_ok _ _ refl refl, of 100 empty_store "[Ev_save 7 ''x'' ''h'', Ev_rotate 7 ''x'' 40, Ev_tick 39]"
      demo_crypto 7 "''x''" "''tok''"]
    store_refines_spec [OF ref_redis_ok _ _ refl refl, of 100 empty_store "[Ev_save 7 ''x'' ''h'', Ev_rotate 7 ''x'' 40, Ev_tick 40]"
      demo_crypto 7 "''x''" "''tok''"]
  by (simp add: spec_verify_def left_def)

end
