(* ===== verification/Database.thy ===== *)
theory Database
  imports Errors
begin

text \<open>
  The relational database behind the application: the rows of every table as the ORM models
  declare them, the session with its transaction, and the operations the repositories use.

  A table is the list of its rows in order of insertion.  The session knows the committed
  database and the working one (what the open transaction sees); \<open>commit\<close> makes the working one
  committed, \<open>rollback\<close> and closing the session throw it away.  AUTO_INCREMENT counters survive a
  rollback, as InnoDB's do.  One request is one session; other requests come before or after it,
  except where a race is modelled explicitly.  NOT NULL columns have a plain type, nullable ones
  an option; a flush that would violate NOT NULL or UNIQUE raises \<^verbatim>\<open>IntegrityError\<close>.
\<close>

section \<open>Column types\<close>

text \<open>
  A TEXT column holds 65535 bytes of UTF-8; MySQL's strict mode refuses a longer value (error 1406,
  SQLAlchemy's \<^verbatim>\<open>DataError\<close>) before the row is written.
\<close>

definition text_column_bytes :: nat where
  "text_column_bytes = 65535"

definition fits_text :: "utext \<Rightarrow> bool" where
  "fits_text v \<longleftrightarrow> length (utf8 v) \<le> text_column_bytes"

section \<open>Rows\<close>

datatype user_role = USER | ADMIN

record user =
  user_id :: int
  user_email :: string
  user_password_hash :: string
  user_nickname :: utext
  user_role :: user_role
  user_is_active :: bool
  user_created_at :: time
  user_updated_at :: time

datatype sanction_type = WARNING | SUSPENDED | BANNED

record user_sanction =
  user_sanction_id :: int
  us_reported_user_id :: int
  us_user_sanction_type :: sanction_type
  user_sanction_reason :: utext
  us_report_id :: int
  us_expires_at :: "time option"
  us_created_at :: time
  us_updated_at :: time

record menu =
  menu_id :: int
  menu_name :: utext
  menu_parent_id :: "int option"
  menu_deleted_at :: "time option"
  menu_created_at :: time
  menu_updated_at :: time

datatype post_status = PUBLISHED | HIDDEN | DELETED

record post =
  post_id :: int
  post_title :: utext
  post_content :: utext
  author_id :: int
  post_view_count :: int
  post_status :: post_status
  post_is_notice :: bool
  post_deleted_at :: "time option"
  post_created_at :: time
  post_updated_at :: time

record post_image =
  image_id :: int
  im_post_id :: int
  image_original_path :: string
  image_content_path :: string
  image_thumbnail_path :: string
  im_created_at :: time
  im_updated_at :: time

record post_like =
  like_id :: int
  lk_post_id :: int
  lk_user_id :: int
  lk_created_at :: time
  lk_updated_at :: time

record comment =
  comment_id :: int
  comment_content :: utext
  cm_post_id :: int
  cm_author_id :: int
  parent_comment_id :: "int option"
  cm_deleted_at :: "time option"
  cm_created_at :: time
  cm_updated_at :: time

datatype report_content_type = POST | COMMENT | USER_CONTENT
datatype report_status = PENDING | ACCEPTED | REJECTED

text \<open>
  \<open>rp_post_title\<close>, \<open>rp_post_content\<close> and \<open>rp_comment_content\<close> are declared \<^verbatim>\<open>str | None\<close> in Python but
  \<^verbatim>\<open>nullable=False\<close> in the table: the flush that inserts \<open>None\<close> there fails.
\<close>

record report =
  report_id :: int
  reporter_user_id :: "int option"
  report_content_type :: report_content_type
  rp_post_id :: "int option"
  rp_post_title :: "utext option"
  rp_post_content :: "utext option"
  rp_comment_id :: "int option"
  rp_comment_content :: "utext option"
  rp_reported_user_id :: int
  report_category :: utext
  report_reason :: "utext option"
  report_status :: report_status
  rp_user_sanction_type :: "sanction_type option"
  reviewer_user_id :: "int option"
  processed_at :: "time option"
  rp_created_at :: time
  rp_updated_at :: time

section \<open>The session\<close>

record db =
  users :: "user list"
  sanctions :: "user_sanction list"
  menus :: "menu list"
  posts :: "post list"
  images :: "post_image list"
  likes :: "post_like list"
  comments :: "comment list"
  reports :: "report list"

datatype table_name =
  T_users | T_sanctions | T_menus | T_posts | T_images | T_likes | T_comments | T_reports

record session =
  committed :: db
  working :: db
  seq :: "table_name \<Rightarrow> int"

definition commit :: "'x session_scheme \<Rightarrow> 'x session_scheme" where
  "commit s = s\<lparr>committed := working s\<rparr>"

definition rollback :: "'x session_scheme \<Rightarrow> 'x session_scheme" where
  "rollback s = s\<lparr>working := committed s\<rparr>"

definition on_db :: "(db \<Rightarrow> db) \<Rightarrow> 'x session_scheme \<Rightarrow> 'x session_scheme" where
  "on_db f s = s\<lparr>working := f (working s)\<rparr>"

text \<open>
  \<^verbatim>\<open>get_db\<close> around a request: the session is closed at the end, so what was not committed is gone,
  after an exception and after a normal return alike.
\<close>

definition get_db :: "('x session_scheme, exn, 'a) prog \<Rightarrow> ('x session_scheme, exn, 'a) prog" where
  "get_db m = (\<lambda>s. case m s of
     (Inl e, s') \<Rightarrow> (Inl e, rollback (rollback s'))
   | (Inr a, s') \<Rightarrow> (Inr a, rollback s'))"

text \<open>\<^verbatim>\<open>try: m except Exception: rollback; raise\<close>\<close>

definition or_rollback :: "('x session_scheme, exn, 'a) prog \<Rightarrow> ('x session_scheme, exn, 'a) prog" where
  "or_rollback m = catchP m (\<lambda>e. bindP (modifyP rollback) (\<lambda>_. raiseP e))"

text \<open>Generic statements; \<open>pk\<close>, \<open>rows\<close> and \<open>put\<close> name the table.\<close>

definition sel_pk :: "('row \<Rightarrow> int) \<Rightarrow> (db \<Rightarrow> 'row list) \<Rightarrow> int \<Rightarrow> 'x session_scheme \<Rightarrow> 'row option" where
  "sel_pk pk rows i s = find (\<lambda>r. pk r = i) (rows (working s))"

definition take_pk :: "table_name \<Rightarrow> 'x session_scheme \<Rightarrow> 'x session_scheme" where
  "take_pk t s = s\<lparr>seq := (seq s)(t := seq s t + 1)\<rparr>"

definition ins_row ::
  "table_name \<Rightarrow> (('row list \<Rightarrow> 'row list) \<Rightarrow> db \<Rightarrow> db) \<Rightarrow> (int \<Rightarrow> 'row) \<Rightarrow>
   ('x session_scheme, exn, 'row) prog" where
  "ins_row t put mk = (\<lambda>s. let r = mk (seq s t) in (Inr r, on_db (put (\<lambda>rs. rs @ [r])) (take_pk t s)))"

definition upd_pk ::
  "('row \<Rightarrow> int) \<Rightarrow> (('row list \<Rightarrow> 'row list) \<Rightarrow> db \<Rightarrow> db) \<Rightarrow> int \<Rightarrow> ('row \<Rightarrow> 'row) \<Rightarrow>
   'x session_scheme \<Rightarrow> 'x session_scheme" where
  "upd_pk pk put i f = on_db (put (map (\<lambda>r. if pk r = i then f r else r)))"

text \<open>
  The UPDATE the ORM emits at a flush: only if an attribute of the loaded row changed, and then
  \<open>onupdate\<close> sets \<open>updated_at\<close> (\<open>stamp\<close>).
\<close>

definition orm_update :: "('row \<Rightarrow> 'row) \<Rightarrow> ('row \<Rightarrow> 'row) \<Rightarrow> 'row \<Rightarrow> 'row" where
  "orm_update stamp f r = (if f r = r then r else stamp (f r))"

lemma commit_sel [simp]:
  "committed (commit s) = working s" "working (commit s) = working s" "seq (commit s) = seq s"
  "session.more (commit s) = session.more s"
  by (simp_all add: commit_def)

lemma rollback_sel [simp]:
  "committed (rollback s) = committed s" "working (rollback s) = committed s"
  "seq (rollback s) = seq s" "session.more (rollback s) = session.more s"
  by (simp_all add: rollback_def)

lemma on_db_sel [simp]:
  "committed (on_db f s) = committed s" "working (on_db f s) = f (working s)"
  "seq (on_db f s) = seq s" "session.more (on_db f s) = session.more s"
  by (simp_all add: on_db_def)

lemma take_pk_sel [simp]:
  "committed (take_pk t s) = committed s" "working (take_pk t s) = working s"
  "seq (take_pk t s) = (seq s)(t := seq s t + 1)" "session.more (take_pk t s) = session.more s"
  by (simp_all add: take_pk_def)

lemma ins_row_apply [prog_simps]:
  "ins_row t put mk s = (Inr (mk (seq s t)), on_db (put (\<lambda>rs. rs @ [mk (seq s t)])) (take_pk t s))"
  by (simp add: ins_row_def Let_def)

lemma upd_pk_sel [simp]:
  "committed (upd_pk pk put i f s) = committed s"
  "working (upd_pk pk put i f s) = put (map (\<lambda>r. if pk r = i then f r else r)) (working s)"
  "seq (upd_pk pk put i f s) = seq s" "session.more (upd_pk pk put i f s) = session.more s"
  by (simp_all add: upd_pk_def)

lemma get_db_error: "fst (m s) = Inl e \<Longrightarrow> committed (snd (get_db m s)) = committed (snd (m s))"
  by (cases "m s") (simp add: get_db_def)

lemma get_db_clean [simp]: "working (snd (get_db m s)) = committed (snd (get_db m s))"
  by (simp add: get_db_def split: prod.splits sum.splits)

lemma get_db_committed [simp]: "committed (snd (get_db m s)) = committed (snd (m s))"
  by (simp add: get_db_def split: prod.splits sum.splits)

lemma get_db_fst [simp]: "fst (get_db m s) = fst (m s)"
  by (simp add: get_db_def split: prod.splits sum.splits)

lemma or_rollback_run:
  "fst (or_rollback m s) = fst (m s)"
  "snd (or_rollback m s) = (case fst (m s) of Inl _ \<Rightarrow> rollback (snd (m s)) | Inr _ \<Rightarrow> snd (m s))"
  by (auto simp: or_rollback_def prog_simps split: prod.splits sum.splits)

text \<open>An operation either leaves the committed database alone or commits what it did.\<close>

definition settled :: "'x session_scheme \<Rightarrow> 'x session_scheme \<Rightarrow> bool" where
  "settled s t \<longleftrightarrow> committed t = committed s \<or> committed t = working t"

section \<open>Tables as an interface\<close>

text \<open>
  What a repository relies on: \<open>put\<close> changes the rows of its own table only through \<open>rows\<close>.
  Everything a repository needs to know about its statements follows.
\<close>

definition ids_ok :: "('row \<Rightarrow> int) \<Rightarrow> int \<Rightarrow> 'row list \<Rightarrow> bool" where
  "ids_ok pk n rs \<longleftrightarrow> distinct (map pk rs) \<and> (\<forall>r\<in>set rs. pk r < n)"

lemma ids_ok_append [intro]: "ids_ok pk n rs \<Longrightarrow> pk r = n \<Longrightarrow> ids_ok pk (n + 1) (rs @ [r])"
  by (fastforce simp: ids_ok_def)

lemma ids_ok_mono: "ids_ok pk n rs \<Longrightarrow> n \<le> m \<Longrightarrow> ids_ok pk m rs"
  by (force simp: ids_ok_def)

lemma ids_ok_map: "ids_ok pk n rs \<Longrightarrow> (\<And>r. pk (f r) = pk r) \<Longrightarrow> ids_ok pk n (map f rs)"
  by (simp add: ids_ok_def comp_def)

lemma ids_ok_filter: "ids_ok pk n rs \<Longrightarrow> ids_ok pk n (filter P rs)"
  by (simp add: ids_ok_def distinct_map_filter)

lemma ids_ok_distinct: "ids_ok pk n rs \<Longrightarrow> distinct (map pk rs)"
  by (simp add: ids_ok_def)

locale table =
  fixes pk :: "'row \<Rightarrow> int" and rows :: "db \<Rightarrow> 'row list"
    and put :: "('row list \<Rightarrow> 'row list) \<Rightarrow> db \<Rightarrow> db"
  assumes rows_put [simp]: "rows (put f d) = f (rows d)"
    and put_put: "put g (put f d) = put (g \<circ> f) d"
begin

lemma sel_working: "sel_pk pk rows i s = Some r \<Longrightarrow> r \<in> set (rows (working s)) \<and> pk r = i"
  by (auto simp: sel_pk_def dest: find_SomeD)

lemma sel_upd [simp]:
  assumes "\<And>r. pk (f r) = pk r"
  shows "sel_pk pk rows j (upd_pk pk put i f s) =
    (if j = i then map_option f (sel_pk pk rows j s) else sel_pk pk rows j s)"
proof -
  have "find (\<lambda>r. pk r = j) (map (\<lambda>r. if pk r = i then f r else r) rs) =
      (if j = i then map_option f (find (\<lambda>r. pk r = j) rs) else find (\<lambda>r. pk r = j) rs)" for rs
    by (induction rs) (auto simp: assms)
  then show ?thesis by (simp add: sel_pk_def)
qed

lemma sel_ins:
  assumes "ids_ok pk (seq s t) (rows (working s))" and "\<And>i. pk (mk i) = i"
  shows "sel_pk pk rows j (snd (ins_row t put mk s)) =
    (if j = seq s t then Some (mk (seq s t)) else sel_pk pk rows j s)"
proof -
  have "find (\<lambda>r. pk r = j) (rs @ [x]) =
      (if pk x = j \<and> j \<notin> pk ` set rs then Some x else find (\<lambda>r. pk r = j) rs)" for rs x
    by (induction rs) auto
  moreover have "seq s t \<notin> pk ` set (rows (working s))"
    using assms(1) by (force simp: ids_ok_def)
  ultimately show ?thesis
    using assms(2) by (auto simp: sel_pk_def ins_row_apply)
qed

lemma sel_unique:
  assumes "distinct (map pk (rows (working s)))"
  shows "sel_pk pk rows i s = Some r \<longleftrightarrow> r \<in> set (rows (working s)) \<and> pk r = i"
proof
  assume "sel_pk pk rows i s = Some r"
  then show "r \<in> set (rows (working s)) \<and> pk r = i" by (rule sel_working)
next
  assume "r \<in> set (rows (working s)) \<and> pk r = i"
  with assms show "sel_pk pk rows i s = Some r"
    unfolding sel_pk_def by (intro find_unique_Some) auto
qed

lemma one_or_none_pk:
  assumes "distinct (map pk (rows (working s)))"
  shows "one_or_none e (filter (\<lambda>r. pk r = i \<and> P r) (rows (working s))) =
    Inr (case sel_pk pk rows i s of None \<Rightarrow> None | Some r \<Rightarrow> if P r then Some r else None)"
  using one_or_none_unique [OF assms] by (simp add: sel_pk_def)

end

text \<open>Every table of the schema provides the interface.\<close>

interpretation users: table user_id users users_update
  by unfold_locales simp_all

interpretation sanctions: table user_sanction_id sanctions sanctions_update
  by unfold_locales simp_all

interpretation menus: table menu_id menus menus_update
  by unfold_locales simp_all

interpretation posts: table post_id posts posts_update
  by unfold_locales simp_all

interpretation images: table image_id images images_update
  by unfold_locales simp_all

interpretation likes: table like_id likes likes_update
  by unfold_locales simp_all

interpretation comments: table comment_id comments comments_update
  by unfold_locales simp_all

interpretation reports: table report_id reports reports_update
  by unfold_locales simp_all

section \<open>What the schema guarantees\<close>

text \<open>
  Primary keys are distinct and below the counter; e-mail addresses are unique up to the
  collation \<open>coll\<close> of the column; a user likes a post at most once.
\<close>

definition like_key :: "post_like \<Rightarrow> int \<times> int" where
  "like_key l = (lk_post_id l, lk_user_id l)"

definition schema_ok :: "(string \<Rightarrow> string) \<Rightarrow> (table_name \<Rightarrow> int) \<Rightarrow> db \<Rightarrow> bool" where
  "schema_ok coll q d \<longleftrightarrow>
     ids_ok user_id (q T_users) (users d) \<and> ids_ok user_sanction_id (q T_sanctions) (sanctions d) \<and>
     ids_ok menu_id (q T_menus) (menus d) \<and> ids_ok post_id (q T_posts) (posts d) \<and>
     ids_ok image_id (q T_images) (images d) \<and> ids_ok like_id (q T_likes) (likes d) \<and>
     ids_ok comment_id (q T_comments) (comments d) \<and> ids_ok report_id (q T_reports) (reports d) \<and>
     distinct (map (\<lambda>r. coll (user_email r)) (users d)) \<and> distinct (map like_key (likes d))"

definition session_ok :: "(string \<Rightarrow> string) \<Rightarrow> 'x session_scheme \<Rightarrow> bool" where
  "session_ok coll s \<longleftrightarrow> schema_ok coll (seq s) (committed s) \<and> schema_ok coll (seq s) (working s)"

lemma schema_ok_bump: "schema_ok coll q d \<Longrightarrow> schema_ok coll (q(t := q t + 1)) d"
  by (cases t) (auto simp: schema_ok_def intro: ids_ok_mono)

lemma session_ok_commit [intro]: "session_ok coll s \<Longrightarrow> session_ok coll (commit s)"
  by (simp add: session_ok_def)

lemma session_ok_rollback [intro]: "session_ok coll s \<Longrightarrow> session_ok coll (rollback s)"
  by (simp add: session_ok_def)

lemma session_ok_take_pk [intro]: "session_ok coll s \<Longrightarrow> session_ok coll (take_pk t s)"
  by (simp add: session_ok_def schema_ok_bump)

lemma session_ok_on_db:
  "session_ok coll s \<Longrightarrow> (schema_ok coll (seq s) (working s) \<Longrightarrow> schema_ok coll (seq s) (f (working s))) \<Longrightarrow>
   session_ok coll (on_db f s)"
  by (simp add: session_ok_def)

lemma session_ok_working: "session_ok coll s \<Longrightarrow> schema_ok coll (seq s) (working s)"
  by (simp add: session_ok_def)

lemma schema_ok_ids:
  assumes "schema_ok coll q d"
  shows "distinct (map user_id (users d))" and "distinct (map menu_id (menus d))"
    and "distinct (map post_id (posts d))" and "distinct (map comment_id (comments d))"
    and "distinct (map report_id (reports d))" and "distinct (map like_key (likes d))"
    and "distinct (map (\<lambda>r. coll (user_email r)) (users d))" and "distinct (map image_id (images d))"
  using assms by (simp_all add: schema_ok_def ids_ok_def)

text \<open>Statements that keep the schema, table by table.\<close>

lemma schema_ok_ins_users:
  "schema_ok coll q d \<Longrightarrow> user_id r = q T_users \<Longrightarrow> coll (user_email r) \<notin> (\<lambda>r. coll (user_email r)) ` set (users d) \<Longrightarrow>
   schema_ok coll (q(T_users := q T_users + 1)) (users_update (\<lambda>rs. rs @ [r]) d)"
  by (auto simp: schema_ok_def intro: ids_ok_append)

lemma schema_ok_ins_sanctions:
  "schema_ok coll q d \<Longrightarrow> user_sanction_id r = q T_sanctions \<Longrightarrow>
   schema_ok coll (q(T_sanctions := q T_sanctions + 1)) (sanctions_update (\<lambda>rs. rs @ [r]) d)"
  by (auto simp: schema_ok_def intro: ids_ok_append)

lemma schema_ok_ins_menus:
  "schema_ok coll q d \<Longrightarrow> menu_id r = q T_menus \<Longrightarrow>
   schema_ok coll (q(T_menus := q T_menus + 1)) (menus_update (\<lambda>rs. rs @ [r]) d)"
  by (auto simp: schema_ok_def intro: ids_ok_append)

lemma schema_ok_ins_posts:
  "schema_ok coll q d \<Longrightarrow> post_id r = q T_posts \<Longrightarrow>
   schema_ok coll (q(T_posts := q T_posts + 1)) (posts_update (\<lambda>rs. rs @ [r]) d)"
  by (auto simp: schema_ok_def intro: ids_ok_append)

lemma schema_ok_ins_images:
  "schema_ok coll q d \<Longrightarrow> image_id r = q T_images \<Longrightarrow>
   schema_ok coll (q(T_images := q T_images + 1)) (images_update (\<lambda>rs. rs @ [r]) d)"
  by (auto simp: schema_ok_def intro: ids_ok_append)

lemma schema_ok_ins_likes:
  "schema_ok coll q d \<Longrightarrow> like_id r = q T_likes \<Longrightarrow> like_key r \<notin> like_key ` set (likes d) \<Longrightarrow>
   schema_ok coll (q(T_likes := q T_likes + 1)) (likes_update (\<lambda>rs. rs @ [r]) d)"
  by (auto simp: schema_ok_def intro: ids_ok_append)

lemma schema_ok_ins_comments:
  "schema_ok coll q d \<Longrightarrow> comment_id r = q T_comments \<Longrightarrow>
   schema_ok coll (q(T_comments := q T_comments + 1)) (comments_update (\<lambda>rs. rs @ [r]) d)"
  by (auto simp: schema_ok_def intro: ids_ok_append)

lemma schema_ok_ins_reports:
  "schema_ok coll q d \<Longrightarrow> report_id r = q T_reports \<Longrightarrow>
   schema_ok coll (q(T_reports := q T_reports + 1)) (reports_update (\<lambda>rs. rs @ [r]) d)"
  by (auto simp: schema_ok_def intro: ids_ok_append)

lemma schema_ok_upd_menus:
  "schema_ok coll q d \<Longrightarrow> (\<And>r. menu_id (f r) = menu_id r) \<Longrightarrow> schema_ok coll q (menus_update (map f) d)"
  by (simp add: schema_ok_def ids_ok_map)

lemma schema_ok_upd_posts:
  "schema_ok coll q d \<Longrightarrow> (\<And>r. post_id (f r) = post_id r) \<Longrightarrow> schema_ok coll q (posts_update (map f) d)"
  by (simp add: schema_ok_def ids_ok_map)

lemma schema_ok_upd_comments:
  "schema_ok coll q d \<Longrightarrow> (\<And>r. comment_id (f r) = comment_id r) \<Longrightarrow> schema_ok coll q (comments_update (map f) d)"
  by (simp add: schema_ok_def ids_ok_map)

lemma schema_ok_upd_reports:
  "schema_ok coll q d \<Longrightarrow> (\<And>r. report_id (f r) = report_id r) \<Longrightarrow> schema_ok coll q (reports_update (map f) d)"
  by (simp add: schema_ok_def ids_ok_map)

lemma schema_ok_upd_users:
  assumes "schema_ok coll q d" and "\<And>r. user_id (f r) = user_id r" and "\<And>r. user_email (f r) = user_email r"
  shows "schema_ok coll q (users_update (map f) d)"
  using assms by (simp add: schema_ok_def ids_ok_map comp_def)

lemma schema_ok_filter_likes:
  "schema_ok coll q d \<Longrightarrow> schema_ok coll q (likes_update (filter P) d)"
  by (simp add: schema_ok_def ids_ok_filter distinct_map_filter)

lemma session_ok_ins:
  assumes "session_ok coll s"
    and "schema_ok coll (seq s) (working s) \<Longrightarrow>
      schema_ok coll ((seq s)(t := seq s t + 1)) (put (\<lambda>rs. rs @ [mk (seq s t)]) (working s))"
  shows "session_ok coll (snd (ins_row t put mk s))"
  using assms by (simp add: session_ok_def ins_row_apply schema_ok_bump)

lemma session_ok_upd:
  assumes "session_ok coll s"
    and "schema_ok coll (seq s) (working s) \<Longrightarrow>
      schema_ok coll (seq s) (put (map (\<lambda>r. if pk r = i then f r else r)) (working s))"
  shows "session_ok coll (upd_pk pk put i f s)"
  using assms by (simp add: session_ok_def)

lemma keeps_commit [intro!, simp]: "keeps (session_ok coll) (modifyP commit)"
  by (auto simp: keeps_def modifyP_def)

lemma keeps_rollback [intro!, simp]: "keeps (session_ok coll) (modifyP rollback)"
  by (auto simp: keeps_def modifyP_def)

lemma keeps_get_db: "keeps (session_ok coll) m \<Longrightarrow> keeps (session_ok coll) (get_db m)"
proof (rule keepsI)
  fix s :: "'a session_scheme" assume "keeps (session_ok coll) m" and "session_ok coll s"
  then have "session_ok coll (snd (m s))" by (rule keepsD)
  then show "session_ok coll (snd (get_db m s))"
    by (cases "m s") (auto simp: get_db_def split: sum.splits)
qed

lemma orm_update_pk:
  "(\<And>r. pk (f r) = pk r) \<Longrightarrow> (\<And>r. pk (g r) = pk r) \<Longrightarrow> pk (orm_update g f r) = pk r"
  by (simp add: orm_update_def)

definition empty_db :: db where
  "empty_db = \<lparr>users = [], sanctions = [], menus = [], posts = [], images = [], likes = [],
     comments = [], reports = []\<rparr>"

lemma schema_ok_empty: "schema_ok coll q empty_db"
  by (simp add: schema_ok_def empty_db_def ids_ok_def)

end
