(* ===== verification/Pagination.thy ===== *)
theory Pagination
  imports Prelude
begin

text \<open>
  \<^verbatim>\<open>common/pagination.py\<close>: page parameters, the response envelope with its page count, and the lemmas
  every paged list uses (\<open>page_of\<close> is \<^verbatim>\<open>OFFSET .. LIMIT ..\<close>).
\<close>

definition MAX_PAGE_SIZE :: int where "MAX_PAGE_SIZE = 100"
definition DEFAULT_PAGE_SIZE :: int where "DEFAULT_PAGE_SIZE = 20"

record page_params =
  page :: int
  page_size :: int

text \<open>The constructor with pydantic's constraints; \<open>None\<close> is a validation error.\<close>

definition PageParams :: "int option \<Rightarrow> int option \<Rightarrow> page_params option" where
  "PageParams p n =
     (let pg = (case p of None \<Rightarrow> 1 | Some x \<Rightarrow> x);
          sz = (case n of None \<Rightarrow> DEFAULT_PAGE_SIZE | Some x \<Rightarrow> x)
      in if pg \<ge> 1 \<and> 1 \<le> sz \<and> sz \<le> MAX_PAGE_SIZE then Some \<lparr>page = pg, page_size = sz\<rparr> else None)"

definition offset :: "page_params \<Rightarrow> int" where
  "offset p = (page p - 1) * page_size p"

definition limit :: "page_params \<Rightarrow> int" where
  "limit p = page_size p"

record 'a page_response =
  items :: "'a list"
  total :: int
  pr_page :: int
  pr_size :: int
  total_pages :: int

definition page_response_create :: "'a list \<Rightarrow> int \<Rightarrow> page_params \<Rightarrow> 'a page_response" where
  "page_response_create xs n p =
     \<lparr>items = xs, total = n, pr_page = page p, pr_size = page_size p,
      total_pages = (if n \<noteq> 0 then (n + page_size p - 1) div page_size p else 0)\<rparr>"

text \<open>\<^verbatim>\<open>OFFSET o LIMIT l\<close> of the database.\<close>

definition page_of :: "page_params \<Rightarrow> 'a list \<Rightarrow> 'a list" where
  "page_of p xs = take (nat (limit p)) (drop (nat (offset p)) xs)"

definition params_ok :: "page_params \<Rightarrow> bool" where
  "params_ok p \<longleftrightarrow> 1 \<le> page p \<and> 1 \<le> page_size p \<and> page_size p \<le> MAX_PAGE_SIZE"

lemma PageParams_ok: "PageParams a b = Some p \<Longrightarrow> params_ok p"
  by (auto simp: PageParams_def params_ok_def Let_def split: if_splits)

lemma set_page_of: "set (page_of p xs) \<subseteq> set xs"
  unfolding page_of_def by (meson order_trans set_drop_subset set_take_subset)

lemma length_page_of: "params_ok p \<Longrightarrow> length (page_of p xs) \<le> nat MAX_PAGE_SIZE"
  by (auto simp: page_of_def params_ok_def limit_def MAX_PAGE_SIZE_def min_def)

lemma distinct_page_of: "distinct xs \<Longrightarrow> distinct (page_of p xs)"
  by (simp add: page_of_def)

lemma sorted_wrt_page_of: "sorted_wrt P xs \<Longrightarrow> sorted_wrt P (page_of p xs)"
  by (simp add: page_of_def sorted_wrt_take sorted_wrt_drop)

lemma map_page_of: "map f (page_of p xs) = page_of p (map f xs)"
  by (simp add: page_of_def take_map drop_map)

text \<open>The ceiling of \<open>n / s\<close>.\<close>

lemma ceiling_pages:
  fixes n s :: int
  assumes "0 < s" and "0 \<le> n" and "m = (if n \<noteq> 0 then (n + s - 1) div s else 0)"
  shows "n \<le> m * s \<and> (m - 1) * s < n + (if n = 0 then 1 else 0) \<and> 0 \<le> m"
proof (cases "n = 0")
  case True
  with assms show ?thesis by simp
next
  case False
  have m: "m = (n + s - 1) div s" using False assms(3) by simp
  have e: "n + s - 1 = m * s + (n + s - 1) mod s"
    using m by (simp add: mult.commute)
  have b: "0 \<le> (n + s - 1) mod s" "(n + s - 1) mod s < s"
    using assms(1) by simp_all
  have "0 \<le> m"
    using False assms m by (simp add: pos_imp_zdiv_nonneg_iff)
  moreover have "(m - 1) * s = m * s - s" by (simp add: algebra_simps)
  ultimately show ?thesis using e b False by simp
qed

text \<open>The pages, concatenated, are the whole list; \<open>chunk\<close> is the page number \<open>k\<close> (from 0).\<close>

definition chunk :: "nat \<Rightarrow> nat \<Rightarrow> 'a list \<Rightarrow> 'a list" where
  "chunk s k xs = take s (drop (k * s) xs)"

lemma concat_chunks_take: "concat (map (\<lambda>k. chunk s k xs) [0..<m]) = take (m * s) xs"
  by (induction m) (simp_all add: chunk_def take_add [symmetric] add.commute)

lemma page_of_chunk:
  "1 \<le> page p \<Longrightarrow> 1 \<le> page_size p \<Longrightarrow> page_of p xs = chunk (nat (page_size p)) (nat (page p - 1)) xs"
  by (simp add: page_of_def chunk_def limit_def offset_def nat_mult_distrib)

lemma concat_pages:
  assumes "1 \<le> s"
  shows "concat (map (\<lambda>k. page_of \<lparr>page = int k, page_size = s\<rparr> xs)
    [1..<nat (total_pages (page_response_create ys (int (length xs)) \<lparr>page = q, page_size = s\<rparr>)) + 1]) = xs"
proof -
  define m where "m = total_pages (page_response_create ys (int (length xs)) \<lparr>page = q, page_size = s\<rparr>)"
  have m: "int (length xs) \<le> m * s" "0 \<le> m"
    using ceiling_pages [of s "int (length xs)" m] assms
    by (auto simp: m_def page_response_create_def)
  have "concat (map (\<lambda>k. page_of \<lparr>page = int k, page_size = s\<rparr> xs) [1..<nat m + 1]) =
      concat (map (\<lambda>k. chunk (nat s) k xs) [0..<nat m])"
    unfolding map_Suc_upt [symmetric, of 0, simplified] One_nat_def
    using assms by (simp add: page_of_chunk comp_def map_Suc_upt [symmetric] del: upt_Suc)
  also have "\<dots> = take (nat m * nat s) xs"
    by (rule concat_chunks_take)
  also have "\<dots> = xs"
    using m assms by (simp flip: nat_mult_distrib)
  finally show ?thesis unfolding m_def .
qed

section \<open>Properties\<close>

text \<open>
  The page count the server reports is right: the pages 1 to \<open>total_pages\<close>, one after the other,
  are exactly the whole list, every one of them is non-empty, and a page after the last is empty.
\<close>

theorem pages_cover:
  assumes "params_ok p" and "m = total_pages (page_response_create ys (int (length xs)) p)"
  shows "concat (map (\<lambda>k. page_of (p\<lparr>page := int k\<rparr>) xs) [1..<nat m + 1]) = xs \<and>
    (page_of p xs \<noteq> [] \<longleftrightarrow> page p \<le> m)"
proof -
  have s: "1 \<le> page_size p" "1 \<le> page p" using assms(1) by (simp_all add: params_ok_def)
  have m: "int (length xs) \<le> m * page_size p" "(m - 1) * page_size p < int (length xs) + (if xs = [] then 1 else 0)"
    "0 \<le> m"
    using ceiling_pages [of "page_size p" "int (length xs)" m] s assms(2)
    by (simp_all add: page_response_create_def)
  have "page_of p xs \<noteq> [] \<longleftrightarrow> (page p - 1) * page_size p < int (length xs)"
  proof -
    have "0 \<le> offset p" using s by (simp add: offset_def)
    then have "nat (offset p) < length xs \<longleftrightarrow> offset p < int (length xs)" by linarith
    then show ?thesis using s by (simp add: page_of_def limit_def offset_def not_le)
  qed
  also have "\<dots> \<longleftrightarrow> page p \<le> m"
  proof
    assume a: "(page p - 1) * page_size p < int (length xs)"
    have "(page p - 1) * page_size p < m * page_size p" using a m(1) by simp
    then have "page p - 1 < m" using s(1) by (simp add: mult_less_cancel_right)
    then show "page p \<le> m" by simp
  next
    assume a: "page p \<le> m"
    then have "xs \<noteq> []" using s assms(2) by (auto simp: page_response_create_def)
    moreover have "(page p - 1) * page_size p \<le> (m - 1) * page_size p"
      using a s(1) by (simp add: mult_right_mono)
    ultimately show "(page p - 1) * page_size p < int (length xs)" using m(2) by simp
  qed
  finally have "page_of p xs \<noteq> [] \<longleftrightarrow> page p \<le> m" .
  moreover have "p\<lparr>page := int k\<rparr> = \<lparr>page = int k, page_size = page_size p\<rparr>" for k by (cases p) simp
  moreover have "p = \<lparr>page = page p, page_size = page_size p\<rparr>" by (cases p) simp
  ultimately show ?thesis
    using concat_pages [OF s(1), of xs ys "page p"] assms(2) by (metis (no_types, lifting) map_eq_conv)
qed

theorem pages_cover_witness:
  "concat (map (\<lambda>k. page_of \<lparr>page = int k, page_size = 2\<rparr> [7, 8, 9]) [1..<3]) = [7, 8, 9::nat] \<and>
   page_of \<lparr>page = 2, page_size = 2\<rparr> [7, 8, 9::nat] \<noteq> []"
  using pages_cover [of "\<lparr>page = 2, page_size = 2\<rparr>" 2 "[]" "[7, 8, 9::nat]"]
  by (simp add: params_ok_def MAX_PAGE_SIZE_def page_response_create_def eval_nat_numeral)

end
