(* ===== verification/Users.thy ===== *)
theory Users
  imports Database Security Pagination
begin

text \<open>
  \<^verbatim>\<open>modules/users\<close>: request schemas, \<^verbatim>\<open>UserRepository\<close>, \<^verbatim>\<open>UserService\<close>, the response and the sanction
  repository.  \<open>coll\<close> is the collation of the e-mail column (MySQL compares \<open>coll x\<close> with \<open>coll y\<close>),
  \<open>norm_email\<close> is pydantic's \<^verbatim>\<open>EmailStr\<close> (\<open>None\<close> refuses the address).
\<close>

section \<open>Schemas\<close>

definition validate_password_bytes :: "utext \<Rightarrow> message + utext" where
  "validate_password_bytes v =
     (if length (utf8 v) > bcrypt_max_password_bytes then Inl MsgPasswordBytes else Inr v)"

definition PasswordStr :: "utext \<Rightarrow> utext option" where
  "PasswordStr v =
     (if 8 \<le> length v \<and> length v \<le> bcrypt_max_password_bytes
      then (case validate_password_bytes v of Inl e \<Rightarrow> None | Inr w \<Rightarrow> Some w) else None)"

definition NicknameStr :: "utext \<Rightarrow> utext option" where
  "NicknameStr v = (let w = trim_text v in if 2 \<le> length w \<and> length w \<le> 50 then Some w else None)"

record user_create_body =
  uc_email :: string
  uc_password :: utext
  uc_nickname :: utext

definition UserCreate :: "(string \<Rightarrow> string option) \<Rightarrow> string \<Rightarrow> utext \<Rightarrow> utext \<Rightarrow> user_create_body option" where
  "UserCreate norm_email e p n =
     (case (norm_email e, PasswordStr p, NicknameStr n) of
        (Some e', Some p', Some n') \<Rightarrow> Some \<lparr>uc_email = e', uc_password = p', uc_nickname = n'\<rparr>
      | _ \<Rightarrow> None)"

definition UserUpdate :: "utext sent \<Rightarrow> utext sent option" where
  "UserUpdate n = sent_valid NicknameStr n"

record user_response =
  ur_user_id :: int
  ur_user_email :: string
  ur_user_nickname :: utext
  ur_user_role :: user_role
  ur_user_is_active :: bool
  ur_user_created_at :: time

definition user_response_of :: "user \<Rightarrow> user_response" where
  "user_response_of r =
     \<lparr>ur_user_id = user_id r, ur_user_email = user_email r, ur_user_nickname = user_nickname r,
      ur_user_role = user_role r, ur_user_is_active = user_is_active r,
      ur_user_created_at = user_created_at r\<rparr>"

section \<open>Repository\<close>

definition user_get_by_id :: "int \<Rightarrow> 'x session_scheme \<Rightarrow> user option" where
  "user_get_by_id uid s = sel_pk user_id users uid s"

definition user_get_by_email ::
  "(string \<Rightarrow> string) \<Rightarrow> string \<Rightarrow> 'x session_scheme \<Rightarrow> exn + user option" where
  "user_get_by_email coll e s =
     one_or_none (SQLAlchemyError MultipleResultsFound)
       (filter (\<lambda>r. coll (user_email r) = coll e) (users (working s)))"

definition exists_by_email :: "(string \<Rightarrow> string) \<Rightarrow> string \<Rightarrow> 'x session_scheme \<Rightarrow> bool" where
  "exists_by_email coll e s \<longleftrightarrow>
     length (filter (\<lambda>r. coll (user_email r) = coll e) (users (working s))) \<noteq> 0"

definition user_list_paginated :: "page_params \<Rightarrow> 'x session_scheme \<Rightarrow> user list \<times> int" where
  "user_list_paginated params s =
     (let total = int (length (users (working s)))
      in (page_of params (sort_key (\<lambda>r. - user_id r) (users (working s))), total))"

text \<open>
  \<open>add\<close> with the flush: the UNIQUE index on \<open>user_email\<close> is checked after the counter was taken.
  The role, the activity flag and the time stamps are the column defaults.
\<close>

definition user_add ::
  "(string \<Rightarrow> string) \<Rightarrow> time \<Rightarrow> string \<Rightarrow> string \<Rightarrow> utext \<Rightarrow> ('x session_scheme, exn, user) prog" where
  "user_add coll now e h n =
     (\<lambda>s. if exists_by_email coll e s then (Inl (SQLAlchemyError IntegrityError), take_pk T_users s)
       else ins_row T_users users_update
              (\<lambda>i. \<lparr>user_id = i, user_email = e, user_password_hash = h, user_nickname = n,
                    user_role = USER, user_is_active = True, user_created_at = now,
                    user_updated_at = now\<rparr>) s)"

section \<open>Service\<close>

definition user_get :: "int \<Rightarrow> ('x session_scheme, exn, user) prog" where
  "user_get uid = bindP (getsP (user_get_by_id uid)) (\<lambda>r.
     case r of None \<Rightarrow> raiseP (AppError (NotFoundError (Some MsgUserNotFound))) | Some x \<Rightarrow> returnP x)"

definition list_users :: "page_params \<Rightarrow> ('x session_scheme, exn, user list \<times> int) prog" where
  "list_users params = getsP (user_list_paginated params)"

text \<open>
  \<open>env\<close> is what other requests commit between the first look-up and the INSERT; \<open>salt\<close> is bcrypt's.
\<close>

definition user_create ::
  "crypto \<Rightarrow> (string \<Rightarrow> string) \<Rightarrow> ('x session_scheme \<Rightarrow> 'x session_scheme) \<Rightarrow> string \<Rightarrow> time \<Rightarrow>
   user_create_body \<Rightarrow> ('x session_scheme, exn, user) prog" where
  "user_create C coll env salt now body =
     bindP (getsP (exists_by_email coll (uc_email body))) (\<lambda>dup.
     if dup then raiseP (AppError (ConflictError (Some MsgEmailTaken)))
     else bindP (liftP (hash_password C salt (uc_password body))) (\<lambda>h.
       bindP (modifyP env) (\<lambda>_.
       catchP
         (bindP (user_add coll now (uc_email body) h (uc_nickname body)) (\<lambda>r.
          bindP (modifyP commit) (\<lambda>_. returnP r)))
         (\<lambda>e. if e = SQLAlchemyError IntegrityError
              then bindP (modifyP rollback) (\<lambda>_.
                   bindP (getsP (exists_by_email coll (uc_email body))) (\<lambda>dup'.
                   if dup' then raiseP (AppError (ConflictError (Some MsgEmailTaken)))
                   else raiseP e))
              else raiseP e))))"

definition stamp_user :: "time \<Rightarrow> user \<Rightarrow> user" where
  "stamp_user now r = r\<lparr>user_updated_at := now\<rparr>"

text \<open>
  \<^verbatim>\<open>setattr\<close> for the fields that were sent, then the flush.  A \<^verbatim>\<open>null\<close> nickname passes the schema and
  violates NOT NULL at the flush.
\<close>

definition user_update :: "time \<Rightarrow> int \<Rightarrow> utext sent \<Rightarrow> ('x session_scheme, exn, unit) prog" where
  "user_update now uid nick =
     (case nick of
        Null \<Rightarrow> raiseP (SQLAlchemyError IntegrityError)
      | Unset \<Rightarrow> modifyP commit
      | Sent v \<Rightarrow>
          bindP (modifyP (upd_pk user_id users_update uid
                   (orm_update (stamp_user now) (\<lambda>r. r\<lparr>user_nickname := v\<rparr>)))) (\<lambda>_.
          modifyP commit))"

definition user_deactivate :: "time \<Rightarrow> int \<Rightarrow> ('x session_scheme, exn, unit) prog" where
  "user_deactivate now uid =
     bindP (modifyP (upd_pk user_id users_update uid
              (orm_update (stamp_user now) (\<lambda>r. r\<lparr>user_is_active := False\<rparr>)))) (\<lambda>_.
     modifyP commit)"

section \<open>Sanctions\<close>

definition add_user_sanction ::
  "time \<Rightarrow> int \<Rightarrow> sanction_type \<Rightarrow> utext \<Rightarrow> int \<Rightarrow> time option \<Rightarrow>
   ('x session_scheme, exn, user_sanction) prog" where
  "add_user_sanction now uid ty why rid ex =
     ins_row T_sanctions sanctions_update
       (\<lambda>i. \<lparr>user_sanction_id = i, us_reported_user_id = uid, us_user_sanction_type = ty,
             user_sanction_reason = why, us_report_id = rid, us_expires_at = ex,
             us_created_at = now, us_updated_at = now\<rparr>)"

section \<open>Lemmas\<close>

lemma stamp_user_pk [simp]: "user_id (stamp_user now r) = user_id r" "user_email (stamp_user now r) = user_email r"
  by (simp_all add: stamp_user_def)

lemma exists_by_email_iff: "exists_by_email coll e s \<longleftrightarrow> coll e \<in> (\<lambda>r. coll (user_email r)) ` set (users (working s))"
  by (force simp: exists_by_email_def filter_empty_conv)

lemma get_by_email_unique:
  assumes "distinct (map (\<lambda>r. coll (user_email r)) (users (working s)))"
  shows "user_get_by_email coll e s =
    Inr (find (\<lambda>r. coll (user_email r) = coll e) (users (working s)))"
  using one_or_none_unique [OF assms, of _ "coll e" "\<lambda>_. True"]
  by (cases "find (\<lambda>r. coll (user_email r) = coll e) (users (working s))")
    (simp_all add: user_get_by_email_def)

lemma user_add_cases:
  "user_add coll now e h n s =
     (if exists_by_email coll e s then (Inl (SQLAlchemyError IntegrityError), take_pk T_users s)
      else (Inr \<lparr>user_id = seq s T_users, user_email = e, user_password_hash = h, user_nickname = n,
              user_role = USER, user_is_active = True, user_created_at = now, user_updated_at = now\<rparr>,
            on_db (users_update (\<lambda>rs. rs @ [\<lparr>user_id = seq s T_users, user_email = e,
              user_password_hash = h, user_nickname = n, user_role = USER, user_is_active = True,
              user_created_at = now, user_updated_at = now\<rparr>])) (take_pk T_users s)))"
  by (simp add: user_add_def ins_row_apply)

lemma keeps_user_add [intro!, simp]: "keeps (session_ok coll) (user_add coll now e h n)"
  by (rule keepsI)
    (auto simp: user_add_def exists_by_email_iff intro!: session_ok_ins schema_ok_ins_users)

lemma keeps_user_create:
  assumes "\<And>s. session_ok coll s \<Longrightarrow> session_ok coll (env s)"
  shows "keeps (session_ok coll) (user_create C coll env salt now body)"
proof -
  have "keeps (session_ok coll) (modifyP env)"
    using assms by (simp add: keeps_def modifyP_def)
  then show ?thesis
    unfolding user_create_def by (auto intro!: keeps_bindP keeps_catchP)
qed

lemma keeps_user_write:
  assumes "\<And>r. user_id (f r) = user_id r" and "\<And>r. user_email (f r) = user_email r"
  shows "keeps (session_ok coll) (modifyP (upd_pk user_id users_update uid f))"
  using assms
  by (auto simp: keeps_def modifyP_def intro!: session_ok_upd schema_ok_upd_users)

lemma keeps_user_update: "keeps (session_ok coll) (user_update now uid nick)"
  unfolding user_update_def
  by (cases nick) (auto intro!: keeps_bindP keeps_user_write simp: orm_update_pk)

lemma keeps_user_deactivate: "keeps (session_ok coll) (user_deactivate now uid)"
  unfolding user_deactivate_def
  by (auto intro!: keeps_bindP keeps_user_write simp: orm_update_pk)

section \<open>Properties\<close>

lemma UserCreate_bytes: "UserCreate norm_email e p n = Some b \<Longrightarrow> length (utf8 (uc_password b)) \<le> 72"
  by (auto simp: UserCreate_def PasswordStr_def validate_password_bytes_def bcrypt_max_password_bytes_def
      split: option.splits if_splits sum.splits)

lemma hash_password_ok: "length (utf8 p) \<le> 72 \<Longrightarrow> hash_password C salt p = Inr (bcrypt_hashpw C (utf8 p) salt)"
  by (simp add: hash_password_def Let_def bcrypt_max_password_bytes_def)

text \<open>
  C28.  Sign-up.  For a body the schema accepts, and whatever other requests commit between the
  look-up and the INSERT: either the address was free both times, and exactly one new active
  account with role USER was committed whose hash verifies the password; or the address was taken
  (before, or by the race), and the answer is the same 409 with nothing added.  No other outcome,
  in particular no database error, and the schema's uniqueness holds afterwards.
\<close>

theorem signup_contract:
  fixes s :: "'x session_scheme"
  assumes "crypto_ok C" and "session_ok coll s"
    and "\<And>s. session_ok coll s \<Longrightarrow> session_ok coll (env s) \<and> working (env s) = committed (env s)"
    and "UserCreate norm_email e p n = Some body"
    and "user_create C coll env salt now body s = (r, t)"
  shows "session_ok coll t \<and>
    (case r of
       Inl x \<Rightarrow> x = AppError (ConflictError (Some MsgEmailTaken)) \<and>
         (exists_by_email coll (uc_email body) s \<and> t = s \<or>
          exists_by_email coll (uc_email body) (env s) \<and> committed t = committed (env s))
     | Inr x \<Rightarrow> \<not> exists_by_email coll (uc_email body) s \<and> \<not> exists_by_email coll (uc_email body) (env s) \<and>
         users (committed t) = users (committed (env s)) @ [x] \<and> user_email x = uc_email body \<and>
         user_role x = USER \<and> user_is_active x \<and>
         verify_password C (uc_password body) (user_password_hash x))"
proof -
  have h: "hash_password C salt (uc_password body) = Inr (bcrypt_hashpw C (utf8 (uc_password body)) salt)"
    using assms(4) by (simp add: hash_password_ok UserCreate_bytes)
  then have v: "verify_password C (uc_password body) (bcrypt_hashpw C (utf8 (uc_password body)) salt)"
    using assms(1) by (rule verify_hash_password [rotated])
  have "session_ok coll (snd (user_create C coll env salt now body s))"
    using keeps_user_create [of coll env] assms(2,3) by (blast intro: keepsD)
  moreover have "working (env s) = committed (env s)"
    using assms(2,3) by blast
  ultimately show ?thesis
    using assms(5) h v
    by (auto simp: user_create_def user_add_cases prog_simps exists_by_email_def split: if_splits)
qed

definition demo_session :: "user list \<Rightarrow> session" where
  "demo_session us =
     \<lparr>committed = empty_db\<lparr>users := us\<rparr>, working = empty_db\<lparr>users := us\<rparr>,
      seq = (\<lambda>t. 100)\<rparr>"

definition demo_user :: "int \<Rightarrow> string \<Rightarrow> user" where
  "demo_user i e = \<lparr>user_id = i, user_email = e, user_password_hash = ''h'', user_nickname = u ''nick'',
     user_role = USER, user_is_active = True, user_created_at = 1, user_updated_at = 1\<rparr>"

theorem signup_contract_witness:
  "users (committed (snd (user_create demo_crypto lower rollback ''salt'' 5
      \<lparr>uc_email = ''a@x'', uc_password = u ''password'', uc_nickname = u ''nick''\<rparr>
      (demo_session [demo_user 1 ''b@x''])))) \<noteq> [] \<and>
   fst (user_create demo_crypto lower rollback ''salt'' 5
      \<lparr>uc_email = ''A@x'', uc_password = u ''password'', uc_nickname = u ''nick''\<rparr>
      (demo_session [demo_user 1 ''a@x''])) = Inl (AppError (ConflictError (Some MsgEmailTaken)))"
proof -
  have ok: "session_ok lower (demo_session [demo_user i e])" if "i < 100" for i e
    using that by (simp add: session_ok_def schema_ok_def demo_session_def empty_db_def ids_ok_def demo_user_def)
  have body: "UserCreate Some e (u ''password'') (u ''nick'') =
      Some \<lparr>uc_email = e, uc_password = u ''password'', uc_nickname = u ''nick''\<rparr>" for e
    by (simp add: UserCreate_def PasswordStr_def NicknameStr_def validate_password_bytes_def
        bcrypt_max_password_bytes_def utf8_def utf8_char_def u_def trim_text_def strip_by_def white_space_def Let_def)
  have env: "session_ok lower (rollback s) \<and> working (rollback s) = committed (rollback s)"
    if "session_ok lower s" for s :: session
    using that by auto
  let ?b = "\<lambda>e. \<lparr>uc_email = e, uc_password = u ''password'', uc_nickname = u ''nick''\<rparr>"
  have l: "lower ''A@x'' = ''a@x''" "lower ''a@x'' = ''a@x''" "lower ''b@x'' = ''b@x''"
    by code_simp+
  have dup: "exists_by_email lower ''A@x'' (demo_session [demo_user 1 ''a@x''])"
    by (simp add: exists_by_email_def demo_session_def demo_user_def l)
  obtain r1 t1 where r1: "user_create demo_crypto lower rollback ''salt'' 5 (?b ''A@x'')
      (demo_session [demo_user 1 ''a@x'']) = (r1, t1)"
    by (rule prod.exhaust)
  obtain r2 t2 where r2: "user_create demo_crypto lower rollback ''salt'' 5 (?b ''a@x'')
      (demo_session [demo_user 1 ''b@x'']) = (r2, t2)"
    by (rule prod.exhaust)
  have "r1 = Inl (AppError (ConflictError (Some MsgEmailTaken)))"
    using signup_contract [OF demo_crypto_ok ok env body r1] dup by (cases r1) auto
  moreover have "\<not> exists_by_email lower ''a@x'' (demo_session [demo_user 1 ''b@x''])"
    "\<not> exists_by_email lower ''a@x'' (rollback (demo_session [demo_user 1 ''b@x'']))"
    by (simp_all add: exists_by_email_def demo_session_def demo_user_def l)
  then have "users (committed t2) \<noteq> []"
    using signup_contract [OF demo_crypto_ok ok env body r2] by (cases r2) auto
  ultimately show ?thesis using r1 r2 by simp
qed

text \<open>
  Profile update of an existing account inside a request.  A nickname that is not sent
  leaves the account as it is; a nickname that is sent changes the nickname of that account, its
  \<open>updated_at\<close> exactly if the nickname is a different one, and nothing of any other account; an
  explicit \<open>null\<close>, which the schema admits, is answered by a database error (a 500) and changes
  nothing.
\<close>

theorem profile_update:
  fixes s :: "'x session_scheme"
  assumes "user_get_by_id uid s = Some r" and "working s = committed s"
    and "t = snd (get_db (user_update now uid nick) s)"
  shows "(case nick of
      Unset \<Rightarrow> fst (get_db (user_update now uid nick) s) = Inr () \<and> committed t = committed s
    | Null \<Rightarrow> fst (get_db (user_update now uid nick) s) = Inl (SQLAlchemyError IntegrityError) \<and> committed t = committed s
    | Sent v \<Rightarrow> fst (get_db (user_update now uid nick) s) = Inr () \<and>
        user_get_by_id uid t = Some (r\<lparr>user_nickname := v,
          user_updated_at := if user_nickname r = v then user_updated_at r else now\<rparr>)) \<and>
    (\<forall>j. j \<noteq> uid \<longrightarrow> user_get_by_id j t = user_get_by_id j s)"
proof (cases nick)
  case (Sent v)
  let ?f = "orm_update (stamp_user now) (\<lambda>r. r\<lparr>user_nickname := v\<rparr>)"
  have f: "user_id (?f x) = user_id x" for x
    by (simp add: orm_update_pk)
  have g: "?f r = r\<lparr>user_nickname := v, user_updated_at := if user_nickname r = v then user_updated_at r else now\<rparr>"
    by (cases r) (simp add: orm_update_def stamp_user_def)
  have "sel_pk user_id users j t = sel_pk user_id users j (upd_pk user_id users_update uid ?f s)" for j
    using Sent assms(3)
    by (simp add: user_update_def get_db_def prog_simps sel_pk_def)
  then show ?thesis
    using Sent assms f g by (simp add: user_get_by_id_def user_update_def prog_simps)
qed (use assms in \<open>auto simp: user_update_def prog_simps user_get_by_id_def sel_pk_def\<close>)

theorem profile_update_witness:
  "user_get_by_id 1 (snd (get_db (user_update 9 1 (Sent (u ''neo''))) (demo_session [demo_user 1 ''b@x'']))) =
     Some ((demo_user 1 ''b@x'')\<lparr>user_nickname := u ''neo'', user_updated_at := 9\<rparr>) \<and>
   fst (get_db (user_update 9 1 Null) (demo_session [demo_user 1 ''b@x''])) = Inl (SQLAlchemyError IntegrityError)"
proof -
  have a: "user_get_by_id 1 (demo_session [demo_user 1 ''b@x'']) = Some (demo_user 1 ''b@x'')"
    by (simp add: user_get_by_id_def sel_pk_def demo_session_def demo_user_def)
  have b: "working (demo_session us) = committed (demo_session us)" for us
    by (simp add: demo_session_def)
  have c: "user_nickname (demo_user 1 ''b@x'') \<noteq> u ''neo''"
    by (simp add: demo_user_def u_def)
  show ?thesis
    using profile_update [OF a b refl, of 9 "Sent (u ''neo'')"] profile_update [OF a b refl, of 9 Null] c
    by simp
qed

end
