(* ===== verification/Access.thy ===== *)
theory Access
  imports Users
begin

text \<open>
  \<^verbatim>\<open>common/dependencies.py\<close> (who is calling, and with which role) and the user endpoints that rest on
  it.  A request's bearer token is \<open>None\<close> when the header is missing or has another scheme.  The
  state of a request is the database session, extended by the Redis store where a component
  needs it (\<open>kv\<close>).
\<close>

record 'r app = session +
  kv :: 'r

definition on_kv :: "('r \<Rightarrow> 'r) \<Rightarrow> 'r app \<Rightarrow> 'r app" where
  "on_kv f w = w\<lparr>kv := f (kv w)\<rparr>"

lemma on_kv_sel [simp]:
  "kv (on_kv f w) = f (kv w)" "committed (on_kv f w) = committed w"
  "working (on_kv f w) = working w" "seq (on_kv f w) = seq w"
  by (simp_all add: on_kv_def)

lemma session_kv [simp]:
  fixes w :: "'r app"
  shows "kv (commit w) = kv w" and "kv (rollback w) = kv w" and "kv (on_db f w) = kv w"
    and "kv (take_pk t w) = kv w" and "kv (upd_pk pk put i g w) = kv w"
  by (simp_all add: commit_def rollback_def on_db_def take_pk_def upd_pk_def)

section \<open>Authentication and roles\<close>

definition get_current_user ::
  "crypto \<Rightarrow> jwt_settings \<Rightarrow> time \<Rightarrow> string option \<Rightarrow> ('x session_scheme, exn, user) prog" where
  "get_current_user C S now credentials =
     (case credentials of
        None \<Rightarrow> raiseP (AppError (UnauthorizedError (Some MsgAuthRequired)))
      | Some tok \<Rightarrow>
          bindP (liftP (decode_token C S now tok ACCESS)) (\<lambda>payload.
          bindP (getsP (user_get_by_id (tp_user_id payload))) (\<lambda>r.
          case r of
            None \<Rightarrow> raiseP (AppError (UnauthorizedError (Some MsgAuthRequired)))
          | Some x \<Rightarrow>
              if \<not> user_is_active x then raiseP (AppError (UnauthorizedError (Some MsgInactive)))
              else returnP x)))"

definition require_role :: "user_role list \<Rightarrow> user \<Rightarrow> ('x session_scheme, exn, user) prog" where
  "require_role roles current_user =
     (if user_role current_user \<notin> set roles then raiseP (AppError (ForbiddenError (Some MsgForbidden)))
      else returnP current_user)"

section \<open>User endpoints\<close>

definition get_me ::
  "crypto \<Rightarrow> jwt_settings \<Rightarrow> time \<Rightarrow> string option \<Rightarrow> ('x session_scheme, exn, user_response) prog" where
  "get_me C S now cred = get_db (bindP (get_current_user C S now cred) (\<lambda>x. returnP (user_response_of x)))"

definition update_me ::
  "crypto \<Rightarrow> jwt_settings \<Rightarrow> time \<Rightarrow> string option \<Rightarrow> utext sent \<Rightarrow>
   ('x session_scheme, exn, user_response) prog" where
  "update_me C S now cred payload =
     get_db (bindP (get_current_user C S now cred) (\<lambda>x.
             bindP (user_update now (user_id x) payload) (\<lambda>_.
             bindP (user_get (user_id x)) (\<lambda>y. returnP (user_response_of y)))))"

definition deactivate_me ::
  "crypto \<Rightarrow> jwt_settings \<Rightarrow> time \<Rightarrow> string option \<Rightarrow> ('x session_scheme, exn, unit) prog" where
  "deactivate_me C S now cred =
     get_db (bindP (get_current_user C S now cred) (\<lambda>x. user_deactivate now (user_id x)))"

definition list_users_route ::
  "crypto \<Rightarrow> jwt_settings \<Rightarrow> time \<Rightarrow> string option \<Rightarrow> page_params \<Rightarrow>
   ('x session_scheme, exn, user_response page_response) prog" where
  "list_users_route C S now cred params =
     get_db (bindP (get_current_user C S now cred) (\<lambda>x.
             bindP (require_role [ADMIN] x) (\<lambda>_.
             bindP (list_users params) (\<lambda>(us, n).
             returnP (page_response_create (map user_response_of us) n params)))))"

text \<open>
  The dependency of \<^verbatim>\<open>protected_router\<close> (\<^verbatim>\<open>api/v1/router.py\<close>): every endpoint outside \<^verbatim>\<open>/auth\<close> runs behind
  it.  FastAPI evaluates a dependency once per request, so an endpoint that also asks for the
  current user does not authenticate twice.
\<close>

definition protected ::
  "crypto \<Rightarrow> jwt_settings \<Rightarrow> time \<Rightarrow> string option \<Rightarrow> ('x session_scheme, exn, 'a) prog \<Rightarrow>
   ('x session_scheme, exn, 'a) prog" where
  "protected C S now cred m = get_db (bindP (get_current_user C S now cred) (\<lambda>_. m))"

definition get_user ::
  "crypto \<Rightarrow> jwt_settings \<Rightarrow> time \<Rightarrow> string option \<Rightarrow> int \<Rightarrow> ('x session_scheme, exn, user_response) prog" where
  "get_user C S now cred uid =
     protected C S now cred (bindP (user_get uid) (\<lambda>x. returnP (user_response_of x)))"

section \<open>Lemmas\<close>

lemma get_current_user_Inr:
  "fst (get_current_user C S now cred s) = Inr x \<longleftrightarrow>
    (\<exists>tok p. cred = Some tok \<and> decode_token C S now tok ACCESS = Inr p \<and>
      user_get_by_id (tp_user_id p) s = Some x \<and> user_is_active x)"
  by (auto simp: get_current_user_def prog_simps split: option.splits sum.splits)

lemma get_current_user_state [simp]: "snd (get_current_user C S now cred s) = s"
  by (auto simp: get_current_user_def prog_simps split: option.splits sum.splits)

lemma get_current_user_Inl:
  "fst (get_current_user C S now cred s) = Inl e \<Longrightarrow> \<exists>m. e = AppError (UnauthorizedError m)"
  using decode_error
  by (fastforce simp: get_current_user_def prog_simps invalid_token_def split: option.splits sum.splits if_splits)

lemma keeps_get_current_user [intro!, simp]: "keeps I (get_current_user C S now cred)"
  by (simp add: keeps_def)

lemma keeps_require_role [intro!, simp]: "keeps I (require_role roles x)"
  by (simp add: require_role_def)

text \<open>A request behind authentication that is refused touches nothing but the transaction.\<close>

lemma authenticated:
  "bindP (get_current_user C S now cred) f s =
    (case fst (get_current_user C S now cred s) of Inl e \<Rightarrow> (Inl e, s) | Inr x \<Rightarrow> f x s)"
  using get_current_user_state [of C S now cred s]
  by (cases "get_current_user C S now cred s") (simp add: bindP_apply split: sum.splits)

section \<open>Properties\<close>

text \<open>
  C5.  Access.  A protected user endpoint answers with success only to the holder of an access
  token of an account that exists and is active at this moment: after \<open>deactivate_me\<close> succeeded, no
  token of that account, however fresh, is accepted again, while every other caller is treated as
  before; and the list of users is given to administrators only.
\<close>

theorem access_after_deactivation:
  fixes s :: "'x session_scheme"
  assumes "get_current_user C S now cred s = (Inr x, s)" and "working s = committed s"
    and "t = snd (deactivate_me C S now cred s)"
    and "tok_of = (\<lambda>c. fst (get_current_user C S later c t))"
  shows "fst (deactivate_me C S now cred s) = Inr () \<and>
    (\<forall>c p. decode_token C S later c ACCESS = Inr p \<and> tp_user_id p = user_id x \<longrightarrow>
       tok_of (Some c) = Inl (AppError (UnauthorizedError (Some MsgInactive)))) \<and>
    (\<forall>c p. decode_token C S later c ACCESS = Inr p \<and> tp_user_id p \<noteq> user_id x \<longrightarrow>
       tok_of (Some c) = fst (get_current_user C S later (Some c) s)) \<and>
    (user_role x \<noteq> ADMIN \<longrightarrow>
       fst (list_users_route C S now cred params s) = Inl (AppError (ForbiddenError (Some MsgForbidden))))"
proof -
  let ?f = "orm_update (stamp_user now) (\<lambda>r. r\<lparr>user_is_active := False\<rparr>)"
  have f: "user_id (?f r) = user_id r" for r by (simp add: orm_update_pk)
  have act: "\<not> user_is_active (?f r)" for r by (cases r) (simp add: orm_update_def stamp_user_def)
  obtain p :: token_payload where p: "user_get_by_id (tp_user_id p) s = Some x" "user_is_active x"
    using assms(1) get_current_user_Inr [of C S now cred s x] by (metis fst_conv)
  moreover from p(1) have "user_id x = tp_user_id p"
    using users.sel_working [of _ s x] by (simp add: user_get_by_id_def)
  ultimately have x: "user_get_by_id (user_id x) s = Some x" "user_is_active x"
    by simp_all
  have d: "deactivate_me C S now cred s =
      (Inr (), rollback (commit (upd_pk user_id users_update (user_id x) ?f s)))"
    using assms(1) by (simp add: deactivate_me_def get_db_def authenticated user_deactivate_def prog_simps)
  have get: "user_get_by_id j t = (if j = user_id x then map_option ?f (user_get_by_id j s) else user_get_by_id j s)" for j
  proof -
    have "user_get_by_id j t = sel_pk user_id users j (upd_pk user_id users_update (user_id x) ?f s)"
      using assms(3) d by (simp add: user_get_by_id_def sel_pk_def)
    then show ?thesis using f by (simp add: user_get_by_id_def)
  qed
  have "tok_of (Some c) = Inl (AppError (UnauthorizedError (Some MsgInactive)))"
    if "decode_token C S later c ACCESS = Inr p" "tp_user_id p = user_id x" for c p
    using that get [of "user_id x"] x act assms(4)
    by (simp add: get_current_user_def prog_simps)
  moreover have "tok_of (Some c) = fst (get_current_user C S later (Some c) s)"
    if "decode_token C S later c ACCESS = Inr p" "tp_user_id p \<noteq> user_id x" for c p
    using that get [of "tp_user_id p"] assms(4)
    by (simp add: get_current_user_def prog_simps split: option.split)
  moreover have "fst (list_users_route C S now cred params s) = Inl (AppError (ForbiddenError (Some MsgForbidden)))"
    if "user_role x \<noteq> ADMIN"
    using that assms(1)
    by (simp add: list_users_route_def get_db_def authenticated require_role_def prog_simps)
  ultimately show ?thesis using d by simp
qed

theorem access_after_deactivation_witness:
  "let s = demo_session [demo_user 7 ''a@x''];
       tok = create_access_token demo_crypto demo_settings 90 ''i'' 7;
       t = snd (deactivate_me demo_crypto demo_settings 100 (Some tok) s)
   in fst (get_current_user demo_crypto demo_settings 100 (Some tok) s) = Inr (demo_user 7 ''a@x'') \<and>
      fst (get_current_user demo_crypto demo_settings 101 (Some tok) t) =
        Inl (AppError (UnauthorizedError (Some MsgInactive)))"
proof -
  let ?s = "demo_session [demo_user 7 ''a@x'']"
  let ?tok = "create_access_token demo_crypto demo_settings 90 ''i'' 7"
  have d: "decode_token demo_crypto demo_settings t ?tok ACCESS =
      Inr \<lparr>tp_user_id = 7, tp_token_type = ACCESS, tp_jti = ''i'', tp_expires_at = 1890\<rparr>"
    if "90 \<le> t" "t < 1890" for t
    using decode_access [OF demo_crypto_ok, of demo_settings 90 t "''i''" 7] that by (simp add: demo_settings_def)
  have g: "get_current_user demo_crypto demo_settings 100 (Some ?tok) ?s = (Inr (demo_user 7 ''a@x''), ?s)"
    by (simp add: get_current_user_def prog_simps d user_get_by_id_def sel_pk_def demo_session_def demo_user_def)
  have "working ?s = committed ?s" "user_id (demo_user 7 ''a@x'') = 7"
    by (simp_all add: demo_session_def demo_user_def)
  then show ?thesis
    using access_after_deactivation [OF g _ refl refl, of 101] d [of 101] g
    by (simp add: Let_def)
qed

end
