(* ===== verification/Rate_Limit.thy ===== *)
theory Rate_Limit
  imports Redis_Api
begin

text \<open>
  \<^verbatim>\<open>app/common/rate_limit.py\<close>: the fixed-window limiter over Redis, its refinement of an abstract
  window counter, and the counting lemma for a run of attempts.
\<close>

record rate_limit_result =
  allowed :: bool
  current :: int
  retry_after :: int

text \<open>\<^verbatim>\<open>RateLimiter.hit\<close>: INCR and EXPIRE NX in one pipeline, then TTL when the limit is passed.\<close>

definition hit :: "'r redis_api \<Rightarrow> string \<Rightarrow> int \<Rightarrow> nat \<Rightarrow> 'r \<Rightarrow> rate_limit_result \<times> 'r" where
  "hit R key max_attempts window_seconds s =
     (let s1 = r_incr R key s;
          s2 = r_expire_nx R key window_seconds s1;
          current = r_incr_reply R s key
      in if current \<le> max_attempts
         then (\<lparr>allowed = True, current = current, retry_after = 0\<rparr>, s2)
         else let ttl = r_ttl R s2 key;
                  retry_after = (if ttl > 0 then ttl else int window_seconds)
              in (\<lparr>allowed = False, current = current, retry_after = retry_after\<rparr>, s2))"

definition reset :: "'r redis_api \<Rightarrow> string \<Rightarrow> 'r \<Rightarrow> 'r" where
  "reset R key s = r_delete R key s"

section \<open>The abstract counter\<close>

text \<open>
  A window is either closed (\<open>None\<close>) or has counted \<open>n\<close> attempts and closes in \<open>left\<close> seconds.
  Attempts never move the end of the window.
\<close>

type_synonym window = "(nat \<times> nat) option"

fun abs_hit :: "nat \<Rightarrow> window \<Rightarrow> window" where
  "abs_hit w None = Some (1, w)"
| "abs_hit w (Some (n, left)) = Some (Suc n, left)"

fun abs_tick :: "nat \<Rightarrow> window \<Rightarrow> window" where
  "abs_tick d None = None"
| "abs_tick d (Some (n, left)) = (if left \<le> d then None else Some (n, left - d))"

fun window_count :: "window \<Rightarrow> nat" where
  "window_count None = 0"
| "window_count (Some (n, left)) = n"

text \<open>The abstraction relation: the key holds the count and expires when the window closes.\<close>

fun window_entry :: "window \<Rightarrow> entry option" where
  "window_entry None = None"
| "window_entry (Some (n, left)) = Some (RString (show_int (int n)), Some left)"

definition holds_window :: "'r redis_api \<Rightarrow> string \<Rightarrow> 'r \<Rightarrow> window \<Rightarrow> bool" where
  "holds_window R key s w \<longleftrightarrow> r_lookup R s key = window_entry w \<and> (\<forall>n left. w = Some (n, left) \<longrightarrow> 0 < left)"

context redis
begin

lemma hit_store:
  "r_lookup R (snd (hit R key m w s)) = (r_lookup R s)(key := expire_nx_entry w (incr_entry (r_lookup R s key)))"
  by (simp add: hit_def Let_def lookup_incr lookup_expire_nx)

lemma hit_current:
  "holds_window R key s v \<Longrightarrow> current (fst (hit R key m w s)) = int (Suc (window_count v))"
  by (cases v rule: window_entry.cases)
    (auto simp: hit_def Let_def r_incr_reply_def r_get_def lookup_incr holds_window_def add.commute)

lemma hit_allowed: "allowed (fst (hit R key m w s)) \<longleftrightarrow> current (fst (hit R key m w s)) \<le> m"
  by (simp add: hit_def Let_def)

lemma hit_retry_after:
  assumes "0 < w" shows "retry_after (fst (hit R key m w s)) = 0 \<longleftrightarrow> allowed (fst (hit R key m w s))"
  using assms by (simp add: hit_def Let_def)

lemma hit_refines:
  assumes "holds_window R key s v" and "0 < w"
  shows "holds_window R key (snd (hit R key m w s)) (abs_hit w v)"
  using assms
  by (cases v rule: window_entry.cases) (auto simp: holds_window_def hit_store add.commute)

lemma tick_refines:
  "holds_window R key s v \<Longrightarrow> holds_window R key (r_tick R d s) (abs_tick d v)"
  by (cases v rule: window_entry.cases) (auto simp: holds_window_def lookup_tick)

lemma reset_window: "holds_window R key (reset R key s) None"
  by (simp add: holds_window_def reset_def lookup_delete)

lemma hit_other: "k \<noteq> key \<Longrightarrow> r_lookup R (snd (hit R key m w s)) k = r_lookup R s k"
  by (simp add: hit_store)

end

section \<open>A run of attempts\<close>

text \<open>\<open>ds\<close> are the seconds that pass before each attempt; the result lists the verdicts.\<close>

fun run_hits :: "'r redis_api \<Rightarrow> string \<Rightarrow> int \<Rightarrow> nat \<Rightarrow> nat list \<Rightarrow> 'r \<Rightarrow> bool list \<times> 'r" where
  "run_hits R key m w [] s = ([], s)"
| "run_hits R key m w (d # ds) s =
     (let (r, s') = hit R key m w (r_tick R d s); (rs, s'') = run_hits R key m w ds s'
      in (allowed r # rs, s''))"

context redis
begin

lemma run_hits_open:
  assumes "holds_window R key s (Some (n, left))" and "0 < w" and "sum_list ds < left"
  shows "fst (run_hits R key m w ds s) = map (\<lambda>i. int (n + i) < m) [0..<length ds]
    \<and> holds_window R key (snd (run_hits R key m w ds s)) (Some (n + length ds, left - sum_list ds))"
  using assms
proof (induction ds arbitrary: s n left)
  case Nil
  then show ?case by simp
next
  case (Cons d ds)
  have d: "d < left" using Cons.prems by simp
  let ?s = "r_tick R d s"
  have t: "holds_window R key ?s (Some (n, left - d))"
    using tick_refines [OF Cons.prems(1), of d] d by simp
  have h: "holds_window R key (snd (hit R key m w ?s)) (Some (Suc n, left - d))"
    using hit_refines [OF t Cons.prems(2)] by simp
  have a: "allowed (fst (hit R key m w ?s)) \<longleftrightarrow> int n < m"
    using hit_current [OF t] by (simp add: hit_allowed) linarith
  have "[0..<Suc (length ds)] = 0 # map Suc [0..<length ds]"
    by (simp add: upt_conv_Cons map_Suc_upt del: upt_Suc)
  moreover have "sum_list ds < left - d" using Cons.prems by simp
  note Cons.IH [OF h Cons.prems(2) this]
  ultimately show ?case using a
    by (simp add: case_prod_unfold Let_def add.left_commute del: upt_Suc)
qed

text \<open>A run that starts at a closed window: exactly the first \<open>m\<close> attempts pass until it closes.\<close>

lemma run_hits_fresh:
  assumes "holds_window R key s None" and "0 < w" and "sum_list ds < w"
  shows "fst (run_hits R key m w (d # ds) s) = map (\<lambda>i. int i < m) [0..<length (d # ds)]"
    and "holds_window R key (snd (run_hits R key m w (d # ds) s)) (Some (length (d # ds), w - sum_list ds))"
proof -
  let ?s = "r_tick R d s"
  have t: "holds_window R key ?s None"
    using tick_refines [OF assms(1), of d] by simp
  have h: "holds_window R key (snd (hit R key m w ?s)) (Some (1, w))"
    using hit_refines [OF t assms(2)] by simp
  have a: "allowed (fst (hit R key m w ?s)) \<longleftrightarrow> 0 < m"
    using hit_current [OF t] by (simp add: hit_allowed) linarith
  have u: "[0..<Suc (length ds)] = 0 # map Suc [0..<length ds]"
    by (simp add: upt_conv_Cons map_Suc_upt del: upt_Suc)
  note r = run_hits_open [OF h assms(2,3), of m]
  show "fst (run_hits R key m w (d # ds) s) = map (\<lambda>i. int i < m) [0..<length (d # ds)]"
    using r a u by (simp add: case_prod_unfold Let_def del: upt_Suc)
  show "holds_window R key (snd (run_hits R key m w (d # ds) s)) (Some (length (d # ds), w - sum_list ds))"
    using r by (simp add: case_prod_unfold Let_def)
qed

end

context redis
begin

lemma hit_wait:
  assumes "holds_window R key s (Some (n, left))" and "0 < w"
  shows "retry_after (fst (hit R key m w s)) = (if int (Suc n) \<le> m then 0 else int left)"
  using assms
  by (auto simp: holds_window_def hit_def Let_def r_incr_reply_def r_get_def r_ttl_def lookup_incr
      lookup_expire_nx add.commute)

end

section \<open>Properties\<close>

text \<open>
  C38.  The limiter counts in fixed windows.  Attempts that start at a closed window and all fall
  inside it: exactly the first \<open>m\<close> are allowed, whatever their spacing; a further attempt that is
  refused is told exactly the seconds that remain; the window is over \<open>w\<close> seconds after the first
  attempt although attempts went on; and no other key is touched.
\<close>

theorem fixed_window:
  assumes "redis R" and "0 < w" and "r_lookup R s key = None" and "sum_list ds < w"
    and "t = snd (run_hits R key m w (0 # ds) s)"
  shows "fst (run_hits R key m w (0 # ds) s) = map (\<lambda>i. int i < m) [0..<Suc (length ds)] \<and>
    (int (length ds) + 1 \<ge> m \<longrightarrow> retry_after (fst (hit R key m w t)) = int (w - sum_list ds)) \<and>
    r_lookup R (r_tick R (w - sum_list ds) t) key = None"
proof -
  have w: "holds_window R key s None"
    using assms(3) by (simp add: holds_window_def)
  note f = redis.run_hits_fresh [OF assms(1) w assms(2,4), where d = 0 and m = m]
  have t: "holds_window R key t (Some (Suc (length ds), w - sum_list ds))"
    using f(2) assms(5) by simp
  have "holds_window R key (r_tick R (w - sum_list ds) t) None"
    using redis.tick_refines [OF assms(1) t, of "w - sum_list ds"] by simp
  then have "r_lookup R (r_tick R (w - sum_list ds) t) key = None"
    by (simp add: holds_window_def)
  with f(1) redis.hit_wait [OF assms(1) t assms(2), of m] show ?thesis
    by simp
qed

theorem fixed_window_witness:
  "let t = snd (run_hits ref_redis ''k'' 2 300 [0, 10, 20] empty_store)
   in fst (run_hits ref_redis ''k'' 2 300 [0, 10, 20] empty_store) = [True, True, False] \<and>
      retry_after (fst (hit ref_redis ''k'' 2 300 t)) = 270 \<and>
      s_lookup (s_tick 270 t) ''k'' = None"
  using fixed_window [OF ref_redis_ok _ _ _ refl, of 300 empty_store "''k''" "[10, 20]" 2]
  by (simp add: Let_def upt_rec del: run_hits.simps)

end
