(* ===== verification/Auth.thy ===== *)
theory Auth
  imports Access Token_Store Rate_Limit
begin

text \<open>
  \<^verbatim>\<open>modules/auth\<close>: \<^verbatim>\<open>AuthService\<close> (login with its limiter, refresh with rotation and reuse detection,
  logout) and its endpoints with the refresh cookie.  The state is the session with the Redis
  store; \<open>now\<close> is the clock in seconds, \<open>i\<close> and \<open>j\<close> the two UUIDs drawn for a token pair.
\<close>

record auth_settings =
  a_jwt :: jwt_settings
  login_rate_limit_max_attempts :: int
  login_rate_limit_window_seconds :: nat
  api_v1_prefix :: string
  cookie_secure :: bool
  cookie_samesite :: string

record issued_tokens =
  access_token :: string
  refresh_token :: string
  expires_in :: int

abbreviation login_failed :: exn where
  "login_failed \<equiv> AppError (UnauthorizedError (Some MsgLoginFailed))"

abbreviation session_expired :: exn where
  "session_expired \<equiv> AppError (UnauthorizedError (Some MsgSessionExpired))"

section \<open>Service\<close>

definition signup ::
  "crypto \<Rightarrow> (string \<Rightarrow> string) \<Rightarrow> ('r app \<Rightarrow> 'r app) \<Rightarrow> string \<Rightarrow> time \<Rightarrow> user_create_body \<Rightarrow>
   ('r app, exn, user) prog" where
  "signup C coll env salt now payload = user_create C coll env salt now payload"

definition rate_limit_keys :: "string \<Rightarrow> string \<Rightarrow> string list" where
  "rate_limit_keys email client_ip =
     [''ratelimit:login:email:'' @ lower email, ''ratelimit:login:ip:'' @ client_ip]"

fun check_keys :: "'r redis_api \<Rightarrow> auth_settings \<Rightarrow> string list \<Rightarrow> ('r app, exn, unit) prog" where
  "check_keys R A [] = returnP ()"
| "check_keys R A (k # ks) = (\<lambda>w.
     let (result, kv') = hit R k (login_rate_limit_max_attempts A) (login_rate_limit_window_seconds A) (kv w);
         w' = on_kv (\<lambda>_. kv') w
     in if \<not> allowed result
        then (Inl (AppError (RateLimitedError (Some MsgTooManyLogins) (retry_after result))), w')
        else check_keys R A ks w')"

definition check_login_rate_limit ::
  "'r redis_api \<Rightarrow> auth_settings \<Rightarrow> string \<Rightarrow> string \<Rightarrow> ('r app, exn, unit) prog" where
  "check_login_rate_limit R A email client_ip = check_keys R A (rate_limit_keys email client_ip)"

definition reset_login_rate_limit :: "'r redis_api \<Rightarrow> string \<Rightarrow> string \<Rightarrow> 'r \<Rightarrow> 'r" where
  "reset_login_rate_limit R email client_ip s = fold (reset R) (rate_limit_keys email client_ip) s"

definition DUMMY_PASSWORD_HASH :: string where
  "DUMMY_PASSWORD_HASH = ''$2b$12$C6UzMDM.H6dfI/f/IKcEe.6qL8x4rY4rB0LHhCwZgHUqvOeYlqQvi''"

definition issue_tokens ::
  "'r redis_api \<Rightarrow> crypto \<Rightarrow> auth_settings \<Rightarrow> time \<Rightarrow> string \<Rightarrow> string \<Rightarrow> int \<Rightarrow>
   ('r app, exn, issued_tokens) prog" where
  "issue_tokens R C A now i j uid = (\<lambda>w.
     let access = create_access_token C (a_jwt A) now i uid;
         (refresh, jti) = create_refresh_token C (a_jwt A) now j uid
     in (Inr \<lparr>access_token = access, refresh_token = refresh,
              expires_in = int (access_token_expire_minutes (a_jwt A) * 60)\<rparr>,
         on_kv (save R (ttl_seconds (a_jwt A)) uid jti (hash_token C refresh)) w))"

definition login ::
  "'r redis_api \<Rightarrow> crypto \<Rightarrow> auth_settings \<Rightarrow> (string \<Rightarrow> string) \<Rightarrow> time \<Rightarrow> string \<Rightarrow> string \<Rightarrow>
   string \<Rightarrow> utext \<Rightarrow> string \<Rightarrow> ('r app, exn, issued_tokens) prog" where
  "login R C A coll now i j email password client_ip =
     bindP (check_login_rate_limit R A email client_ip) (\<lambda>_.
     bindP (\<lambda>w. (user_get_by_email coll email w, w)) (\<lambda>r.
     let password_ok = verify_password C password
           (case r of Some x \<Rightarrow> user_password_hash x | None \<Rightarrow> DUMMY_PASSWORD_HASH)
     in case r of
          None \<Rightarrow> raiseP login_failed
        | Some x \<Rightarrow>
            if \<not> password_ok then raiseP login_failed
            else if \<not> user_is_active x then raiseP login_failed
            else bindP (modifyP (on_kv (reset_login_rate_limit R email client_ip))) (\<lambda>_.
                 issue_tokens R C A now i j (user_id x))))"

text \<open>
  \<open>refresh\<close>, in the two parts a second request can come between: what it checks, and what it
  writes once the check passed.
\<close>

definition refresh_check ::
  "'r redis_api \<Rightarrow> crypto \<Rightarrow> auth_settings \<Rightarrow> time \<Rightarrow> string \<Rightarrow> ('r app, exn, token_payload \<times> user) prog" where
  "refresh_check R C A now tok =
     bindP (liftP (decode_token C (a_jwt A) now tok REFRESH)) (\<lambda>payload.
     bindP (getsP (\<lambda>w. verify R C (tp_user_id payload) (tp_jti payload) tok (kv w))) (\<lambda>state.
     if state = TS_REUSED \<or> state = TS_FORGED then
       bindP (modifyP (on_kv (\<lambda>s. snd (revoke_all R (tp_user_id payload) s)))) (\<lambda>_. raiseP session_expired)
     else if state = TS_UNKNOWN then raiseP session_expired
     else bindP (getsP (user_get_by_id (tp_user_id payload))) (\<lambda>r.
       case r of
         None \<Rightarrow> bindP (modifyP (on_kv (\<lambda>s. snd (revoke_all R (tp_user_id payload) s)))) (\<lambda>_. raiseP session_expired)
       | Some x \<Rightarrow>
           if \<not> user_is_active x
           then bindP (modifyP (on_kv (\<lambda>s. snd (revoke_all R (tp_user_id payload) s)))) (\<lambda>_. raiseP session_expired)
           else returnP (payload, x))))"

definition refresh_rotate ::
  "'r redis_api \<Rightarrow> crypto \<Rightarrow> auth_settings \<Rightarrow> time \<Rightarrow> string \<Rightarrow> string \<Rightarrow> token_payload \<times> user \<Rightarrow>
   ('r app, exn, issued_tokens) prog" where
  "refresh_rotate R C A now i j = (\<lambda>(payload, x).
     let remaining = int (tp_expires_at payload) - int now
     in bindP (modifyP (on_kv (rotate R (tp_user_id payload) (tp_jti payload) remaining))) (\<lambda>_.
        issue_tokens R C A now i j (user_id x)))"

definition refresh ::
  "'r redis_api \<Rightarrow> crypto \<Rightarrow> auth_settings \<Rightarrow> time \<Rightarrow> string \<Rightarrow> string \<Rightarrow> string \<Rightarrow>
   ('r app, exn, issued_tokens) prog" where
  "refresh R C A now i j tok = bindP (refresh_check R C A now tok) (refresh_rotate R C A now i j)"

definition logout ::
  "'r redis_api \<Rightarrow> crypto \<Rightarrow> auth_settings \<Rightarrow> time \<Rightarrow> string option \<Rightarrow> ('r app, exn, unit) prog" where
  "logout R C A now tok =
     (case tok of
        None \<Rightarrow> returnP ()
      | Some t \<Rightarrow>
          if t = [] then returnP ()
          else (case decode_token C (a_jwt A) now t REFRESH of
                  Inl _ \<Rightarrow> returnP ()
                | Inr payload \<Rightarrow> modifyP (on_kv (revoke R (tp_user_id payload) (tp_jti payload)))))"

definition logout_all :: "'r redis_api \<Rightarrow> int \<Rightarrow> ('r app, exn, nat) prog" where
  "logout_all R uid = (\<lambda>w. let (n, s) = revoke_all R uid (kv w) in (Inr n, on_kv (\<lambda>_. s) w))"

section \<open>Endpoints\<close>

record cookie =
  ck_key :: string
  ck_value :: string
  ck_httponly :: bool
  ck_secure :: bool
  ck_samesite :: string
  ck_path :: string
  ck_max_age :: int

definition REFRESH_COOKIE_NAME :: string where "REFRESH_COOKIE_NAME = ''refresh_token''"

definition cookie_path :: "auth_settings \<Rightarrow> string" where
  "cookie_path A = api_v1_prefix A @ ''/auth''"

definition set_refresh_cookie :: "auth_settings \<Rightarrow> string \<Rightarrow> cookie" where
  "set_refresh_cookie A tok =
     \<lparr>ck_key = REFRESH_COOKIE_NAME, ck_value = tok, ck_httponly = True, ck_secure = cookie_secure A,
      ck_samesite = cookie_samesite A, ck_path = cookie_path A,
      ck_max_age = int (refresh_token_expire_days (a_jwt A) * 24 * 60 * 60)\<rparr>"

text \<open>\<^verbatim>\<open>delete_cookie\<close> is a cookie with an empty value that is over at once.\<close>

definition clear_refresh_cookie :: "auth_settings \<Rightarrow> cookie" where
  "clear_refresh_cookie A =
     \<lparr>ck_key = REFRESH_COOKIE_NAME, ck_value = [], ck_httponly = True, ck_secure = cookie_secure A,
      ck_samesite = cookie_samesite A, ck_path = cookie_path A, ck_max_age = 0\<rparr>"

record token_response =
  tr_access_token :: string
  tr_token_type :: string
  tr_expires_in :: int

definition token_response_of :: "auth_settings \<Rightarrow> issued_tokens \<Rightarrow> token_response \<times> cookie" where
  "token_response_of A ts =
     (\<lparr>tr_access_token = access_token ts, tr_token_type = ''bearer'', tr_expires_in = expires_in ts\<rparr>,
      set_refresh_cookie A (refresh_token ts))"

definition client_ip :: "string option \<Rightarrow> string" where
  "client_ip host = (case host of Some h \<Rightarrow> h | None \<Rightarrow> ''unknown'')"

definition signup_route ::
  "crypto \<Rightarrow> (string \<Rightarrow> string) \<Rightarrow> ('r app \<Rightarrow> 'r app) \<Rightarrow> string \<Rightarrow> time \<Rightarrow> user_create_body \<Rightarrow>
   ('r app, exn, user_response) prog" where
  "signup_route C coll env salt now payload =
     get_db (bindP (signup C coll env salt now payload) (\<lambda>x. returnP (user_response_of x)))"

definition login_route ::
  "'r redis_api \<Rightarrow> crypto \<Rightarrow> auth_settings \<Rightarrow> (string \<Rightarrow> string) \<Rightarrow> time \<Rightarrow> string \<Rightarrow> string \<Rightarrow>
   string \<Rightarrow> utext \<Rightarrow> string option \<Rightarrow> ('r app, exn, token_response \<times> cookie) prog" where
  "login_route R C A coll now i j email password host =
     get_db (bindP (login R C A coll now i j email password (client_ip host)) (\<lambda>ts.
             returnP (token_response_of A ts)))"

definition refresh_route ::
  "'r redis_api \<Rightarrow> crypto \<Rightarrow> auth_settings \<Rightarrow> time \<Rightarrow> string \<Rightarrow> string \<Rightarrow> string option \<Rightarrow>
   ('r app, exn, token_response \<times> cookie) prog" where
  "refresh_route R C A now i j cookie =
     get_db (case cookie of
       None \<Rightarrow> raiseP session_expired
     | Some tok \<Rightarrow>
         if tok = [] then raiseP session_expired
         else bindP (refresh R C A now i j tok) (\<lambda>ts. returnP (token_response_of A ts)))"

definition logout_route ::
  "'r redis_api \<Rightarrow> crypto \<Rightarrow> auth_settings \<Rightarrow> time \<Rightarrow> string option \<Rightarrow> ('r app, exn, cookie) prog" where
  "logout_route R C A now cookie =
     get_db (bindP (logout R C A now cookie) (\<lambda>_. returnP (clear_refresh_cookie A)))"

definition logout_all_route ::
  "'r redis_api \<Rightarrow> crypto \<Rightarrow> auth_settings \<Rightarrow> time \<Rightarrow> string option \<Rightarrow> ('r app, exn, nat \<times> cookie) prog" where
  "logout_all_route R C A now cred =
     get_db (bindP (get_current_user C (a_jwt A) now cred) (\<lambda>x.
             bindP (logout_all R (user_id x)) (\<lambda>n. returnP (n, clear_refresh_cookie A))))"

section \<open>Lemmas\<close>

lemma rate_limit_keys_neq [simp]:
  "''ratelimit:login:email:'' @ a \<noteq> ''ratelimit:login:ip:'' @ b"
  "''ratelimit:login:ip:'' @ b \<noteq> ''ratelimit:login:email:'' @ a"
  by simp_all

text \<open>The limiter reads and writes Redis only.\<close>

lemma check_keys_db:
  "working (snd (check_keys R A ks w)) = working w \<and> committed (snd (check_keys R A ks w)) = committed w
   \<and> seq (snd (check_keys R A ks w)) = seq w"
  by (induction ks arbitrary: w) (auto simp: prog_simps Let_def split: prod.splits)

text \<open>Its verdict does not depend on the rest of the state.\<close>

lemma check_keys_verdict:
  "kv w = kv w' \<Longrightarrow> fst (check_keys R A ks w) = fst (check_keys R A ks w') \<and>
     kv (snd (check_keys R A ks w)) = kv (snd (check_keys R A ks w'))"
  by (induction ks arbitrary: w w') (auto simp: prog_simps Let_def split: prod.splits)

lemma refresh_check_Inr:
  "refresh_check R C A now tok w = (Inr (p, x), w') \<longleftrightarrow>
     w' = w \<and> decode_token C (a_jwt A) now tok REFRESH = Inr p \<and>
     verify R C (tp_user_id p) (tp_jti p) tok (kv w) = TS_ACTIVE \<and>
     user_get_by_id (tp_user_id p) w = Some x \<and> user_is_active x"
proof (cases "decode_token C (a_jwt A) now tok REFRESH")
  case (Inl e)
  then show ?thesis by (simp add: refresh_check_def prog_simps)
next
  case (Inr q)
  then show ?thesis
    by (cases "verify R C (tp_user_id q) (tp_jti q) tok (kv w)")
      (auto simp: refresh_check_def prog_simps split: option.splits)
qed

lemma refresh_compromised:
  assumes "decode_token C (a_jwt A) now tok REFRESH = Inr p"
    and "verify R C (tp_user_id p) (tp_jti p) tok (kv w) \<in> {TS_REUSED, TS_FORGED}"
  shows "refresh R C A now i j tok w =
    (Inl session_expired, on_kv (\<lambda>s. snd (revoke_all R (tp_user_id p) s)) w)"
  using assms by (auto simp: refresh_def refresh_check_def prog_simps)

lemma refresh_unknown:
  assumes "decode_token C (a_jwt A) now tok REFRESH = Inr p"
    and "verify R C (tp_user_id p) (tp_jti p) tok (kv w) = TS_UNKNOWN"
  shows "refresh R C A now i j tok w = (Inl session_expired, w)"
  using assms by (simp add: refresh_def refresh_check_def prog_simps)

lemma issue_tokens_apply:
  "issue_tokens R C A now i j uid w =
    (Inr \<lparr>access_token = create_access_token C (a_jwt A) now i uid,
          refresh_token = fst (create_refresh_token C (a_jwt A) now j uid),
          expires_in = int (access_token_expire_minutes (a_jwt A) * 60)\<rparr>,
     on_kv (save R (ttl_seconds (a_jwt A)) uid j
       (hash_token C (fst (create_refresh_token C (a_jwt A) now j uid)))) w)"
  by (simp add: issue_tokens_def Let_def case_prod_unfold)

lemma refresh_active:
  assumes "refresh_check R C A now tok w = (Inr (p, x), w)"
  shows "refresh R C A now i j tok w =
    (Inr \<lparr>access_token = create_access_token C (a_jwt A) now i (user_id x),
          refresh_token = fst (create_refresh_token C (a_jwt A) now j (user_id x)),
          expires_in = int (access_token_expire_minutes (a_jwt A) * 60)\<rparr>,
     on_kv (\<lambda>s. save R (ttl_seconds (a_jwt A)) (user_id x) j
         (hash_token C (fst (create_refresh_token C (a_jwt A) now j (user_id x))))
         (rotate R (tp_user_id p) (tp_jti p) (int (tp_expires_at p) - int now) s)) w)"
  using assms by (simp add: refresh_def refresh_rotate_def prog_simps issue_tokens_apply Let_def on_kv_def)

lemma user_get_by_id_pk: "user_get_by_id uid s = Some x \<Longrightarrow> user_id x = uid"
  using users.sel_working by (auto simp: user_get_by_id_def)

text \<open>The Redis after a successful refresh, through the store's look-ups.\<close>

lemma rotated_lookup:
  assumes "redis R" and "0 < ttl" and "j \<noteq> i"
  shows "r_lookup R (save R ttl a j h (rotate R a i n s)) (token_key b k) =
      (if b = a \<and> k = j then Some (RString h, Some ttl) else if b = a \<and> k = i then None
       else r_lookup R s (token_key b k))"
    and "r_lookup R (save R ttl a j h (rotate R a i n s)) (used_key b k) =
      (if b = a \<and> k = i then Some (RString ''1'', Some (nat (max n 1))) else r_lookup R s (used_key b k))"
  using assms by (auto simp: redis.lookup_save redis.lookup_rotate)

text \<open>A small concrete deployment: one account, one refresh token issued to it at time 90.\<close>

definition demo_auth :: auth_settings where
  "demo_auth = \<lparr>a_jwt = demo_settings, login_rate_limit_max_attempts = 2,
     login_rate_limit_window_seconds = 300, api_v1_prefix = ''/api/v1'', cookie_secure = True,
     cookie_samesite = ''lax''\<rparr>"

definition demo_app :: "user list \<Rightarrow> store \<Rightarrow> store app" where
  "demo_app us s =
     \<lparr>committed = empty_db\<lparr>users := us\<rparr>, working = empty_db\<lparr>users := us\<rparr>,
      seq = (\<lambda>t. 100), kv = s\<rparr>"

definition demo_token :: string where
  "demo_token = fst (create_refresh_token demo_crypto demo_settings 90 ''x'' 7)"

definition demo_payload :: token_payload where
  "demo_payload = \<lparr>tp_user_id = 7, tp_token_type = REFRESH, tp_jti = ''x'', tp_expires_at = 1209690\<rparr>"

definition demo_world :: "store app" where
  "demo_world = demo_app [demo_user 7 ''a@x'']
     (save ref_redis (ttl_seconds demo_settings) 7 ''x'' (hash_token demo_crypto demo_token) empty_store)"

lemma demo_ttl: "ttl_seconds demo_settings = 1209600" "a_jwt demo_auth = demo_settings"
  by (simp_all add: ttl_seconds_def demo_settings_def demo_auth_def)

lemma demo_decode:
  assumes "90 \<le> t" and "t < 1209690"
  shows "decode_token demo_crypto demo_settings t demo_token REFRESH = Inr demo_payload"
proof -
  have d: "refresh_token_expire_days demo_settings * 24 * 60 * 60 = 1209600"
    by (simp add: demo_settings_def)
  show ?thesis
    using decode_create [OF demo_crypto_ok, of demo_settings 90 1209600 t "''x''" 7 REFRESH REFRESH] assms demo_issuable
    by (simp only: demo_token_def fst_create_refresh d) (simp add: demo_payload_def)
qed

lemma demo_check:
  assumes "90 \<le> t" and "t < 1209690"
  shows "refresh_check ref_redis demo_crypto demo_auth t demo_token demo_world =
    (Inr (demo_payload, demo_user 7 ''a@x''), demo_world)"
proof -
  have v: "verify ref_redis demo_crypto 7 ''x'' demo_token (kv demo_world) = TS_ACTIVE"
    using redis.verify_saved [OF ref_redis_ok, of 1209600 demo_crypto 7 "''x''" demo_token empty_store]
    by (simp add: demo_world_def demo_app_def demo_ttl)
  have p: "tp_user_id demo_payload = 7" "tp_jti demo_payload = ''x''"
    by (simp_all add: demo_payload_def)
  have u: "user_get_by_id 7 demo_world = Some (demo_user 7 ''a@x'')" "user_is_active (demo_user 7 ''a@x'')"
    by (simp_all add: user_get_by_id_def sel_pk_def demo_world_def demo_app_def demo_user_def)
  show ?thesis
    by (simp add: refresh_check_Inr demo_ttl demo_decode [OF assms] p v u)
qed

lemma demo_index: "index_ok ref_redis (ttl_seconds demo_settings) (kv demo_world)"
  using redis.index_ok_save [OF ref_redis_ok redis.index_ok_empty [OF ref_redis_ok]]
  by (simp add: demo_world_def demo_app_def demo_ttl)

section \<open>Properties\<close>

text \<open>
  C26.  Rotation.  A refresh with an ACTIVE token of an active account returns a new pair.  From
  then on the presented token verifies as REUSED and the new one as ACTIVE; every other token, of
  this user's other devices and of all other users, is exactly as before; the database is not
  written.
\<close>

theorem refresh_rotates:
  assumes "redis R" and "0 < ttl_seconds (a_jwt A)" and "j \<noteq> tp_jti p"
    and "refresh_check R C A now tok w = (Inr (p, x), w)"
    and "refresh R C A now i j tok w = (res, w')"
  shows "\<exists>ts. res = Inr ts \<and> user_id x = tp_user_id p \<and>
    verify R C (tp_user_id p) (tp_jti p) tok (kv w') = TS_REUSED \<and>
    verify R C (tp_user_id p) j (refresh_token ts) (kv w') = TS_ACTIVE \<and>
    (\<forall>b k. (b, k) \<notin> {(tp_user_id p, tp_jti p), (tp_user_id p, j)} \<longrightarrow>
       r_lookup R (kv w') (token_key b k) = r_lookup R (kv w) (token_key b k)) \<and>
    working w' = working w \<and> committed w' = committed w"
proof -
  have x: "user_id x = tp_user_id p"
    using assms(4) by (auto simp: refresh_check_Inr intro: user_get_by_id_pk)
  show ?thesis
    using assms(3,5) refresh_active [OF assms(4), of i j] x
    by (auto simp: verify_def r_get_def r_exists_def verify_token_hash_def rotated_lookup [OF assms(1-3)])
qed

theorem refresh_rotates_witness:
  "let (res, w') = refresh ref_redis demo_crypto demo_auth 100 ''i'' ''j'' demo_token demo_world
   in (\<exists>ts. res = Inr ts) \<and>
      verify ref_redis demo_crypto 7 ''x'' demo_token (kv demo_world) = TS_ACTIVE \<and>
      verify ref_redis demo_crypto 7 ''x'' demo_token (kv w') = TS_REUSED"
proof -
  have c: "refresh_check ref_redis demo_crypto demo_auth 100 demo_token demo_world =
      (Inr (demo_payload, demo_user 7 ''a@x''), demo_world)"
    by (rule demo_check) simp_all
  obtain res w' where r: "refresh ref_redis demo_crypto demo_auth 100 ''i'' ''j'' demo_token demo_world = (res, w')"
    by (rule prod.exhaust)
  show ?thesis
    using refresh_rotates [OF ref_redis_ok _ _ c r] c r
    by (auto simp: demo_ttl refresh_check_Inr demo_payload_def)
qed

text \<open>
  C3.  Reuse detection, end to end.  After that refresh, someone presents the old token once
  more, before it would have expired: the answer is 401, and every session of the user, the one
  just issued included, is revoked, while no other user's token is touched.
\<close>

theorem replay_revokes_everything:
  assumes "redis R" and "0 < ttl_seconds (a_jwt A)" and "j \<noteq> tp_jti p"
    and "index_ok R (ttl_seconds (a_jwt A)) (kv w)"
    and "refresh_check R C A now tok w = (Inr (p, x), w)"
    and "w1 = on_kv (r_tick R d) (snd (refresh R C A now i j tok w))"
    and "decode_token C (a_jwt A) (now + d) tok REFRESH = Inr p" and "now + d < tp_expires_at p"
    and "refresh R C A (now + d) i2 j2 tok w1 = (res, w2)"
  shows "res = Inl session_expired \<and>
    (\<forall>k. \<not> live R (kv w2) (tp_user_id p) k) \<and>
    (\<forall>b k. b \<noteq> tp_user_id p \<longrightarrow> r_lookup R (kv w2) (token_key b k) = r_lookup R (kv w1) (token_key b k))"
proof -
  let ?ttl = "ttl_seconds (a_jwt A)" and ?a = "tp_user_id p"
  have x: "user_id x = ?a"
    using assms(5) by (auto simp: refresh_check_Inr intro: user_get_by_id_pk)
  define h n where "h = hash_token C (fst (create_refresh_token C (a_jwt A) now j ?a))"
    and "n = int (tp_expires_at p) - int now"
  have kv1: "kv w1 = r_tick R d (save R ?ttl ?a j h (rotate R ?a (tp_jti p) n (kv w)))"
    using assms(6) refresh_active [OF assms(5), of i j] x by (simp add: h_def n_def)
  have "d < nat (max n 1)"
    using assms(8) by (simp add: n_def)
  then have "verify R C ?a (tp_jti p) tok (kv w1) = TS_REUSED"
    using assms(1-3) by (simp add: kv1 verify_def r_get_def r_exists_def redis.lookup_tick rotated_lookup)
  then have r: "res = Inl session_expired" "kv w2 = snd (revoke_all R ?a (kv w1))"
    using assms(9) refresh_compromised [OF assms(7), of R w1 i2 j2] by auto
  have "index_ok R ?ttl (kv w1)"
    using assms(1,2,4) unfolding kv1
    by (intro redis.index_ok_tick redis.index_ok_save redis.index_ok_rotate)
  then show ?thesis
    using r assms(1) by (simp add: live_def r_exists_def redis.revoke_all_token)
qed

theorem replay_revokes_everything_witness:
  "let w1 = on_kv (s_tick 50) (snd (refresh ref_redis demo_crypto demo_auth 100 ''i'' ''j'' demo_token demo_world));
       (res, w2) = refresh ref_redis demo_crypto demo_auth 150 ''i2'' ''j2'' demo_token w1
   in live ref_redis (kv w1) 7 ''j'' \<and> res = Inl session_expired \<and> \<not> live ref_redis (kv w2) 7 ''j''"
proof -
  let ?w1 = "on_kv (s_tick 50) (snd (refresh ref_redis demo_crypto demo_auth 100 ''i'' ''j'' demo_token demo_world))"
  have c: "refresh_check ref_redis demo_crypto demo_auth 100 demo_token demo_world =
      (Inr (demo_payload, demo_user 7 ''a@x''), demo_world)"
    by (rule demo_check) simp_all
  have d: "decode_token demo_crypto (a_jwt demo_auth) (100 + 50) demo_token REFRESH = Inr demo_payload"
    by (simp add: demo_ttl demo_decode)
  have w1: "?w1 = on_kv (r_tick ref_redis 50)
      (snd (refresh ref_redis demo_crypto demo_auth 100 ''i'' ''j'' demo_token demo_world))"
    by simp
  have l: "live ref_redis (kv ?w1) 7 ''j''"
    by (simp add: refresh_active [OF c] live_def r_exists_def demo_ttl demo_user_def
        rotated_lookup(1) [OF ref_redis_ok, simplified] demo_payload_def)
  obtain res w2 where r: "refresh ref_redis demo_crypto demo_auth (100 + 50) ''i2'' ''j2'' demo_token ?w1 = (res, w2)"
    by (rule prod.exhaust)
  show ?thesis
    using replay_revokes_everything [OF ref_redis_ok _ _ _ c w1 d _ r] demo_index l r
    by (simp add: demo_ttl demo_payload_def)
qed

text \<open>
  Logout.  It never fails, touches no other token, and is not mistaken for theft: the token
  that was logged out, presented again, is refused without any effect on the other sessions.
\<close>

theorem logout_is_harmless:
  assumes "redis R" and "decode_token C (a_jwt A) now tok REFRESH = Inr p" and "tok \<noteq> []"
    and "r_lookup R (kv w) (used_key (tp_user_id p) (tp_jti p)) = None"
    and "w' = snd (logout R C A now (Some tok) w)"
  shows "fst (logout R C A now cookie w) = Inr () \<and>
    refresh R C A now i j tok w' = (Inl session_expired, w') \<and>
    (\<forall>b k. (b, k) \<noteq> (tp_user_id p, tp_jti p) \<longrightarrow>
       r_lookup R (kv w') (token_key b k) = r_lookup R (kv w) (token_key b k))"
proof -
  have w': "w' = on_kv (revoke R (tp_user_id p) (tp_jti p)) w"
    using assms(2,3,5) by (simp add: logout_def prog_simps)
  have "verify R C (tp_user_id p) (tp_jti p) tok (kv w') = TS_UNKNOWN"
    using assms(1,4) by (simp add: w' verify_def r_get_def r_exists_def redis.lookup_revoke)
  then have "refresh R C A now i j tok w' = (Inl session_expired, w')"
    by (rule refresh_unknown [OF assms(2)])
  moreover have "fst (logout R C A now cookie w) = Inr ()"
    by (simp add: logout_def prog_simps split: option.split sum.split)
  ultimately show ?thesis
    using assms(1) by (auto simp: w' redis.lookup_revoke)
qed

theorem logout_is_harmless_witness:
  "let w' = snd (logout ref_redis demo_crypto demo_auth 100 (Some demo_token) demo_world)
   in live ref_redis (kv demo_world) 7 ''x'' \<and>
      refresh ref_redis demo_crypto demo_auth 100 ''i'' ''j'' demo_token w' = (Inl session_expired, w')"
proof -
  have d: "decode_token demo_crypto (a_jwt demo_auth) 100 demo_token REFRESH = Inr demo_payload"
    by (simp add: demo_ttl demo_decode)
  have l: "live ref_redis (kv demo_world) 7 ''x''"
    "r_lookup ref_redis (kv demo_world) (used_key (tp_user_id demo_payload) (tp_jti demo_payload)) = None"
    using redis.lookup_save [OF ref_redis_ok, of 1209600 7 "''x''" "hash_token demo_crypto demo_token" empty_store]
    by (simp_all add: live_def r_exists_def demo_world_def demo_app_def demo_ttl demo_payload_def)
  have "demo_token \<noteq> []"
    by (simp add: demo_token_def create_refresh_token_def create_token_def Let_def demo_crypto_def
        demo_encode_def enc_str_def)
  then show ?thesis
    using logout_is_harmless [OF ref_redis_ok d _ l(2) refl, of None "''i''" "''j''"] l(1)
    by (simp add: Let_def)
qed

text \<open>
  Rotation is not atomic.  Two requests that present the same ACTIVE token at the same time
  both pass the check before either rotates; both then succeed, and two live sessions descend
  from one single-use token, without any sign of reuse.
\<close>

theorem double_refresh_race:
  assumes "redis R" and "0 < ttl_seconds (a_jwt A)" and "distinct [j1, j2, tp_jti p]"
    and "refresh_check R C A now tok w = (Inr (p, x), w)"
    and "refresh_rotate R C A now i1 j1 (p, x) w = (r1, w1)"
    and "refresh_rotate R C A now i2 j2 (p, x) w1 = (r2, w2)"
  shows "\<exists>t1 t2. r1 = Inr t1 \<and> r2 = Inr t2 \<and>
    verify R C (tp_user_id p) j1 (refresh_token t1) (kv w2) = TS_ACTIVE \<and>
    verify R C (tp_user_id p) j2 (refresh_token t2) (kv w2) = TS_ACTIVE"
proof -
  have x: "user_id x = tp_user_id p"
    using assms(4) by (auto simp: refresh_check_Inr intro: user_get_by_id_pk)
  show ?thesis
    using assms(1,2,3,5,6) x
    by (auto simp: refresh_rotate_def prog_simps issue_tokens_apply Let_def verify_def r_get_def
        verify_token_hash_def rotated_lookup)
qed

theorem double_refresh_race_witness:
  "let (r1, w1) = refresh_rotate ref_redis demo_crypto demo_auth 100 ''i'' ''j'' (demo_payload, demo_user 7 ''a@x'') demo_world;
       (r2, w2) = refresh_rotate ref_redis demo_crypto demo_auth 100 ''k'' ''l'' (demo_payload, demo_user 7 ''a@x'') w1
   in (\<exists>t1. r1 = Inr t1) \<and> (\<exists>t2. r2 = Inr t2 \<and>
        verify ref_redis demo_crypto 7 ''l'' (refresh_token t2) (kv w2) = TS_ACTIVE)"
proof -
  have c: "refresh_check ref_redis demo_crypto demo_auth 100 demo_token demo_world =
      (Inr (demo_payload, demo_user 7 ''a@x''), demo_world)"
    by (rule demo_check) simp_all
  obtain r1 w1 where r1: "refresh_rotate ref_redis demo_crypto demo_auth 100 ''i'' ''j'' (demo_payload, demo_user 7 ''a@x'') demo_world = (r1, w1)"
    by (rule prod.exhaust)
  obtain r2 w2 where r2: "refresh_rotate ref_redis demo_crypto demo_auth 100 ''k'' ''l'' (demo_payload, demo_user 7 ''a@x'') w1 = (r2, w2)"
    by (rule prod.exhaust)
  show ?thesis
    using double_refresh_race [OF ref_redis_ok _ _ c r1 r2] r1 r2
    by (auto simp: demo_ttl demo_payload_def)
qed

text \<open>
  C27.  A failed login does not tell why.  Take two databases with the same Redis in which the
  login cannot succeed: no such account, a wrong password, or an inactive account, whichever.
  The answer and the Redis afterwards are the same, and the database is not written.
\<close>

definition cannot_login :: "crypto \<Rightarrow> (string \<Rightarrow> string) \<Rightarrow> string \<Rightarrow> utext \<Rightarrow> 'x session_scheme \<Rightarrow> bool" where
  "cannot_login C coll email password s \<longleftrightarrow>
     (\<forall>x\<in>set (users (working s)). coll (user_email x) = coll email \<longrightarrow>
        \<not> verify_password C password (user_password_hash x) \<or> \<not> user_is_active x)"

lemma login_fails:
  assumes "distinct (map (\<lambda>r. coll (user_email r)) (users (working w)))"
    and "cannot_login C coll email password w"
  shows "login R C A coll now i j email password ip w =
    (case check_login_rate_limit R A email ip w of
       (Inl e, w') \<Rightarrow> (Inl e, w') | (Inr _, w') \<Rightarrow> (Inl login_failed, w'))"
proof -
  let ?c = "check_login_rate_limit R A email ip w"
  have db: "users (working (snd ?c)) = users (working w)"
    using check_keys_db [of R A "rate_limit_keys email ip" w] by (simp add: check_login_rate_limit_def)
  have e: "user_get_by_email coll email (snd ?c) =
      Inr (find (\<lambda>r. coll (user_email r) = coll email) (users (working w)))"
    using get_by_email_unique [of coll "snd ?c" email] assms(1) by (simp add: db)
  have "find (\<lambda>r. coll (user_email r) = coll email) (users (working w)) = Some x \<Longrightarrow>
      \<not> verify_password C password (user_password_hash x) \<or> \<not> user_is_active x" for x
    using assms(2) by (auto simp: cannot_login_def dest: find_SomeD)
  with e show ?thesis
    by (cases ?c) (auto simp: login_def prog_simps Let_def split: sum.splits option.splits)
qed

theorem login_failure_uniform:
  fixes w w' :: "'r app"
  assumes "session_ok coll w" and "session_ok coll w'" and "kv w = kv w'"
    and "cannot_login C coll email password w" and "cannot_login C coll email password w'"
    and "login R C A coll now i j email password ip w = (r, t)"
    and "login R C A coll now i' j' email password ip w' = (r', t')"
  shows "r = r' \<and> kv t = kv t' \<and> (r = Inl login_failed \<or> (\<exists>m n. r = Inl (AppError (RateLimitedError m n)))) \<and>
    working t = working w \<and> committed t = committed w"
proof -
  have d: "distinct (map (\<lambda>r. coll (user_email r)) (users (working w)))"
    "distinct (map (\<lambda>r. coll (user_email r)) (users (working w')))"
    using assms(1,2) by (auto dest!: session_ok_working schema_ok_ids(7))
  have e: "\<exists>m n. e = AppError (RateLimitedError m n)"
    if "fst (check_keys R A ks v) = Inl e" for ks v e
    using that by (induction ks arbitrary: v) (auto simp: prog_simps Let_def split: prod.splits if_splits)
  show ?thesis
    using login_fails [OF d(1) assms(4), of R A now i j ip] login_fails [OF d(2) assms(5), of R A now i' j' ip]
      check_keys_verdict [OF assms(3), of R A "rate_limit_keys email ip"]
      check_keys_db [of R A "rate_limit_keys email ip" w] e [of "rate_limit_keys email ip" w] assms(6,7)
    by (auto simp: check_login_rate_limit_def split: prod.splits sum.splits)
qed

theorem login_failure_uniform_witness:
  "fst (login ref_redis demo_crypto demo_auth lower 100 ''i'' ''j'' ''a@x'' (u ''password'') ''ip'' (demo_app [demo_user 7 ''a@x''] empty_store)) =
   fst (login ref_redis demo_crypto demo_auth lower 100 ''i'' ''j'' ''a@x'' (u ''password'') ''ip'' (demo_app [] empty_store))"
proof -
  have s: "session_ok lower (demo_app [] empty_store)" "session_ok lower (demo_app [demo_user 7 ''a@x''] empty_store)"
    by (simp_all add: session_ok_def schema_ok_def demo_app_def empty_db_def ids_ok_def demo_user_def)
  have k: "kv (demo_app [demo_user 7 ''a@x''] empty_store) = kv (demo_app [] empty_store)"
    by (simp add: demo_app_def)
  have n: "cannot_login demo_crypto lower ''a@x'' (u ''password'') (demo_app [] empty_store)"
    "cannot_login demo_crypto lower ''a@x'' (u ''password'') (demo_app [demo_user 7 ''a@x''] empty_store)"
    by (simp_all add: cannot_login_def demo_app_def empty_db_def demo_user_def verify_password_def Let_def
        demo_crypto_def u_def utf8_def utf8_char_def bcrypt_max_password_bytes_def show_nat.simps)
  show ?thesis
    using login_failure_uniform [OF s(2,1) k n(2,1) prod.collapse [symmetric] prod.collapse [symmetric]]
    by blast
qed

text \<open>
  Brute force is stopped.  Once the counter of an e-mail address has reached the limit in its
  open window, every further login for this address is refused with 429 and the seconds left,
  also with the right password and from any IP address, and no session is created; nor does the
  attempt prolong the window.
\<close>

theorem login_blocked:
  fixes w :: "'r app"
  assumes "redis R" and "0 < login_rate_limit_window_seconds A"
    and "holds_window R (''ratelimit:login:email:'' @ lower email) (kv w) (Some (n, left))"
    and "login_rate_limit_max_attempts A \<le> int n"
    and "login R C A coll now i j email password ip w = (r, t)"
  shows "r = Inl (AppError (RateLimitedError (Some MsgTooManyLogins) (int left))) \<and>
    (\<forall>b k. r_lookup R (kv t) (token_key b k) = r_lookup R (kv w) (token_key b k)) \<and>
    holds_window R (''ratelimit:login:email:'' @ lower email) (kv t) (Some (Suc n, left))"
proof -
  let ?k = "''ratelimit:login:email:'' @ lower email"
  let ?h = "hit R ?k (login_rate_limit_max_attempts A) (login_rate_limit_window_seconds A) (kv w)"
  have "\<not> allowed (fst ?h)"
    using redis.hit_current [OF assms(1,3)] assms(4)
    by (simp add: redis.hit_allowed [OF assms(1)])
  moreover have "retry_after (fst ?h) = int left"
    using redis.hit_wait [OF assms(1,3,2)] assms(4) by simp
  ultimately have "login R C A coll now i j email password ip w =
      (Inl (AppError (RateLimitedError (Some MsgTooManyLogins) (int left))), on_kv (\<lambda>_. snd ?h) w)"
    by (simp add: login_def check_login_rate_limit_def rate_limit_keys_def prog_simps
        case_prod_unfold Let_def)
  moreover have "r_lookup R (snd ?h) (token_key b k) = r_lookup R (kv w) (token_key b k)" for b k
    using foreign_keys(1) [of "''login:email:'' @ lower email"]
    by (intro redis.hit_other [OF assms(1)]) (metis append.assoc append_Cons append_Nil token_family_keys(1))
  moreover have "holds_window R ?k (snd ?h) (Some (Suc n, left))"
    using redis.hit_refines [OF assms(1,3,2)] by simp
  ultimately show ?thesis using assms(5) by simp
qed

theorem login_blocked_witness:
  "let s = s_update ''ratelimit:login:email:a@x'' (\<lambda>_. Some (RString ''2'', Some 50)) empty_store
   in fst (login ref_redis demo_crypto demo_auth lower 100 ''i'' ''j'' ''A@x'' (u ''password'') ''ip'' (demo_app [] s)) =
      Inl (AppError (RateLimitedError (Some MsgTooManyLogins) 50))"
proof -
  let ?s = "s_update ''ratelimit:login:email:a@x'' (\<lambda>_. Some (RString ''2'', Some 50)) empty_store"
  have e: "lower ''A@x'' = ''a@x''" "show_int 2 = ''2''" by code_simp+
  have h: "holds_window ref_redis (''ratelimit:login:email:'' @ lower ''A@x'') (kv (demo_app [] ?s)) (Some (2, 50))"
    by (simp add: holds_window_def demo_app_def e)
  show ?thesis
    using login_blocked [OF ref_redis_ok _ h _ prod.collapse [symmetric]]
    by (simp add: demo_auth_def)
qed

text \<open>
  A successful login closes the window of the IP address too.  Whoever owns one account can
  therefore alternate guesses at other accounts with a login of their own: after it, the counter
  of their IP address is gone, whatever it had counted, and the next guess is allowed.
\<close>

theorem own_login_clears_ip:
  fixes w :: "'r app"
  assumes "redis R" and "0 < login_rate_limit_window_seconds A" and "1 \<le> login_rate_limit_max_attempts A"
    and "0 < ttl_seconds (a_jwt A)"
    and "login R C A coll now i j email password ip w = (Inr ts, t)"
  shows "holds_window R (''ratelimit:login:ip:'' @ ip) (kv t) None \<and>
    allowed (fst (hit R (''ratelimit:login:ip:'' @ ip) (login_rate_limit_max_attempts A)
      (login_rate_limit_window_seconds A) (kv t)))"
proof -
  let ?k = "''ratelimit:login:ip:'' @ ip"
  have fam: "?k \<noteq> token_key b k" "?k \<noteq> index_key b" for b k
    using foreign_keys(1) [of "''login:ip:'' @ ip"] token_family_keys(1) [of b k]
      token_family_keys(2) [of b] by auto
  obtain v uid h where "kv t = save R (ttl_seconds (a_jwt A)) uid j h (reset_login_rate_limit R email ip v)"
    using assms(5)
    by (auto simp: login_def prog_simps issue_tokens_apply Let_def split: sum.splits prod.splits
        option.splits if_splits)
  then have "r_lookup R (kv t) ?k = None"
    using fam assms(1,4)
    by (simp add: redis.lookup_save reset_login_rate_limit_def rate_limit_keys_def reset_def
        redis.lookup_delete)
  then have w: "holds_window R ?k (kv t) None"
    by (simp add: holds_window_def)
  then show ?thesis
    using redis.hit_current [OF assms(1) w] assms(3) by (simp add: redis.hit_allowed [OF assms(1)])
qed

theorem own_login_clears_ip_witness:
  "let us = [(demo_user 7 ''a@x'')\<lparr>user_password_hash := bcrypt_hashpw demo_crypto (utf8 (u ''password'')) ''s''\<rparr>];
       s = s_update ''ratelimit:login:ip:9'' (\<lambda>_. Some (RString ''1'', Some 50)) empty_store;
       (r, t) = login ref_redis demo_crypto demo_auth lower 100 ''i'' ''j'' ''a@x'' (u ''password'') ''9'' (demo_app us s)
   in (\<exists>ts. r = Inr ts) \<and> s_lookup (kv t) ''ratelimit:login:ip:9'' = None"
proof -
  let ?us = "[(demo_user 7 ''a@x'')\<lparr>user_password_hash := bcrypt_hashpw demo_crypto (utf8 (u ''password'')) ''s''\<rparr>]"
  let ?s = "s_update ''ratelimit:login:ip:9'' (\<lambda>_. Some (RString ''1'', Some 50)) empty_store"
  have l: "lower ''a@x'' = ''a@x''" "show_int 1 = ''1''" "show_int 2 = ''2''" "py_int ''1'' = Some 1"
    "py_int ''2'' = Some 2"
    by code_simp+
  have v: "verify_password demo_crypto (u ''password'') (bcrypt_hashpw demo_crypto (utf8 (u ''password'')) ''s'')"
    by (rule verify_hash_password [OF demo_crypto_ok, of "''s''"]) (simp add: hash_password_def Let_def
        bcrypt_max_password_bytes_def u_def utf8_def utf8_char_def)
  obtain ts t where t: "login ref_redis demo_crypto demo_auth lower 100 ''i'' ''j'' ''a@x'' (u ''password'') ''9'' (demo_app ?us ?s) = (Inr ts, t)"
    by (simp add: login_def check_login_rate_limit_def rate_limit_keys_def prog_simps hit_def Let_def
        r_incr_reply_def r_get_def user_get_by_email_def v l demo_auth_def demo_app_def demo_user_def
        issue_tokens_apply empty_db_def)
  show ?thesis
    using own_login_clears_ip [OF ref_redis_ok _ _ _ t] t
    by (simp add: demo_auth_def demo_ttl holds_window_def)
qed

end
