(* ===== verification/Menus.thy ===== *)
theory Menus
  imports Access "HOL-Library.Option_ord" "HOL-Library.Multiset"
begin

text \<open>
  \<^verbatim>\<open>modules/menus\<close>: the category tree, stored as an adjacency list of live (not logically deleted)
  rows.  \<open>ncoll\<close> is the collation of the name column.  The walk to the ancestors in
  \<^verbatim>\<open>_ensure_not_own_descendant\<close> is a loop that need not end, so it is a partial function and an update
  that never returns is \<open>None\<close>; the invariant \<open>menus_ok\<close> shows that this cannot happen.
\<close>

section \<open>Schemas\<close>

definition MenuNameStr :: "utext \<Rightarrow> utext option" where
  "MenuNameStr v = (if 1 \<le> length v \<and> length v \<le> 50 then Some v else None)"

record menu_create_body =
  mc_name :: utext
  mc_parent_id :: "int option"

record menu_update_body =
  mu_name :: "utext sent"
  mu_parent_id :: "int sent"

definition MenuCreate :: "utext \<Rightarrow> int option \<Rightarrow> menu_create_body option" where
  "MenuCreate n p = map_option (\<lambda>n'. \<lparr>mc_name = n', mc_parent_id = p\<rparr>) (MenuNameStr n)"

definition MenuUpdate :: "utext sent \<Rightarrow> int sent \<Rightarrow> menu_update_body option" where
  "MenuUpdate n p = map_option (\<lambda>n'. \<lparr>mu_name = n', mu_parent_id = p\<rparr>) (sent_valid MenuNameStr n)"

record menu_response =
  mr_menu_id :: int
  mr_menu_name :: utext
  mr_menu_parent_id :: "int option"
  mr_created_at :: time
  mr_updated_at :: time

definition menu_response_of :: "menu \<Rightarrow> menu_response" where
  "menu_response_of m =
     \<lparr>mr_menu_id = menu_id m, mr_menu_name = menu_name m, mr_menu_parent_id = menu_parent_id m,
      mr_created_at = menu_created_at m, mr_updated_at = menu_updated_at m\<rparr>"

datatype menu_tree = MenuTree (node: menu_response) (children: "menu_tree list")

section \<open>Repository\<close>

definition menu_active :: "db \<Rightarrow> menu list" where
  "menu_active d = filter (\<lambda>m. menu_deleted_at m = None) (menus d)"

definition menu_get_by_id :: "int \<Rightarrow> 'x session_scheme \<Rightarrow> exn + menu option" where
  "menu_get_by_id mid s =
     one_or_none (SQLAlchemyError MultipleResultsFound)
       (filter (\<lambda>m. menu_id m = mid) (menu_active (working s)))"

text \<open>\<^verbatim>\<open>ORDER BY menu_parent_id, menu_id\<close>; NULL comes first in MySQL.\<close>

definition menu_list_all :: "'x session_scheme \<Rightarrow> menu list" where
  "menu_list_all s = sort_key menu_parent_id (sort_key menu_id (menu_active (working s)))"

definition menu_list_children :: "int option \<Rightarrow> 'x session_scheme \<Rightarrow> menu list" where
  "menu_list_children pid s = filter (\<lambda>m. menu_parent_id m = pid) (menu_active (working s))"

definition menu_exists_by_id :: "int \<Rightarrow> 'x session_scheme \<Rightarrow> bool" where
  "menu_exists_by_id mid s \<longleftrightarrow> length (filter (\<lambda>m. menu_id m = mid) (menu_active (working s))) \<noteq> 0"

text \<open>
  \<open>None\<close> for the name is the comparison with \<^verbatim>\<open>NULL\<close>, which SQLAlchemy writes \<^verbatim>\<open>IS NULL\<close>; the column
  has no such row.
\<close>

definition menu_exists_by_parent_and_name ::
  "(utext \<Rightarrow> utext) \<Rightarrow> int option \<Rightarrow> utext option \<Rightarrow> 'x session_scheme \<Rightarrow> bool" where
  "menu_exists_by_parent_and_name ncoll pid name s \<longleftrightarrow>
     length (filter (\<lambda>m. menu_parent_id m = pid \<and>
       (case name of None \<Rightarrow> False | Some n \<Rightarrow> ncoll (menu_name m) = ncoll n)) (menu_active (working s))) \<noteq> 0"

text \<open>
  The UNIQUE index on (parent, name, \<open>deleted_at\<close>): rows with a NULL in any of the columns never
  conflict, so it says nothing about live menus, nor about top-level ones.
\<close>

definition uq_menus_parent_name :: "(utext \<Rightarrow> utext) \<Rightarrow> menu list \<Rightarrow> bool" where
  "uq_menus_parent_name ncoll ms \<longleftrightarrow>
     distinct (map (\<lambda>m. (menu_parent_id m, ncoll (menu_name m), menu_deleted_at m))
       (filter (\<lambda>m. menu_parent_id m \<noteq> None \<and> menu_deleted_at m \<noteq> None) ms))"

definition menu_flush ::
  "(utext \<Rightarrow> utext) \<Rightarrow> ('x session_scheme \<Rightarrow> 'x session_scheme) \<Rightarrow> ('x session_scheme, exn, unit) prog" where
  "menu_flush ncoll upd = (\<lambda>s.
     if uq_menus_parent_name ncoll (menus (working (upd s))) then (Inr (), upd s)
     else (Inl (SQLAlchemyError IntegrityError), s))"

section \<open>Service\<close>

definition menu_get_or_404 :: "int \<Rightarrow> ('x session_scheme, exn, menu) prog" where
  "menu_get_or_404 mid =
     bindP (\<lambda>s. (menu_get_by_id mid s, s)) (\<lambda>m.
     case m of None \<Rightarrow> raiseP (AppError (NotFoundError (Some MsgMenuNotFound))) | Some x \<Rightarrow> returnP x)"

definition ensure_parent_exists :: "int option \<Rightarrow> ('x session_scheme, exn, unit) prog" where
  "ensure_parent_exists pid =
     (case pid of
        None \<Rightarrow> returnP ()
      | Some p \<Rightarrow> bindP (getsP (menu_exists_by_id p)) (\<lambda>b.
          if \<not> b then raiseP (AppError (NotFoundError (Some MsgMenuParentNotFound))) else returnP ()))"

definition ensure_name_available ::
  "(utext \<Rightarrow> utext) \<Rightarrow> int option \<Rightarrow> utext option \<Rightarrow> ('x session_scheme, exn, unit) prog" where
  "ensure_name_available ncoll pid name =
     bindP (getsP (menu_exists_by_parent_and_name ncoll pid name)) (\<lambda>b.
     if b then raiseP (AppError (ConflictError (Some MsgMenuNameTaken))) else returnP ())"

text \<open>
  The \<^verbatim>\<open>while\<close> loop: from \<open>cursor\<close> up.  \<open>Some True\<close>: \<open>mid\<close> was met; \<open>Some False\<close>: the walk left the
  tree.
\<close>

partial_function (option) walk_up :: "menu list \<Rightarrow> int \<Rightarrow> int option \<Rightarrow> bool option" where
  "walk_up ms mid cursor =
     (case cursor of
        None \<Rightarrow> Some False
      | Some c \<Rightarrow>
          if c = mid then Some True
          else (case find (\<lambda>m. menu_id m = c) ms of
                  None \<Rightarrow> Some False
                | Some parent \<Rightarrow> walk_up ms mid (menu_parent_id parent)))"

definition ensure_not_own_descendant :: "int \<Rightarrow> int \<Rightarrow> 'x session_scheme \<Rightarrow> (exn + unit) option" where
  "ensure_not_own_descendant mid new_parent s =
     (if mid = new_parent then Some (Inl (AppError (BadRequestError (Some MsgMenuSelfParent))))
      else map_option (\<lambda>b. if b then Inl (AppError (BadRequestError (Some MsgMenuDescendant))) else Inr ())
             (walk_up (menu_active (working s)) mid (Some new_parent)))"

text \<open>\<open>get_tree\<close>: the children lists and the roots as the second loop fills them, then the response.\<close>

fun link_menu :: "int set \<Rightarrow> menu \<Rightarrow> (int \<Rightarrow> menu list) \<times> menu list \<Rightarrow> (int \<Rightarrow> menu list) \<times> menu list" where
  "link_menu nodes m (ch, roots) =
     (case menu_parent_id m of
        None \<Rightarrow> (ch, roots @ [m])
      | Some p \<Rightarrow> if p \<in> nodes then (ch(p := ch p @ [m]), roots) else (ch, roots @ [m]))"

definition link_menus :: "menu list \<Rightarrow> (int \<Rightarrow> menu list) \<times> menu list" where
  "link_menus ms = fold (link_menu (menu_id ` set ms)) ms ((\<lambda>_. []), [])"

fun tree_of :: "nat \<Rightarrow> (int \<Rightarrow> menu list) \<Rightarrow> menu \<Rightarrow> menu_tree" where
  "tree_of 0 ch m = MenuTree (menu_response_of m) []"
| "tree_of (Suc n) ch m = MenuTree (menu_response_of m) (map (tree_of n ch) (ch (menu_id m)))"

definition get_tree :: "'x session_scheme \<Rightarrow> menu_tree list" where
  "get_tree s =
     (let ms = menu_list_all s; (ch, roots) = link_menus ms in map (tree_of (length ms) ch) roots)"

definition menu_get_detail :: "int \<Rightarrow> ('x session_scheme, exn, menu) prog" where
  "menu_get_detail mid = menu_get_or_404 mid"

text \<open>\<open>env\<close> is what other requests commit between the checks and the INSERT.\<close>

definition menu_create ::
  "(utext \<Rightarrow> utext) \<Rightarrow> ('x session_scheme \<Rightarrow> 'x session_scheme) \<Rightarrow> time \<Rightarrow> menu_create_body \<Rightarrow>
   ('x session_scheme, exn, menu) prog" where
  "menu_create ncoll env now b =
     bindP (ensure_parent_exists (mc_parent_id b)) (\<lambda>_.
     bindP (ensure_name_available ncoll (mc_parent_id b) (Some (mc_name b))) (\<lambda>_.
     bindP (modifyP env) (\<lambda>_.
     bindP (ins_row T_menus menus_update (\<lambda>i. \<lparr>menu_id = i, menu_name = mc_name b,
         menu_parent_id = mc_parent_id b, menu_deleted_at = None, menu_created_at = now,
         menu_updated_at = now\<rparr>)) (\<lambda>m.
     bindP (modifyP commit) (\<lambda>_. returnP m)))))"

definition stamp_menu :: "time \<Rightarrow> menu \<Rightarrow> menu" where
  "stamp_menu now m = m\<lparr>menu_updated_at := now\<rparr>"

fun sent_or :: "'a option \<Rightarrow> 'a sent \<Rightarrow> 'a option" where
  "sent_or old Unset = old"
| "sent_or old Null = None"
| "sent_or old (Sent v) = Some v"

text \<open>What \<open>setattr\<close> and the flush do once the checks passed; a \<^verbatim>\<open>null\<close> name violates NOT NULL.\<close>

definition menu_write ::
  "(utext \<Rightarrow> utext) \<Rightarrow> time \<Rightarrow> int \<Rightarrow> utext option \<Rightarrow> int option \<Rightarrow> ('x session_scheme, exn, unit) prog" where
  "menu_write ncoll now mid name pid =
     (case name of
        None \<Rightarrow> raiseP (SQLAlchemyError IntegrityError)
      | Some n \<Rightarrow>
          bindP (menu_flush ncoll (upd_pk menu_id menus_update mid
            (orm_update (stamp_menu now) (\<lambda>m. m\<lparr>menu_name := n, menu_parent_id := pid\<rparr>)))) (\<lambda>_.
          modifyP commit))"

definition menu_update_rest ::
  "(utext \<Rightarrow> utext) \<Rightarrow> time \<Rightarrow> menu \<Rightarrow> menu_update_body \<Rightarrow> ('x session_scheme, exn, menu) prog" where
  "menu_update_rest ncoll now m b =
     (let new_parent_id = sent_or (menu_parent_id m) (mu_parent_id b);
          new_name = sent_or (Some (menu_name m)) (mu_name b)
      in bindP (if new_parent_id \<noteq> menu_parent_id m \<or> new_name \<noteq> Some (menu_name m)
                then ensure_name_available ncoll new_parent_id new_name else returnP ()) (\<lambda>_.
         bindP (menu_write ncoll now (menu_id m) new_name new_parent_id) (\<lambda>_.
         menu_get_or_404 (menu_id m))))"

definition menu_update ::
  "(utext \<Rightarrow> utext) \<Rightarrow> time \<Rightarrow> int \<Rightarrow> menu_update_body \<Rightarrow> 'x session_scheme \<Rightarrow>
   ((exn + menu) \<times> 'x session_scheme) option" where
  "menu_update ncoll now mid b s =
     (case menu_get_or_404 mid s of
        (Inl e, s') \<Rightarrow> Some (Inl e, s')
      | (Inr m, s') \<Rightarrow>
          (case mu_parent_id b of
             Sent p \<Rightarrow>
               (case ensure_parent_exists (Some p) s' of
                  (Inl e, s2) \<Rightarrow> Some (Inl e, s2)
                | (Inr _, s2) \<Rightarrow>
                    (case ensure_not_own_descendant mid p s2 of
                       None \<Rightarrow> None
                     | Some (Inl e) \<Rightarrow> Some (Inl e, s2)
                     | Some (Inr _) \<Rightarrow> Some (menu_update_rest ncoll now m b s2)))
           | _ \<Rightarrow> Some (menu_update_rest ncoll now m b s')))"

definition menu_delete :: "(utext \<Rightarrow> utext) \<Rightarrow> time \<Rightarrow> int \<Rightarrow> ('x session_scheme, exn, unit) prog" where
  "menu_delete ncoll now mid =
     bindP (menu_get_or_404 mid) (\<lambda>m.
     bindP (getsP (menu_list_children (Some mid))) (\<lambda>kids.
     if kids \<noteq> [] then raiseP (AppError (BadRequestError (Some MsgMenuHasChildren)))
     else bindP (menu_flush ncoll (upd_pk menu_id menus_update mid
                  (orm_update (stamp_menu now) (\<lambda>m. m\<lparr>menu_deleted_at := Some now\<rparr>)))) (\<lambda>_.
          modifyP commit)))"

section \<open>Endpoints\<close>

definition get_menu_tree ::
  "crypto \<Rightarrow> jwt_settings \<Rightarrow> time \<Rightarrow> string option \<Rightarrow> ('x session_scheme, exn, menu_tree list) prog" where
  "get_menu_tree C S now cred = protected C S now cred (getsP get_tree)"

definition get_menu ::
  "crypto \<Rightarrow> jwt_settings \<Rightarrow> time \<Rightarrow> string option \<Rightarrow> int \<Rightarrow> ('x session_scheme, exn, menu_response) prog" where
  "get_menu C S now cred mid =
     protected C S now cred (bindP (menu_get_detail mid) (\<lambda>m. returnP (menu_response_of m)))"

definition create_menu ::
  "crypto \<Rightarrow> jwt_settings \<Rightarrow> (utext \<Rightarrow> utext) \<Rightarrow> ('x session_scheme \<Rightarrow> 'x session_scheme) \<Rightarrow> time \<Rightarrow>
   string option \<Rightarrow> menu_create_body \<Rightarrow> ('x session_scheme, exn, menu_response) prog" where
  "create_menu C S ncoll env now cred b =
     protected C S now cred (bindP (menu_create ncoll env now b) (\<lambda>m. returnP (menu_response_of m)))"

definition update_menu ::
  "crypto \<Rightarrow> jwt_settings \<Rightarrow> (utext \<Rightarrow> utext) \<Rightarrow> time \<Rightarrow> string option \<Rightarrow> int \<Rightarrow> menu_update_body \<Rightarrow>
   'x session_scheme \<Rightarrow> ((exn + menu_response) \<times> 'x session_scheme) option" where
  "update_menu C S ncoll now cred mid b s =
     (case get_current_user C S now cred s of
        (Inl e, s') \<Rightarrow> Some (Inl e, rollback s')
      | (Inr _, s') \<Rightarrow>
          map_option (\<lambda>(r, s2). (map_sum id menu_response_of r, rollback s2)) (menu_update ncoll now mid b s'))"

definition delete_menu ::
  "crypto \<Rightarrow> jwt_settings \<Rightarrow> (utext \<Rightarrow> utext) \<Rightarrow> time \<Rightarrow> string option \<Rightarrow> int \<Rightarrow>
   ('x session_scheme, exn, unit) prog" where
  "delete_menu C S ncoll now cred mid = protected C S now cred (menu_delete ncoll now mid)"

section \<open>The parent relation\<close>

definition parent_of :: "menu list \<Rightarrow> (int \<times> int) set" where
  "parent_of ms = {(p, c). p \<in> menu_id ` set ms \<and> (\<exists>m\<in>set ms. menu_id m = c \<and> menu_parent_id m = Some p)}"

text \<open>
  The invariant of the live menus: every parent is itself live, and no menu is its own ancestor.
\<close>

definition menus_ok :: "db \<Rightarrow> bool" where
  "menus_ok d \<longleftrightarrow>
     (\<forall>m\<in>set (menu_active d). \<forall>p. menu_parent_id m = Some p \<longrightarrow> p \<in> menu_id ` set (menu_active d)) \<and>
     acyclic (parent_of (menu_active d))"

lemma parent_of_fields: "(p, c) \<in> parent_of ms \<Longrightarrow> p \<in> menu_id ` set ms \<and> c \<in> menu_id ` set ms"
  by (auto simp: parent_of_def)

lemma finite_parent_of: "finite (parent_of ms)"
  by (rule finite_subset [of _ "menu_id ` set ms \<times> menu_id ` set ms"])
    (auto dest: parent_of_fields)

lemma parent_of_unique:
  assumes "distinct (map menu_id ms)" and "m \<in> set ms"
  shows "(p, menu_id m) \<in> parent_of ms \<longleftrightarrow> menu_parent_id m = Some p \<and> p \<in> menu_id ` set ms"
  using assms by (auto simp: parent_of_def distinct_map dest: inj_onD)


text \<open>One step of the walk: it stops at \<open>mid\<close> and at a menu without a live parent, and follows an edge otherwise.\<close>

lemma walk_up_self: "walk_up ms mid (Some mid) = Some True"
  by (subst walk_up.simps) simp

lemma walk_up_missing: "p \<noteq> mid \<Longrightarrow> p \<notin> menu_id ` set ms \<Longrightarrow> walk_up ms mid (Some p) = Some False"
  by (subst walk_up.simps) (auto split: option.split dest: find_SomeD)

lemma walk_up_found:
  assumes "distinct (map menu_id ms)" and "m \<in> set ms" and "menu_id m \<noteq> mid"
  shows "walk_up ms mid (Some (menu_id m)) = walk_up ms mid (menu_parent_id m)"
proof -
  have "find (\<lambda>x. menu_id x = menu_id m) ms = Some m"
    using assms(1,2) by (intro find_unique_Some) auto
  then show ?thesis using assms(3) by (subst walk_up.simps) simp
qed

lemma walk_up_top:
  assumes "distinct (map menu_id ms)" and "mid \<in> menu_id ` set ms" and "c \<noteq> mid" and "\<And>p. (p, c) \<notin> parent_of ms"
  shows "walk_up ms mid (Some c) = Some False"
proof (cases "c \<in> menu_id ` set ms")
  case True
  then obtain m where m: "m \<in> set ms" "menu_id m = c" by blast
  have "walk_up ms mid (menu_parent_id m) = Some False"
  proof (cases "menu_parent_id m")
    case None
    then show ?thesis by (subst walk_up.simps) simp
  next
    case (Some p)
    then have "p \<notin> menu_id ` set ms" using assms(4) [of p] m by (auto simp: parent_of_def)
    with assms(2) Some show ?thesis by (auto intro: walk_up_missing)
  qed
  with walk_up_found [OF assms(1) m(1)] assms(3) m(2) show ?thesis by simp
qed (simp add: walk_up_missing assms(3))

lemma walk_up_edge:
  assumes "distinct (map menu_id ms)" and "(p, c) \<in> parent_of ms" and "c \<noteq> mid"
  shows "walk_up ms mid (Some c) = walk_up ms mid (Some p)"
proof -
  obtain m where m: "m \<in> set ms" "menu_id m = c" "menu_parent_id m = Some p"
    using assms(2) by (auto simp: parent_of_def)
  then show ?thesis using walk_up_found [OF assms(1) m(1), of mid] assms(3) by simp
qed

lemma parent_of_inj: "distinct (map menu_id ms) \<Longrightarrow> (p, c) \<in> parent_of ms \<Longrightarrow> (q, c) \<in> parent_of ms \<Longrightarrow> p = q"
  using parent_of_unique by (fastforce simp: parent_of_def)

text \<open>
  On a forest the walk ends, and finds \<open>mid\<close> exactly if the cursor is \<open>mid\<close> or below it.
\<close>

lemma walk_up_decides:
  assumes "acyclic (parent_of ms)" and d: "distinct (map menu_id ms)" and mid: "mid \<in> menu_id ` set ms"
  shows "walk_up ms mid (Some c) = Some ((mid, c) \<in> (parent_of ms)\<^sup>*)"
  using finite_acyclic_wf [OF finite_parent_of assms(1)]
proof (induction c rule: wf_induct_rule)
  case (less c)
  show ?case
  proof (cases "c = mid \<or> (\<forall>p. (p, c) \<notin> parent_of ms)")
    case True
    show ?thesis
    proof (cases "c = mid")
      case False
      with True have "(mid, c) \<notin> (parent_of ms)\<^sup>*" by (auto elim: rtranclE)
      moreover have "walk_up ms mid (Some c) = Some False" using True False by (intro walk_up_top [OF d mid]) auto
      ultimately show ?thesis by simp
    qed (simp add: walk_up_self)
  next
    case False
    then obtain p where ne: "c \<noteq> mid" and p: "(p, c) \<in> parent_of ms" by blast
    have "(mid, p) \<in> (parent_of ms)\<^sup>*" if "(mid, c) \<in> (parent_of ms)\<^sup>*"
      using that
    proof (cases rule: rtranclE)
      case (step q)
      with parent_of_inj [OF d p step(2)] show ?thesis by simp
    qed (use ne in simp)
    then have "(mid, c) \<in> (parent_of ms)\<^sup>* \<longleftrightarrow> (mid, p) \<in> (parent_of ms)\<^sup>*"
      using p by (blast intro: rtrancl_into_rtrancl)
    then show ?thesis using less [OF p] walk_up_edge [OF d p ne] by simp
  qed
qed

section \<open>The live menus after each operation\<close>

lemma menu_active_ids: "distinct (map menu_id (menus d)) \<Longrightarrow> distinct (map menu_id (menu_active d))"
  by (simp add: menu_active_def distinct_map_filter)

lemma menu_active_append [simp]:
  "menu_active (menus_update (\<lambda>ms. ms @ [m]) d) = menu_active d @ (if menu_deleted_at m = None then [m] else [])"
  by (simp add: menu_active_def)

text \<open>A row update that leaves the deletion mark, and the one that sets it.\<close>

lemma menu_active_map:
  assumes "\<And>m. menu_deleted_at (f m) = menu_deleted_at m"
  shows "menu_active (menus_update (map (\<lambda>m. if menu_id m = i then f m else m)) d) =
    map (\<lambda>m. if menu_id m = i then f m else m) (menu_active d)"
proof -
  have "filter (\<lambda>m. menu_deleted_at m = None) (map (\<lambda>m. if menu_id m = i then f m else m) ms) =
      map (\<lambda>m. if menu_id m = i then f m else m) (filter (\<lambda>m. menu_deleted_at m = None) ms)" for ms
    by (induction ms) (simp_all add: assms)
  then show ?thesis by (simp add: menu_active_def)
qed

lemma menu_active_delete:
  assumes "\<And>m. menu_deleted_at (f m) \<noteq> None"
  shows "menu_active (menus_update (map (\<lambda>m. if menu_id m = i then f m else m)) d) =
    filter (\<lambda>m. menu_id m \<noteq> i) (menu_active d)"
proof -
  have "filter (\<lambda>m. menu_deleted_at m = None) (map (\<lambda>m. if menu_id m = i then f m else m) ms) =
      filter (\<lambda>m. menu_id m \<noteq> i) (filter (\<lambda>m. menu_deleted_at m = None) ms)" for ms
    using assms by (induction ms) auto
  then show ?thesis by (simp add: menu_active_def)
qed

text \<open>A row update that keeps the primary keys.\<close>

lemma menu_ids_map:
  assumes "\<And>m. menu_id (g m) = menu_id m"
  shows "menu_id ` set (map g ms) = menu_id ` set ms"
  by (simp add: image_image assms)

lemma parent_of_map:
  assumes "\<And>m. menu_id (g m) = menu_id m"
  shows "parent_of (map g ms) =
    {(p, c). p \<in> menu_id ` set ms \<and> (\<exists>m\<in>set ms. menu_id m = c \<and> menu_parent_id (g m) = Some p)}"
  using menu_ids_map [of g, OF assms] by (simp add: parent_of_def assms)

lemma menus_ok_map:
  assumes f: "\<And>m. menu_id (f m) = menu_id m" "\<And>m. menu_deleted_at (f m) = menu_deleted_at m"
    and g: "g = (\<lambda>m. if menu_id m = i then f m else m)"
    and p: "\<And>m p. m \<in> set (menu_active d) \<Longrightarrow> menu_parent_id (g m) = Some p \<Longrightarrow> p \<in> menu_id ` set (menu_active d)"
    and a: "acyclic (parent_of (map g (menu_active d)))"
  shows "menus_ok (menus_update (map (\<lambda>m. if menu_id m = i then f m else m)) d)"
proof -
  have gid: "menu_id (g m) = menu_id m" for m using f g by simp
  have act: "menu_active (menus_update (map g) d) = map g (menu_active d)"
    unfolding g by (rule menu_active_map [OF f(2)])
  show ?thesis
    unfolding g [symmetric] menus_ok_def act
    using a p menu_ids_map [of g "menu_active d", OF gid] by auto
qed

lemma menus_ok_create:
  assumes "menus_ok d" and "menu_id m \<notin> menu_id ` set (menu_active d)" and "menu_deleted_at m = None"
    and "\<And>p. menu_parent_id m = Some p \<Longrightarrow> p \<in> menu_id ` set (menu_active d)"
  shows "menus_ok (menus_update (\<lambda>ms. ms @ [m]) d)"
proof -
  let ?A = "menu_active d"
  have sub: "parent_of (?A @ [m]) \<subseteq> parent_of ?A \<union> {(p, menu_id m) | p. menu_parent_id m = Some p}"
    using assms(1,2) unfolding menus_ok_def parent_of_def by auto
  have "acyclic (parent_of (?A @ [m]))"
  proof (cases "menu_parent_id m")
    case None
    with sub assms(1) show ?thesis by (auto simp: menus_ok_def intro: acyclic_subset)
  next
    case (Some p)
    have "(menu_id m, p) \<notin> (parent_of ?A)\<^sup>*"
      using assms(2) assms(4) [OF Some] by (metis converse_rtranclE parent_of_fields)
    with assms(1) have "acyclic (insert (p, menu_id m) (parent_of ?A))"
      by (simp add: menus_ok_def)
    with sub Some show ?thesis by (auto intro: acyclic_subset)
  qed
  with assms show ?thesis by (auto simp: menus_ok_def)
qed

lemma menus_ok_move:
  assumes ok: "menus_ok d"
    and f: "\<And>m. menu_id (f m) = menu_id m" "\<And>m. menu_deleted_at (f m) = menu_deleted_at m"
      "\<And>m. menu_parent_id (f m) = pid"
    and new: "\<And>p. pid = Some p \<Longrightarrow> p \<in> menu_id ` set (menu_active d) \<and> (i, p) \<notin> (parent_of (menu_active d))\<^sup>*"
  shows "menus_ok (menus_update (map (\<lambda>m. if menu_id m = i then f m else m)) d)"
proof (rule menus_ok_map [OF f(1,2) refl])
  let ?A = "menu_active d" and ?g = "\<lambda>m. if menu_id m = i then f m else m"
  have gid: "menu_id (?g m) = menu_id m" for m using f by simp
  have sub: "parent_of (map ?g ?A) \<subseteq> parent_of ?A \<union> {(p, i) | p. pid = Some p}"
    unfolding parent_of_map [of ?g, OF gid] using f(3) by (auto simp: parent_of_def split: if_splits)
  show "acyclic (parent_of (map ?g ?A))"
  proof (cases pid)
    case None
    with sub ok show ?thesis by (auto simp: menus_ok_def intro: acyclic_subset)
  next
    case (Some p)
    with ok new have "acyclic (insert (p, i) (parent_of ?A))"
      by (simp add: menus_ok_def)
    with sub Some show ?thesis by (auto intro: acyclic_subset)
  qed
  show "p \<in> menu_id ` set ?A" if "m \<in> set ?A" "menu_parent_id (?g m) = Some p" for m p
    using that ok new f(3) by (auto simp: menus_ok_def split: if_splits)
qed

lemma menus_ok_rename:
  assumes ok: "menus_ok d" and f: "\<And>m. menu_id (f m) = menu_id m" "\<And>m. menu_deleted_at (f m) = menu_deleted_at m"
    and same: "\<And>m. menu_id m = i \<Longrightarrow> m \<in> set (menu_active d) \<Longrightarrow> menu_parent_id (f m) = menu_parent_id m"
  shows "menus_ok (menus_update (map (\<lambda>m. if menu_id m = i then f m else m)) d)"
proof (rule menus_ok_map [OF f refl])
  let ?A = "menu_active d" and ?g = "\<lambda>m. if menu_id m = i then f m else m"
  have gid: "menu_id (?g m) = menu_id m" for m using f by simp
  have "menu_parent_id (?g m) = menu_parent_id m" if "m \<in> set ?A" for m
    using same that by auto
  then have "parent_of (map ?g ?A) = parent_of ?A"
    unfolding parent_of_map [of ?g, OF gid] by (simp add: parent_of_def cong: bex_cong)
  with ok show "acyclic (parent_of (map ?g ?A))" by (simp add: menus_ok_def)
  show "p \<in> menu_id ` set ?A" if "m \<in> set ?A" "menu_parent_id (?g m) = Some p" for m p
    using that ok same by (auto simp: menus_ok_def split: if_splits)
qed

lemma menus_ok_delete:
  assumes "menus_ok d" and "\<And>m. menu_deleted_at (f m) \<noteq> None"
    and "filter (\<lambda>m. menu_parent_id m = Some i) (menu_active d) = []"
  shows "menus_ok (menus_update (map (\<lambda>m. if menu_id m = i then f m else m)) d)"
proof -
  let ?A = "menu_active d" and ?B = "filter (\<lambda>m. menu_id m \<noteq> i) (menu_active d)"
  have "parent_of ?B \<subseteq> parent_of ?A"
    by (auto simp: parent_of_def)
  with assms(1) have "acyclic (parent_of ?B)"
    by (auto simp: menus_ok_def intro: acyclic_subset)
  moreover have "\<forall>m\<in>set ?B. \<forall>p. menu_parent_id m = Some p \<longrightarrow> p \<in> menu_id ` set ?B"
    using assms(1,3) by (fastforce simp: menus_ok_def filter_empty_conv)
  ultimately show ?thesis
    by (simp only: menus_ok_def menu_active_delete [of f i d, OF assms(2)] simp_thms)
qed

section \<open>The service calls\<close>

lemma one_or_none_SomeD: "one_or_none e xs = Inr (Some x) \<Longrightarrow> xs = [x]"
  by (cases "(e, xs)" rule: one_or_none.cases) auto

lemma menu_get_or_404_state [simp]: "snd (menu_get_or_404 mid s) = s"
  by (auto simp: menu_get_or_404_def prog_simps split: sum.splits option.splits)

lemma menu_get_or_404_Inr:
  "menu_get_or_404 mid s = (Inr m, t) \<Longrightarrow> t = s \<and> m \<in> set (menu_active (working s)) \<and> menu_id m = mid"
proof -
  have "x \<in> set (menu_active (working s)) \<and> menu_id x = mid" if "menu_get_by_id mid s = Inr (Some x)" for x
  proof -
    have "x \<in> set (filter (\<lambda>m. menu_id m = mid) (menu_active (working s)))"
      using one_or_none_SomeD that unfolding menu_get_by_id_def by fastforce
    then show ?thesis by simp
  qed
  then show "menu_get_or_404 mid s = (Inr m, t) \<Longrightarrow> t = s \<and> m \<in> set (menu_active (working s)) \<and> menu_id m = mid"
    by (auto simp: menu_get_or_404_def prog_simps split: sum.splits option.splits)
qed

lemma ensure_parent_exists_cases:
  "ensure_parent_exists pid s =
    (if \<exists>p. pid = Some p \<and> p \<notin> menu_id ` set (menu_active (working s))
     then (Inl (AppError (NotFoundError (Some MsgMenuParentNotFound))), s) else (Inr (), s))"
  by (auto simp: ensure_parent_exists_def prog_simps menu_exists_by_id_def filter_empty_conv
      split: option.split)

lemma ensure_name_available_cases:
  "ensure_name_available ncoll pid name s =
    (if \<exists>n. name = Some n \<and> (pid, ncoll n) \<in> (\<lambda>m. (menu_parent_id m, ncoll (menu_name m))) ` set (menu_active (working s))
     then (Inl (AppError (ConflictError (Some MsgMenuNameTaken))), s) else (Inr (), s))"
  by (auto simp: ensure_name_available_def prog_simps menu_exists_by_parent_and_name_def filter_empty_conv
      image_iff split: option.split) metis

definition menu_edit :: "time \<Rightarrow> utext \<Rightarrow> int option \<Rightarrow> menu \<Rightarrow> menu" where
  "menu_edit now n pid = orm_update (stamp_menu now) (\<lambda>m. m\<lparr>menu_name := n, menu_parent_id := pid\<rparr>)"

lemma menu_edit_sel [simp]:
  "menu_id (menu_edit now n pid m) = menu_id m" "menu_deleted_at (menu_edit now n pid m) = menu_deleted_at m"
  "menu_parent_id (menu_edit now n pid m) = pid" "menu_name (menu_edit now n pid m) = n"
  by (cases m; auto simp: menu_edit_def orm_update_def stamp_menu_def)+

text \<open>What an update can do to the working database: nothing, or edit the one row.\<close>

lemma menu_write_working:
  "working (snd (menu_write ncoll now mid name pid s)) = working s \<or>
   (\<exists>n. name = Some n \<and> working (snd (menu_write ncoll now mid name pid s)) =
      menus_update (map (\<lambda>m. if menu_id m = mid then menu_edit now n pid m else m)) (working s))"
  by (cases name) (auto simp: menu_write_def menu_flush_def prog_simps menu_edit_def)

lemma menu_update_rest_working:
  assumes "snd (menu_update_rest ncoll now m b s) = t"
  shows "working t = working s \<or>
    (\<exists>n. sent_or (Some (menu_name m)) (mu_name b) = Some n \<and>
       (sent_or (menu_parent_id m) (mu_parent_id b) \<noteq> menu_parent_id m \<or> n \<noteq> menu_name m \<longrightarrow>
        (sent_or (menu_parent_id m) (mu_parent_id b), ncoll n) \<notin>
          (\<lambda>m. (menu_parent_id m, ncoll (menu_name m))) ` set (menu_active (working s))) \<and>
       working t = menus_update (map (\<lambda>x. if menu_id x = menu_id m
          then menu_edit now n (sent_or (menu_parent_id m) (mu_parent_id b)) x else x)) (working s))"
proof -
  let ?p = "sent_or (menu_parent_id m) (mu_parent_id b)" and ?n = "sent_or (Some (menu_name m)) (mu_name b)"
  let ?w = "menu_write ncoll now (menu_id m) ?n ?p s"
  show ?thesis
  proof (cases "(?p \<noteq> menu_parent_id m \<or> ?n \<noteq> Some (menu_name m)) \<and> fst (ensure_name_available ncoll ?p ?n s) \<noteq> Inr ()")
    case True
    with assms show ?thesis
      by (auto simp: menu_update_rest_def Let_def prog_simps ensure_name_available_cases split: if_splits)
  next
    case False
    then have "working t = working (snd ?w)"
      using assms menu_get_or_404_state [of "menu_id m" "snd ?w"]
      by (cases ?w) (auto simp: menu_update_rest_def Let_def prog_simps ensure_name_available_cases
          split: sum.splits if_splits)
    with False menu_write_working [of ncoll now "menu_id m" ?n ?p s] show ?thesis
      by (auto simp: ensure_name_available_cases)
  qed
qed

lemma menu_update_cases:
  assumes "menu_update ncoll now mid b s = Some (r, t)"
  obtains "working t = working s"
    | m n where "m \<in> set (menu_active (working s))" "menu_id m = mid"
      "\<And>p. mu_parent_id b = Sent p \<Longrightarrow> p \<in> menu_id ` set (menu_active (working s)) \<and> mid \<noteq> p \<and>
         walk_up (menu_active (working s)) mid (Some p) = Some False"
      "sent_or (menu_parent_id m) (mu_parent_id b) \<noteq> menu_parent_id m \<or> n \<noteq> menu_name m \<Longrightarrow>
        (sent_or (menu_parent_id m) (mu_parent_id b), ncoll n) \<notin>
          (\<lambda>m. (menu_parent_id m, ncoll (menu_name m))) ` set (menu_active (working s))"
      "working t = menus_update (map (\<lambda>x. if menu_id x = mid
          then menu_edit now n (sent_or (menu_parent_id m) (mu_parent_id b)) x else x)) (working s)"
proof (cases "menu_get_or_404 mid s")
  case (Pair r0 s')
  have s': "s' = s" using Pair menu_get_or_404_state [of mid s] by simp
  show ?thesis
  proof (cases r0)
    case (Inl e)
    with Pair s' assms that(1) show ?thesis by (auto simp: menu_update_def)
  next
    case (Inr m)
    then have m: "m \<in> set (menu_active (working s))" "menu_id m = mid"
      using Pair menu_get_or_404_Inr by auto
    consider "t = s" | "snd (menu_update_rest ncoll now m b s) = t"
        "\<And>p. mu_parent_id b = Sent p \<Longrightarrow> p \<in> menu_id ` set (menu_active (working s)) \<and> mid \<noteq> p \<and>
         walk_up (menu_active (working s)) mid (Some p) = Some False"
      using assms Pair Inr s'
      by (auto simp: menu_update_def ensure_parent_exists_cases ensure_not_own_descendant_def
          split: sent.splits if_splits option.splits sum.splits)
    then show ?thesis
    proof cases
      case 1
      with that(1) show ?thesis by simp
    next
      case 2
      from menu_update_rest_working [OF 2(1)] show ?thesis
        using that(1) that(2) [OF m 2(2)] m(2) by (elim disjE exE conjE) auto
    qed
  qed
qed

lemma menu_create_cases:
  assumes "menu_create ncoll env now b s = (r, t)"
  obtains e where "r = Inl e" "t = s"
    | m where "r = Inr m" "menu_id m = seq (env s) T_menus" "menu_name m = mc_name b"
      "menu_parent_id m = mc_parent_id b" "menu_deleted_at m = None"
      "\<And>p. mc_parent_id b = Some p \<Longrightarrow> p \<in> menu_id ` set (menu_active (working s))"
      "(mc_parent_id b, ncoll (mc_name b)) \<notin>
         (\<lambda>m. (menu_parent_id m, ncoll (menu_name m))) ` set (menu_active (working s))"
      "working t = menus_update (\<lambda>ms. ms @ [m]) (working (env s))" "committed t = working t"
  using assms
  by (auto simp: menu_create_def prog_simps ensure_parent_exists_cases ensure_name_available_cases
      split: if_splits)

text \<open>A delete that goes through marks the row; everything else leaves the database alone.\<close>

definition menu_mark :: "time \<Rightarrow> menu \<Rightarrow> menu" where
  "menu_mark now = orm_update (stamp_menu now) (\<lambda>m. m\<lparr>menu_deleted_at := Some now\<rparr>)"

lemma menu_mark_sel [simp]:
  "menu_id (menu_mark now m) = menu_id m" "menu_deleted_at (menu_mark now m) = Some now"
  "menu_parent_id (menu_mark now m) = menu_parent_id m" "menu_name (menu_mark now m) = menu_name m"
  by (cases m; auto simp: menu_mark_def orm_update_def stamp_menu_def)+

lemma menu_delete_cases:
  fixes s :: "'a session_scheme"
  assumes "menu_delete ncoll now mid s = (r, t)"
  obtains e where "r = Inl e" "t = s"
    | "r = Inr ()" "menu_list_children (Some mid) s = []" "committed t = working t"
      "working t = menus_update (map (\<lambda>m. if menu_id m = mid then menu_mark now m else m)) (working s)"
proof (cases "menu_get_or_404 mid s")
  case (Pair r0 s')
  have "s' = s" using Pair menu_get_or_404_state [of mid s] by simp
  show ?thesis
  proof (cases r0)
    case (Inl e)
    with Pair \<open>s' = s\<close> assms that(1) [of e] show ?thesis by (simp add: menu_delete_def prog_simps)
  next
    case (Inr m)
    let ?f = "upd_pk menu_id menus_update mid (menu_mark now) :: 'a session_scheme \<Rightarrow> 'a session_scheme"
    have "menu_delete ncoll now mid s =
      (if menu_list_children (Some mid) s \<noteq> [] then (Inl (AppError (BadRequestError (Some MsgMenuHasChildren))), s)
       else if uq_menus_parent_name ncoll (menus (working (?f s))) then (Inr (), commit (?f s))
       else (Inl (SQLAlchemyError IntegrityError), s))"
      using Pair Inr \<open>s' = s\<close> by (simp add: menu_delete_def prog_simps menu_flush_def menu_mark_def)
    then consider e where "r = Inl e" "t = s"
      | "r = Inr ()" "menu_list_children (Some mid) s = []" "t = commit (?f s)"
      using assms by (force split: if_splits)
    then show ?thesis
      by cases (rule that(1), assumption+, rule that(2), simp_all)
  qed
qed

text \<open>Sibling names: the invariant the service keeps for requests that run one after the other.\<close>

definition sibling_names_ok :: "(utext \<Rightarrow> utext) \<Rightarrow> db \<Rightarrow> bool" where
  "sibling_names_ok ncoll d \<longleftrightarrow>
     distinct (map (\<lambda>m. (menu_parent_id m, ncoll (menu_name m))) (menu_active d))"

lemma session_menu_ids:
  "session_ok coll s \<Longrightarrow> distinct (map menu_id (menu_active (working s)))"
  by (rule menu_active_ids, rule schema_ok_ids(2), rule session_ok_working)

lemma session_menu_fresh:
  "session_ok coll s \<Longrightarrow> seq s T_menus \<notin> menu_id ` set (menu_active (working s))"
proof -
  assume "session_ok coll s"
  then have "\<forall>m\<in>set (menus (working s)). menu_id m < seq s T_menus"
    by (auto dest!: session_ok_working simp: schema_ok_def ids_ok_def)
  then show ?thesis by (auto simp: menu_active_def)
qed

section \<open>The tree\<close>

fun tree_nodes :: "menu_tree \<Rightarrow> menu_response list" where
  "tree_nodes (MenuTree r ts) = r # concat (map tree_nodes ts)"

text \<open>Every child hangs under the menu its row names as parent.\<close>

fun tree_linked :: "menu_tree \<Rightarrow> bool" where
  "tree_linked (MenuTree r ts) \<longleftrightarrow>
     (\<forall>t\<in>set ts. mr_menu_parent_id (node t) = Some (mr_menu_id r) \<and> tree_linked t)"

lemma node_tree_of [simp]: "node (tree_of n ch m) = menu_response_of m"
  by (cases n) simp_all

lemma link_menus_fold:
  "fold (link_menu N) ms (ch, roots) =
    ((\<lambda>p. ch p @ (if p \<in> N then filter (\<lambda>m. menu_parent_id m = Some p) ms else [])),
     roots @ filter (\<lambda>m. \<forall>p. menu_parent_id m = Some p \<longrightarrow> p \<notin> N) ms)"
  by (induction ms arbitrary: ch roots) (auto simp: fun_eq_iff split: option.split)

lemma link_menus_children:
  "m \<in> set ms \<Longrightarrow> fst (link_menus ms) (menu_id m) = filter (\<lambda>c. menu_parent_id c = Some (menu_id m)) ms"
  by (simp add: link_menus_def link_menus_fold)

lemma link_menus_roots:
  "snd (link_menus ms) = filter (\<lambda>m. \<forall>p. menu_parent_id m = Some p \<longrightarrow> p \<notin> menu_id ` set ms) ms"
  by (simp add: link_menus_def link_menus_fold)

definition kids :: "(int \<Rightarrow> menu list) \<Rightarrow> menu multiset \<Rightarrow> menu multiset" where
  "kids ch X = (\<Sum>m\<in>#X. mset (ch (menu_id m)))"

definition tree_labels :: "nat \<Rightarrow> (int \<Rightarrow> menu list) \<Rightarrow> menu multiset \<Rightarrow> menu_response multiset" where
  "tree_labels n ch X = (\<Sum>m\<in>#X. mset (tree_nodes (tree_of n ch m)))"

lemma kids_union [simp]: "kids ch (X + Y) = kids ch X + kids ch Y"
  by (simp add: kids_def)

lemma tree_labels_union [simp]: "tree_labels n ch (X + Y) = tree_labels n ch X + tree_labels n ch Y"
  by (simp add: tree_labels_def)

lemma tree_labels_mset: "tree_labels n ch (mset xs) = mset (concat (map (\<lambda>m. tree_nodes (tree_of n ch m)) xs))"
  by (induction xs) (simp_all add: tree_labels_def)

lemma tree_labels_0: "tree_labels 0 ch X = image_mset menu_response_of X"
  by (induction X) (simp_all add: tree_labels_def)

lemma tree_labels_Suc:
  "tree_labels (Suc n) ch X = image_mset menu_response_of X + tree_labels n ch (kids ch X)"
proof (induction X)
  case empty
  then show ?case by (simp add: tree_labels_def kids_def)
next
  case (add m X)
  have "tree_labels (Suc n) ch {#m#} = {#menu_response_of m#} + tree_labels n ch (kids ch {#m#})"
    by (simp add: tree_labels_mset kids_def comp_def) (simp add: tree_labels_def comp_def)
  with add show ?case
    using tree_labels_union [of "Suc n" ch "{#m#}" X] kids_union [of ch "{#m#}" X] by simp
qed

text \<open>Peeling off one level at a time.\<close>

lemma tree_labels_levels:
  "Y = X + kids ch Y \<Longrightarrow>
   image_mset menu_response_of Y = tree_labels n ch X + image_mset menu_response_of ((kids ch ^^ Suc n) Y)"
proof (induction n arbitrary: X Y)
  case 0
  then have "image_mset menu_response_of Y = image_mset menu_response_of (X + kids ch Y)" by simp
  then show ?case by (simp add: tree_labels_0)
next
  case (Suc n)
  have "kids ch Y = kids ch X + kids ch (kids ch Y)"
    using Suc.prems kids_union by metis
  from Suc.IH [OF this] have "image_mset menu_response_of (kids ch Y) =
      tree_labels n ch (kids ch X) + image_mset menu_response_of ((kids ch ^^ Suc (Suc n)) Y)"
    by (simp add: funpow_swap1)
  moreover have "image_mset menu_response_of Y =
      image_mset menu_response_of X + image_mset menu_response_of (kids ch Y)"
    using Suc.prems by (metis image_mset_union)
  ultimately show ?case by (simp add: tree_labels_Suc add.assoc)
qed

lemma filter_disjoint_mset:
  "(\<And>x. \<not> (P x \<and> Q x)) \<Longrightarrow> mset (filter P xs) + mset (filter Q xs) = mset (filter (\<lambda>x. P x \<or> Q x) xs)"
  by (induction xs) auto

lemma kids_partition:
  assumes "distinct (map menu_id xs)"
  shows "(\<Sum>x\<in>#mset xs. mset (filter (\<lambda>m. menu_parent_id m = Some (menu_id x)) ms)) =
    mset (filter (\<lambda>m. \<exists>x\<in>set xs. menu_parent_id m = Some (menu_id x)) ms)"
  using assms
proof (induction xs)
  case Nil
  then show ?case by simp
next
  case (Cons a xs)
  have "mset (filter (\<lambda>m. menu_parent_id m = Some (menu_id a)) ms) +
      mset (filter (\<lambda>m. \<exists>x\<in>set xs. menu_parent_id m = Some (menu_id x)) ms) =
      mset (filter (\<lambda>m. menu_parent_id m = Some (menu_id a) \<or> (\<exists>x\<in>set xs. menu_parent_id m = Some (menu_id x))) ms)"
    by (rule filter_disjoint_mset) (use Cons.prems in \<open>auto simp: image_iff\<close>)
  with Cons show ?case by simp
qed

lemma levels_of_links:
  assumes "distinct (map menu_id ms)"
  shows "mset ms = mset (snd (link_menus ms)) + kids (fst (link_menus ms)) (mset ms)"
proof -
  have "kids (fst (link_menus ms)) (mset ms) =
      (\<Sum>x\<in>#mset ms. mset (filter (\<lambda>m. menu_parent_id m = Some (menu_id x)) ms))"
    unfolding kids_def by (intro arg_cong [where f = sum_mset] image_mset_cong) (simp add: link_menus_children)
  also have "\<dots> = mset (filter (\<lambda>m. \<exists>x\<in>set ms. menu_parent_id m = Some (menu_id x)) ms)"
    by (rule kids_partition [OF assms])
  finally have "mset (snd (link_menus ms)) + kids (fst (link_menus ms)) (mset ms) =
      mset (filter (\<lambda>m. (\<forall>p. menu_parent_id m = Some p \<longrightarrow> p \<notin> menu_id ` set ms) \<or>
        (\<exists>x\<in>set ms. menu_parent_id m = Some (menu_id x))) ms)"
    by (simp only: link_menus_roots) (rule filter_disjoint_mset, auto)
  also have "\<dots> = mset ms"
    by (rule arg_cong [where f = mset]) (auto simp: filter_id_conv image_iff)
  finally show ?thesis by simp
qed

text \<open>A menu of level \<open>k\<close> has \<open>k\<close> ancestors; on a forest there are fewer levels than menus.\<close>

definition ancestors :: "menu list \<Rightarrow> int \<Rightarrow> int set" where
  "ancestors ms c = {p. (p, c) \<in> (parent_of ms)\<^sup>+}"

lemma ancestors_fields: "ancestors ms c \<subseteq> menu_id ` set ms"
proof
  fix p assume "p \<in> ancestors ms c"
  then obtain z where "(p, z) \<in> parent_of ms"
    by (auto simp: ancestors_def dest: tranclD)
  then show "p \<in> menu_id ` set ms" by (simp add: parent_of_fields)
qed

lemma finite_ancestors [simp]: "finite (ancestors ms c)"
  by (rule finite_subset [OF ancestors_fields]) simp

lemma ancestors_step:
  assumes "acyclic (parent_of ms)" and "(p, c) \<in> parent_of ms"
  shows "Suc (card (ancestors ms p)) \<le> card (ancestors ms c)"
proof -
  have "insert p (ancestors ms p) \<subseteq> ancestors ms c"
    using assms(2) by (auto simp: ancestors_def intro: trancl.trancl_into_trancl)
  moreover have "p \<notin> ancestors ms p"
    using assms(1) by (simp add: ancestors_def acyclic_def)
  ultimately show ?thesis
    using card_mono [of "ancestors ms c" "insert p (ancestors ms p)"] by simp
qed

lemma kids_level:
  assumes "acyclic (parent_of ms)"
  shows "x \<in># (kids (fst (link_menus ms)) ^^ k) (mset ms) \<Longrightarrow>
    x \<in> set ms \<and> k \<le> card (ancestors ms (menu_id x))"
proof (induction k arbitrary: x)
  case 0
  then show ?case by simp
next
  case (Suc k)
  have "z \<in># kids ch Y \<longleftrightarrow> (\<exists>y. y \<in># Y \<and> z \<in> set (ch (menu_id y)))" for z ch Y
    by (auto simp: kids_def)
  with Suc.prems obtain y where y: "y \<in># (kids (fst (link_menus ms)) ^^ k) (mset ms)"
    "x \<in> set (fst (link_menus ms) (menu_id y))"
    by auto
  then have x: "x \<in> set ms" "menu_parent_id x = Some (menu_id y)" and "y \<in> set ms"
    "k \<le> card (ancestors ms (menu_id y))"
    using Suc.IH [OF y(1)] by (auto simp: link_menus_children)
  moreover from this have "(menu_id y, menu_id x) \<in> parent_of ms"
    by (auto simp: parent_of_def)
  from ancestors_step [OF assms this] have "Suc (card (ancestors ms (menu_id y))) \<le> card (ancestors ms (menu_id x))" .
  ultimately show ?case by simp
qed

lemma no_deep_level:
  assumes "acyclic (parent_of ms)" and "distinct (map menu_id ms)"
  shows "(kids (fst (link_menus ms)) ^^ Suc (length ms)) (mset ms) = {#}"
proof (rule ccontr)
  assume "\<not> ?thesis"
  then obtain x where "x \<in># (kids (fst (link_menus ms)) ^^ Suc (length ms)) (mset ms)"
    by (metis multiset_nonemptyE)
  from kids_level [OF assms(1) this] have "Suc (length ms) \<le> card (ancestors ms (menu_id x))" by simp
  moreover have "card (ancestors ms (menu_id x)) \<le> card (menu_id ` set ms)"
    using ancestors_fields by (intro card_mono) auto
  moreover have "card (menu_id ` set ms) \<le> length ms"
    by (metis card_length length_map set_map)
  ultimately show False by simp
qed

lemma tree_linked_tree_of:
  "m \<in> set ms \<Longrightarrow> tree_linked (tree_of n (fst (link_menus ms)) m)"
  by (induction n arbitrary: m) (auto simp: link_menus_children menu_response_of_def)

lemma mset_list_all: "mset (menu_list_all s) = mset (menu_active (working s))"
  by (simp add: menu_list_all_def)

lemma parent_of_set: "set ms = set ms' \<Longrightarrow> parent_of ms = parent_of ms'"
  by (simp add: parent_of_def)

section \<open>What the operations keep\<close>

lemma menu_create_keeps:
  assumes "session_ok coll s" and "menus_ok (working s)" and "menu_create ncoll (\<lambda>s. s) now b s = (r, t)"
  shows "menus_ok (working t)"
  using assms(3,2) session_menu_fresh [OF assms(1)]
  by (elim menu_create_cases) (simp_all add: menus_ok_create)

lemma menu_delete_keeps:
  assumes "menus_ok (working s)" and "menu_delete ncoll now mid s = (r, t)"
  shows "menus_ok (working t)"
  using assms(2,1) by (elim menu_delete_cases) (auto intro!: menus_ok_delete simp: menu_list_children_def)

lemma menu_active_unique:
  "session_ok coll s \<Longrightarrow> x \<in> set (menu_active (working s)) \<Longrightarrow> y \<in> set (menu_active (working s)) \<Longrightarrow>
   menu_id x = menu_id y \<Longrightarrow> x = y"
  using session_menu_ids by (auto simp: distinct_map dest: inj_onD)

text \<open>On a forest the walk to the root ends, so the update returns.\<close>

lemma menu_update_returns:
  assumes "session_ok coll s" and "menus_ok (working s)"
  obtains r t where "menu_update ncoll now mid b s = Some (r, t)"
proof -
  obtain r0 s' where g: "menu_get_or_404 mid s = (r0, s')" by (rule prod.exhaust)
  have "menu_update ncoll now mid b s \<noteq> None"
  proof (cases r0)
    case (Inl e)
    with g show ?thesis by (simp add: menu_update_def)
  next
    case (Inr m)
    with g have m: "s' = s" "m \<in> set (menu_active (working s))" "menu_id m = mid"
      using menu_get_or_404_Inr by auto
    have "acyclic (parent_of (menu_active (working s)))" using assms(2) by (simp add: menus_ok_def)
    with m have "walk_up (menu_active (working s)) mid (Some p) =
        Some ((mid, p) \<in> (parent_of (menu_active (working s)))\<^sup>*)" for p
      by (intro walk_up_decides session_menu_ids [OF assms(1)]) auto
    with g Inr m(1) show ?thesis
      by (simp add: menu_update_def ensure_parent_exists_cases ensure_not_own_descendant_def split: sent.split)
  qed
  then show ?thesis using that by fastforce
qed

lemma menu_update_keeps:
  assumes "session_ok coll s" and "menus_ok (working s)" and "menu_update ncoll now mid b s = Some (r, t)"
  shows "menus_ok (working t)"
  using assms(3)
proof (rule menu_update_cases)
  assume "working t = working s"
  with assms(2) show ?thesis by simp
next
  fix m n
  assume m: "m \<in> set (menu_active (working s))" "menu_id m = mid"
    and up: "\<And>p. mu_parent_id b = Sent p \<Longrightarrow> p \<in> menu_id ` set (menu_active (working s)) \<and> mid \<noteq> p \<and>
       walk_up (menu_active (working s)) mid (Some p) = Some False"
    and t: "working t = menus_update (map (\<lambda>x. if menu_id x = mid
        then menu_edit now n (sent_or (menu_parent_id m) (mu_parent_id b)) x else x)) (working s)"
  have a: "acyclic (parent_of (menu_active (working s)))" using assms(2) by (simp add: menus_ok_def)
  have mid: "mid \<in> menu_id ` set (menu_active (working s))" using m by auto
  show ?thesis
  proof (cases "mu_parent_id b")
    case Unset
    with assms(2) m menu_active_unique [OF assms(1)] show ?thesis
      unfolding t by (intro menus_ok_rename) auto
  next
    case Null
    with assms(2) show ?thesis unfolding t by (intro menus_ok_move) auto
  next
    case (Sent p)
    with up walk_up_decides [OF a session_menu_ids [OF assms(1)] mid, of p] assms(2) show ?thesis
      unfolding t by (intro menus_ok_move) auto
  qed
qed

lemma distinct_update_key:
  assumes "distinct (map k xs)" and "distinct (map i xs)" and "K \<notin> k ` set xs"
  shows "distinct (map (\<lambda>x. if i x = a then K else k x) xs)"
  using assms by (auto simp: distinct_map inj_on_def)

lemma menu_create_names:
  assumes "sibling_names_ok ncoll (working s)" and "menu_create ncoll (\<lambda>s. s) now b s = (r, t)"
  shows "sibling_names_ok ncoll (working t)"
  using assms(2,1) by (elim menu_create_cases) (simp_all add: sibling_names_ok_def)

lemma menu_delete_names:
  assumes "sibling_names_ok ncoll (working s)" and "menu_delete ncoll now mid s = (r, t)"
  shows "sibling_names_ok ncoll (working t)"
  using assms(2,1)
  by (elim menu_delete_cases) (simp_all add: sibling_names_ok_def menu_active_delete distinct_map_filter)

lemma menu_update_names:
  assumes "session_ok coll s" and "sibling_names_ok ncoll (working s)"
    and "menu_update ncoll now mid b s = Some (r, t)"
  shows "sibling_names_ok ncoll (working t)"
  using assms(3)
proof (rule menu_update_cases)
  assume "working t = working s"
  with assms(2) show ?thesis by simp
next
  let ?A = "menu_active (working s)" and ?k = "\<lambda>m. (menu_parent_id m, ncoll (menu_name m))"
  fix m :: menu and n
  let ?p = "sent_or (menu_parent_id m) (mu_parent_id b)"
  assume m: "m \<in> set ?A" "menu_id m = mid"
    and new: "?p \<noteq> menu_parent_id m \<or> n \<noteq> menu_name m \<Longrightarrow> (?p, ncoll n) \<notin> ?k ` set ?A"
    and t: "working t = menus_update (map (\<lambda>x. if menu_id x = mid then menu_edit now n ?p x else x)) (working s)"
  have k: "distinct (map ?k ?A)" using assms(2) by (simp add: sibling_names_ok_def)
  have "menu_active (working t) = map (\<lambda>x. if menu_id x = mid then menu_edit now n ?p x else x) ?A"
    unfolding t by (rule menu_active_map) simp
  then have "map ?k (menu_active (working t)) = map (\<lambda>x. if menu_id x = mid then (?p, ncoll n) else ?k x) ?A"
    by simp
  moreover have "distinct (map (\<lambda>x. if menu_id x = mid then (?p, ncoll n) else ?k x) ?A)"
  proof (cases "?p = menu_parent_id m \<and> n = menu_name m")
    case True
    have "x = m" if "menu_id x = mid" "x \<in> set ?A" for x
      using that m menu_active_unique [OF assms(1), of x m] by simp
    with True have "map (\<lambda>x. if menu_id x = mid then (?p, ncoll n) else ?k x) ?A = map ?k ?A"
      by auto
    with k show ?thesis by (simp only:)
  next
    case False
    with new k session_menu_ids [OF assms(1)] show ?thesis by (intro distinct_update_key) auto
  qed
  ultimately show ?thesis by (simp add: sibling_names_ok_def)
qed

lemma menu_create_settled: "menu_create ncoll (\<lambda>s. s) now b s = (r, t) \<Longrightarrow> settled s t"
  by (erule menu_create_cases) (simp_all add: settled_def)

lemma menu_delete_settled: "menu_delete ncoll now mid s = (r, t) \<Longrightarrow> settled s t"
  by (erule menu_delete_cases) (simp_all add: settled_def)

lemma menu_update_rest_settled: "settled s (snd (menu_update_rest ncoll now m b s))"
proof -
  have w: "settled s (snd (menu_write ncoll now (menu_id m) n p s))" for n p
    by (auto simp: menu_write_def menu_flush_def prog_simps settled_def split: option.split)
  have "settled s (snd (bindP (menu_write ncoll now (menu_id m) n p) (\<lambda>_. menu_get_or_404 (menu_id m)) s))" for n p
    using w [of n p] by (auto simp: bindP_apply split: prod.split sum.split)
  then show ?thesis
    unfolding menu_update_rest_def Let_def
    by (auto simp: bindP_apply [of _ _ s] ensure_name_available_cases returnP_apply settled_def)
qed

text \<open>The update returns what it found unchanged, or ends as its last part does.\<close>

lemma menu_update_end:
  assumes "menu_update ncoll now mid b s = Some (r, t)"
  obtains "t = s" | m where "m \<in> set (menu_active (working s))" "t = snd (menu_update_rest ncoll now m b s)"
proof -
  obtain r0 where g: "menu_get_or_404 mid s = (r0, s)"
    using menu_get_or_404_state [of mid s] by (metis prod.collapse)
  show ?thesis
  proof (cases r0)
    case (Inl e)
    with assms g that(1) show ?thesis by (simp add: menu_update_def)
  next
    case (Inr m)
    have "t = s \<or> t = snd (menu_update_rest ncoll now m b s)"
      using assms g Inr
      by (auto simp: menu_update_def ensure_parent_exists_cases split: sum.splits sent.splits option.splits if_splits)
    with that menu_get_or_404_Inr [OF g [unfolded Inr]] show ?thesis by blast
  qed
qed

lemma menu_update_settled: "menu_update ncoll now mid b s = Some (r, t) \<Longrightarrow> settled s t"
  by (erule menu_update_end) (simp_all add: menu_update_rest_settled, simp add: settled_def)

section \<open>Properties\<close>

text \<open>
  C6.  The live menus stay a forest.  From a database where every parent is live and no menu is its
  own ancestor, creating, updating and deleting a menu lead to such a database again, whatever the
  request and whether it succeeds or fails; and the update, whose ancestor walk is an unbounded
  loop, always returns.
\<close>

theorem menus_stay_a_forest:
  assumes "session_ok coll s" and "menus_ok (working s)"
  shows "menus_ok (working (snd (menu_create ncoll (\<lambda>s. s) now cb s))) \<and>
    (\<exists>r t. menu_update ncoll now mid ub s = Some (r, t) \<and> menus_ok (working t)) \<and>
    menus_ok (working (snd (menu_delete ncoll now mid s)))"
proof (intro conjI)
  show "menus_ok (working (snd (menu_create ncoll (\<lambda>s. s) now cb s)))"
    using assms by (rule menu_create_keeps) (rule prod.collapse [symmetric])
  show "menus_ok (working (snd (menu_delete ncoll now mid s)))"
    using assms(2) by (rule menu_delete_keeps) (rule prod.collapse [symmetric])
  obtain r t where "menu_update ncoll now mid ub s = Some (r, t)"
    using assms by (rule menu_update_returns)
  with menu_update_keeps [OF assms this] show "\<exists>r t. menu_update ncoll now mid ub s = Some (r, t) \<and> menus_ok (working t)"
    by blast
qed

definition demo_menu :: "int \<Rightarrow> string \<Rightarrow> int option \<Rightarrow> menu" where
  "demo_menu i n p = \<lparr>menu_id = i, menu_name = u n, menu_parent_id = p, menu_deleted_at = None,
     menu_created_at = 1, menu_updated_at = 1\<rparr>"

definition demo_menus :: "menu list \<Rightarrow> session" where
  "demo_menus ms = \<lparr>committed = empty_db\<lparr>menus := ms\<rparr>, working = empty_db\<lparr>menus := ms\<rparr>, seq = (\<lambda>t. 100)\<rparr>"

lemma demo_menus_ok:
  "session_ok coll (demo_menus [demo_menu 1 ''a'' None, demo_menu 2 ''b'' (Some 1)])"
  "menus_ok (working (demo_menus [demo_menu 1 ''a'' None, demo_menu 2 ''b'' (Some 1)]))"
proof -
  have "parent_of [demo_menu 1 ''a'' None, demo_menu 2 ''b'' (Some 1)] = {(1, 2)}"
    by (auto simp: parent_of_def demo_menu_def)
  moreover have "acyclic {(1, 2 :: int)}" by (simp add: acyclic_def trancl_insert)
  ultimately show "menus_ok (working (demo_menus [demo_menu 1 ''a'' None, demo_menu 2 ''b'' (Some 1)]))"
    by (simp add: menus_ok_def menu_active_def demo_menus_def demo_menu_def)
  show "session_ok coll (demo_menus [demo_menu 1 ''a'' None, demo_menu 2 ''b'' (Some 1)])"
    by (simp add: session_ok_def schema_ok_def demo_menus_def empty_db_def ids_ok_def demo_menu_def)
qed

theorem menus_stay_a_forest_witness:
  "\<exists>t. menu_update (\<lambda>n. n) 9 1 \<lparr>mu_name = Unset, mu_parent_id = Sent 2\<rparr>
     (demo_menus [demo_menu 1 ''a'' None, demo_menu 2 ''b'' (Some 1)]) =
     Some (Inl (AppError (BadRequestError (Some MsgMenuDescendant))), t)"
proof -
  let ?s = "demo_menus [demo_menu 1 ''a'' None, demo_menu 2 ''b'' (Some 1)]"
  have w: "walk_up [demo_menu 1 ''a'' None, demo_menu 2 ''b'' (Some 1)] 1 (Some 2) = Some True"
    by (subst walk_up.simps, simp add: demo_menu_def, subst walk_up.simps, simp)
  have a: "menu_active (working ?s) = [demo_menu 1 ''a'' None, demo_menu 2 ''b'' (Some 1)]"
    by (simp add: menu_active_def demo_menus_def demo_menu_def)
  have g: "menu_get_or_404 1 ?s = (Inr (demo_menu 1 ''a'' None), ?s)"
    by (simp add: menu_get_or_404_def prog_simps menu_get_by_id_def a) (simp add: demo_menu_def)
  obtain r t where "menu_update (\<lambda>n. n) 9 1 \<lparr>mu_name = Unset, mu_parent_id = Sent 2\<rparr> ?s = Some (r, t)"
    using menus_stay_a_forest [OF demo_menus_ok] by blast
  moreover have "menu_id ` set (menu_active (working ?s)) = {1, 2}"
    by (simp only: a) (simp add: demo_menu_def)
  ultimately show ?thesis
    by (simp add: menu_update_def g ensure_parent_exists_cases ensure_not_own_descendant_def a w)
qed

text \<open>
  Sibling names.  As long as requests come one after the other, no two live menus under the
  same parent have equal names (up to the collation), whatever is created, renamed, moved or
  deleted; a menu whose place and name are taken is refused.
\<close>

theorem sibling_names_unique:
  assumes "session_ok coll s" and "sibling_names_ok ncoll (working s)"
    and "menu_update ncoll now mid ub s = Some (r, t)"
  shows "sibling_names_ok ncoll (working (snd (menu_create ncoll (\<lambda>s. s) now cb s))) \<and>
    sibling_names_ok ncoll (working t) \<and>
    sibling_names_ok ncoll (working (snd (menu_delete ncoll now mid s))) \<and>
    ((mc_parent_id cb, ncoll (mc_name cb)) \<in>
        (\<lambda>m. (menu_parent_id m, ncoll (menu_name m))) ` set (menu_active (working s)) \<longrightarrow>
     (\<exists>e. menu_create ncoll (\<lambda>s. s) now cb s = (Inl (AppError e), s)))"
proof (intro conjI)
  show "sibling_names_ok ncoll (working (snd (menu_create ncoll (\<lambda>s. s) now cb s)))"
    using assms(2) by (rule menu_create_names) (rule prod.collapse [symmetric])
  show "sibling_names_ok ncoll (working t)"
    using assms by (rule menu_update_names)
  show "sibling_names_ok ncoll (working (snd (menu_delete ncoll now mid s)))"
    using assms(2) by (rule menu_delete_names) (rule prod.collapse [symmetric])
  show "(mc_parent_id cb, ncoll (mc_name cb)) \<in>
        (\<lambda>m. (menu_parent_id m, ncoll (menu_name m))) ` set (menu_active (working s)) \<longrightarrow>
     (\<exists>e. menu_create ncoll (\<lambda>s. s) now cb s = (Inl (AppError e), s))"
    by (simp add: menu_create_def prog_simps ensure_parent_exists_cases ensure_name_available_cases)
qed

theorem sibling_names_unique_witness:
  "\<exists>e. menu_create (\<lambda>n. n) (\<lambda>s. s) 9 \<lparr>mc_name = u ''b'', mc_parent_id = Some 1\<rparr>
     (demo_menus [demo_menu 1 ''a'' None, demo_menu 2 ''b'' (Some 1)]) =
     (Inl (AppError e), demo_menus [demo_menu 1 ''a'' None, demo_menu 2 ''b'' (Some 1)])"
proof -
  let ?s = "demo_menus [demo_menu 1 ''a'' None, demo_menu 2 ''b'' (Some 1)]"
  have n: "sibling_names_ok (\<lambda>n. n) (working ?s)"
    by (simp add: sibling_names_ok_def menu_active_def demo_menus_def demo_menu_def)
  have g: "menu_get_or_404 7 ?s = (Inl (AppError (NotFoundError (Some MsgMenuNotFound))), ?s)"
    by (simp add: menu_get_or_404_def prog_simps menu_get_by_id_def menu_active_def demo_menus_def demo_menu_def)
  have u: "menu_update (\<lambda>n. n) 9 7 ub ?s = Some (Inl (AppError (NotFoundError (Some MsgMenuNotFound))), ?s)" for ub
    by (simp add: menu_update_def g)
  show ?thesis
    using sibling_names_unique [OF demo_menus_ok(1) n u, where cb = "\<lparr>mc_name = u ''b'', mc_parent_id = Some 1\<rparr>"]
    by (simp add: menu_active_def demo_menus_def demo_menu_def)
qed

text \<open>
  The UNIQUE index does not back this check up, although the service counts on it.  If the
  same menu is created by another request between the check and the INSERT, both succeed without
  any database error, and two live siblings have the same name.
\<close>

theorem menu_name_race:
  assumes "fst (menu_create ncoll (\<lambda>s. s) now cb s) = Inr m0"
    and "env = (\<lambda>s. snd (menu_create ncoll (\<lambda>s. s) now' cb s))"
    and "menu_create ncoll env now cb s = (r, t)"
  shows "\<exists>m. r = Inr m \<and> \<not> sibling_names_ok ncoll (committed t) \<and>
    uq_menus_parent_name ncoll (menus (committed t)) = uq_menus_parent_name ncoll (menus (working s))"
proof -
  define mk where "mk n i = \<lparr>menu_id = i, menu_name = mc_name cb, menu_parent_id = mc_parent_id cb,
      menu_deleted_at = None, menu_created_at = n, menu_updated_at = n\<rparr>" for n i
  have ok: "ensure_parent_exists (mc_parent_id cb) s = (Inr (), s)"
    "ensure_name_available ncoll (mc_parent_id cb) (Some (mc_name cb)) s = (Inr (), s)"
    using assms(1)
    by (auto simp: menu_create_def prog_simps ensure_parent_exists_cases ensure_name_available_cases
        split: if_splits)
  have c: "menu_create ncoll f n cb s = (Inr (mk n (seq (f s) T_menus)),
      commit (on_db (menus_update (\<lambda>rs. rs @ [mk n (seq (f s) T_menus)])) (take_pk T_menus (f s))))" for f n
    by (simp add: menu_create_def prog_simps ok mk_def)
  have m: "menus (committed t) = menus (working s) @ [mk now' (seq s T_menus), mk now (seq s T_menus + 1)]"
    using assms(3) by (auto simp: c assms(2))
  have "menu_active (committed t) = menu_active (working s) @ [mk now' (seq s T_menus), mk now (seq s T_menus + 1)]"
    by (simp add: menu_active_def m mk_def)
  then have "\<not> sibling_names_ok ncoll (committed t)"
    by (simp add: sibling_names_ok_def mk_def)
  moreover have "uq_menus_parent_name ncoll (menus (committed t)) = uq_menus_parent_name ncoll (menus (working s))"
    by (simp add: uq_menus_parent_name_def m mk_def)
  ultimately show ?thesis using assms(3) by (auto simp: c)
qed

theorem menu_name_race_witness:
  "\<exists>t m. menu_create (\<lambda>n. n) (\<lambda>s. snd (menu_create (\<lambda>n. n) (\<lambda>s. s) 8 \<lparr>mc_name = u ''x'', mc_parent_id = None\<rparr> s))
       9 \<lparr>mc_name = u ''x'', mc_parent_id = None\<rparr> (demo_menus []) = (Inr m, t) \<and>
     \<not> sibling_names_ok (\<lambda>n. n) (committed t)"
proof -
  let ?b = "\<lparr>mc_name = u ''x'', mc_parent_id = None\<rparr>"
  obtain m where a: "fst (menu_create (\<lambda>n. n) (\<lambda>s. s) 9 ?b (demo_menus [])) = Inr m"
    by (simp add: menu_create_def prog_simps ensure_parent_exists_cases ensure_name_available_cases
        menu_active_def demo_menus_def)
  obtain r t where c: "menu_create (\<lambda>n. n) (\<lambda>s. snd (menu_create (\<lambda>n. n) (\<lambda>s. s) 8 ?b s)) 9 ?b (demo_menus []) = (r, t)"
    by (rule prod.exhaust)
  then show ?thesis using menu_name_race [OF a refl c] by auto
qed

lemma menu_delete_run:
  assumes "session_ok coll s" and "m \<in> set (menu_active (working s))"
  shows "menu_delete ncoll now (menu_id m) s =
    (if menu_list_children (Some (menu_id m)) s \<noteq> [] then (Inl (AppError (BadRequestError (Some MsgMenuHasChildren))), s)
     else if uq_menus_parent_name ncoll (map (\<lambda>x. if menu_id x = menu_id m then menu_mark now x else x) (menus (working s)))
     then (Inr (), commit (upd_pk menu_id menus_update (menu_id m) (menu_mark now) s))
     else (Inl (SQLAlchemyError IntegrityError), s))"
proof -
  have d: "distinct (map menu_id (menus (working s)))"
    using session_ok_working [OF assms(1)] by (rule schema_ok_ids(2))
  have "find (\<lambda>r. menu_id r = menu_id m) (menus (working s)) = Some m"
    using d assms(2) by (intro find_unique_Some) (auto simp: menu_active_def)
  then have "menu_get_by_id (menu_id m) s = Inr (Some m)"
    using one_or_none_unique [OF d, of _ "menu_id m" "\<lambda>x. menu_deleted_at x = None"] assms(2)
    by (simp add: menu_get_by_id_def menu_active_def conj_commute)
  then show ?thesis
    unfolding menu_mark_def by (simp add: menu_delete_def menu_get_or_404_def prog_simps menu_flush_def)
qed

text \<open>The unique index holds the time of deletion: two siblings of one name cannot both be marked with it.\<close>

lemma siblings_marked_clash:
  assumes "distinct (map menu_id ms)" and "m \<in> set ms" and "menu_deleted_at m = None" and "x \<in> set ms"
    and "menu_parent_id m = Some p" and "menu_parent_id x = Some p" and "ncoll (menu_name x) = ncoll (menu_name m)"
    and "menu_deleted_at x = Some now"
  shows "\<not> uq_menus_parent_name ncoll (map (\<lambda>x. if menu_id x = menu_id m then menu_mark now x else x) ms)"
proof
  let ?g = "\<lambda>x. if menu_id x = menu_id m then menu_mark now x else x"
  let ?key = "\<lambda>m. (menu_parent_id m, ncoll (menu_name m), menu_deleted_at m)"
  let ?F = "filter (\<lambda>m. menu_parent_id m \<noteq> None \<and> menu_deleted_at m \<noteq> None) (map ?g ms)"
  assume "uq_menus_parent_name ncoll (map ?g ms)"
  then have inj: "inj_on ?key (set ?F)" by (simp only: uq_menus_parent_name_def distinct_map)
  have ne: "menu_id x \<noteq> menu_id m"
    using assms(1-4,8) unfolding distinct_map by (auto dest!: inj_onD)
  have mem: "?g x \<in> set ?F" "?g m \<in> set ?F" using assms(2,4-8) ne by auto
  have "?key (?g x) = ?key (?g m)" using assms(5-8) ne by simp
  from inj_onD [OF inj this mem] ne have "menu_id x = menu_id (menu_mark now m)" by simp
  with ne show False by simp
qed

text \<open>
  Deleting.  A menu with children is not deleted; otherwise it disappears from every later
  read and nothing else does.  But if a sibling of the same name was deleted in the same second,
  the UNIQUE index on the deletion time refuses the request with a database error (a 500).
\<close>

theorem menu_delete_contract:
  fixes s :: "'x session_scheme"
  assumes "session_ok coll s" and "m \<in> set (menu_active (working s))"
    and "menu_delete ncoll now (menu_id m) s = (r, t)"
  shows "(menu_list_children (Some (menu_id m)) s \<noteq> [] \<longrightarrow>
       r = Inl (AppError (BadRequestError (Some MsgMenuHasChildren))) \<and> t = s) \<and>
    (r = Inr () \<longrightarrow>
       menu_active (committed t) = filter (\<lambda>x. menu_id x \<noteq> menu_id m) (menu_active (working s))) \<and>
    (\<forall>x p. menu_list_children (Some (menu_id m)) s = [] \<and> x \<in> set (menus (working s)) \<and>
       menu_parent_id m = Some p \<and> menu_parent_id x = Some p \<and>
       ncoll (menu_name x) = ncoll (menu_name m) \<and> menu_deleted_at x = Some now \<longrightarrow>
       r = Inl (SQLAlchemyError IntegrityError) \<and> t = s)"
proof -
  have d: "distinct (map menu_id (menus (working s)))"
    using session_ok_working [OF assms(1)] by (rule schema_ok_ids(2))
  have m: "m \<in> set (menus (working s))" "menu_deleted_at m = None" using assms(2) by (auto simp: menu_active_def)
  show ?thesis
    using menu_delete_run [OF assms(1,2), of ncoll now] siblings_marked_clash [OF d m, of _ _ ncoll now] assms(3)
    by (auto simp: menu_active_delete split: if_splits)
qed

theorem menu_delete_contract_witness:
  "fst (menu_delete (\<lambda>n. n) 9 2 (demo_menus [demo_menu 1 ''a'' None, demo_menu 2 ''b'' (Some 1),
     (demo_menu 3 ''b'' (Some 1))\<lparr>menu_deleted_at := Some 9\<rparr>])) = Inl (SQLAlchemyError IntegrityError)"
proof -
  let ?s = "demo_menus [demo_menu 1 ''a'' None, demo_menu 2 ''b'' (Some 1),
     (demo_menu 3 ''b'' (Some 1))\<lparr>menu_deleted_at := Some 9\<rparr>]"
  have s: "session_ok lower ?s"
    by (simp add: session_ok_def schema_ok_def demo_menus_def empty_db_def ids_ok_def demo_menu_def)
  have m: "demo_menu 2 ''b'' (Some 1) \<in> set (menu_active (working ?s))"
    by (simp add: menu_active_def demo_menus_def demo_menu_def)
  have i: "menu_id (demo_menu 2 ''b'' (Some 1)) = 2" by (simp add: demo_menu_def)
  obtain r t where r: "menu_delete (\<lambda>n. n) 9 (menu_id (demo_menu 2 ''b'' (Some 1))) ?s = (r, t)"
    by (rule prod.exhaust)
  have k: "menu_list_children (Some (menu_id (demo_menu 2 ''b'' (Some 1)))) ?s = []"
    by (simp add: menu_list_children_def menu_active_def demo_menus_def demo_menu_def)
  have x: "(demo_menu 3 ''b'' (Some 1))\<lparr>menu_deleted_at := Some 9\<rparr> \<in> set (menus (working ?s))"
    by (simp add: demo_menus_def)
  have "r = Inl (SQLAlchemyError IntegrityError)"
    using menu_delete_contract [OF s m r] k x by (auto simp: demo_menu_def)
  with r show ?thesis by (simp add: i)
qed

text \<open>
  C29.  The tree.  On such a database the answer of \<open>get_tree\<close> shows every live menu exactly once,
  every child under the menu its row names as parent, and at the top exactly the menus without a
  parent.
\<close>

theorem get_tree_complete:
  assumes "session_ok coll s" and "menus_ok (working s)"
  shows "mset (concat (map tree_nodes (get_tree s))) =
      image_mset menu_response_of (mset (menu_active (working s))) \<and>
    (\<forall>t\<in>set (get_tree s). tree_linked t \<and> mr_menu_parent_id (node t) = None)"
proof -
  define ms where "ms = menu_list_all s"
  have mm: "mset ms = mset (menu_active (working s))" by (simp add: ms_def mset_list_all)
  then have sets: "set ms = set (menu_active (working s))" by (metis set_mset_mset)
  have d: "distinct (map menu_id ms)"
    using session_menu_ids [OF assms(1)] mm by (metis mset_eq_imp_distinct_iff mset_map)
  have a: "acyclic (parent_of ms)"
    using assms(2) parent_of_set [OF sets] by (simp add: menus_ok_def)
  have g: "get_tree s = map (tree_of (length ms) (fst (link_menus ms))) (snd (link_menus ms))"
    by (simp add: get_tree_def ms_def Let_def case_prod_unfold)
  have "mset (concat (map tree_nodes (get_tree s))) = tree_labels (length ms) (fst (link_menus ms)) (mset (snd (link_menus ms)))"
    by (simp add: g tree_labels_mset comp_def)
  also have "\<dots> = image_mset menu_response_of (mset ms)"
    using tree_labels_levels [OF levels_of_links [OF d], of "length ms"] no_deep_level [OF a d] by simp
  finally have "mset (concat (map tree_nodes (get_tree s))) = image_mset menu_response_of (mset ms)" .
  moreover have "tree_linked t \<and> mr_menu_parent_id (node t) = None" if "t \<in> set (get_tree s)" for t
  proof -
    from that obtain m where t: "t = tree_of (length ms) (fst (link_menus ms)) m" "m \<in> set (snd (link_menus ms))"
      by (auto simp: g)
    then have m: "m \<in> set ms" "\<And>p. menu_parent_id m = Some p \<Longrightarrow> p \<notin> menu_id ` set ms"
      by (auto simp: link_menus_roots)
    with assms(2) sets have "menu_parent_id m = None"
      by (cases "menu_parent_id m") (auto simp: menus_ok_def)
    with t(1) m(1) show ?thesis by (simp add: tree_linked_tree_of) (simp add: menu_response_of_def)
  qed
  ultimately show ?thesis by (simp add: mm)
qed

theorem get_tree_complete_witness:
  "\<exists>r c. get_tree (demo_menus [demo_menu 1 ''a'' None, demo_menu 2 ''b'' (Some 1)]) =
     [MenuTree r [MenuTree c []]] \<and> mset [r, c] =
     image_mset menu_response_of {#demo_menu 1 ''a'' None, demo_menu 2 ''b'' (Some 1)#}"
proof -
  let ?s = "demo_menus [demo_menu 1 ''a'' None, demo_menu 2 ''b'' (Some 1)]"
  have a: "menu_active (working ?s) = [demo_menu 1 ''a'' None, demo_menu 2 ''b'' (Some 1)]"
    by (simp add: menu_active_def demo_menus_def demo_menu_def)
  have "get_tree ?s = [MenuTree (menu_response_of (demo_menu 1 ''a'' None))
      [MenuTree (menu_response_of (demo_menu 2 ''b'' (Some 1))) []]]"
    unfolding get_tree_def menu_list_all_def a
    by (simp add: demo_menu_def link_menus_def numeral_2_eq_2 Let_def)
  then show ?thesis
    using get_tree_complete [OF demo_menus_ok] by (simp add: a)
qed

end
