(* ===== verification/Likes.thy ===== *)
theory Likes
  imports Access Redis_Api
begin

text \<open>
  The likes of \<^verbatim>\<open>modules/posts/post_repository.py\<close> and \<^verbatim>\<open>post_like_sync.py\<close>: a write-behind cache.  A
  like or unlike only sets \<^verbatim>\<open>post_like:{post}:{user}\<close> in Redis; reads let a pending value override
  the table; every five minutes the pending values are written to the table and removed.
\<close>

section \<open>Keys\<close>

definition like_prefix :: "int \<Rightarrow> string" where
  "like_prefix pid = ''post_like:'' @ show_int pid @ '':''"

definition post_like_key :: "int \<Rightarrow> int \<Rightarrow> string" where
  "post_like_key pid uid = like_prefix pid @ show_int uid"

text \<open>\<^verbatim>\<open>scan_iter(match=prefix + "*")\<close>\<close>

definition scan_prefix :: "'r redis_api \<Rightarrow> string \<Rightarrow> 'r \<Rightarrow> string list" where
  "scan_prefix R p s = filter (\<lambda>k. take (length p) k = p) (r_keys R s)"

lemma post_like_key_inject [key_simps, simp]:
  "post_like_key p a = post_like_key q b \<longleftrightarrow> p = q \<and> a = b"
proof -
  have "show_int p @ CHR '':'' # show_int a = show_int q @ CHR '':'' # show_int b \<longleftrightarrow>
      show_int p = show_int q \<and> show_int a = show_int b"
    by (rule append_sep_inject) (simp_all add: show_int_no_sep)
  then show ?thesis by (simp add: post_like_key_def like_prefix_def)
qed

lemma post_like_key_prefix [key_simps]:
  "take (length (like_prefix p)) (post_like_key q a) = like_prefix p \<longleftrightarrow> p = q"
proof
  assume t: "take (length (like_prefix p)) (post_like_key q a) = like_prefix p"
  then obtain r where r: "post_like_key q a = like_prefix p @ r"
    by (metis append_take_drop_id)
  then have "show_int q @ CHR '':'' # show_int a = show_int p @ CHR '':'' # r"
    by (simp add: post_like_key_def like_prefix_def)
  then have "show_int q = show_int p"
    by (subst (asm) append_sep_inject) (simp_all add: show_int_no_sep)
  then show "p = q" by simp
next
  assume "p = q"
  then show "take (length (like_prefix p)) (post_like_key q a) = like_prefix p"
    by (simp add: post_like_key_def)
qed

lemma split_post_like_key: "split_on CHR '':'' (post_like_key p a) = [''post_like'', show_int p, show_int a]"
  by (simp add: post_like_key_def like_prefix_def split_on_append split_on_none show_int_no_sep)

lemma after_last_post_like_key: "after_last CHR '':'' (post_like_key p a) = show_int a"
proof -
  have "post_like_key p a = (''post_like:'' @ show_int p) @ CHR '':'' # show_int a"
    by (simp add: post_like_key_def like_prefix_def)
  then show ?thesis by (simp only:) (rule after_last_append, simp add: show_int_no_sep)
qed

section \<open>Repository\<close>

definition like_rows :: "int \<Rightarrow> int \<Rightarrow> db \<Rightarrow> post_like list" where
  "like_rows pid uid d = filter (\<lambda>l. lk_post_id l = pid \<and> lk_user_id l = uid) (likes d)"

definition select_like :: "int \<Rightarrow> int \<Rightarrow> 'x session_scheme \<Rightarrow> exn + post_like option" where
  "select_like pid uid s = one_or_none (SQLAlchemyError MultipleResultsFound) (like_rows pid uid (working s))"

definition get_like :: "'r redis_api \<Rightarrow> int \<Rightarrow> int \<Rightarrow> 'r app \<Rightarrow> exn + bool" where
  "get_like R pid uid w =
     (case r_get R (kv w) (post_like_key pid uid) of
        Some redis_status \<Rightarrow> Inr (redis_status = ''1'')
      | None \<Rightarrow> map_sum id (\<lambda>l. l \<noteq> None) (select_like pid uid w))"

definition add_like :: "'r redis_api \<Rightarrow> int \<Rightarrow> int \<Rightarrow> 'r app \<Rightarrow> 'r app" where
  "add_like R pid uid = on_kv (r_set R (post_like_key pid uid) ''1'')"

definition delete_like :: "'r redis_api \<Rightarrow> int \<Rightarrow> int \<Rightarrow> 'r app \<Rightarrow> 'r app" where
  "delete_like R pid uid = on_kv (r_set R (post_like_key pid uid) ''0'')"

text \<open>
  \<open>count_likes\<close>: the pending dictionary of the post (\<open>None\<close> is the \<^verbatim>\<open>ValueError\<close> of \<^verbatim>\<open>int\<close> on a foreign
  key), the number of rows, and the correction for the pending values that differ.
\<close>

fun pending_pairs :: "'r redis_api \<Rightarrow> 'r \<Rightarrow> string list \<Rightarrow> (int \<times> bool) list option" where
  "pending_pairs R s [] = Some []"
| "pending_pairs R s (k # ks) =
     (case r_get R s k of
        None \<Rightarrow> pending_pairs R s ks
      | Some value \<Rightarrow>
          (case py_int (after_last CHR '':'' k) of
             None \<Rightarrow> None
           | Some uid \<Rightarrow> map_option (\<lambda>ps. (uid, value = ''1'') # ps) (pending_pairs R s ks)))"

definition count_likes :: "'r redis_api \<Rightarrow> int \<Rightarrow> ('r app, exn, int) prog" where
  "count_likes R pid = (\<lambda>w.
     case pending_pairs R (kv w) (scan_prefix R (like_prefix pid) (kv w)) of
       None \<Rightarrow> (Inl (ValueError (MsgText ''invalid literal for int()'')), w)
     | Some ps \<Rightarrow>
         let total = int (length (filter (\<lambda>l. lk_post_id l = pid) (likes (working w))));
             users = remdups (map fst ps);
             liked = (\<lambda>uid. map_of (rev ps) uid = Some True);
             saved = set (map lk_user_id (filter (\<lambda>l. lk_post_id l = pid \<and> lk_user_id l \<in> set users) (likes (working w))))
         in (Inr (total + (\<Sum>uid\<leftarrow>users. of_bool (liked uid) - of_bool (uid \<in> saved))), w))"

text \<open>One key of \<open>scan_like_to_db\<close>.\<close>

definition sync_key :: "'r redis_api \<Rightarrow> time \<Rightarrow> string \<Rightarrow> ('r app, exn, unit) prog" where
  "sync_key R now key =
     (case split_on CHR '':'' key of
        [_, p, a] \<Rightarrow>
          (case (py_int p, py_int a) of
             (Some pid, Some uid) \<Rightarrow>
               bindP (getsP (\<lambda>w. r_get R (kv w) key)) (\<lambda>status.
               bindP (\<lambda>w. (select_like pid uid w, w)) (\<lambda>existing.
               if status = Some ''1'' \<and> existing = None then
                 bindP (ins_row T_likes likes_update (\<lambda>i. \<lparr>like_id = i, lk_post_id = pid, lk_user_id = uid,
                   lk_created_at = now, lk_updated_at = now\<rparr>)) (\<lambda>_. returnP ())
               else (case existing of
                   Some l \<Rightarrow>
                     if status = Some ''0'' then modifyP (on_db (likes_update (filter (\<lambda>r. like_id r \<noteq> like_id l))))
                     else returnP ()
                 | None \<Rightarrow> returnP ())))
           | _ \<Rightarrow> raiseP (ValueError (MsgText ''invalid literal for int()'')))
      | _ \<Rightarrow> raiseP (ValueError (MsgText ''unpack'')))"

text \<open>
  \<open>scan_like_to_db\<close>: every pending key, then the commit, then the keys are removed.  \<open>env\<close> is what
  happens between the commit and the removal (other requests reach Redis meanwhile).
\<close>

definition scan_like_to_db :: "'r redis_api \<Rightarrow> ('r app \<Rightarrow> 'r app) \<Rightarrow> time \<Rightarrow> ('r app, exn, unit) prog" where
  "scan_like_to_db R env now =
     bindP (getsP (\<lambda>w. scan_prefix R ''post_like:'' (kv w))) (\<lambda>processed_keys.
     bindP (mapP (sync_key R now) processed_keys) (\<lambda>_.
     bindP (modifyP commit) (\<lambda>_.
     bindP (modifyP env) (\<lambda>_.
     modifyP (on_kv (fold (r_delete R) processed_keys))))))"

text \<open>The scheduled job: its own session, rolled back on an exception and always closed.\<close>

definition post_like_sync :: "'r redis_api \<Rightarrow> ('r app \<Rightarrow> 'r app) \<Rightarrow> time \<Rightarrow> ('r app, exn, unit) prog" where
  "post_like_sync R env now = get_db (scan_like_to_db R env now)"

section \<open>The effective likes\<close>

definition has_like :: "db \<Rightarrow> int \<Rightarrow> int \<Rightarrow> bool" where
  "has_like d pid uid \<longleftrightarrow> (pid, uid) \<in> like_key ` set (likes d)"

text \<open>What the application means: the pending value if there is one, the table otherwise.\<close>

definition effective_like :: "'r redis_api \<Rightarrow> 'r app \<Rightarrow> int \<Rightarrow> int \<Rightarrow> bool" where
  "effective_like R w pid uid \<longleftrightarrow>
     (case r_get R (kv w) (post_like_key pid uid) of
        Some v \<Rightarrow> v = ''1'' | None \<Rightarrow> has_like (working w) pid uid)"

text \<open>Only this module writes below the prefix, and only these two values.\<close>

definition like_keys_ok :: "'r redis_api \<Rightarrow> 'r \<Rightarrow> bool" where
  "like_keys_ok R s \<longleftrightarrow>
     (\<forall>k e. r_lookup R s k = Some e \<and> take 10 k = ''post_like:'' \<longrightarrow>
        (\<exists>p a. k = post_like_key p a) \<and> e \<in> {(RString ''1'', None), (RString ''0'', None)})"

section \<open>Lemmas\<close>

lemma session_like_keys: "session_ok coll w \<Longrightarrow> distinct (map like_key (likes (working w)))"
  by (rule schema_ok_ids(6), rule session_ok_working)

lemma select_like_find:
  assumes "session_ok coll w"
  shows "select_like pid uid w = Inr (find (\<lambda>l. like_key l = (pid, uid)) (likes (working w)))"
proof -
  have "filter (\<lambda>l. lk_post_id l = pid \<and> lk_user_id l = uid) ls = filter (\<lambda>l. like_key l = (pid, uid) \<and> True) ls" for ls
    by (simp add: like_key_def)
  then show ?thesis
    using one_or_none_unique [OF session_like_keys [OF assms], of _ "(pid, uid)" "\<lambda>_. True"]
    by (cases "find (\<lambda>l. like_key l = (pid, uid)) (likes (working w))")
      (simp_all add: select_like_def like_rows_def)
qed

lemma find_like_iff: "find (\<lambda>l. like_key l = (pid, uid)) (likes d) \<noteq> None \<longleftrightarrow> has_like d pid uid"
  by (force simp: has_like_def find_None_iff)

lemma get_like_effective: "session_ok coll w \<Longrightarrow> get_like R pid uid w = Inr (effective_like R w pid uid)"
  using find_like_iff [of pid uid "working w"]
  by (auto simp: get_like_def effective_like_def select_like_find split: option.splits)

text \<open>Writing one pending value.\<close>

lemma has_like_remove:
  assumes "session_ok coll w" and "l \<in> set (likes (working w))"
  shows "has_like (likes_update (filter (\<lambda>r. like_id r \<noteq> like_id l)) (working w)) x y \<longleftrightarrow>
    has_like (working w) x y \<and> (x, y) \<noteq> like_key l"
proof -
  have d: "distinct (map like_id (likes (working w)))" "distinct (map like_key (likes (working w)))"
    using session_ok_working [OF assms(1)] by (auto simp: schema_ok_def ids_ok_def)
  have "like_id r = like_id l \<longleftrightarrow> r = l" "like_key r = like_key l \<longleftrightarrow> r = l" if "r \<in> set (likes (working w))" for r
    using d assms(2) that unfolding distinct_map by (blast dest: inj_onD)+
  then show ?thesis unfolding has_like_def by (simp add: image_iff) metis
qed

lemma sync_key_step:
  assumes "session_ok coll w" and "r_get R (kv w) (post_like_key p a) = Some v" and "v \<in> {''1'', ''0''}"
  shows "\<exists>w'. sync_key R now (post_like_key p a) w = (Inr (), w') \<and> session_ok coll w' \<and>
    kv w' = kv w \<and> committed w' = committed w \<and>
    (\<forall>x y. has_like (working w') x y \<longleftrightarrow> (if (x, y) = (p, a) then v = ''1'' else has_like (working w) x y))"
proof (cases "find (\<lambda>l. like_key l = (p, a)) (likes (working w))")
  case None
  then have no: "\<not> has_like (working w) p a" using find_like_iff [of p a "working w"] by simp
  let ?mk = "\<lambda>i. \<lparr>like_id = i, lk_post_id = p, lk_user_id = a, lk_created_at = now, lk_updated_at = now\<rparr>"
  have k: "like_key (?mk i) = (p, a)" for i by (simp add: like_key_def)
  have "session_ok coll (snd (ins_row T_likes likes_update ?mk w))"
    using assms(1) no by (intro session_ok_ins schema_ok_ins_likes) (simp_all add: k has_like_def)
  with None no assms show ?thesis
    by (auto simp: sync_key_def split_post_like_key prog_simps select_like_find has_like_def like_key_def)
next
  case (Some l)
  then have l: "l \<in> set (likes (working w))" "like_key l = (p, a)" by (auto dest: find_SomeD)
  have "session_ok coll (on_db (likes_update (filter (\<lambda>r. like_id r \<noteq> like_id l))) w)"
    using assms(1) by (intro session_ok_on_db schema_ok_filter_likes)
  moreover have "has_like (working w) p a" using l by (force simp: has_like_def)
  ultimately show ?thesis
    using Some assms has_like_remove [OF assms(1) l(1)] l(2)
    by (auto simp: sync_key_def split_post_like_key prog_simps select_like_find)
qed

lemma sync_keys:
  assumes "session_ok coll w"
    and "\<And>k. k \<in> set ks \<Longrightarrow> \<exists>p a v. k = post_like_key p a \<and> r_get R (kv w) k = Some v \<and> v \<in> {''1'', ''0''}"
  shows "\<exists>us w'. mapP (sync_key R now) ks w = (Inr us, w') \<and> session_ok coll w' \<and> kv w' = kv w \<and>
    committed w' = committed w \<and>
    (\<forall>x y. has_like (working w') x y \<longleftrightarrow>
      (if post_like_key x y \<in> set ks then r_get R (kv w) (post_like_key x y) = Some ''1'' else has_like (working w) x y))"
  using assms
proof (induction ks arbitrary: w)
  case Nil
  then show ?case by (simp add: returnP_def)
next
  case (Cons k ks)
  obtain p a v where k: "k = post_like_key p a" "r_get R (kv w) k = Some v" "v \<in> {''1'', ''0''}"
    using Cons.prems(2) [of k] by auto
  obtain w1 where w1: "sync_key R now k w = (Inr (), w1)" "session_ok coll w1" "kv w1 = kv w"
    "committed w1 = committed w"
    "\<And>x y. has_like (working w1) x y \<longleftrightarrow> (if (x, y) = (p, a) then v = ''1'' else has_like (working w) x y)"
    using sync_key_step [OF Cons.prems(1), of R p a v now] k by auto
  have "\<And>k. k \<in> set ks \<Longrightarrow> \<exists>p a v. k = post_like_key p a \<and> r_get R (kv w1) k = Some v \<and> v \<in> {''1'', ''0''}"
    using Cons.prems(2) w1(3) by simp
  from Cons.IH [OF w1(2) this] obtain us w' where
    "mapP (sync_key R now) ks w1 = (Inr us, w')" "session_ok coll w'" "kv w' = kv w" "committed w' = committed w"
    "\<And>x y. has_like (working w') x y \<longleftrightarrow>
      (if post_like_key x y \<in> set ks then r_get R (kv w) (post_like_key x y) = Some ''1'' else has_like (working w1) x y)"
    using w1(3,4) by auto
  then show ?case
    using w1 k by (auto simp: prog_simps)
qed

text \<open>The keys SCAN finds are exactly the pending ones.\<close>

lemma like_key_scanned:
  assumes "redis R" and "like_keys_ok R s"
  shows "k \<in> set (scan_prefix R ''post_like:'' s) \<longleftrightarrow>
    (\<exists>p a v. k = post_like_key p a \<and> r_get R s k = Some v \<and> v \<in> {''1'', ''0''})"
proof -
  have t: "take 10 (post_like_key p a) = ''post_like:''" for p a
    by (simp add: post_like_key_def like_prefix_def)
  have "k \<in> set (scan_prefix R ''post_like:'' s) \<longleftrightarrow> (\<exists>e. r_lookup R s k = Some e) \<and> take 10 k = ''post_like:''"
    using redis.keys_lookup [OF assms(1), of s] by (auto simp: scan_prefix_def numeral_eq_Suc)
  also have "\<dots> \<longleftrightarrow> (\<exists>p a v. k = post_like_key p a \<and> r_get R s k = Some v \<and> v \<in> {''1'', ''0''})"
    using assms(2) t unfolding like_keys_ok_def r_get_def
    by (fastforce split: option.splits prod.splits rvalue.splits)
  finally show ?thesis .
qed

lemma r_get_key_cases:
  assumes "redis R" and "like_keys_ok R s"
  shows "post_like_key p a \<notin> set (scan_prefix R ''post_like:'' s) \<longleftrightarrow> r_get R s (post_like_key p a) = None"
proof -
  have "r_get R s (post_like_key p a) = Some v \<Longrightarrow> v \<in> {''1'', ''0''}" for v
    using assms(2) by (force simp: like_keys_ok_def r_get_def post_like_key_def like_prefix_def
        split: option.splits rvalue.splits)
  then show ?thesis
    using like_key_scanned [OF assms, of "post_like_key p a"] by (cases "r_get R s (post_like_key p a)") auto
qed

text \<open>The job as a whole, up to the removal of the keys.\<close>

lemma sync_run:
  assumes "redis R" and "session_ok coll w" and "like_keys_ok R (kv w)"
  obtains w1 where "scan_like_to_db R env now w =
      (Inr (), on_kv (fold (r_delete R) (scan_prefix R ''post_like:'' (kv w))) (env (commit w1)))"
    "session_ok coll w1" "kv w1 = kv w"
    "\<And>x y. has_like (working w1) x y \<longleftrightarrow> effective_like R w x y"
proof -
  let ?ks = "scan_prefix R ''post_like:'' (kv w)"
  obtain us w1 where w1: "mapP (sync_key R now) ?ks w = (Inr us, w1)" "session_ok coll w1" "kv w1 = kv w"
    "\<And>x y. has_like (working w1) x y \<longleftrightarrow>
      (if post_like_key x y \<in> set ?ks then r_get R (kv w) (post_like_key x y) = Some ''1'' else has_like (working w) x y)"
    using sync_keys [OF assms(2), of ?ks R now] like_key_scanned [OF assms(1,3)] by auto
  have "has_like (working w1) x y \<longleftrightarrow> effective_like R w x y" for x y
    using w1(4) [of x y] r_get_key_cases [OF assms(1,3), of x y]
    by (auto simp: effective_like_def split: option.splits if_splits)
  with w1 that show ?thesis by (simp add: scan_like_to_db_def prog_simps)
qed

text \<open>Counting: the pending pairs of a post, and the size of the effective set.\<close>

lemma pending_pairs_scanned:
  assumes "\<And>k. k \<in> set ks \<Longrightarrow> \<exists>a v. k = post_like_key pid a \<and> r_get R s k = Some v"
  shows "\<exists>ps. pending_pairs R s ks = Some ps \<and>
    (\<forall>(a, b)\<in>set ps. b \<longleftrightarrow> r_get R s (post_like_key pid a) = Some ''1'') \<and>
    fst ` set ps = {a. post_like_key pid a \<in> set ks}"
  using assms
proof (induction ks)
  case Nil
  then show ?case by simp
next
  case (Cons k ks)
  then obtain a v where k: "k = post_like_key pid a" "r_get R s k = Some v" by (metis list.set_intros(1))
  obtain ps where ps: "pending_pairs R s ks = Some ps"
    "\<forall>(a, b)\<in>set ps. b \<longleftrightarrow> r_get R s (post_like_key pid a) = Some ''1''"
    "fst ` set ps = {a. post_like_key pid a \<in> set ks}"
    using Cons by auto
  have "pending_pairs R s (k # ks) = Some ((a, v = ''1'') # ps)"
    using k ps(1) by (simp add: after_last_post_like_key)
  with k ps show ?case by auto
qed

lemma card_effective:
  assumes "finite S" and "finite P"
  shows "int (card S) + (\<Sum>x\<in>P. of_bool (f x) - of_bool (x \<in> S)) = int (card {x. if x \<in> P then f x else x \<in> S})"
proof -
  have "{x. if x \<in> P then f x else x \<in> S} = (P \<inter> {x. f x}) \<union> (S - P)" by auto
  then have "card {x. if x \<in> P then f x else x \<in> S} = card (P \<inter> {x. f x}) + card (S - P)"
    using assms card_Un_disjoint [of "P \<inter> {x. f x}" "S - P"] by auto
  moreover have "card S = card (S - P) + card (P \<inter> S)"
    using assms(1) by (metis Int_commute add.commute card_Diff_subset_Int card_mono finite_Int inf_le1 le_add_diff_inverse)
  moreover have "(\<Sum>x\<in>P. of_bool (f x) - of_bool (x \<in> S)) = int (card (P \<inter> {x. f x})) - int (card (P \<inter> S))"
    using assms(2) by (simp add: sum_subtractf)
  ultimately show ?thesis by simp
qed

lemma card_likes:
  assumes "session_ok coll w"
  shows "length (filter (\<lambda>l. lk_post_id l = pid) (likes (working w))) = card {uid. has_like (working w) pid uid}"
proof -
  let ?F = "filter (\<lambda>l. lk_post_id l = pid) (likes (working w))"
  have "distinct (map like_key ?F)"
    using session_like_keys [OF assms] by (rule distinct_map_filter)
  moreover have "map like_key ?F = map (Pair pid) (map lk_user_id ?F)"
    by (simp add: like_key_def)
  ultimately have "distinct (map lk_user_id ?F)"
    by (metis distinct_map)
  then have "length ?F = card (lk_user_id ` set ?F)"
    by (metis distinct_card length_map set_map)
  moreover have "lk_user_id ` set ?F = {uid. has_like (working w) pid uid}"
    by (force simp: has_like_def like_key_def)
  ultimately show ?thesis by simp
qed

lemma finite_likes [simp]: "finite {uid. has_like d pid uid}"
proof -
  have "{uid. has_like d pid uid} \<subseteq> lk_user_id ` set (likes d)"
    by (force simp: has_like_def like_key_def)
  then show ?thesis by (rule finite_subset) simp
qed

text \<open>The keys of one post are among the keys of all likes, so the scan finds exactly the pending pairs of the post.\<close>

lemma scan_post_prefix:
  "k \<in> set (scan_prefix R (like_prefix pid) s) \<longleftrightarrow>
     k \<in> set (scan_prefix R ''post_like:'' s) \<and> take (length (like_prefix pid)) k = like_prefix pid"
proof -
  have "take 10 k = ''post_like:''" if "take (length (like_prefix pid)) k = like_prefix pid"
  proof -
    from that obtain r where "k = like_prefix pid @ r" by (metis append_take_drop_id)
    then show ?thesis by (simp add: like_prefix_def)
  qed
  then show ?thesis by (auto simp: scan_prefix_def numeral_eq_Suc)
qed

lemma pending_of_post:
  assumes "redis R" and "like_keys_ok R (kv w)"
  obtains ps where "pending_pairs R (kv w) (scan_prefix R (like_prefix pid) (kv w)) = Some ps"
    and "\<And>a b. (a, b) \<in> set ps \<Longrightarrow> b \<longleftrightarrow> r_get R (kv w) (post_like_key pid a) = Some ''1''"
    and "\<And>a. a \<in> fst ` set ps \<longleftrightarrow> r_get R (kv w) (post_like_key pid a) \<noteq> None"
proof -
  let ?ks = "scan_prefix R (like_prefix pid) (kv w)"
  have scanned: "\<exists>a v. k = post_like_key pid a \<and> r_get R (kv w) k = Some v" if "k \<in> set ?ks" for k
    using that scan_post_prefix [of k R pid] like_key_scanned [OF assms, of k] by (auto simp: post_like_key_prefix)
  obtain ps where ps: "pending_pairs R (kv w) ?ks = Some ps"
    "\<forall>(a, b)\<in>set ps. b \<longleftrightarrow> r_get R (kv w) (post_like_key pid a) = Some ''1''"
    "fst ` set ps = {a. post_like_key pid a \<in> set ?ks}"
    using pending_pairs_scanned [OF scanned] by blast
  have "a \<in> fst ` set ps \<longleftrightarrow> r_get R (kv w) (post_like_key pid a) \<noteq> None" for a
    using ps(3) scan_post_prefix [of "post_like_key pid a" R pid "kv w"] r_get_key_cases [OF assms, of pid a]
    by (auto simp: post_like_key_prefix)
  with ps(1,2) show ?thesis by (intro that) auto
qed

lemma map_of_pairs:
  assumes "\<And>a b. (a, b) \<in> set ps \<Longrightarrow> b \<longleftrightarrow> Q a" and "a \<in> fst ` set ps"
  shows "map_of (rev ps) a = Some (Q a)"
proof -
  obtain b where b: "map_of (rev ps) a = Some b" using assms(2) by (metis map_of_eq_None_iff option.exhaust set_rev)
  then have "(a, b) \<in> set ps" using map_of_SomeD [OF b] by simp
  with assms(1) b show ?thesis by simp
qed

lemma saved_likes:
  "a \<in> A \<Longrightarrow> a \<in> lk_user_id ` {l \<in> set (likes d). lk_post_id l = pid \<and> lk_user_id l \<in> A} \<longleftrightarrow> has_like d pid a"
  by (auto simp: has_like_def like_key_def image_iff)

lemma count_likes_card:
  assumes "redis R" and "session_ok coll w" and "like_keys_ok R (kv w)"
  shows "count_likes R pid w = (Inr (int (card {a. effective_like R w pid a})), w)"
proof -
  let ?val = "\<lambda>a. r_get R (kv w) (post_like_key pid a) = Some ''1''" and ?S = "{a. has_like (working w) pid a}"
  obtain ps where ps: "pending_pairs R (kv w) (scan_prefix R (like_prefix pid) (kv w)) = Some ps"
    and val: "\<And>a b. (a, b) \<in> set ps \<Longrightarrow> b \<longleftrightarrow> ?val a"
    and P: "\<And>a. a \<in> fst ` set ps \<longleftrightarrow> r_get R (kv w) (post_like_key pid a) \<noteq> None"
    using pending_of_post [OF assms(1,3)] by blast
  let ?P = "fst ` set ps"
  let ?sv = "lk_user_id ` {l \<in> set (likes (working w)). lk_post_id l = pid \<and> lk_user_id l \<in> ?P}"
  have "(\<Sum>a\<leftarrow>remdups (map fst ps). of_bool (map_of (rev ps) a = Some True) - of_bool (a \<in> ?sv)) =
      (\<Sum>a\<in>?P. of_bool (map_of (rev ps) a = Some True) - of_bool (a \<in> ?sv) :: int)"
    by (simp only: sum_list_distinct_conv_sum_set [OF distinct_remdups] set_remdups set_map)
  also have "\<dots> = (\<Sum>a\<in>?P. of_bool (?val a) - of_bool (a \<in> ?S))"
    by (rule sum.cong [OF refl]) (simp only: map_of_pairs [OF val] saved_likes mem_Collect_eq option.inject eq_True simp_thms)
  finally have "(\<Sum>a\<leftarrow>remdups (map fst ps). of_bool (map_of (rev ps) a = Some True) - of_bool (a \<in> ?sv)) =
      (\<Sum>a\<in>?P. of_bool (?val a) - of_bool (a \<in> ?S) :: int)" .
  moreover have "{a. effective_like R w pid a} = {a. if a \<in> ?P then ?val a else a \<in> ?S}"
    using P by (auto simp: effective_like_def split: option.splits)
  ultimately show ?thesis
    using ps card_effective [of ?S ?P ?val] card_likes [OF assms(2), of pid]
    by (simp add: count_likes_def Let_def)
qed

text \<open>A concrete deployment: user 8 likes post 5 in the table, user 7 has a pending like of it.\<close>

definition demo_like_world :: "store app" where
  "demo_like_world =
     (let d = empty_db\<lparr>likes := [\<lparr>like_id = 1, lk_post_id = 5, lk_user_id = 8, lk_created_at = 1, lk_updated_at = 1\<rparr>]\<rparr>
      in \<lparr>committed = d, working = d, seq = (\<lambda>t. 100),
          kv = s_update (post_like_key 5 7) (\<lambda>_. Some (RString ''1'', None)) empty_store\<rparr>)"

lemma demo_like_world_ok:
  "session_ok coll demo_like_world" "like_keys_ok ref_redis (kv demo_like_world)"
  "r_get ref_redis (kv demo_like_world) (post_like_key 5 7) = Some ''1''"
  "effective_like ref_redis demo_like_world 5 a \<longleftrightarrow> a = 7 \<or> a = 8"
proof -
  show "session_ok coll demo_like_world"
    by (simp add: session_ok_def schema_ok_def demo_like_world_def empty_db_def ids_ok_def Let_def)
  show "like_keys_ok ref_redis (kv demo_like_world)"
    by (auto simp: like_keys_ok_def demo_like_world_def Let_def split: if_splits)
  show "r_get ref_redis (kv demo_like_world) (post_like_key 5 7) = Some ''1''"
    by (simp add: r_get_def demo_like_world_def Let_def)
  show "effective_like ref_redis demo_like_world 5 a \<longleftrightarrow> a = 7 \<or> a = 8"
    by (auto simp: effective_like_def r_get_def demo_like_world_def Let_def has_like_def like_key_def)
qed

section \<open>Properties\<close>

text \<open>
  C7.  The write-behind is transparent.  The sync job never fails; what every user sees (liked or not,
  for every post) is the same before and after it; afterwards the table alone says it, no pending
  value is left, and no other Redis key is touched.
\<close>

theorem like_sync_transparent:
  assumes "redis R" and "session_ok coll w" and "like_keys_ok R (kv w)"
    and "post_like_sync R (\<lambda>w. w) now w = (r, t)"
  shows "r = Inr () \<and> session_ok coll t \<and>
    (\<forall>p a. effective_like R t p a = effective_like R w p a \<and>
       has_like (committed t) p a = effective_like R w p a \<and>
       r_lookup R (kv t) (post_like_key p a) = None) \<and>
    (\<forall>k. take 10 k \<noteq> ''post_like:'' \<longrightarrow> r_lookup R (kv t) k = r_lookup R (kv w) k)"
proof -
  let ?ks = "scan_prefix R ''post_like:'' (kv w)"
  obtain w1 where w1: "scan_like_to_db R (\<lambda>w. w) now w = (Inr (), on_kv (fold (r_delete R) ?ks) (commit w1))"
    "session_ok coll w1" "kv w1 = kv w" "\<And>x y. has_like (working w1) x y \<longleftrightarrow> effective_like R w x y"
    using sync_run [OF assms(1-3)] by metis
  have rt: "r = Inr ()" "kv t = fold (r_delete R) ?ks (kv w)" "working t = working w1" "committed t = working w1"
    "seq t = seq w1"
    using assms(4) w1(1,3) by (auto simp: post_like_sync_def get_db_def)
  have ok: "session_ok coll t"
    using w1(2) rt(3-5) by (simp add: session_ok_def)
  have gone: "r_lookup R (kv t) (post_like_key p a) = None" for p a
  proof (cases "post_like_key p a \<in> set ?ks")
    case True
    then show ?thesis using assms(1) by (simp add: rt(2) redis.fold_delete_lookup)
  next
    case False
    then have "post_like_key p a \<notin> dom (r_lookup R (kv w))"
      using redis.keys_lookup [OF assms(1), of "kv w"]
      by (auto simp: scan_prefix_def post_like_key_def like_prefix_def)
    then have "r_lookup R (kv w) (post_like_key p a) = None" by (metis domIff)
    then show ?thesis using assms(1) False by (simp add: rt(2) redis.fold_delete_lookup)
  qed
  then have "effective_like R t p a = has_like (working w1) p a" for p a
    by (simp add: effective_like_def r_get_def rt(3))
  moreover have "r_lookup R (kv t) k = r_lookup R (kv w) k" if "take 10 k \<noteq> ''post_like:''" for k
  proof -
    have "k \<notin> set ?ks" using that by (simp add: scan_prefix_def numeral_eq_Suc)
    then show ?thesis using assms(1) by (simp add: rt(2) redis.fold_delete_lookup)
  qed
  ultimately show ?thesis
    using rt(1,4) ok gone w1(4) by simp
qed

theorem like_sync_transparent_witness:
  "has_like (committed (snd (post_like_sync ref_redis (\<lambda>w. w) 9 demo_like_world))) 5 7 \<and>
   s_lookup (kv (snd (post_like_sync ref_redis (\<lambda>w. w) 9 demo_like_world))) (post_like_key 5 7) = None"
  using like_sync_transparent [OF ref_redis_ok demo_like_world_ok(1,2) prod.collapse [symmetric], where now = 9]
    demo_like_world_ok(4) by simp

text \<open>
  The numbers shown are right.  \<open>get_like\<close> and \<open>count_likes\<close> never fail; the first is the
  effective like of the user, the second the number of users whose effective like is set, pending
  or stored.
\<close>

theorem count_likes_correct:
  assumes "redis R" and "session_ok coll w" and "like_keys_ok R (kv w)"
  shows "get_like R pid uid w = Inr (effective_like R w pid uid) \<and>
    count_likes R pid w = (Inr (int (card {a. effective_like R w pid a})), w)"
  using get_like_effective [OF assms(2)] count_likes_card [OF assms] by simp

theorem count_likes_correct_witness:
  "fst (count_likes ref_redis 5 demo_like_world) = Inr 2 \<and> get_like ref_redis 5 9 demo_like_world = Inr False"
proof -
  have "{a. effective_like ref_redis demo_like_world 5 a} = {7, 8}"
    by (auto simp: demo_like_world_ok(4))
  then show ?thesis
    using count_likes_correct [OF ref_redis_ok demo_like_world_ok(1,2), where pid = 5 and uid = 9]
    by (simp add: demo_like_world_ok(4))
qed

text \<open>
  An update can be lost.  If a user takes a pending like back between the commit of the job and
  the removal of the keys, the request sets the pending value, but the job then removes it: the
  like stays in the table and the user sees it again, although the request had succeeded.
\<close>

theorem unlike_lost_in_sync:
  assumes "redis R" and "session_ok coll w" and "like_keys_ok R (kv w)"
    and "r_get R (kv w) (post_like_key p a) = Some ''1''"
    and "post_like_sync R (delete_like R p a) now w = (r, t)"
  shows "r = Inr () \<and> \<not> effective_like R (delete_like R p a w) p a \<and> effective_like R t p a"
proof -
  let ?ks = "scan_prefix R ''post_like:'' (kv w)"
  obtain w1 where w1: "scan_like_to_db R (delete_like R p a) now w =
      (Inr (), on_kv (fold (r_delete R) ?ks) (delete_like R p a (commit w1)))"
    "kv w1 = kv w" "\<And>x y. has_like (working w1) x y \<longleftrightarrow> effective_like R w x y"
    using sync_run [OF assms(1-3)] by metis
  have "post_like_key p a \<in> set ?ks"
    using r_get_key_cases [OF assms(1,3), of p a] assms(4) by auto
  then have "r_lookup R (kv t) (post_like_key p a) = None" "working t = working w1" "r = Inr ()"
    using assms(1,5) w1(1) by (auto simp: post_like_sync_def get_db_def delete_like_def redis.fold_delete_lookup)
  moreover have "effective_like R w p a"
    using assms(4) by (simp add: effective_like_def)
  ultimately show ?thesis
    using assms(1) w1(3) by (simp add: effective_like_def delete_like_def r_get_def redis.lookup_set)
qed

theorem unlike_lost_in_sync_witness:
  "\<not> effective_like ref_redis (delete_like ref_redis 5 7 demo_like_world) 5 7 \<and>
   effective_like ref_redis (snd (post_like_sync ref_redis (delete_like ref_redis 5 7) 9 demo_like_world)) 5 7"
  using unlike_lost_in_sync [OF ref_redis_ok demo_like_world_ok(1,2,3) prod.collapse [symmetric], where now = 9] by simp

end
