(* ===== verification/Storage.thy ===== *)
theory Storage
  imports Errors PyString
begin

text \<open>
  \<^verbatim>\<open>infrastructure/storage\<close>: the abstract \<^verbatim>\<open>Storage\<close> (\<open>upload\<close>, \<open>generate_presigned_url\<close>), its two
  implementations over boto3, and \<^verbatim>\<open>get_storage\<close>.  boto3 is a parameter with documented laws; the
  locale \<open>storage\<close> is the contract the image service relies on, and both implementations provide it.
\<close>

section \<open>boto3\<close>

record client_config =
  endpoint_url :: "string option"
  aws_access_key_id :: string
  aws_secret_access_key :: string
  region_name :: string
  path_style :: bool

type_synonym object_name = "client_config \<times> string \<times> string"

record 'o boto3 =
  upload_fileobj :: "client_config \<Rightarrow> string \<Rightarrow> string \<Rightarrow> string option \<Rightarrow> nat list \<Rightarrow> ('o, exn, unit) prog"
  presign :: "client_config \<Rightarrow> string \<Rightarrow> string \<Rightarrow> int \<Rightarrow> string"
  object_at :: "'o \<Rightarrow> object_name \<Rightarrow> (nat list \<times> string option) option"

text \<open>
  A returned upload stored exactly that object; a failed one (network, permission) touched at most
  the object it was about.
\<close>

locale boto =
  fixes B :: "'o boto3"
  assumes upload_ok: "upload_fileobj B cl bk key ct bytes o1 = (Inr (), o2) \<Longrightarrow>
      object_at B o2 = (object_at B o1)((cl, bk, key) \<mapsto> (bytes, ct))"
    and upload_failed: "upload_fileobj B cl bk key ct bytes o1 = (Inl e, o2) \<Longrightarrow> n \<noteq> (cl, bk, key) \<Longrightarrow>
      object_at B o2 n = object_at B o1 n"

section \<open>The contract of Storage\<close>

record 'o storage =
  st_upload :: "string \<Rightarrow> nat list \<Rightarrow> string option \<Rightarrow> ('o, exn, string) prog"
  st_presign :: "string \<Rightarrow> int \<Rightarrow> string"

locale storage_contract =
  fixes st :: "'o storage" and obj :: "'o \<Rightarrow> string \<Rightarrow> (nat list \<times> string option) option"
  assumes upload_stores: "st_upload st key bytes ct o1 = (Inr k, o2) \<Longrightarrow>
      k = key \<and> obj o2 = (obj o1)(key \<mapsto> (bytes, if ct = Some [] then None else ct))"
    and upload_fails: "st_upload st key bytes ct o1 = (Inl e, o2) \<Longrightarrow> k \<noteq> key \<Longrightarrow> obj o2 k = obj o1 k"
begin

lemma upload_other:
  assumes "st_upload st key bytes ct o1 = (r, o2)" and "k \<noteq> key"
  shows "obj o2 k = obj o1 k"
  using assms upload_stores upload_fails by (cases r) auto

lemma upload_twice:
  assumes "st_upload st k1 b1 (Some (x # xs)) o1 = (Inr r1, o2)"
    and "st_upload st k2 b2 (Some (y # ys)) o2 = (Inr r2, o3)" and "k1 \<noteq> k2"
  shows "obj o3 k1 = Some (b1, Some (x # xs)) \<and> obj o3 k2 = Some (b2, Some (y # ys))"
  using upload_stores [OF assms(1)] upload_stores [OF assms(2)] assms(3) by simp

end

section \<open>Settings\<close>

record storage_settings =
  storage_provider :: string
  s3_endpoint_url :: "string option"
  s3_access_key :: "string option"
  s3_secret_key :: "string option"
  s3_bucket :: "string option"
  s3_region :: string
  r2_account_id :: "string option"
  r2_access_key_id :: "string option"
  r2_secret_access_key :: "string option"
  r2_bucket_name :: "string option"
  r2_region :: string

abbreviation not_configured :: exn where
  "not_configured \<equiv> AppError (StorageNotConfiguredError None)"

text \<open>Python's truth of an optional string.\<close>

definition falsy :: "string option \<Rightarrow> bool" where
  "falsy x \<longleftrightarrow> x = None \<or> x = Some []"

definition extra_args :: "string option \<Rightarrow> string option" where
  "extra_args ct = (if falsy ct then None else ct)"

section \<open>S3\<close>

definition build_client :: "storage_settings \<Rightarrow> exn + client_config" where
  "build_client S =
     (case (s3_access_key S, s3_secret_key S) of
        (Some a, Some k) \<Rightarrow>
          Inr \<lparr>endpoint_url = s3_endpoint_url S, aws_access_key_id = a, aws_secret_access_key = k,
               region_name = s3_region S, path_style = True\<rparr>
      | _ \<Rightarrow> Inl not_configured)"

definition S3Storage_upload ::
  "'o boto3 \<Rightarrow> client_config \<Rightarrow> string \<Rightarrow> string \<Rightarrow> nat list \<Rightarrow> string option \<Rightarrow> ('o, exn, string) prog" where
  "S3Storage_upload B client bucket key fileobj content_type =
     bindP (upload_fileobj B client bucket key (extra_args content_type) fileobj) (\<lambda>_. returnP key)"

definition S3Storage_generate_presigned_url ::
  "'o boto3 \<Rightarrow> client_config \<Rightarrow> string \<Rightarrow> string \<Rightarrow> int \<Rightarrow> string" where
  "S3Storage_generate_presigned_url B client bucket key expires_in = presign B client bucket key expires_in"

definition S3Storage :: "'o boto3 \<Rightarrow> client_config \<Rightarrow> string \<Rightarrow> 'o storage" where
  "S3Storage B client bucket =
     \<lparr>st_upload = S3Storage_upload B client bucket,
      st_presign = S3Storage_generate_presigned_url B client bucket\<rparr>"

definition S3Storage_init :: "'o boto3 \<Rightarrow> storage_settings \<Rightarrow> exn + 'o storage" where
  "S3Storage_init B S =
     (if falsy (s3_bucket S) then Inl not_configured
      else (case build_client S of
              Inl e \<Rightarrow> Inl e | Inr client \<Rightarrow> Inr (S3Storage B client (the (s3_bucket S)))))"

section \<open>R2\<close>

definition R2Storage_upload ::
  "'o boto3 \<Rightarrow> client_config \<Rightarrow> string \<Rightarrow> string \<Rightarrow> nat list \<Rightarrow> string option \<Rightarrow> ('o, exn, string) prog" where
  "R2Storage_upload B client bucket key fileobj content_type =
     bindP (upload_fileobj B client bucket key (extra_args content_type) fileobj) (\<lambda>_. returnP key)"

definition R2Storage_generate_presigned_url ::
  "'o boto3 \<Rightarrow> client_config \<Rightarrow> string \<Rightarrow> string \<Rightarrow> int \<Rightarrow> string" where
  "R2Storage_generate_presigned_url B client bucket key expires_in = presign B client bucket key expires_in"

definition R2Storage :: "'o boto3 \<Rightarrow> client_config \<Rightarrow> string \<Rightarrow> 'o storage" where
  "R2Storage B client bucket =
     \<lparr>st_upload = R2Storage_upload B client bucket,
      st_presign = R2Storage_generate_presigned_url B client bucket\<rparr>"

definition R2Storage_init :: "'o boto3 \<Rightarrow> storage_settings \<Rightarrow> exn + 'o storage" where
  "R2Storage_init B S =
     (case (r2_access_key_id S, r2_secret_access_key S) of
        (Some a, Some k) \<Rightarrow>
          if falsy (r2_account_id S) \<or> falsy (r2_bucket_name S) then Inl not_configured
          else Inr (R2Storage B
            \<lparr>endpoint_url = Some (''https://'' @ the (r2_account_id S) @ ''.r2.cloudflarestorage.com''),
             aws_access_key_id = a, aws_secret_access_key = k, region_name = r2_region S, path_style = False\<rparr>
            (the (r2_bucket_name S)))
      | _ \<Rightarrow> Inl not_configured)"

definition get_storage :: "'o boto3 \<Rightarrow> storage_settings \<Rightarrow> exn + 'o storage" where
  "get_storage B S = (if storage_provider S = ''r2'' then R2Storage_init B S else S3Storage_init B S)"

section \<open>Both implementations keep the contract\<close>

sublocale boto \<subseteq> s3: storage_contract "S3Storage B client bucket" "\<lambda>o' k. object_at B o' (client, bucket, k)"
  for client bucket
proof
  fix key bytes ct o1 k o2
  assume "st_upload (S3Storage B client bucket) key bytes ct o1 = (Inr k, o2)"
  then have k: "k = key"
    and u: "upload_fileobj B client bucket key (extra_args ct) bytes o1 = (Inr (), o2)"
    by (auto simp: S3Storage_def S3Storage_upload_def prog_simps split: prod.splits sum.splits)
  from k upload_ok [OF u]
  show "k = key \<and> (\<lambda>k. object_at B o2 (client, bucket, k)) =
      (\<lambda>k. object_at B o1 (client, bucket, k))(key \<mapsto> (bytes, if ct = Some [] then None else ct))"
    by (auto simp: extra_args_def falsy_def)
next
  fix key bytes ct o1 e o2 k
  assume "st_upload (S3Storage B client bucket) key bytes ct o1 = (Inl e, o2)" and "k \<noteq> key"
  then show "object_at B o2 (client, bucket, k) = object_at B o1 (client, bucket, k)"
    by (intro upload_failed) (auto simp: S3Storage_def S3Storage_upload_def prog_simps split: prod.splits sum.splits)
qed

sublocale boto \<subseteq> r2: storage_contract "R2Storage B client bucket" "\<lambda>o' k. object_at B o' (client, bucket, k)"
  for client bucket
proof -
  have "R2Storage B client bucket = S3Storage B client bucket"
    by (simp add: R2Storage_def S3Storage_def R2Storage_upload_def S3Storage_upload_def fun_eq_iff
        R2Storage_generate_presigned_url_def S3Storage_generate_presigned_url_def)
  then show "storage_contract (R2Storage B client bucket) (\<lambda>o' k. object_at B o' (client, bucket, k))"
    using s3.storage_contract_axioms by simp
qed

lemma get_storage_cases:
  assumes "get_storage B S = Inr st"
  obtains client bucket where "st = S3Storage B client bucket" | client bucket where "st = R2Storage B client bucket"
  using assms
  by (auto simp: get_storage_def S3Storage_init_def R2Storage_init_def split: if_splits option.splits sum.splits)

lemma get_storage_error: "get_storage B S = Inl e \<Longrightarrow> e = not_configured"
  by (auto simp: get_storage_def S3Storage_init_def R2Storage_init_def build_client_def
      split: if_splits option.splits sum.splits)

section \<open>A reference object store\<close>

text \<open>Objects in a list, the latest first; uploads to the bucket \<^verbatim>\<open>broken\<close> fail.\<close>

definition ref_boto :: "(object_name \<times> nat list \<times> string option) list boto3" where
  "ref_boto =
     \<lparr>upload_fileobj = (\<lambda>cl bk key ct bytes o1.
        if bk = ''broken'' then (Inl (OtherError ''ClientError''), o1)
        else (Inr (), ((cl, bk, key), (bytes, ct)) # o1)),
      presign = (\<lambda>cl bk key n. ''https://'' @ bk @ ''/'' @ key @ ''?e='' @ show_int n),
      object_at = map_of\<rparr>"

interpretation refb: boto ref_boto
  by unfold_locales (auto simp: ref_boto_def split: if_splits)

lemma ref_boto_ok: "boto ref_boto"
  by unfold_locales

end
