(* ===== verification/Posts.thy ===== *)
theory Posts
  imports Likes Storage "HOL-Library.Multiset"
begin

text \<open>
  \<^verbatim>\<open>modules/posts\<close>: schemas, the rest of \<^verbatim>\<open>PostRepository\<close>, \<^verbatim>\<open>PostService\<close> (without the images, which
  are in theory \<open>Images\<close>) and the endpoints.  \<open>not_like\<close> is the database's \<^verbatim>\<open>NOT LIKE '%word%'\<close>, \<open>scan\<close>
  the order in which it returns rows when the statement has no ORDER BY.
\<close>

section \<open>Schemas\<close>

definition TitleStr :: "utext \<Rightarrow> utext option" where
  "TitleStr v = (if 1 \<le> length v \<and> length v \<le> 200 then Some v else None)"

definition ContentStr :: "utext \<Rightarrow> utext option" where
  "ContentStr v = (if 1 \<le> length v then Some v else None)"

record post_create_body =
  pc_title :: utext
  pc_content :: utext

record post_update_body =
  pu_title :: "utext sent"
  pu_content :: "utext sent"

definition PostCreate :: "utext \<Rightarrow> utext \<Rightarrow> post_create_body option" where
  "PostCreate t c =
     (case (TitleStr t, ContentStr c) of (Some t', Some c') \<Rightarrow> Some \<lparr>pc_title = t', pc_content = c'\<rparr> | _ \<Rightarrow> None)"

definition PostUpdate :: "utext sent \<Rightarrow> utext sent \<Rightarrow> post_update_body option" where
  "PostUpdate t c =
     (case (sent_valid TitleStr t, sent_valid ContentStr c) of
        (Some t', Some c') \<Rightarrow> Some \<lparr>pu_title = t', pu_content = c'\<rparr> | _ \<Rightarrow> None)"

record author_summary =
  as_user_id :: int
  as_user_nickname :: utext

record post_summary =
  ps_post_id :: int
  ps_post_title :: utext
  ps_author :: author_summary
  ps_created_at :: time
  ps_post_view_count :: int

definition author_summary_of :: "user \<Rightarrow> author_summary" where
  "author_summary_of a = \<lparr>as_user_id = user_id a, as_user_nickname = user_nickname a\<rparr>"

definition post_summary_of :: "post \<Rightarrow> user \<Rightarrow> post_summary" where
  "post_summary_of p a =
     \<lparr>ps_post_id = post_id p, ps_post_title = post_title p, ps_author = author_summary_of a,
      ps_created_at = post_created_at p, ps_post_view_count = post_view_count p\<rparr>"

record post_detail_response =
  pd_post_id :: int
  pd_post_title :: utext
  pd_post_content :: utext
  pd_post_view_count :: int
  pd_post_like_count :: int
  pd_is_liked :: bool
  pd_has_images :: bool
  pd_author :: author_summary
  pd_created_at :: time
  pd_updated_at :: time

text \<open>\<^verbatim>\<open>PostDetailResponse.from_entities\<close>; its \<^verbatim>\<open>comments\<close> is always the empty list and left out.\<close>

definition post_detail_of :: "post \<Rightarrow> user \<Rightarrow> int \<Rightarrow> int \<Rightarrow> bool \<Rightarrow> post_detail_response" where
  "post_detail_of p a views like_count liked =
     \<lparr>pd_post_id = post_id p, pd_post_title = post_title p, pd_post_content = post_content p,
      pd_post_view_count = views, pd_post_like_count = like_count, pd_is_liked = liked,
      pd_has_images = False, pd_author = author_summary_of a, pd_created_at = post_created_at p,
      pd_updated_at = post_updated_at p\<rparr>"

section \<open>Repository\<close>

definition post_active :: "db \<Rightarrow> post list" where
  "post_active d = filter (\<lambda>p. post_status p = PUBLISHED \<and> post_deleted_at p = None) (posts d)"

definition post_get_by_id :: "int \<Rightarrow> 'x session_scheme \<Rightarrow> exn + post option" where
  "post_get_by_id pid s =
     one_or_none (SQLAlchemyError MultipleResultsFound)
       (filter (\<lambda>p. post_id p = pid) (post_active (working s)))"

definition post_get_any_by_id :: "int \<Rightarrow> 'x session_scheme \<Rightarrow> exn + post option" where
  "post_get_any_by_id pid s =
     one_or_none (SQLAlchemyError MultipleResultsFound)
       (filter (\<lambda>p. post_id p = pid) (posts (working s)))"

text \<open>\<^verbatim>\<open>JOIN users ON author_id = user_id\<close>\<close>

definition join_author :: "db \<Rightarrow> post list \<Rightarrow> (post \<times> user) list" where
  "join_author d ps = concat (map (\<lambda>p. map (Pair p) (filter (\<lambda>a. author_id p = user_id a) (users d))) ps)"

definition post_get_detail :: "int \<Rightarrow> 'x session_scheme \<Rightarrow> exn + (post \<times> user) option" where
  "post_get_detail pid s =
     one_or_none (SQLAlchemyError MultipleResultsFound)
       (join_author (working s) (filter (\<lambda>p. post_id p = pid) (post_active (working s))))"

definition post_filters :: "(utext \<Rightarrow> utext \<Rightarrow> bool) \<Rightarrow> utext list \<Rightarrow> post \<Rightarrow> bool" where
  "post_filters not_like filter_words p \<longleftrightarrow>
     post_deleted_at p = None \<and> post_status p = PUBLISHED \<and> \<not> post_is_notice p \<and>
     (\<forall>w\<in>set filter_words. not_like (post_title p) w \<and> not_like (post_content p) w)"

definition post_list_paginated ::
  "(utext \<Rightarrow> utext \<Rightarrow> bool) \<Rightarrow> page_params \<Rightarrow> utext list \<Rightarrow> 'x session_scheme \<Rightarrow> (post \<times> user) list \<times> int" where
  "post_list_paginated not_like params filter_words s =
     (let hits = filter (post_filters not_like filter_words) (posts (working s));
          rows = filter (\<lambda>(p, _). post_filters not_like filter_words p)
                   (join_author (working s) (post_active (working s)))
      in (page_of params (sort_key (\<lambda>(p, _). - post_id p) rows), int (length hits)))"

definition list_notices ::
  "((post \<times> user) list \<Rightarrow> (post \<times> user) list) \<Rightarrow> 'x session_scheme \<Rightarrow> (post \<times> user) list" where
  "list_notices scan s =
     scan (filter (\<lambda>(p, _). post_is_notice p) (join_author (working s) (post_active (working s))))"

definition count_comments :: "int \<Rightarrow> 'x session_scheme \<Rightarrow> int" where
  "count_comments pid s =
     int (length (filter (\<lambda>c. cm_post_id c = pid \<and> cm_deleted_at c = None) (comments (working s))))"

text \<open>A Core \<^verbatim>\<open>update()\<close> always applies \<open>onupdate\<close>, so \<open>updated_at\<close> moves with every view.\<close>

definition increment_views :: "time \<Rightarrow> int \<Rightarrow> 'x session_scheme \<Rightarrow> 'x session_scheme" where
  "increment_views now pid = upd_pk post_id posts_update pid
     (\<lambda>p. p\<lparr>post_view_count := post_view_count p + 1, post_updated_at := now\<rparr>)"

text \<open>\<^verbatim>\<open>refresh\<close>: the row is read again; SQLAlchemy raises if it is gone.\<close>

definition refresh_post :: "int \<Rightarrow> ('x session_scheme, exn, post) prog" where
  "refresh_post pid = bindP (getsP (sel_pk post_id posts pid)) (\<lambda>r.
     case r of None \<Rightarrow> raiseP (SQLAlchemyError OtherSqlError) | Some p \<Rightarrow> returnP p)"

definition post_list_images :: "int \<Rightarrow> 'x session_scheme \<Rightarrow> post_image list" where
  "post_list_images pid s = sort_key image_id (filter (\<lambda>i. im_post_id i = pid) (images (working s)))"

text \<open>\<^verbatim>\<open>post_content\<close> is a TEXT column, and its schema has no maximum.\<close>

definition post_add :: "time \<Rightarrow> utext \<Rightarrow> utext \<Rightarrow> int \<Rightarrow> ('x session_scheme, exn, post) prog" where
  "post_add now title content aid =
     (if \<not> fits_text content then raiseP (SQLAlchemyError OtherSqlError)
      else ins_row T_posts posts_update (\<lambda>i. \<lparr>post_id = i, post_title = title, post_content = content,
       author_id = aid, post_view_count = 0, post_status = PUBLISHED, post_is_notice = False,
       post_deleted_at = None, post_created_at = now, post_updated_at = now\<rparr>))"

definition stamp_post :: "time \<Rightarrow> post \<Rightarrow> post" where
  "stamp_post now p = p\<lparr>post_updated_at := now\<rparr>"

definition hide_if_published :: "time \<Rightarrow> int \<Rightarrow> ('x session_scheme, exn, unit) prog" where
  "hide_if_published now pid =
     bindP (\<lambda>s. (post_get_any_by_id pid s, s)) (\<lambda>r.
     case r of
       None \<Rightarrow> raiseP (ValueError MsgHidePostMissing)
     | Some p \<Rightarrow>
         if post_status p \<noteq> PUBLISHED then returnP ()
         else modifyP (upd_pk post_id posts_update pid
                (orm_update (stamp_post now) (\<lambda>p. p\<lparr>post_status := HIDDEN\<rparr>))))"

section \<open>Service\<close>

abbreviation post_not_found :: exn where
  "post_not_found \<equiv> AppError (NotFoundError (Some MsgPostNotFound))"

definition post_or_404 :: "int \<Rightarrow> ('x session_scheme, exn, post) prog" where
  "post_or_404 pid =
     bindP (\<lambda>s. (post_get_by_id pid s, s)) (\<lambda>r.
     case r of None \<Rightarrow> raiseP post_not_found | Some p \<Rightarrow> returnP p)"

definition post_detail :: "'r redis_api \<Rightarrow> time \<Rightarrow> int \<Rightarrow> user \<Rightarrow> ('r app, exn, post_detail_response) prog" where
  "post_detail R now pid me =
     bindP (\<lambda>w. (post_get_detail pid w, w)) (\<lambda>row.
     case row of
       None \<Rightarrow> raiseP post_not_found
     | Some (p, a) \<Rightarrow>
         bindP (if author_id p = user_id me then returnP p
                else bindP (modifyP (increment_views now pid)) (\<lambda>_.
                     bindP (refresh_post pid) (\<lambda>p'.
                     bindP (modifyP commit) (\<lambda>_. returnP p')))) (\<lambda>p'.
         bindP (count_likes R pid) (\<lambda>n.
         bindP (\<lambda>w. (get_like R pid (user_id me) w, w)) (\<lambda>liked.
         bindP (getsP (post_list_images pid)) (\<lambda>imgs.
         returnP ((post_detail_of p' a (post_view_count p') n liked)\<lparr>pd_has_images := imgs \<noteq> []\<rparr>))))))"

definition list_posts ::
  "(utext \<Rightarrow> utext \<Rightarrow> bool) \<Rightarrow> ((post \<times> user) list \<Rightarrow> (post \<times> user) list) \<Rightarrow> page_params \<Rightarrow>
   ('x session_scheme, exn, (post \<times> user) list \<times> (post \<times> user) list \<times> int) prog" where
  "list_posts not_like scan params =
     bindP (getsP (list_notices scan)) (\<lambda>notices.
     bindP (getsP (post_list_paginated not_like params [])) (\<lambda>(ps, n).
     returnP (sort_key (\<lambda>(p, _). - post_id p) notices, sort_key (\<lambda>(p, _). - post_id p) ps, n)))"

definition post_create :: "time \<Rightarrow> user \<Rightarrow> post_create_body \<Rightarrow> ('x session_scheme, exn, post_summary) prog" where
  "post_create now author b =
     bindP (post_add now (pc_title b) (pc_content b) (user_id author)) (\<lambda>p.
     bindP (modifyP commit) (\<lambda>_. returnP (post_summary_of p author)))"

definition get_owned :: "int \<Rightarrow> user \<Rightarrow> ('x session_scheme, exn, post) prog" where
  "get_owned pid me =
     bindP (post_or_404 pid) (\<lambda>p.
     if author_id p \<noteq> user_id me \<and> user_role me \<noteq> ADMIN
     then raiseP (AppError (ForbiddenError (Some MsgPostNotOwner))) else returnP p)"

fun sent_value :: "'a \<Rightarrow> 'a sent \<Rightarrow> 'a" where
  "sent_value old (Sent v) = v"
| "sent_value old _ = old"

definition post_edit :: "time \<Rightarrow> post_update_body \<Rightarrow> post \<Rightarrow> post" where
  "post_edit now b = orm_update (stamp_post now)
     (\<lambda>p. p\<lparr>post_title := sent_value (post_title p) (pu_title b),
           post_content := sent_value (post_content p) (pu_content b)\<rparr>)"

text \<open>
  A \<^verbatim>\<open>null\<close> field passes the schema and violates NOT NULL at the flush; so does a content longer than
  its column, with a \<^verbatim>\<open>DataError\<close>.
\<close>

fun sent_fits :: "utext sent \<Rightarrow> bool" where
  "sent_fits (Sent v) = fits_text v"
| "sent_fits _ = True"

definition post_update ::
  "'r redis_api \<Rightarrow> time \<Rightarrow> int \<Rightarrow> user \<Rightarrow> post_update_body \<Rightarrow> ('r app, exn, post_detail_response) prog" where
  "post_update R now pid me b =
     bindP (get_owned pid me) (\<lambda>p.
     bindP (if pu_title b = Null \<or> pu_content b = Null then raiseP (SQLAlchemyError IntegrityError)
            else if \<not> sent_fits (pu_content b) then raiseP (SQLAlchemyError OtherSqlError)
            else modifyP (upd_pk post_id posts_update pid (post_edit now b))) (\<lambda>_.
     bindP (modifyP commit) (\<lambda>_. post_detail R now pid me)))"

definition post_mark :: "time \<Rightarrow> post \<Rightarrow> post" where
  "post_mark now = orm_update (stamp_post now) (\<lambda>p. p\<lparr>post_deleted_at := Some now, post_status := DELETED\<rparr>)"

definition post_delete :: "time \<Rightarrow> int \<Rightarrow> user \<Rightarrow> ('x session_scheme, exn, unit) prog" where
  "post_delete now pid me =
     bindP (get_owned pid me) (\<lambda>p.
     bindP (modifyP (upd_pk post_id posts_update pid (post_mark now))) (\<lambda>_.
     modifyP commit))"

definition like_post :: "'r redis_api \<Rightarrow> int \<Rightarrow> user \<Rightarrow> ('r app, exn, unit) prog" where
  "like_post R pid me =
     bindP (post_or_404 pid) (\<lambda>_.
     bindP (\<lambda>w. (get_like R pid (user_id me) w, w)) (\<lambda>existing.
     if existing then returnP () else modifyP (add_like R pid (user_id me))))"

definition unlike_post :: "'r redis_api \<Rightarrow> int \<Rightarrow> user \<Rightarrow> ('r app, exn, unit) prog" where
  "unlike_post R pid me =
     bindP (\<lambda>w. (get_like R pid (user_id me) w, w)) (\<lambda>liked.
     if \<not> liked then returnP () else modifyP (delete_like R pid (user_id me)))"

definition get_share_url :: "int \<Rightarrow> ('x session_scheme, exn, string) prog" where
  "get_share_url pid =
     bindP (post_or_404 pid) (\<lambda>_. returnP (''http://localhost:5173/posts/'' @ show_int pid))"

section \<open>Endpoints\<close>

text \<open>Behind the protected router; the current user is the one the router's dependency found.\<close>

definition as_user ::
  "crypto \<Rightarrow> jwt_settings \<Rightarrow> time \<Rightarrow> string option \<Rightarrow> (user \<Rightarrow> ('x session_scheme, exn, 'a) prog) \<Rightarrow>
   ('x session_scheme, exn, 'a) prog" where
  "as_user C S now cred f = get_db (bindP (get_current_user C S now cred) f)"

definition list_posts_route ::
  "crypto \<Rightarrow> jwt_settings \<Rightarrow> (utext \<Rightarrow> utext \<Rightarrow> bool) \<Rightarrow> ((post \<times> user) list \<Rightarrow> (post \<times> user) list) \<Rightarrow> time \<Rightarrow>
   string option \<Rightarrow> page_params \<Rightarrow>
   ('x session_scheme, exn, post_summary page_response \<times> post_summary list) prog" where
  "list_posts_route C S not_like scan now cred params =
     as_user C S now cred (\<lambda>me. bindP (list_posts not_like scan params) (\<lambda>(notices, ps, n).
       returnP (page_response_create (map (\<lambda>(p, a). post_summary_of p a) ps) n params,
                map (\<lambda>(p, a). post_summary_of p a) notices)))"

definition get_post ::
  "'r redis_api \<Rightarrow> crypto \<Rightarrow> jwt_settings \<Rightarrow> time \<Rightarrow> string option \<Rightarrow> int \<Rightarrow> ('r app, exn, post_detail_response) prog" where
  "get_post R C S now cred pid = as_user C S now cred (post_detail R now pid)"

definition create_post ::
  "crypto \<Rightarrow> jwt_settings \<Rightarrow> time \<Rightarrow> string option \<Rightarrow> post_create_body \<Rightarrow> ('x session_scheme, exn, post_summary) prog" where
  "create_post C S now cred b = as_user C S now cred (\<lambda>me. post_create now me b)"

definition update_post ::
  "'r redis_api \<Rightarrow> crypto \<Rightarrow> jwt_settings \<Rightarrow> time \<Rightarrow> string option \<Rightarrow> int \<Rightarrow> post_update_body \<Rightarrow>
   ('r app, exn, post_detail_response) prog" where
  "update_post R C S now cred pid b = as_user C S now cred (\<lambda>me. post_update R now pid me b)"

definition delete_post ::
  "crypto \<Rightarrow> jwt_settings \<Rightarrow> time \<Rightarrow> string option \<Rightarrow> int \<Rightarrow> ('x session_scheme, exn, unit) prog" where
  "delete_post C S now cred pid = as_user C S now cred (post_delete now pid)"

definition like_post_route ::
  "'r redis_api \<Rightarrow> crypto \<Rightarrow> jwt_settings \<Rightarrow> time \<Rightarrow> string option \<Rightarrow> int \<Rightarrow> ('r app, exn, unit) prog" where
  "like_post_route R C S now cred pid = as_user C S now cred (like_post R pid)"

definition unlike_post_route ::
  "'r redis_api \<Rightarrow> crypto \<Rightarrow> jwt_settings \<Rightarrow> time \<Rightarrow> string option \<Rightarrow> int \<Rightarrow> ('r app, exn, unit) prog" where
  "unlike_post_route R C S now cred pid = as_user C S now cred (unlike_post R pid)"

definition share_post ::
  "crypto \<Rightarrow> jwt_settings \<Rightarrow> time \<Rightarrow> string option \<Rightarrow> int \<Rightarrow> ('x session_scheme, exn, string) prog" where
  "share_post C S now cred pid = protected C S now cred (get_share_url pid)"

section \<open>Lemmas\<close>

definition visible :: "post \<Rightarrow> bool" where
  "visible p \<longleftrightarrow> post_status p = PUBLISHED \<and> post_deleted_at p = None"

lemma session_post_ids: "session_ok coll w \<Longrightarrow> distinct (map post_id (posts (working w)))"
  by (rule schema_ok_ids(3), rule session_ok_working)

lemma session_user_ids: "session_ok coll w \<Longrightarrow> distinct (map user_id (users (working w)))"
  by (rule schema_ok_ids(1), rule session_ok_working)

lemma post_active_visible: "p \<in> set (post_active d) \<longleftrightarrow> p \<in> set (posts d) \<and> visible p"
  by (auto simp: post_active_def visible_def)

lemma post_active_filter: "post_active d = filter visible (posts d)"
  unfolding post_active_def by (rule filter_cong) (simp_all add: visible_def)

lemma post_get_by_id_sel:
  assumes "session_ok coll s"
  shows "post_get_by_id pid s = Inr (case sel_pk post_id posts pid s of
    None \<Rightarrow> None | Some p \<Rightarrow> if visible p then Some p else None)"
  using posts.one_or_none_pk [OF session_post_ids [OF assms], of _ pid visible]
  by (simp add: post_get_by_id_def post_active_def visible_def conj_commute conj_left_commute)

lemma post_or_404_cases:
  assumes "session_ok coll s"
  shows "post_or_404 pid s = (case sel_pk post_id posts pid s of
    None \<Rightarrow> (Inl post_not_found, s) | Some p \<Rightarrow> if visible p then (Inr p, s) else (Inl post_not_found, s))"
  using post_get_by_id_sel [OF assms, of pid] by (simp add: post_or_404_def prog_simps split: option.split)

lemma sel_active:
  assumes "session_ok coll s"
  shows "p \<in> set (post_active (working s)) \<longleftrightarrow> sel_pk post_id posts (post_id p) s = Some p \<and> visible p"
  using posts.sel_unique [OF session_post_ids [OF assms]] by (auto simp: post_active_visible)

lemma get_owned_cases:
  assumes "session_ok coll s" and "p \<in> set (post_active (working s))"
  shows "get_owned (post_id p) me s =
    (if author_id p = user_id me \<or> user_role me = ADMIN then (Inr p, s)
     else (Inl (AppError (ForbiddenError (Some MsgPostNotOwner))), s))"
  using assms sel_active [OF assms(1)]
  by (auto simp: get_owned_def prog_simps post_or_404_cases [OF assms(1)])

text \<open>The author of a post, if the account exists.\<close>

lemma author_rows:
  assumes "distinct (map user_id us)"
  shows "filter (\<lambda>a. i = user_id a) us = (case find (\<lambda>a. user_id a = i) us of None \<Rightarrow> [] | Some a \<Rightarrow> [a])"
proof -
  have "filter (\<lambda>a. i = user_id a) us = filter (\<lambda>a. user_id a = i \<and> True) us"
    by (rule filter_cong) auto
  then show ?thesis using filter_unique [OF assms, of i "\<lambda>_. True"] by (simp split: option.splits)
qed

lemma fst_join_author:
  assumes "distinct (map user_id (users d))"
  shows "map fst (join_author d ps) = filter (\<lambda>p. author_id p \<in> user_id ` set (users d)) ps"
proof -
  have one: "map (fst \<circ> Pair p) (filter (\<lambda>a. author_id p = user_id a) (users d)) =
      (if author_id p \<in> user_id ` set (users d) then [p] else [])" for p
  proof (cases "find (\<lambda>a. user_id a = author_id p) (users d)")
    case None
    then have "author_id p \<notin> user_id ` set (users d)" by (auto simp: find_None_iff)
    then show ?thesis using None by (simp add: author_rows [OF assms])
  next
    case (Some x)
    then have "author_id p \<in> user_id ` set (users d)"
      by (metis (mono_tags, lifting) find_SomeD imageI)
    then show ?thesis using Some by (simp add: author_rows [OF assms])
  qed
  show ?thesis
    by (induction ps) (simp_all add: join_author_def one)
qed

lemma join_author_rows: "(p, a) \<in> set (join_author d ps) \<Longrightarrow> p \<in> set ps \<and> a \<in> set (users d) \<and> author_id p = user_id a"
  by (auto simp: join_author_def)

lemma post_get_detail_sel:
  assumes "session_ok coll s" and "p \<in> set (post_active (working s))"
    and "a \<in> set (users (working s))" and "user_id a = author_id p"
  shows "post_get_detail (post_id p) s = Inr (Some (p, a))"
proof -
  have f: "find (\<lambda>r. post_id r = post_id p) (posts (working s)) = Some p"
    using sel_active [OF assms(1)] assms(2) by (simp add: sel_pk_def)
  have "filter (\<lambda>q. post_id q = post_id p) (post_active (working s)) =
      filter (\<lambda>q. post_id q = post_id p \<and> visible q) (posts (working s))"
    by (simp add: post_active_def visible_def conj_commute conj_left_commute)
  then have one: "filter (\<lambda>q. post_id q = post_id p) (post_active (working s)) = [p]"
    using filter_unique [OF session_post_ids [OF assms(1)], of "post_id p" visible] f assms(2)
    by (simp add: post_active_visible)
  have "find (\<lambda>x. user_id x = author_id p) (users (working s)) = Some a"
    using find_unique_Some [OF session_user_ids [OF assms(1)] assms(3,4)] .
  then show ?thesis
    by (simp add: post_get_detail_def one join_author_def author_rows [OF session_user_ids [OF assms(1)]])
qed

lemma post_get_detail_gone:
  assumes "session_ok coll s" and "\<And>p. sel_pk post_id posts pid s = Some p \<Longrightarrow> \<not> visible p"
  shows "post_get_detail pid s = Inr None"
proof -
  have "filter (\<lambda>q. post_id q = pid) (post_active (working s)) = []"
    using assms(2) posts.sel_unique [OF session_post_ids [OF assms(1)]]
    by (auto simp: filter_empty_conv post_active_visible)
  then show ?thesis by (simp add: post_get_detail_def join_author_def)
qed

lemma post_edit_sel [simp]:
  "post_id (post_edit now b p) = post_id p" "author_id (post_edit now b p) = author_id p"
  "post_title (post_edit now b p) = sent_value (post_title p) (pu_title b)"
  "post_content (post_edit now b p) = sent_value (post_content p) (pu_content b)"
  "post_status (post_edit now b p) = post_status p" "post_deleted_at (post_edit now b p) = post_deleted_at p"
  "post_view_count (post_edit now b p) = post_view_count p"
  by (cases p; auto simp: post_edit_def orm_update_def stamp_post_def)+

lemma post_mark_sel [simp]:
  "post_id (post_mark now p) = post_id p" "post_status (post_mark now p) = DELETED"
  "post_deleted_at (post_mark now p) = Some now" "\<not> visible (post_mark now p)"
  by (cases p; auto simp: post_mark_def orm_update_def stamp_post_def visible_def)+

lemma session_ok_post_upd:
  fixes s :: "'x session_scheme"
  assumes "session_ok coll s" and "\<And>p. post_id (f p) = post_id p"
  shows "session_ok coll (upd_pk post_id posts_update pid f s)"
  using assms by (intro session_ok_upd schema_ok_upd_posts) auto

text \<open>Updating one post and committing, in terms of the posts readers see.\<close>

lemma post_active_upd:
  assumes "session_ok coll s" and "p \<in> set (post_active (working s))"
    and "visible (f p)" "post_id (f p) = post_id p"
  shows "post_active (working (upd_pk post_id posts_update (post_id p) f s)) =
    map (\<lambda>q. if post_id q = post_id p then f q else q) (post_active (working s))"
proof -
  have "visible ((if post_id q = post_id p then f q else q)) \<longleftrightarrow> visible q" if "q \<in> set (posts (working s))" for q
  proof -
    have "q = p" if "post_id q = post_id p"
      using that \<open>q \<in> set (posts (working s))\<close> assms(2) session_post_ids [OF assms(1)]
      unfolding distinct_map post_active_visible by (blast dest: inj_onD)
    then show ?thesis using assms(2,3) by (auto simp: post_active_visible)
  qed
  then have "filter (visible \<circ> (\<lambda>q. if post_id q = post_id p then f q else q)) (posts (working s)) =
      filter visible (posts (working s))"
    by (intro filter_cong) auto
  then show ?thesis by (simp add: post_active_filter filter_map)
qed

lemma post_active_mark:
  "post_active (working (upd_pk post_id posts_update pid (post_mark now) s)) =
    filter (\<lambda>q. post_id q \<noteq> pid) (post_active (working s))"
proof -
  have "filter visible (map (\<lambda>q. if post_id q = pid then post_mark now q else q) ps) =
      filter (\<lambda>q. post_id q \<noteq> pid) (filter visible ps)" for ps
    by (induction ps) auto
  then show ?thesis by (simp add: post_active_filter)
qed

lemma effective_like_cong:
  "kv w' = kv w \<Longrightarrow> likes (working w') = likes (working w) \<Longrightarrow> effective_like R w' pid uid = effective_like R w pid uid"
  by (simp add: effective_like_def has_like_def split: option.split)

text \<open>Setting one pending value.\<close>

lemma like_keys_set:
  assumes "redis R" and "like_keys_ok R k"
  shows "like_keys_ok R (r_set R (post_like_key pid uid) ''1'' k)" "like_keys_ok R (r_set R (post_like_key pid uid) ''0'' k)"
  using assms(2) by (auto simp: like_keys_ok_def redis.lookup_set [OF assms(1)])

lemma effective_like_set:
  assumes "redis R"
  shows "effective_like R (on_kv (r_set R (post_like_key pid uid) v) w) x y \<longleftrightarrow>
    (if x = pid \<and> y = uid then v = ''1'' else effective_like R w x y)"
  by (cases "r_get R (kv w) (post_like_key x y)")
    (auto simp: effective_like_def r_get_def redis.lookup_set [OF assms])

lemma finite_effective:
  assumes "redis R" and "like_keys_ok R (kv w)"
  shows "finite {x. effective_like R w y x}"
proof -
  have "{x. effective_like R w y x} \<subseteq>
      {x. has_like (working w) y x} \<union> post_like_key y -` dom (r_lookup R (kv w))"
    by (auto simp: effective_like_def r_get_def split: option.splits)
  moreover have "finite (post_like_key y -` dom (r_lookup R (kv w)))"
    using redis.keys_lookup [OF assms(1), of "kv w"]
    by (intro finite_vimageI) (auto simp: inj_def simp flip: redis.keys_lookup [OF assms(1), of "kv w"])
  ultimately show ?thesis by (meson finite_Un finite_likes finite_subset)
qed

lemma card_fun_upd_True:
  assumes "finite {x. P x}"
  shows "card {x. x \<noteq> a \<longrightarrow> P x} = card {x. P x} + of_bool (\<not> P a)"
proof -
  have "{x. x \<noteq> a \<longrightarrow> P x} = insert a {x. P x}" by auto
  then show ?thesis using assms by (simp add: insert_absorb card_insert_if)
qed

lemma card_fun_upd_False:
  assumes "finite {x. P x}"
  shows "int (card {x. x \<noteq> a \<and> P x}) = int (card {x. P x}) - of_bool (P a)"
proof (cases "P a")
  case True
  have "{x. x \<noteq> a \<and> P x} = {x. P x} - {a}" by auto
  moreover have "0 < card {x. P x}" using True assms by (auto simp: card_gt_0_iff)
  ultimately show ?thesis using True assms by (simp add: of_nat_diff)
next
  case False
  then have "{x. x \<noteq> a \<and> P x} = {x. P x}" by auto
  with False show ?thesis by simp
qed

text \<open>One view of a post by somebody else.\<close>

definition seen_post :: "time \<Rightarrow> post \<Rightarrow> post" where
  "seen_post now p = p\<lparr>post_view_count := post_view_count p + 1, post_updated_at := now\<rparr>"

lemma seen_post_sel [simp]:
  "post_id (seen_post now p) = post_id p" "author_id (seen_post now p) = author_id p"
  "post_title (seen_post now p) = post_title p" "post_content (seen_post now p) = post_content p"
  "post_view_count (seen_post now p) = post_view_count p + 1" "visible (seen_post now p) = visible p"
  "post_updated_at (seen_post now p) = now"
  by (simp_all add: seen_post_def visible_def)

lemma post_detail_run:
  assumes "redis R" and "session_ok coll w" and "like_keys_ok R (kv w)"
    and "p \<in> set (post_active (working w))" and "a \<in> set (users (working w))" and "user_id a = author_id p"
  shows "post_detail R now (post_id p) me w =
    (let p' = (if author_id p = user_id me then p else seen_post now p)
     in (Inr ((post_detail_of p' a (post_view_count p') (int (card {x. effective_like R w (post_id p) x}))
                (effective_like R w (post_id p) (user_id me)))\<lparr>pd_has_images := post_list_images (post_id p) w \<noteq> []\<rparr>),
         if author_id p = user_id me then w
         else commit (upd_pk post_id posts_update (post_id p) (seen_post now) w)))"
proof -
  let ?t = "commit (upd_pk post_id posts_update (post_id p) (seen_post now) w)"
  note sel = iffD1 [OF sel_active [OF assms(2)] assms(4)]
  have g: "post_get_detail (post_id p) w = Inr (Some (p, a))"
    by (rule post_get_detail_sel [OF assms(2,4-6)])
  have ok: "session_ok coll ?t"
    by (intro session_ok_commit session_ok_post_upd assms(2)) simp
  have r: "refresh_post (post_id p) (upd_pk post_id posts_update (post_id p) (seen_post now) w) =
      (Inr (seen_post now p), upd_pk post_id posts_update (post_id p) (seen_post now) w)"
    using sel by (simp add: refresh_post_def prog_simps)
  have inc: "increment_views now (post_id p) = upd_pk post_id posts_update (post_id p) (seen_post now)"
    by (simp add: increment_views_def seen_post_def [abs_def])
  have e: "effective_like R ?t x y = effective_like R w x y" for x y
    by (rule effective_like_cong) simp_all
  have i: "post_list_images (post_id p) ?t = post_list_images (post_id p) w"
    by (simp add: post_list_images_def)
  have "like_keys_ok R (kv ?t)" using assms(3) by simp
  note n = count_likes_card [OF assms(1,2,3)] count_likes_card [OF assms(1) ok this]
    get_like_effective [OF assms(2)] get_like_effective [OF ok]
  show ?thesis
    by (simp add: post_detail_def prog_simps g r inc n e i Let_def)
qed

text \<open>A concrete deployment: user 1 wrote post 5 and notice 6; user 2 has a pending like of post 5.\<close>

definition demo_post :: "int \<Rightarrow> bool \<Rightarrow> post" where
  "demo_post i notice = \<lparr>post_id = i, post_title = u ''t'', post_content = u ''c'', author_id = 1,
     post_view_count = 3, post_status = PUBLISHED, post_is_notice = notice, post_deleted_at = None,
     post_created_at = 1, post_updated_at = 1\<rparr>"

definition demo_post_world :: "store app" where
  "demo_post_world =
     (let d = empty_db\<lparr>users := [demo_user 1 ''a@x'', demo_user 2 ''b@x''],
                       posts := [demo_post 5 False, demo_post 6 True, demo_post 7 False]\<rparr>
      in \<lparr>committed = d, working = d, seq = (\<lambda>t. 100),
          kv = s_update (post_like_key 5 2) (\<lambda>_. Some (RString ''1'', None)) empty_store\<rparr>)"

lemma demo_post_world_ok:
  "session_ok lower demo_post_world" "like_keys_ok ref_redis (kv demo_post_world)"
  "post_active (working demo_post_world) = [demo_post 5 False, demo_post 6 True, demo_post 7 False]"
  "users (working demo_post_world) = [demo_user 1 ''a@x'', demo_user 2 ''b@x'']"
  "effective_like ref_redis demo_post_world x y \<longleftrightarrow> x = 5 \<and> y = 2"
proof -
  have "lower ''a@x'' \<noteq> lower ''b@x''" by code_simp
  then show "session_ok lower demo_post_world"
    by (simp add: session_ok_def schema_ok_def demo_post_world_def empty_db_def ids_ok_def Let_def demo_user_def demo_post_def)
  show "like_keys_ok ref_redis (kv demo_post_world)"
    by (auto simp: like_keys_ok_def demo_post_world_def Let_def split: if_splits)
  show "post_active (working demo_post_world) = [demo_post 5 False, demo_post 6 True, demo_post 7 False]"
    by (simp add: post_active_def demo_post_world_def demo_post_def Let_def)
  show "users (working demo_post_world) = [demo_user 1 ''a@x'', demo_user 2 ''b@x'']"
    by (simp add: demo_post_world_def Let_def)
  show "effective_like ref_redis demo_post_world x y \<longleftrightarrow> x = 5 \<and> y = 2"
    by (auto simp: effective_like_def r_get_def demo_post_world_def Let_def has_like_def empty_db_def)
qed

lemma demo_post_sel [simp]:
  "post_id (demo_post i n) = i" "author_id (demo_post i n) = 1" "post_is_notice (demo_post i n) = n"
  "post_view_count (demo_post i n) = 3" "user_id (demo_user j e) = j" "user_role (demo_user j e) = USER"
  by (simp_all add: demo_post_def demo_user_def)

text \<open>The detail that an edit answers with.\<close>

lemma edited_detail:
  assumes "redis R" and "session_ok coll w" and "like_keys_ok R (kv w)"
    and "p \<in> set (post_active (working w))" and "a \<in> set (users (working w))" and "user_id a = author_id p"
    and "post_detail R now (post_id p) me (commit (upd_pk post_id posts_update (post_id p) (post_edit now b) w)) = (r, t)"
  shows "\<exists>d p'. r = Inr d \<and> pd_post_title d = post_title (post_edit now b p) \<and>
    pd_post_content d = post_content (post_edit now b p) \<and> pd_author d = author_summary_of a \<and>
    pd_post_view_count d = post_view_count p + of_bool (author_id p \<noteq> user_id me) \<and> working t = committed t \<and>
    post_active (committed t) = map (\<lambda>q. if q = p then p' else q) (post_active (working w)) \<and>
    post_title p' = post_title (post_edit now b p) \<and> post_content p' = post_content (post_edit now b p) \<and>
    author_id p' = author_id p"
proof -
  let ?e = "post_edit now b p"
  let ?w = "commit (upd_pk post_id posts_update (post_id p) (post_edit now b) w)"
  have e: "visible ?e" using assms(4) by (simp add: visible_def post_active_visible)
  have ok: "session_ok coll ?w"
    by (intro session_ok_commit session_ok_post_upd assms(2)) simp
  have uniq: "q = p" if "q \<in> set (post_active (working w))" "post_id q = post_id p" for q
    using that assms(4) session_post_ids [OF assms(2)]
    unfolding distinct_map post_active_visible by (blast dest: inj_onD)
  have act: "post_active (working ?w) = map (\<lambda>q. if q = p then ?e else q) (post_active (working w))"
    using post_active_upd [OF assms(2,4), of "post_edit now b"] e uniq by (auto intro!: map_cong)
  have "?e \<in> set (post_active (working ?w))"
    unfolding act using assms(4) by force
  then have h: "?e \<in> set (post_active (working ?w))" "a \<in> set (users (working ?w))" "user_id a = author_id ?e"
    "like_keys_ok R (kv ?w)"
    using assms(3,5,6) by simp_all
  note d = post_detail_run [OF assms(1) ok h(4) h(1-3), of now me, simplified post_edit_sel]
  have "map (\<lambda>q. if post_id q = post_id ?e then seen_post now q else q) (post_active (working ?w)) =
      map (\<lambda>q. if q = p then seen_post now ?e else q) (post_active (working w))"
    unfolding act using uniq by (auto intro!: map_cong)
  then have s: "post_active (working (upd_pk post_id posts_update (post_id p) (seen_post now) ?w)) =
      map (\<lambda>q. if q = p then seen_post now ?e else q) (post_active (working w))"
    using post_active_upd [OF ok h(1), of "seen_post now"] e by simp
  show ?thesis
  proof (cases "author_id p = user_id me")
    case True
    with d assms(7) act show ?thesis
      by (intro exI [of _ "projr r"] exI [of _ ?e]) (auto simp: Let_def post_detail_of_def)
  next
    case False
    with d assms(7) s show ?thesis
      by (intro exI [of _ "projr r"] exI [of _ "seen_post now ?e"]) (auto simp: Let_def post_detail_of_def)
  qed
qed

lemma post_update_cases:
  assumes "session_ok coll w" and "p \<in> set (post_active (working w))"
  shows "post_update R now (post_id p) me b w =
    (if author_id p \<noteq> user_id me \<and> user_role me \<noteq> ADMIN
     then (Inl (AppError (ForbiddenError (Some MsgPostNotOwner))), w)
     else if pu_title b = Null \<or> pu_content b = Null then (Inl (SQLAlchemyError IntegrityError), w)
     else if \<not> sent_fits (pu_content b) then (Inl (SQLAlchemyError OtherSqlError), w)
     else post_detail R now (post_id p) me (commit (upd_pk post_id posts_update (post_id p) (post_edit now b) w)))"
  by (auto simp: post_update_def bindP_apply [of "get_owned (post_id p) me"] get_owned_cases [OF assms] prog_simps)

text \<open>The likes of a post.\<close>

lemma like_post_run:
  assumes "session_ok coll w" and "p \<in> set (post_active (working w))"
  shows "like_post R (post_id p) me w =
    (Inr (), if effective_like R w (post_id p) (user_id me) then w else add_like R (post_id p) (user_id me) w)"
  using sel_active [OF assms(1), of p] assms(2)
  by (simp add: like_post_def prog_simps post_or_404_cases [OF assms(1)] get_like_effective [OF assms(1)] post_active_visible)

lemma like_post_gone:
  assumes "session_ok coll w" and "gone \<notin> post_id ` set (post_active (working w))"
  shows "like_post R gone me w = (Inl post_not_found, w)"
proof -
  have "\<not> visible q" if "sel_pk post_id posts gone w = Some q" for q
    using that assms(2) posts.sel_working [OF that] by (force simp: post_active_visible)
  then show ?thesis by (simp add: like_post_def prog_simps post_or_404_cases [OF assms(1)] split: option.split)
qed

lemma unlike_post_run:
  assumes "session_ok coll w"
  shows "unlike_post R pid me w =
    (Inr (), if effective_like R w pid (user_id me) then delete_like R pid (user_id me) w else w)"
  by (simp add: unlike_post_def prog_simps get_like_effective [OF assms])

text \<open>The list of posts.\<close>

lemma post_filters_none: "post_filters not_like [] p \<longleftrightarrow> \<not> post_is_notice p \<and> visible p"
  by (auto simp: post_filters_def visible_def)

lemma list_posts_run:
  assumes "session_ok coll s" and "\<forall>p\<in>set (post_active (working s)). author_id p \<in> user_id ` set (users (working s))"
    and "J = join_author (working s) (post_active (working s))"
    and "rows = sort_key (\<lambda>(p, _). - post_id p) (filter (\<lambda>(p, _). \<not> post_is_notice p) J)"
  shows "map fst J = post_active (working s)" and "list_posts not_like scan params s =
    (Inr (sort_key (\<lambda>(p, _). - post_id p) (scan (filter (\<lambda>(p, _). post_is_notice p) J)),
      page_of params rows, int (length rows)), s)"
proof -
  show fst: "map fst J = post_active (working s)"
    using assms(2,3) by (simp add: fst_join_author [OF session_user_ids [OF assms(1)]])
  have "filter (\<lambda>(p, _). post_filters not_like [] p) J = filter (\<lambda>(p, _). \<not> post_is_notice p) J"
  proof (rule filter_cong)
    fix x assume "x \<in> set J"
    then have "fst x \<in> set (post_active (working s))" unfolding fst [symmetric] by simp
    then show "(case x of (p, _) \<Rightarrow> post_filters not_like [] p) = (case x of (p, _) \<Rightarrow> \<not> post_is_notice p)"
      by (simp add: post_filters_none post_active_visible case_prod_unfold)
  qed simp
  moreover have "filter (post_filters not_like []) (posts (working s)) = map fst (filter (\<lambda>(p, _). \<not> post_is_notice p) J)"
    unfolding map_fst_filter fst post_active_filter filter_filter by (rule filter_cong) (auto simp: post_filters_none)
  moreover have "sort_key (\<lambda>(p, _). - post_id p) (page_of params rows) = page_of params rows"
    unfolding assms(4) by (rule sort_key_id_if_sorted) (simp add: map_page_of sorted_wrt_page_of)
  ultimately show "list_posts not_like scan params s =
    (Inr (sort_key (\<lambda>(p, _). - post_id p) (scan (filter (\<lambda>(p, _). post_is_notice p) J)),
      page_of params rows, int (length rows)), s)"
    by (simp add: list_posts_def prog_simps list_notices_def post_list_paginated_def Let_def assms(3,4))
qed

lemma newest_first:
  fixes xs :: "(post \<times> 'a) list"
  assumes "distinct (map post_id (map fst xs))"
  shows "sorted_wrt (\<lambda>p q. post_id q < post_id p) (map fst (sort_key (\<lambda>(p, _). - post_id p) xs))"
proof -
  have "distinct (map (\<lambda>(p, _). - post_id p) xs)" using assms by (auto simp: distinct_map inj_on_def case_prod_unfold)
  from sort_key_strict [OF this] show ?thesis by (simp add: sorted_wrt_map case_prod_unfold)
qed

section \<open>Properties\<close>

text \<open>
  C22.  Deleting a post.  Its author or an administrator removes it from every later read (it is
  answered with 404, a second deletion included) and removes nothing else; anybody else is refused
  and nothing changes.
\<close>

theorem post_delete_contract:
  fixes s :: "'x session_scheme"
  assumes "session_ok coll s" and "p \<in> set (post_active (working s))"
    and "post_delete now (post_id p) me s = (r, t)"
  shows "(author_id p = user_id me \<or> user_role me = ADMIN \<longrightarrow>
       r = Inr () \<and> session_ok coll t \<and> working t = committed t \<and>
       post_active (committed t) = filter (\<lambda>q. post_id q \<noteq> post_id p) (post_active (working s)) \<and>
       post_or_404 (post_id p) t = (Inl post_not_found, t) \<and>
       post_delete later (post_id p) other t = (Inl post_not_found, t)) \<and>
    (author_id p \<noteq> user_id me \<and> user_role me \<noteq> ADMIN \<longrightarrow>
       r = Inl (AppError (ForbiddenError (Some MsgPostNotOwner))) \<and> t = s)"
proof -
  let ?t = "commit (upd_pk post_id posts_update (post_id p) (post_mark now) s)"
  have run: "post_delete now (post_id p) me s =
      (if author_id p = user_id me \<or> user_role me = ADMIN then (Inr (), ?t)
       else (Inl (AppError (ForbiddenError (Some MsgPostNotOwner))), s))"
    by (simp add: post_delete_def bindP_apply [of "get_owned (post_id p) me"] get_owned_cases [OF assms(1,2)] prog_simps)
  have ok: "session_ok coll ?t"
    by (intro session_ok_commit session_ok_post_upd assms(1)) simp
  have "sel_pk post_id posts (post_id p) ?t = Some (post_mark now p)"
    using sel_active [OF assms(1)] assms(2) posts.sel_upd [of "post_mark now" "post_id p" "post_id p" s]
    by (simp add: sel_pk_def)
  then have gone: "post_or_404 (post_id p) ?t = (Inl post_not_found, ?t)"
    using post_or_404_cases [OF ok, of "post_id p"] by simp
  then have "post_delete later (post_id p) other ?t = (Inl post_not_found, ?t)"
    by (simp add: post_delete_def get_owned_def prog_simps)
  with run assms(3) ok gone post_active_mark [of "post_id p" now s] show ?thesis
    by auto
qed

theorem post_delete_contract_witness:
  "fst (post_delete 9 5 (demo_user 1 ''a@x'') demo_post_world) = Inr () \<and>
   fst (post_delete 9 5 (demo_user 2 ''b@x'') demo_post_world) = Inl (AppError (ForbiddenError (Some MsgPostNotOwner)))"
proof -
  have p: "demo_post 5 False \<in> set (post_active (working demo_post_world))"
    by (simp add: demo_post_world_ok)
  have e: "5 = post_id (demo_post 5 False)" by simp
  show ?thesis
    using post_delete_contract [OF demo_post_world_ok(1) p prod.collapse [symmetric], where now = 9 and me = "demo_user 1 ''a@x''"]
      post_delete_contract [OF demo_post_world_ok(1) p prod.collapse [symmetric], where now = 9 and me = "demo_user 2 ''b@x''"]
    by simp
qed

text \<open>
  C23.  Reading a post.  The answer has the title, content and author of the row, the number of users
  whose like is in effect, and whether the reader's is; a reader who is not the author adds exactly
  one view, which is in the answer and committed, and touches no other post; the author's own
  visit changes nothing.  A post that is not visible is a 404 and is not counted.  (A view also
  moves the \<open>updated_at\<close> of the post.)
\<close>

theorem post_detail_contract:
  assumes "redis R" and "session_ok coll w" and "like_keys_ok R (kv w)"
    and "p \<in> set (post_active (working w))" and "a \<in> set (users (working w))" and "user_id a = author_id p"
    and "post_detail R now (post_id p) me w = (r, t)"
    and "gone \<notin> post_id ` set (post_active (working w))"
  shows "(\<exists>d. r = Inr d \<and> pd_post_title d = post_title p \<and> pd_post_content d = post_content p \<and>
       pd_author d = author_summary_of a \<and>
       pd_post_like_count d = int (card {x. effective_like R w (post_id p) x}) \<and>
       pd_is_liked d = effective_like R w (post_id p) (user_id me) \<and>
       pd_post_view_count d = post_view_count p + of_bool (author_id p \<noteq> user_id me)) \<and>
    (author_id p = user_id me \<longrightarrow> t = w) \<and>
    (author_id p \<noteq> user_id me \<longrightarrow> working t = committed t \<and>
       post_active (committed t) =
         map (\<lambda>q. if q = p then seen_post now q else q) (post_active (working w))) \<and>
    post_detail R now gone me w = (Inl post_not_found, w)"
proof -
  have "q = p" if "q \<in> set (post_active (working w))" "post_id q = post_id p" for q
    using that assms(4) session_post_ids [OF assms(2)]
    unfolding distinct_map post_active_visible by (blast dest: inj_onD)
  then have "map (\<lambda>q. if post_id q = post_id p then seen_post now q else q) (post_active (working w)) =
      map (\<lambda>q. if q = p then seen_post now q else q) (post_active (working w))"
    by (intro map_cong) auto
  moreover have "visible p" using assms(4) by (simp add: post_active_visible)
  moreover have "\<not> visible q" if "sel_pk post_id posts gone w = Some q" for q
    using that assms(8) posts.sel_working [OF that] by (force simp: post_active_visible)
  then have "post_detail R now gone me w = (Inl post_not_found, w)"
    using post_get_detail_gone [OF assms(2), of gone] by (simp add: post_detail_def prog_simps)
  ultimately show ?thesis
    using post_detail_run [OF assms(1-6), of now me] assms(7)
      post_active_upd [OF assms(2,4), of "seen_post now"]
    by (auto simp: Let_def post_detail_of_def)
qed

theorem post_detail_contract_witness:
  "\<exists>d. fst (post_detail ref_redis 9 5 (demo_user 2 ''b@x'') demo_post_world) = Inr d \<and>
     pd_post_view_count d = 4 \<and> pd_post_like_count d = 1 \<and> pd_is_liked d \<and>
     fst (post_detail ref_redis 9 8 (demo_user 2 ''b@x'') demo_post_world) = Inl post_not_found"
proof -
  have h: "demo_post 5 False \<in> set (post_active (working demo_post_world))"
    "demo_user 1 ''a@x'' \<in> set (users (working demo_post_world))"
    "user_id (demo_user 1 ''a@x'') = author_id (demo_post 5 False)"
    "8 \<notin> post_id ` set (post_active (working demo_post_world))"
    by (simp_all add: demo_post_world_ok)
  show ?thesis
    using post_detail_contract [OF ref_redis_ok demo_post_world_ok(1,2) h(1-3) prod.collapse [symmetric] h(4),
        where now = 9 and me = "demo_user 2 ''b@x''"]
    by (auto simp: demo_post_world_ok(5))
qed

text \<open>
  C24.  Editing a post.  Nobody but the author or an administrator changes anything.  For them the
  fields sent take the value sent, the others keep theirs, no other post changes, and the answer
  shows the new text (an administrator's edit of another's post counts as a view).  A field sent
  as \<^verbatim>\<open>null\<close>, or a content of more than 65535 bytes, passes validation and ends as a database error,
  with nothing changed.
\<close>

theorem post_update_contract:
  assumes "redis R" and "session_ok coll w" and "like_keys_ok R (kv w)"
    and "p \<in> set (post_active (working w))" and "a \<in> set (users (working w))" and "user_id a = author_id p"
    and "post_update R now (post_id p) me b w = (r, t)"
  shows "if author_id p \<noteq> user_id me \<and> user_role me \<noteq> ADMIN
    then r = Inl (AppError (ForbiddenError (Some MsgPostNotOwner))) \<and> t = w
    else if pu_title b = Null \<or> pu_content b = Null
    then r = Inl (SQLAlchemyError IntegrityError) \<and> t = w
    else if \<not> sent_fits (pu_content b)
    then r = Inl (SQLAlchemyError OtherSqlError) \<and> t = w
    else (\<exists>d. r = Inr d \<and> pd_post_title d = sent_value (post_title p) (pu_title b) \<and>
        pd_post_content d = sent_value (post_content p) (pu_content b) \<and> pd_author d = author_summary_of a \<and>
        pd_post_view_count d = post_view_count p + of_bool (author_id p \<noteq> user_id me)) \<and>
      working t = committed t \<and>
      (\<exists>p'. post_active (committed t) = map (\<lambda>q. if q = p then p' else q) (post_active (working w)) \<and>
        post_title p' = sent_value (post_title p) (pu_title b) \<and>
        post_content p' = sent_value (post_content p) (pu_content b) \<and> author_id p' = author_id p)"
proof -
  note cases = post_update_cases [OF assms(2,4), of R now me b, unfolded assms(7)]
  show ?thesis
  proof (cases "author_id p \<noteq> user_id me \<and> user_role me \<noteq> ADMIN \<or> pu_title b = Null \<or> pu_content b = Null \<or>
      \<not> sent_fits (pu_content b)")
    case False
    then have "post_detail R now (post_id p) me (commit (upd_pk post_id posts_update (post_id p) (post_edit now b) w)) = (r, t)"
      using cases by auto
    from edited_detail [OF assms(1-6) this] False show ?thesis by auto
  qed (use cases in auto)
qed

theorem post_update_contract_witness:
  "\<exists>d. fst (post_update ref_redis 9 5 (demo_user 1 ''a@x'') \<lparr>pu_title = Sent (u ''new''), pu_content = Unset\<rparr>
       demo_post_world) = Inr d \<and> pd_post_title d = u ''new'' \<and> pd_post_view_count d = 3"
proof -
  have h: "demo_post 5 False \<in> set (post_active (working demo_post_world))"
    "demo_user 1 ''a@x'' \<in> set (users (working demo_post_world))"
    "user_id (demo_user 1 ''a@x'') = author_id (demo_post 5 False)"
    by (simp_all add: demo_post_world_ok)
  show ?thesis
    using post_update_contract [OF ref_redis_ok demo_post_world_ok(1,2) h(1-3) prod.collapse [symmetric],
        where now = 9 and me = "demo_user 1 ''a@x''" and b = "\<lparr>pu_title = Sent (u ''new''), pu_content = Unset\<rparr>"]
    by auto
qed

text \<open>
  The list.  If every post has its author's account, the list shows the visible ordinary posts,
  newest first, each exactly once over the pages, with the right total, and the visible notices,
  newest first, whatever order the database returned them in; each with its own author; nothing
  deleted or hidden.  Reading changes nothing.
\<close>

theorem post_list_contract:
  assumes "session_ok coll s"
    and "\<forall>p\<in>set (post_active (working s)). author_id p \<in> user_id ` set (users (working s))"
    and "\<forall>xs. mset (scan xs) = mset xs"
  shows "\<exists>notices ps L.
    list_posts not_like scan params s = (Inr (notices, ps, int (length L)), s) \<and>
    mset L = mset (filter (\<lambda>p. \<not> post_is_notice p) (post_active (working s))) \<and>
    sorted_wrt (\<lambda>p q. post_id q < post_id p) L \<and> map fst ps = page_of params L \<and>
    mset (map fst notices) = mset (filter post_is_notice (post_active (working s))) \<and>
    sorted_wrt (\<lambda>p q. post_id q < post_id p) (map fst notices) \<and>
    (\<forall>(p, a)\<in>set (ps @ notices). a \<in> set (users (working s)) \<and> user_id a = author_id p)"
proof -
  let ?d = "working s" and ?key = "\<lambda>(p :: post, _). - post_id p"
  define J where "J = join_author ?d (post_active ?d)"
  define rows where "rows = sort_key ?key (filter (\<lambda>(p, _). \<not> post_is_notice p) J)"
  define N where "N = sort_key ?key (scan (filter (\<lambda>(p, _). post_is_notice p) J))"
  note run = list_posts_run [OF assms(1,2) J_def rows_def]
  have dist: "distinct (map post_id (filter P (post_active ?d)))" for P
    using session_post_ids [OF assms(1)] by (simp add: post_active_def distinct_map_filter)
  have mL: "mset (map fst rows) = mset (filter (\<lambda>p. \<not> post_is_notice p) (post_active ?d))"
    by (simp only: rows_def mset_map mset_sort) (simp only: map_fst_filter run(1) flip: mset_map)
  have scan: "mset (scan (filter (\<lambda>(p, _). post_is_notice p) J)) = mset (filter (\<lambda>(p, _). post_is_notice p) J)"
    using assms(3) by blast
  then have mN: "mset (map fst N) = mset (filter post_is_notice (post_active ?d))"
    by (simp only: N_def mset_map mset_sort) (simp only: map_fst_filter run(1) flip: mset_map)
  have "distinct (map post_id (map fst (scan (filter (\<lambda>(p, _). post_is_notice p) J))))"
    by (rule iffD1 [OF mset_eq_imp_distinct_iff dist [of post_is_notice]])
      (simp only: mset_map scan, simp only: map_fst_filter run(1) flip: mset_map)
  then have "sorted_wrt (\<lambda>p q. post_id q < post_id p) (map fst N)" unfolding N_def by (rule newest_first)
  moreover have "sorted_wrt (\<lambda>p q. post_id q < post_id p) (map fst rows)"
    unfolding rows_def by (rule newest_first) (simp only: map_fst_filter run(1) dist)
  moreover have "set (page_of params rows @ N) \<subseteq> set J"
    using set_page_of [of params rows] mset_eq_setD [OF scan] by (auto simp: rows_def N_def)
  then have "\<forall>(p, a)\<in>set (page_of params rows @ N). a \<in> set (users ?d) \<and> user_id a = author_id p"
    using join_author_rows by (fastforce simp: J_def)
  ultimately show ?thesis
    using run(2) mL mN
    by (intro exI [of _ N] exI [of _ "page_of params rows"] exI [of _ "map fst rows"]) (simp add: N_def map_page_of)
qed

theorem post_list_contract_witness:
  "\<exists>notices ps. fst (list_posts (\<lambda>_ _. True) rev \<lparr>page = 1, page_size = 20\<rparr> demo_post_world) = Inr (notices, ps, 2) \<and>
     sorted_wrt (\<lambda>p q. post_id q < post_id p) (map fst notices)"
proof -
  have h: "\<forall>p\<in>set (post_active (working demo_post_world)). author_id p \<in> user_id ` set (users (working demo_post_world))"
    by (simp add: demo_post_world_ok)
  obtain notices ps L where r: "list_posts (\<lambda>_ _. True) rev \<lparr>page = 1, page_size = 20\<rparr> demo_post_world =
      (Inr (notices, ps, int (length L)), demo_post_world)"
    "mset L = mset (filter (\<lambda>p. \<not> post_is_notice p) (post_active (working demo_post_world)))"
    "sorted_wrt (\<lambda>p q. post_id q < post_id p) (map fst notices)"
    using post_list_contract [OF demo_post_world_ok(1) h, where scan = rev and not_like = "\<lambda>_ _. True"
        and params = "\<lparr>page = 1, page_size = 20\<rparr>"] by auto
  have "length L = size (mset L)" by simp
  also have "\<dots> = 2" unfolding r(2) by (simp add: demo_post_world_ok)
  finally show ?thesis using r(1,3) by simp
qed

text \<open>
  Liking.  On a visible post \<open>like_post\<close> sets exactly this user's like of this post, doing it again
  changes nothing, and \<open>unlike_post\<close> clears exactly it (on any post); the count shown goes up by
  one only for a new like, and down by one only for a real one.  Only Redis is written.  Liking a
  post that is not visible is a 404.
\<close>

theorem like_service_contract:
  assumes "redis R" and "session_ok coll w" and "like_keys_ok R (kv w)"
    and "p \<in> set (post_active (working w))" and "gone \<notin> post_id ` set (post_active (working w))"
    and "t = snd (like_post R (post_id p) me w)" and "t' = snd (unlike_post R pid me w)"
  shows "fst (like_post R (post_id p) me w) = Inr () \<and> fst (unlike_post R pid me w) = Inr () \<and>
    like_post R gone me w = (Inl post_not_found, w) \<and>
    working t = working w \<and> committed t = committed w \<and> working t' = working w \<and> committed t' = committed w \<and>
    like_keys_ok R (kv t) \<and> like_keys_ok R (kv t') \<and>
    effective_like R t = (effective_like R w)(post_id p := (effective_like R w (post_id p))(user_id me := True)) \<and>
    effective_like R t' = (effective_like R w)(pid := (effective_like R w pid)(user_id me := False)) \<and>
    like_post R (post_id p) me t = (Inr (), t) \<and> unlike_post R pid me t' = (Inr (), t') \<and>
    (\<exists>n. count_likes R (post_id p) w = (Inr n, w) \<and>
       count_likes R (post_id p) t = (Inr (n + of_bool (\<not> effective_like R w (post_id p) (user_id me))), t)) \<and>
    (\<exists>n. count_likes R pid w = (Inr n, w) \<and>
       count_likes R pid t' = (Inr (n - of_bool (effective_like R w pid (user_id me))), t'))"
proof -
  let ?i = "post_id p" and ?a = "user_id me"
  have t: "like_post R ?i me w = (Inr (), t)" "t = (if effective_like R w ?i ?a then w else add_like R ?i ?a w)"
    using assms(6) by (simp_all add: like_post_run [OF assms(2,4)])
  have t': "unlike_post R pid me w = (Inr (), t')" "t' = (if effective_like R w pid ?a then delete_like R pid ?a w else w)"
    using assms(7) by (simp_all add: unlike_post_run [OF assms(2)])
  have same: "working t = working w" "committed t = committed w" "working t' = working w" "committed t' = committed w"
    by (simp_all add: t(2) t'(2) add_like_def delete_like_def)
  have ok: "session_ok coll t" "session_ok coll t'"
    using assms(2) by (simp_all add: t(2) t'(2) add_like_def delete_like_def session_ok_def)
  have keys: "like_keys_ok R (kv t)" "like_keys_ok R (kv t')"
    using assms(3) like_keys_set [OF assms(1,3)] by (auto simp: t(2) t'(2) add_like_def delete_like_def)
  have eff: "effective_like R t = (effective_like R w)(?i := (effective_like R w ?i)(?a := True))"
    by (intro ext) (auto simp: t(2) add_like_def effective_like_set [OF assms(1)])
  have eff': "effective_like R t' = (effective_like R w)(pid := (effective_like R w pid)(?a := False))"
    by (intro ext) (auto simp: t'(2) delete_like_def effective_like_set [OF assms(1)])
  have again: "like_post R ?i me t = (Inr (), t)" "unlike_post R pid me t' = (Inr (), t')"
    using like_post_run [OF ok(1), of p R me] unlike_post_run [OF ok(2), of R pid me] assms(4) eff eff' by (simp_all add: same)
  have fin: "finite {x. effective_like R w y x}" for y
    by (rule finite_effective [OF assms(1,3)])
  have "card {x. effective_like R t ?i x} = card {x. effective_like R w ?i x} + of_bool (\<not> effective_like R w ?i ?a)"
    using card_fun_upd_True [OF fin [of ?i], where a = ?a] by (simp add: eff)
  moreover have "int (card {x. effective_like R t' pid x}) =
      int (card {x. effective_like R w pid x}) - of_bool (effective_like R w pid ?a)"
    using card_fun_upd_False [OF fin [of pid], where a = ?a] by (simp add: eff' cong: conj_cong)
  ultimately show ?thesis
    using t(1) t'(1) same keys eff eff' again like_post_gone [OF assms(2,5)] count_likes_card [OF assms(1-3)]
      count_likes_card [OF assms(1) ok(1) keys(1)] count_likes_card [OF assms(1) ok(2) keys(2)]
    by simp
qed

theorem like_service_contract_witness:
  "effective_like ref_redis (snd (like_post ref_redis 5 (demo_user 1 ''a@x'') demo_post_world)) 5 1 \<and>
   \<not> effective_like ref_redis (snd (unlike_post ref_redis 5 (demo_user 2 ''b@x'') demo_post_world)) 5 2"
proof -
  have h: "demo_post 5 False \<in> set (post_active (working demo_post_world))"
    "8 \<notin> post_id ` set (post_active (working demo_post_world))"
    by (simp_all add: demo_post_world_ok)
  show ?thesis
    using like_service_contract [OF ref_redis_ok demo_post_world_ok(1,2) h refl refl, where me = "demo_user 1 ''a@x''" and pid = 5]
      like_service_contract [OF ref_redis_ok demo_post_world_ok(1,2) h refl refl, where me = "demo_user 2 ''b@x''" and pid = 5]
    by (simp add: fun_eq_iff)
qed

end
