(* ===== verification/Comments.thy ===== *)
theory Comments
  imports Posts "HOL-Library.Product_Lexorder"
begin

text \<open>
  \<^verbatim>\<open>modules/comments\<close>: schemas, repository, service and endpoints.  A comment or a reply (one level
  deep); \<^verbatim>\<open>@nickname\<close> words are mentions.  \<open>contains n x\<close> is the database's \<^verbatim>\<open>n LIKE '%x%'\<close> under the
  collation of the column; \<open>scan\<close> and \<open>scan_c\<close> are the orders in which the database returns rows of
  a SELECT without ORDER BY.
\<close>

section \<open>Schemas\<close>

definition CommentContentStr :: "utext \<Rightarrow> utext option" where
  "CommentContentStr v = (if 1 \<le> length v \<and> length v \<le> 1000 then Some v else None)"

record comment_create_body =
  cc_content :: utext
  cc_parent :: "int option"

definition CommentCreate :: "utext \<Rightarrow> int option \<Rightarrow> comment_create_body option" where
  "CommentCreate c p = map_option (\<lambda>c'. \<lparr>cc_content = c', cc_parent = p\<rparr>) (CommentContentStr c)"

definition CommentUpdate :: "utext \<Rightarrow> utext option" where
  "CommentUpdate c = CommentContentStr c"

record comment_response =
  cr_comment_id :: int
  cr_post_id :: int
  cr_author_id :: int
  cr_content :: utext
  cr_parent :: "int option"
  cr_reply_count :: int
  cr_created_at :: time
  cr_updated_at :: time

definition comment_response_of :: "comment \<Rightarrow> comment_response" where
  "comment_response_of c =
     \<lparr>cr_comment_id = comment_id c, cr_post_id = cm_post_id c, cr_author_id = cm_author_id c,
      cr_content = comment_content c, cr_parent = parent_comment_id c, cr_reply_count = 0,
      cr_created_at = cm_created_at c, cr_updated_at = cm_updated_at c\<rparr>"

section \<open>Repository\<close>

definition comment_active :: "db \<Rightarrow> comment list" where
  "comment_active d = filter (\<lambda>c. cm_deleted_at c = None) (comments d)"

definition comment_sort_key :: "comment \<Rightarrow> time \<times> int" where
  "comment_sort_key c = (cm_created_at c, comment_id c)"

definition comment_get_by_id :: "int \<Rightarrow> 'x session_scheme \<Rightarrow> exn + comment option" where
  "comment_get_by_id cid s =
     one_or_none (SQLAlchemyError MultipleResultsFound)
       (filter (\<lambda>c. comment_id c = cid) (comment_active (working s)))"

definition get_parent_comment :: "int \<Rightarrow> 'x session_scheme \<Rightarrow> exn + comment option" where
  "get_parent_comment cid s =
     one_or_none (SQLAlchemyError MultipleResultsFound)
       (filter (\<lambda>c. comment_id c = cid) (comment_active (working s)))"

text \<open>\<^verbatim>\<open>GROUP BY parent_comment_id\<close>: only parents with a reply have a group.\<close>

definition count_replies_by_parents :: "int list \<Rightarrow> 'x session_scheme \<Rightarrow> int \<Rightarrow> int option" where
  "count_replies_by_parents ids s =
     (if ids = [] then (\<lambda>_. None)
      else (\<lambda>p. let n = length (filter (\<lambda>c. parent_comment_id c = Some p) (comment_active (working s)))
                in if p \<in> set ids \<and> n \<noteq> 0 then Some (int n) else None))"

text \<open>Python's \<^verbatim>\<open>sort(key=..., reverse=True)\<close>, stable as well.\<close>

definition sort_reverse :: "('a \<Rightarrow> 'k::linorder) \<Rightarrow> 'a list \<Rightarrow> 'a list" where
  "sort_reverse key xs = rev (sort_key key (rev xs))"

definition comment_list_by_post ::
  "(comment list \<Rightarrow> comment list) \<Rightarrow> int \<Rightarrow> page_params \<Rightarrow> 'x session_scheme \<Rightarrow>
   comment list \<times> int \<times> (int \<Rightarrow> int option)" where
  "comment_list_by_post scan_c pid params s =
     (let total = int (length (filter (\<lambda>c. cm_post_id c = pid \<and> cm_deleted_at c = None \<and> parent_comment_id c = None)
                                 (comments (working s))));
          found = scan_c (filter (\<lambda>c. cm_post_id c = pid \<and> parent_comment_id c = None) (comment_active (working s)));
          shown = page_of params (sort_reverse comment_sort_key found)
      in (shown, total, count_replies_by_parents (map comment_id shown) s))"

definition comment_list_by_parent :: "(comment list \<Rightarrow> comment list) \<Rightarrow> int \<Rightarrow> 'x session_scheme \<Rightarrow> comment list" where
  "comment_list_by_parent scan_c cid s =
     scan_c (filter (\<lambda>c. parent_comment_id c = Some cid) (comment_active (working s)))"

definition search_mention_users ::
  "(utext \<Rightarrow> utext \<Rightarrow> bool) \<Rightarrow> (user list \<Rightarrow> user list) \<Rightarrow> int \<Rightarrow> utext \<Rightarrow> 'x session_scheme \<Rightarrow> user list" where
  "search_mention_users contains scan pid nick s =
     (if nick = []
      then take 5 (scan (filter (\<lambda>x. \<exists>c\<in>set (comment_active (working s)). cm_author_id c = user_id x \<and> cm_post_id c = pid)
                           (users (working s))))
      else take 5 (scan (filter (\<lambda>x. contains (user_nickname x) nick) (users (working s)))))"

definition comment_add ::
  "time \<Rightarrow> utext \<Rightarrow> int \<Rightarrow> int \<Rightarrow> int option \<Rightarrow> ('x session_scheme, exn, comment) prog" where
  "comment_add now content pid aid parent =
     ins_row T_comments comments_update (\<lambda>i. \<lparr>comment_id = i, comment_content = content, cm_post_id = pid,
       cm_author_id = aid, parent_comment_id = parent, cm_deleted_at = None, cm_created_at = now,
       cm_updated_at = now\<rparr>)"

definition stamp_comment :: "time \<Rightarrow> comment \<Rightarrow> comment" where
  "stamp_comment now c = c\<lparr>cm_updated_at := now\<rparr>"

section \<open>Service\<close>

abbreviation comment_not_found :: exn where
  "comment_not_found \<equiv> AppError (NotFoundError (Some MsgCommentNotFound))"

definition ensure_post_exists :: "int \<Rightarrow> ('x session_scheme, exn, unit) prog" where
  "ensure_post_exists pid =
     bindP (\<lambda>s. (post_get_by_id pid s, s)) (\<lambda>r.
     if r = None then raiseP post_not_found else returnP ())"

definition comment_owned :: "int \<Rightarrow> user \<Rightarrow> ('x session_scheme, exn, comment) prog" where
  "comment_owned cid me =
     bindP (\<lambda>s. (comment_get_by_id cid s, s)) (\<lambda>r.
     case r of
       None \<Rightarrow> raiseP comment_not_found
     | Some c \<Rightarrow>
         if cm_author_id c \<noteq> user_id me then raiseP (AppError (ForbiddenError (Some MsgCommentNotOwner)))
         else returnP c)"

text \<open>The loop of \<open>_validate_mentions\<close>; 64 is the code point of @.\<close>

fun validate_words ::
  "(utext \<Rightarrow> 'x session_scheme \<Rightarrow> user list) \<Rightarrow> utext list \<Rightarrow> ('x session_scheme, exn, unit) prog" where
  "validate_words search [] = returnP ()"
| "validate_words search (w # ws) =
     (if take 1 w = [64] then
        (let nick = drop 1 w in
         if nick = [] then validate_words search ws
         else bindP (getsP (search nick)) (\<lambda>us.
              case find (\<lambda>x. user_nickname x = nick) us of
                None \<Rightarrow> raiseP (AppError (NotFoundError (Some (MsgMentionUnknown nick))))
              | Some _ \<Rightarrow> validate_words search ws))
      else validate_words search ws)"

definition validate_mentions ::
  "(utext \<Rightarrow> utext \<Rightarrow> bool) \<Rightarrow> (user list \<Rightarrow> user list) \<Rightarrow> int \<Rightarrow> utext \<Rightarrow> ('x session_scheme, exn, unit) prog" where
  "validate_mentions contains scan pid content =
     validate_words (search_mention_users contains scan pid) (split_ws content)"

definition list_comments ::
  "(comment list \<Rightarrow> comment list) \<Rightarrow> int \<Rightarrow> page_params \<Rightarrow>
   ('x session_scheme, exn, comment list \<times> int \<times> (int \<Rightarrow> int option)) prog" where
  "list_comments scan_c pid params =
     bindP (ensure_post_exists pid) (\<lambda>_. getsP (comment_list_by_post scan_c pid params))"

definition list_replies ::
  "(comment list \<Rightarrow> comment list) \<Rightarrow> int \<Rightarrow> ('x session_scheme, exn, comment list) prog" where
  "list_replies scan_c cid =
     bindP (\<lambda>s. (comment_get_by_id cid s, s)) (\<lambda>r.
     if r = None then raiseP comment_not_found else getsP (comment_list_by_parent scan_c cid))"

definition check_parent :: "int \<Rightarrow> int option \<Rightarrow> ('x session_scheme, exn, unit) prog" where
  "check_parent pid parent =
     (case parent of
        None \<Rightarrow> returnP ()
      | Some q \<Rightarrow>
          bindP (\<lambda>s. (get_parent_comment q s, s)) (\<lambda>r.
          case r of
            None \<Rightarrow> raiseP comment_not_found
          | Some c \<Rightarrow>
              if cm_post_id c \<noteq> pid then raiseP (AppError (NotFoundError (Some MsgCommentOtherPost)))
              else if parent_comment_id c \<noteq> None then raiseP (AppError (ForbiddenError (Some MsgReplyToReply)))
              else returnP ()))"

definition comment_create ::
  "(utext \<Rightarrow> utext \<Rightarrow> bool) \<Rightarrow> (user list \<Rightarrow> user list) \<Rightarrow> time \<Rightarrow> int \<Rightarrow> user \<Rightarrow> comment_create_body \<Rightarrow>
   ('x session_scheme, exn, comment) prog" where
  "comment_create contains scan now pid author b =
     bindP (ensure_post_exists pid) (\<lambda>_.
     bindP (check_parent pid (cc_parent b)) (\<lambda>_.
     bindP (validate_mentions contains scan pid (cc_content b)) (\<lambda>_.
     bindP (comment_add now (cc_content b) pid (user_id author) (cc_parent b)) (\<lambda>c.
     bindP (modifyP commit) (\<lambda>_. returnP c)))))"

definition comment_edit :: "time \<Rightarrow> utext \<Rightarrow> comment \<Rightarrow> comment" where
  "comment_edit now content = orm_update (stamp_comment now) (\<lambda>c. c\<lparr>comment_content := content\<rparr>)"

definition comment_update ::
  "(utext \<Rightarrow> utext \<Rightarrow> bool) \<Rightarrow> (user list \<Rightarrow> user list) \<Rightarrow> time \<Rightarrow> int \<Rightarrow> user \<Rightarrow> utext \<Rightarrow>
   ('x session_scheme, exn, comment) prog" where
  "comment_update contains scan now cid me content =
     bindP (comment_owned cid me) (\<lambda>c.
     bindP (validate_mentions contains scan (cm_post_id c) content) (\<lambda>_.
     bindP (modifyP (upd_pk comment_id comments_update cid (comment_edit now content))) (\<lambda>_.
     bindP (modifyP commit) (\<lambda>_. returnP (comment_edit now content c)))))"

definition comment_mark :: "time \<Rightarrow> comment \<Rightarrow> comment" where
  "comment_mark now = orm_update (stamp_comment now) (\<lambda>c. c\<lparr>cm_deleted_at := Some now\<rparr>)"

definition comment_delete :: "time \<Rightarrow> int \<Rightarrow> user \<Rightarrow> ('x session_scheme, exn, unit) prog" where
  "comment_delete now cid me =
     bindP (comment_owned cid me) (\<lambda>c.
     bindP (modifyP (upd_pk comment_id comments_update cid (comment_mark now))) (\<lambda>_.
     modifyP commit))"

section \<open>Endpoints\<close>

definition list_comments_route ::
  "crypto \<Rightarrow> jwt_settings \<Rightarrow> (comment list \<Rightarrow> comment list) \<Rightarrow> time \<Rightarrow> string option \<Rightarrow> int \<Rightarrow> page_params \<Rightarrow>
   ('x session_scheme, exn, comment_response page_response) prog" where
  "list_comments_route C S scan_c now cred pid params =
     protected C S now cred (bindP (list_comments scan_c pid params) (\<lambda>(cs, n, counts).
       returnP (page_response_create
         (map (\<lambda>c. (comment_response_of c)\<lparr>cr_reply_count :=
                 (case counts (comment_id c) of None \<Rightarrow> 0 | Some k \<Rightarrow> k)\<rparr>) cs) n params)))"

definition list_replies_route ::
  "crypto \<Rightarrow> jwt_settings \<Rightarrow> (comment list \<Rightarrow> comment list) \<Rightarrow> time \<Rightarrow> string option \<Rightarrow> int \<Rightarrow>
   ('x session_scheme, exn, comment_response list) prog" where
  "list_replies_route C S scan_c now cred cid =
     protected C S now cred (bindP (list_replies scan_c cid) (\<lambda>cs. returnP (map comment_response_of cs)))"

definition create_comment_route ::
  "crypto \<Rightarrow> jwt_settings \<Rightarrow> (utext \<Rightarrow> utext \<Rightarrow> bool) \<Rightarrow> (user list \<Rightarrow> user list) \<Rightarrow> time \<Rightarrow> string option \<Rightarrow> int \<Rightarrow>
   comment_create_body \<Rightarrow> ('x session_scheme, exn, comment_response) prog" where
  "create_comment_route C S contains scan now cred pid b =
     as_user C S now cred (\<lambda>me. bindP (comment_create contains scan now pid me b) (\<lambda>c.
       returnP (comment_response_of c)))"

definition update_comment_route ::
  "crypto \<Rightarrow> jwt_settings \<Rightarrow> (utext \<Rightarrow> utext \<Rightarrow> bool) \<Rightarrow> (user list \<Rightarrow> user list) \<Rightarrow> time \<Rightarrow> string option \<Rightarrow> int \<Rightarrow>
   utext \<Rightarrow> ('x session_scheme, exn, comment_response) prog" where
  "update_comment_route C S contains scan now cred cid content =
     as_user C S now cred (\<lambda>me. bindP (comment_update contains scan now cid me content) (\<lambda>c.
       returnP (comment_response_of c)))"

definition delete_comment_route ::
  "crypto \<Rightarrow> jwt_settings \<Rightarrow> time \<Rightarrow> string option \<Rightarrow> int \<Rightarrow> ('x session_scheme, exn, unit) prog" where
  "delete_comment_route C S now cred cid = as_user C S now cred (comment_delete now cid)"

section \<open>Lemmas\<close>

lemma session_comment_ids: "session_ok coll s \<Longrightarrow> distinct (map comment_id (comments (working s)))"
  by (rule schema_ok_ids(4), rule session_ok_working)

lemma comment_active_in: "c \<in> set (comment_active d) \<longleftrightarrow> c \<in> set (comments d) \<and> cm_deleted_at c = None"
  by (auto simp: comment_active_def)

lemma comment_unique:
  assumes "session_ok coll s" and "c \<in> set (comments (working s))" and "d \<in> set (comments (working s))"
    and "comment_id c = comment_id d"
  shows "c = d"
  using assms session_comment_ids [OF assms(1)] unfolding distinct_map by (blast dest: inj_onD)

lemma comment_get_by_id_sel:
  assumes "session_ok coll s"
  shows "comment_get_by_id cid s = Inr (case sel_pk comment_id comments cid s of
    None \<Rightarrow> None | Some c \<Rightarrow> if cm_deleted_at c = None then Some c else None)"
  using comments.one_or_none_pk [OF session_comment_ids [OF assms], of _ cid "\<lambda>c. cm_deleted_at c = None"]
  by (simp add: comment_get_by_id_def comment_active_def conj_commute)

lemma comment_get_by_id_live:
  assumes "session_ok coll s"
  shows "comment_get_by_id cid s = Inr (Some c) \<longleftrightarrow> c \<in> set (comment_active (working s)) \<and> comment_id c = cid"
    and "comment_get_by_id cid s = Inr None \<longleftrightarrow> cid \<notin> comment_id ` set (comment_active (working s))"
    and "\<exists>r. comment_get_by_id cid s = Inr r"
proof -
  note u = comments.sel_unique [OF session_comment_ids [OF assms]]
  have e: "comment_get_by_id cid s = Inr (find (\<lambda>c. comment_id c = cid) (comment_active (working s)))"
  proof (cases "sel_pk comment_id comments cid s")
    case None
    then have "find (\<lambda>c. comment_id c = cid) (comment_active (working s)) = None"
      using u [of cid] by (auto simp: find_None_iff comment_active_in)
    with None show ?thesis by (simp add: comment_get_by_id_sel [OF assms])
  next
    case (Some c)
    then have c: "c \<in> set (comments (working s))" "comment_id c = cid" using u by auto
    show ?thesis
    proof (cases "cm_deleted_at c = None")
      case True
      have "find (\<lambda>c. comment_id c = cid) (comment_active (working s)) = Some c"
        using c True session_comment_ids [OF assms]
        by (intro find_unique_Some) (auto simp: comment_active_def distinct_map_filter)
      with Some True show ?thesis by (simp add: comment_get_by_id_sel [OF assms])
    next
      case False
      have "find (\<lambda>c. comment_id c = cid) (comment_active (working s)) = None"
        unfolding find_None_iff comment_active_in using c False comment_unique [OF assms c(1)] by metis
      with Some False show ?thesis by (auto simp: comment_get_by_id_sel [OF assms])
    qed
  qed
  have S: "find (\<lambda>c. comment_id c = cid) (comment_active (working s)) = Some c \<longleftrightarrow>
      c \<in> set (comment_active (working s)) \<and> comment_id c = cid" for c
    using find_unique_Some [of comment_id "comment_active (working s)" c cid] session_comment_ids [OF assms]
    by (auto simp: comment_active_def distinct_map_filter dest: find_SomeD)
  have N: "find (\<lambda>c. comment_id c = cid) (comment_active (working s)) = None \<longleftrightarrow>
      cid \<notin> comment_id ` set (comment_active (working s))"
    by (auto simp: find_None_iff)
  show "comment_get_by_id cid s = Inr (Some c) \<longleftrightarrow> c \<in> set (comment_active (working s)) \<and> comment_id c = cid"
    by (simp add: e S)
  show "comment_get_by_id cid s = Inr None \<longleftrightarrow> cid \<notin> comment_id ` set (comment_active (working s))"
    by (simp add: e N)
  show "\<exists>r. comment_get_by_id cid s = Inr r"
    by (simp add: e)
qed

lemma get_parent_comment_eq: "get_parent_comment = comment_get_by_id"
  by (rule ext)+ (simp add: get_parent_comment_def comment_get_by_id_def)

lemma ensure_post_exists_cases:
  assumes "session_ok coll s"
  shows "ensure_post_exists pid s =
    (if pid \<in> post_id ` set (post_active (working s)) then (Inr (), s) else (Inl post_not_found, s))"
proof -
  have "(\<exists>p. sel_pk post_id posts pid s = Some p \<and> visible p) \<longleftrightarrow> pid \<in> post_id ` set (post_active (working s))"
    using posts.sel_unique [OF session_post_ids [OF assms], of pid] by (auto simp: post_active_visible image_iff)
  then show ?thesis
    by (auto simp: ensure_post_exists_def prog_simps post_get_by_id_sel [OF assms] split: option.splits if_splits)
qed

lemma comment_owned_cases:
  assumes "session_ok coll s"
  shows "comment_owned cid me s = (case find (\<lambda>c. comment_id c = cid) (comment_active (working s)) of
      None \<Rightarrow> (Inl comment_not_found, s)
    | Some c \<Rightarrow> if cm_author_id c \<noteq> user_id me then (Inl (AppError (ForbiddenError (Some MsgCommentNotOwner))), s)
                else (Inr c, s))"
proof (cases "find (\<lambda>c. comment_id c = cid) (comment_active (working s))")
  case None
  then have "comment_get_by_id cid s = Inr None"
    by (auto simp: comment_get_by_id_live(2) [OF assms] find_None_iff)
  with None show ?thesis by (simp add: comment_owned_def prog_simps)
next
  case (Some c)
  then have "comment_get_by_id cid s = Inr (Some c)"
    using find_SomeD [OF Some] by (simp add: comment_get_by_id_live(1) [OF assms])
  with Some show ?thesis by (simp add: comment_owned_def prog_simps)
qed

lemma comment_owned_state: "session_ok coll s \<Longrightarrow> snd (comment_owned cid me s) = s"
  by (simp add: comment_owned_cases split: option.split)

text \<open>The mentions of a text, and when they are accepted.\<close>

definition mentions :: "utext \<Rightarrow> utext list" where
  "mentions content = map (drop 1) (filter (\<lambda>w. take 1 w = [64] \<and> drop 1 w \<noteq> []) (split_ws content))"

lemma validate_words_cases:
  "validate_words search ws s =
    (case find (\<lambda>n. n \<notin> user_nickname ` set (search n s))
            (map (drop 1) (filter (\<lambda>w. take 1 w = [64] \<and> drop 1 w \<noteq> []) ws)) of
       None \<Rightarrow> (Inr (), s)
     | Some n \<Rightarrow> (Inl (AppError (NotFoundError (Some (MsgMentionUnknown n)))), s))"
proof (induction ws)
  case Nil
  then show ?case by (simp add: prog_simps)
next
  case (Cons w ws)
  have f: "find (\<lambda>x. user_nickname x = n) xs = None \<longleftrightarrow> n \<notin> user_nickname ` set xs" for n xs
    by (auto simp: find_None_iff)
  show ?case
  proof (cases "find (\<lambda>x. user_nickname x = drop 1 w) (search (drop 1 w) s)")
    case None
    with f have "drop 1 w \<notin> user_nickname ` set (search (drop 1 w) s)" by blast
    with None Cons show ?thesis by (simp add: prog_simps Let_def)
  next
    case (Some a)
    with f have "drop 1 w \<in> user_nickname ` set (search (drop 1 w) s)" by (metis option.distinct(1))
    with Some Cons show ?thesis by (simp add: prog_simps Let_def)
  qed
qed

definition mention_known ::
  "(utext \<Rightarrow> utext \<Rightarrow> bool) \<Rightarrow> (user list \<Rightarrow> user list) \<Rightarrow> db \<Rightarrow> utext \<Rightarrow> bool" where
  "mention_known contains scan d n \<longleftrightarrow>
     n \<in> user_nickname ` set (take 5 (scan (filter (\<lambda>x. contains (user_nickname x) n) (users d))))"

lemma validate_mentions_cases:
  "validate_mentions contains scan pid content s =
    (case find (\<lambda>n. \<not> mention_known contains scan (working s) n) (mentions content) of
       None \<Rightarrow> (Inr (), s)
     | Some n \<Rightarrow> (Inl (AppError (NotFoundError (Some (MsgMentionUnknown n)))), s))"
proof -
  have "find (\<lambda>n. n \<notin> user_nickname ` set (search_mention_users contains scan pid n s)) (mentions content) =
      find (\<lambda>n. \<not> mention_known contains scan (working s) n) (mentions content)"
    by (rule find_cong) (auto simp: mentions_def search_mention_users_def mention_known_def)
  then show ?thesis by (simp add: validate_mentions_def validate_words_cases mentions_def)
qed

lemma validate_mentions_state [simp]: "snd (validate_mentions contains scan pid content s) = s"
  by (simp add: validate_mentions_cases split: option.split)

text \<open>Threads are one level deep, inside one post.\<close>

definition comments_ok :: "db \<Rightarrow> bool" where
  "comments_ok d \<longleftrightarrow>
     (\<forall>c\<in>set (comments d). \<forall>p. parent_comment_id c = Some p \<longrightarrow>
        (\<exists>q\<in>set (comments d). comment_id q = p \<and> cm_post_id q = cm_post_id c \<and> parent_comment_id q = None))"

lemma comments_ok_map:
  assumes "comments_ok d"
    and "\<And>c. comment_id (f c) = comment_id c \<and> cm_post_id (f c) = cm_post_id c \<and> parent_comment_id (f c) = parent_comment_id c"
  shows "comments_ok (comments_update (map f) d)"
  using assms by (fastforce simp: comments_ok_def)

lemma comments_ok_snoc:
  assumes "comments_ok d"
    and "\<And>p. parent_comment_id c = Some p \<Longrightarrow>
      \<exists>q\<in>set (comments d). comment_id q = p \<and> cm_post_id q = cm_post_id c \<and> parent_comment_id q = None"
  shows "comments_ok (comments_update (\<lambda>cs. cs @ [c]) d)"
  using assms by (fastforce simp: comments_ok_def)

lemma comment_edit_sel [simp]:
  "comment_id (comment_edit now x c) = comment_id c" "cm_post_id (comment_edit now x c) = cm_post_id c"
  "parent_comment_id (comment_edit now x c) = parent_comment_id c" "cm_author_id (comment_edit now x c) = cm_author_id c"
  "cm_deleted_at (comment_edit now x c) = cm_deleted_at c" "comment_content (comment_edit now x c) = x"
  "cm_created_at (comment_edit now x c) = cm_created_at c"
  by (cases c; auto simp: comment_edit_def orm_update_def stamp_comment_def)+

lemma comment_mark_sel [simp]:
  "comment_id (comment_mark now c) = comment_id c" "cm_post_id (comment_mark now c) = cm_post_id c"
  "parent_comment_id (comment_mark now c) = parent_comment_id c" "cm_deleted_at (comment_mark now c) = Some now"
  by (cases c; auto simp: comment_mark_def orm_update_def stamp_comment_def)+

lemma session_ok_comment_upd:
  fixes s :: "'x session_scheme"
  assumes "session_ok coll s" and "\<And>c. comment_id (f c) = comment_id c"
  shows "session_ok coll (upd_pk comment_id comments_update cid f s)"
  using assms by (intro session_ok_upd schema_ok_upd_comments) auto

text \<open>The three operations, on every branch.\<close>

lemma check_parent_cases:
  assumes "session_ok coll s"
  shows "snd (check_parent pid parent s) = s" and
    "fst (check_parent pid parent s) = Inr () \<longleftrightarrow> (\<forall>q. parent = Some q \<longrightarrow>
       (\<exists>c\<in>set (comment_active (working s)). comment_id c = q \<and> cm_post_id c = pid \<and> parent_comment_id c = None))"
proof -
  have "snd (check_parent pid (Some q) s) = s \<and> (fst (check_parent pid (Some q) s) = Inr () \<longleftrightarrow>
      (\<exists>c\<in>set (comment_active (working s)). comment_id c = q \<and> cm_post_id c = pid \<and> parent_comment_id c = None))" for q
  proof -
    obtain r where r: "comment_get_by_id q s = Inr r" using comment_get_by_id_live(3) [OF assms] by metis
    show ?thesis
    proof (cases r)
      case None
      with r have "q \<notin> comment_id ` set (comment_active (working s))"
        by (simp add: comment_get_by_id_live(2) [OF assms])
      with r None show ?thesis by (auto simp: check_parent_def prog_simps get_parent_comment_eq)
    next
      case (Some c)
      with r have c: "c \<in> set (comment_active (working s))" "comment_id c = q"
        by (simp_all add: comment_get_by_id_live(1) [OF assms])
      have "(\<exists>d\<in>set (comment_active (working s)). comment_id d = q \<and> P d) \<longleftrightarrow> P c" for P
        using c comment_unique [OF assms] by (metis comment_active_in)
      with r Some show ?thesis by (simp add: check_parent_def prog_simps get_parent_comment_eq)
    qed
  qed
  then show "snd (check_parent pid parent s) = s" and
    "fst (check_parent pid parent s) = Inr () \<longleftrightarrow> (\<forall>q. parent = Some q \<longrightarrow>
       (\<exists>c\<in>set (comment_active (working s)). comment_id c = q \<and> cm_post_id c = pid \<and> parent_comment_id c = None))"
    by (cases parent; simp add: check_parent_def prog_simps)+
qed

definition new_comment :: "time \<Rightarrow> int \<Rightarrow> int \<Rightarrow> user \<Rightarrow> comment_create_body \<Rightarrow> comment" where
  "new_comment now i pid me b =
     \<lparr>comment_id = i, comment_content = cc_content b, cm_post_id = pid, cm_author_id = user_id me,
      parent_comment_id = cc_parent b, cm_deleted_at = None, cm_created_at = now, cm_updated_at = now\<rparr>"

lemma comment_create_cases:
  assumes "session_ok coll s"
  shows "comment_create contains scan now pid me b s =
    (if pid \<notin> post_id ` set (post_active (working s)) then (Inl post_not_found, s)
     else case fst (check_parent pid (cc_parent b) s) of Inl e \<Rightarrow> (Inl e, s)
     | Inr _ \<Rightarrow> (case fst (validate_mentions contains scan pid (cc_content b) s) of Inl e \<Rightarrow> (Inl e, s)
     | Inr _ \<Rightarrow> (let c = new_comment now (seq s T_comments) pid me b
                in (Inr c, commit (on_db (comments_update (\<lambda>cs. cs @ [c])) (take_pk T_comments s))))))"
proof -
  note reads = bindP_read [of "ensure_post_exists pid"] bindP_read [of "check_parent pid (cc_parent b)"]
    bindP_read [of "validate_mentions contains scan pid (cc_content b)"] check_parent_cases(1) [OF assms]
    ensure_post_exists_cases [OF assms]
  show ?thesis
    by (cases "pid \<in> post_id ` set (post_active (working s))";
        cases "fst (check_parent pid (cc_parent b) s)"; cases "fst (validate_mentions contains scan pid (cc_content b) s)";
        simp add: comment_create_def reads; simp add: comment_add_def prog_simps new_comment_def Let_def)
qed

lemma comment_update_cases:
  assumes "session_ok coll s"
  shows "comment_update contains scan now cid me content s =
    (case fst (comment_owned cid me s) of Inl e \<Rightarrow> (Inl e, s)
     | Inr c \<Rightarrow> (case fst (validate_mentions contains scan (cm_post_id c) content s) of Inl e \<Rightarrow> (Inl e, s)
     | Inr _ \<Rightarrow> (Inr (comment_edit now content c),
                 commit (upd_pk comment_id comments_update cid (comment_edit now content) s))))"
proof (cases "fst (comment_owned cid me s)")
  case (Inl e)
  then show ?thesis
    by (simp add: comment_update_def bindP_read [of "comment_owned cid me"] comment_owned_state [OF assms])
next
  case (Inr c)
  then show ?thesis
    by (cases "fst (validate_mentions contains scan (cm_post_id c) content s)";
        simp add: comment_update_def bindP_read [of "comment_owned cid me"] comment_owned_state [OF assms]
          bindP_read [of "validate_mentions contains scan (cm_post_id c) content"]; simp add: prog_simps)
qed

lemma comment_delete_cases:
  assumes "session_ok coll s"
  shows "comment_delete now cid me s =
    (case fst (comment_owned cid me s) of Inl e \<Rightarrow> (Inl e, s)
     | Inr c \<Rightarrow> (Inr (), commit (upd_pk comment_id comments_update cid (comment_mark now) s)))"
proof -
  show ?thesis
    by (cases "fst (comment_owned cid me s)";
        simp add: comment_delete_def bindP_read [of "comment_owned cid me"] comment_owned_state [OF assms];
        simp add: prog_simps)
qed

lemma comment_active_upd:
  assumes "\<And>c. cm_deleted_at (f c) = cm_deleted_at c"
  shows "comment_active (working (upd_pk comment_id comments_update cid f s)) =
    map (\<lambda>c. if comment_id c = cid then f c else c) (comment_active (working s))"
proof -
  have "filter (\<lambda>c. cm_deleted_at c = None) (map (\<lambda>c. if comment_id c = cid then f c else c) cs) =
      map (\<lambda>c. if comment_id c = cid then f c else c) (filter (\<lambda>c. cm_deleted_at c = None) cs)" for cs
    by (induction cs) (auto simp: assms)
  then show ?thesis by (simp add: comment_active_def)
qed

lemma comment_active_mark:
  "comment_active (working (upd_pk comment_id comments_update cid (comment_mark now) s)) =
    filter (\<lambda>c. comment_id c \<noteq> cid) (comment_active (working s))"
proof -
  have "filter (\<lambda>c. cm_deleted_at c = None) (map (\<lambda>c. if comment_id c = cid then comment_mark now c else c) cs) =
      filter (\<lambda>c. comment_id c \<noteq> cid) (filter (\<lambda>c. cm_deleted_at c = None) cs)" for cs
    by (induction cs) auto
  then show ?thesis by (simp add: comment_active_def)
qed

lemma comments_ok_upd:
  "comments_ok (working s) \<Longrightarrow>
   (\<And>c. comment_id (f c) = comment_id c \<and> cm_post_id (f c) = cm_post_id c \<and> parent_comment_id (f c) = parent_comment_id c) \<Longrightarrow>
   comments_ok (working (commit (upd_pk comment_id comments_update cid f s)))"
  by (simp add: comments_ok_map)

lemma comment_create_Inr:
  assumes "session_ok coll s" and "comment_create contains scan now pid me b s = (Inr c, t)"
  shows "c = new_comment now (seq s T_comments) pid me b"
    and "t = commit (on_db (comments_update (\<lambda>cs. cs @ [c])) (take_pk T_comments s))"
    and "pid \<in> post_id ` set (post_active (working s))" and "fst (check_parent pid (cc_parent b) s) = Inr ()"
    and "fst (validate_mentions contains scan pid (cc_content b) s) = Inr ()"
  using assms(2) by (auto simp: comment_create_cases [OF assms(1)] Let_def split: if_splits sum.splits)

lemma comment_create_Inl:
  "session_ok coll s \<Longrightarrow> comment_create contains scan now pid me b s = (Inl e, t) \<Longrightarrow> t = s"
  by (simp add: comment_create_cases Let_def split: if_splits sum.splits)

text \<open>A concrete deployment: post 5 with comment 1 by user 1 and the reply 2 by user 2.\<close>

definition demo_comment :: "int \<Rightarrow> int \<Rightarrow> int option \<Rightarrow> comment" where
  "demo_comment i aid parent = \<lparr>comment_id = i, comment_content = u ''hi'', cm_post_id = 5, cm_author_id = aid,
     parent_comment_id = parent, cm_deleted_at = None, cm_created_at = 1, cm_updated_at = 1\<rparr>"

definition demo_comments :: "comment list \<Rightarrow> user list \<Rightarrow> session" where
  "demo_comments cs us =
     (let d = empty_db\<lparr>users := us, posts := [demo_post 5 False], comments := cs\<rparr>
      in \<lparr>committed = d, working = d, seq = (\<lambda>t. 100)\<rparr>)"

lemma demo_comment_sel [simp]:
  "comment_id (demo_comment i a q) = i" "cm_post_id (demo_comment i a q) = 5" "cm_author_id (demo_comment i a q) = a"
  "parent_comment_id (demo_comment i a q) = q" "cm_deleted_at (demo_comment i a q) = None"
  by (simp_all add: demo_comment_def)

lemma demo_comments_ok:
  "distinct (map comment_id cs) \<Longrightarrow> \<forall>c\<in>set cs. comment_id c < 100 \<Longrightarrow> session_ok coll (demo_comments cs [])"
  "post_active (working (demo_comments cs us)) = [demo_post 5 False]"
  "comments (working (demo_comments cs us)) = cs" "users (working (demo_comments cs us)) = us"
  by (simp_all add: session_ok_def schema_ok_def demo_comments_def empty_db_def ids_ok_def Let_def post_active_def demo_post_def)

definition demo_nick :: "int \<Rightarrow> string \<Rightarrow> string \<Rightarrow> user" where
  "demo_nick i e n = (demo_user i e)\<lparr>user_nickname := u n\<rparr>"

definition demo_crowd :: session where
  "demo_crowd = demo_comments [] [demo_nick 1 ''1'' ''an'', demo_nick 2 ''2'' ''bar'', demo_nick 3 ''3'' ''can'',
     demo_nick 4 ''4'' ''dan'', demo_nick 5 ''5'' ''eva'', demo_nick 6 ''6'' ''a'']"

lemma demo_crowd_ok: "session_ok (\<lambda>e. e) demo_crowd"
  by (simp add: session_ok_def schema_ok_def demo_crowd_def demo_comments_def empty_db_def ids_ok_def Let_def
      demo_nick_def demo_user_def demo_post_def)

section \<open>What the operations keep\<close>

lemma comment_create_keeps:
  fixes s :: "'x session_scheme"
  assumes "session_ok coll s" and "comments_ok (working s)"
    and "comment_create contains scan now pid me b s = (r, t)"
  shows "session_ok coll t \<and> comments_ok (working t) \<and> settled s t"
proof (cases r)
  case (Inl e)
  with assms comment_create_Inl [OF assms(1), of contains scan now pid me b e t] show ?thesis
    by (simp add: settled_def)
next
  case (Inr c)
  note cr = comment_create_Inr [OF assms(1) assms(3) [unfolded Inr]]
  have "\<exists>q\<in>set (comments (working s)). comment_id q = p \<and> cm_post_id q = cm_post_id c \<and> parent_comment_id q = None"
    if "parent_comment_id c = Some p" for p
    using that cr(1,4) check_parent_cases(2) [OF assms(1), of pid "cc_parent b"]
    by (fastforce simp: new_comment_def comment_active_in)
  then have "comments_ok (working t)"
    using comments_ok_snoc [OF assms(2)] by (simp add: cr(2))
  moreover have "session_ok coll (snd (ins_row T_comments comments_update (\<lambda>i. new_comment now i pid me b) s))"
    using assms(1) by (intro session_ok_ins schema_ok_ins_comments) (simp_all add: new_comment_def)
  then have "session_ok coll t"
    unfolding cr(2) by (intro session_ok_commit) (simp add: prog_simps cr(1))
  ultimately show ?thesis by (simp add: cr(2) settled_def)
qed

lemma comment_update_keeps:
  assumes "session_ok coll s" and "comments_ok (working s)"
    and "comment_update contains scan now cid me content s = (r, t)"
  shows "session_ok coll t \<and> comments_ok (working t) \<and> settled s t"
  using assms comments_ok_upd [OF assms(2), of "comment_edit now content" cid]
  by (auto simp: comment_update_cases [OF assms(1)] settled_def split: sum.splits
      intro!: session_ok_commit session_ok_comment_upd)

lemma comment_delete_keeps:
  assumes "session_ok coll s" and "comments_ok (working s)" and "comment_delete now cid me s = (r, t)"
  shows "session_ok coll t \<and> comments_ok (working t) \<and> settled s t"
  using assms comments_ok_upd [OF assms(2), of "comment_mark now" cid]
  by (auto simp: comment_delete_cases [OF assms(1)] settled_def split: sum.splits
      intro!: session_ok_commit session_ok_comment_upd)

lemma new_comment_fresh:
  "session_ok coll s \<Longrightarrow> comment_id (new_comment now (seq s T_comments) pid me b) \<notin> comment_id ` set (comments (working s))"
  using session_ok_working by (force simp: new_comment_def schema_ok_def ids_ok_def)

text \<open>The lists of comments.\<close>

lemma comments_newest_first:
  assumes "distinct (map comment_id xs)"
  shows "sorted_wrt (\<lambda>c d. comment_sort_key d < comment_sort_key c) (sort_reverse comment_sort_key xs)"
proof -
  have "distinct (map comment_sort_key (rev xs))" using assms by (auto simp: distinct_map inj_on_def comment_sort_key_def)
  from sort_key_strict [OF this] show ?thesis by (simp add: sort_reverse_def sorted_wrt_rev)
qed

lemma list_comments_run:
  assumes "session_ok coll s" and "pid \<in> post_id ` set (post_active (working s))" and "\<forall>xs. mset (scan_c xs) = mset xs"
    and "L = sort_reverse comment_sort_key
      (scan_c (filter (\<lambda>c. cm_post_id c = pid \<and> parent_comment_id c = None) (comment_active (working s))))"
  shows "list_comments scan_c pid params s =
      (Inr (page_of params L, int (length L), count_replies_by_parents (map comment_id (page_of params L)) s), s)"
    and "mset L = mset (filter (\<lambda>c. cm_post_id c = pid \<and> parent_comment_id c = None) (comment_active (working s)))"
    and "sorted_wrt (\<lambda>c d. comment_sort_key d < comment_sort_key c) L"
proof -
  let ?F = "filter (\<lambda>c. cm_post_id c = pid \<and> parent_comment_id c = None) (comment_active (working s))"
  show mL: "mset L = mset ?F" by (simp add: assms(4) sort_reverse_def assms(3))
  have "filter (\<lambda>c. cm_post_id c = pid \<and> cm_deleted_at c = None \<and> parent_comment_id c = None) (comments (working s)) = ?F"
    unfolding comment_active_def filter_filter by (rule filter_cong) auto
  then show "list_comments scan_c pid params s =
      (Inr (page_of params L, int (length L), count_replies_by_parents (map comment_id (page_of params L)) s), s)"
    using assms(2) mset_eq_length [OF mL]
    by (simp add: list_comments_def prog_simps ensure_post_exists_cases [OF assms(1)] comment_list_by_post_def
        assms(4) [symmetric] Let_def)
  have "distinct (map comment_id ?F)"
    using session_comment_ids [OF assms(1)] by (simp add: comment_active_def distinct_map_filter)
  moreover have "mset (map comment_id (scan_c ?F)) = mset (map comment_id ?F)" by (simp add: assms(3))
  ultimately have "distinct (map comment_id (scan_c ?F))" using mset_eq_imp_distinct_iff by blast
  then show "sorted_wrt (\<lambda>c d. comment_sort_key d < comment_sort_key c) L"
    unfolding assms(4) by (rule comments_newest_first)
qed

lemma list_replies_run:
  assumes "session_ok coll s" and "comments_ok (working s)" and "c \<in> set (comment_active (working s))"
    and "\<forall>xs. mset (scan_c xs) = mset xs"
    and "rs = scan_c (filter (\<lambda>d. parent_comment_id d = Some (comment_id c)) (comment_active (working s)))"
  shows "list_replies scan_c (comment_id c) s = (Inr rs, s)"
    and "mset rs = mset (filter (\<lambda>d. parent_comment_id d = Some (comment_id c)) (comment_active (working s)))"
    and "d \<in> set rs \<Longrightarrow> cm_post_id d = cm_post_id c"
proof -
  show "list_replies scan_c (comment_id c) s = (Inr rs, s)"
    using comment_get_by_id_live(1) [OF assms(1), of "comment_id c" c] assms(3) by (simp add: list_replies_def prog_simps comment_list_by_parent_def assms(5))
  show m: "mset rs = mset (filter (\<lambda>d. parent_comment_id d = Some (comment_id c)) (comment_active (working s)))"
    using assms(4,5) by blast
  assume "d \<in> set rs"
  then have "d \<in> set (comments (working s))" "parent_comment_id d = Some (comment_id c)"
    using mset_eq_setD [OF m] by (auto simp: comment_active_in)
  then obtain q where "q \<in> set (comments (working s))" "comment_id q = comment_id c" "cm_post_id q = cm_post_id d"
    using assms(2) by (fastforce simp: comments_ok_def)
  with assms(3) comment_unique [OF assms(1), of q c] show "cm_post_id d = cm_post_id c" by (simp add: comment_active_in)
qed

text \<open>Who may edit and delete, and what is left.\<close>

lemma comment_same_id:
  assumes "session_ok coll s" and "c \<in> set (comment_active (working s))" and "d \<in> set (comment_active (working s))"
  shows "comment_id d = comment_id c \<longleftrightarrow> d = c"
  using assms comment_unique [OF assms(1), of d c] by (auto simp: comment_active_in)

lemma comment_owned_run:
  assumes "session_ok coll s" and "c \<in> set (comment_active (working s))"
  shows "fst (comment_owned (comment_id c) me s) =
    (if cm_author_id c \<noteq> user_id me then Inl (AppError (ForbiddenError (Some MsgCommentNotOwner))) else Inr c)"
proof -
  have "find (\<lambda>d. comment_id d = comment_id c) (comment_active (working s)) = Some c"
    using assms(2) session_comment_ids [OF assms(1)]
    by (intro find_unique_Some) (auto simp: comment_active_def distinct_map_filter)
  then show ?thesis by (simp add: comment_owned_cases [OF assms(1)])
qed

lemma comment_edited:
  assumes "session_ok coll s" and "c \<in> set (comment_active (working s))" and "cm_author_id c = user_id me"
    and "comment_update contains scan now (comment_id c) me content s = (r, t)"
  shows "r = Inr c' \<Longrightarrow> comment_content c' = content \<and>
      comment_active (committed t) = map (\<lambda>d. if d = c then c' else d) (comment_active (working s))"
    and "r = Inl e \<Longrightarrow> t = s"
proof -
  note own = comment_owned_run [OF assms(1,2), of me]
  show "t = s" if "r = Inl e"
    using own assms(3,4) that by (auto simp: comment_update_cases [OF assms(1)] split: sum.splits)
  assume "r = Inr c'"
  then have "c' = comment_edit now content c"
    "t = commit (upd_pk comment_id comments_update (comment_id c) (comment_edit now content) s)"
    using own assms(3,4) by (auto simp: comment_update_cases [OF assms(1)] split: sum.splits)
  then show "comment_content c' = content \<and>
      comment_active (committed t) = map (\<lambda>d. if d = c then c' else d) (comment_active (working s))"
    using comment_active_upd [of "comment_edit now content" "comment_id c" s] comment_same_id [OF assms(1,2)]
    by (auto intro!: map_cong)
qed

lemma comment_deleted:
  assumes "session_ok coll s" and "c \<in> set (comment_active (working s))" and "cm_author_id c = user_id me"
    and "comment_delete now (comment_id c) me s = (r, t)"
  shows "r = Inr ()" and "comment_active (committed t) = filter (\<lambda>d. d \<noteq> c) (comment_active (working s))"
    and "list_replies scan_c (comment_id c) t = (Inl comment_not_found, t)"
proof -
  let ?t = "commit (upd_pk comment_id comments_update (comment_id c) (comment_mark now) s)"
  have d: "r = Inr ()" "t = ?t"
    using comment_owned_run [OF assms(1,2), of me] assms(3,4) by (auto simp: comment_delete_cases [OF assms(1)])
  show "r = Inr ()" by (rule d(1))
  show act: "comment_active (committed t) = filter (\<lambda>d. d \<noteq> c) (comment_active (working s))"
    using comment_active_mark [of "comment_id c" now s] comment_same_id [OF assms(1,2)] by (auto simp: d(2) intro!: filter_cong)
  have ok: "session_ok coll t"
    unfolding d(2) by (intro session_ok_commit session_ok_comment_upd assms(1)) simp
  have "working t = committed t" by (simp add: d(2))
  then have "comment_id c \<notin> comment_id ` set (comment_active (working t))"
    using act comment_same_id [OF assms(1,2)] by fastforce
  then show "list_replies scan_c (comment_id c) t = (Inl comment_not_found, t)"
    using comment_get_by_id_live(2) [OF ok, of "comment_id c"] by (simp add: list_replies_def prog_simps)
qed

text \<open>Where a comment may be put: a visible post, and under a live top-level comment of it or under none.\<close>

definition comment_admitted :: "int \<Rightarrow> comment_create_body \<Rightarrow> db \<Rightarrow> bool" where
  "comment_admitted pid b d \<longleftrightarrow> pid \<in> post_id ` set (post_active d) \<and>
     (case cc_parent b of None \<Rightarrow> True
      | Some q \<Rightarrow> list_ex (\<lambda>c. comment_id c = q \<and> cm_post_id c = pid \<and> parent_comment_id c = None) (comment_active d))"

lemma comment_create_admitted:
  assumes "session_ok coll s"
  shows "comment_admitted pid b (working s) \<Longrightarrow> comment_create contains scan now pid me b s =
      (case find (\<lambda>n. \<not> mention_known contains scan (working s) n) (mentions (cc_content b)) of
         Some n \<Rightarrow> (Inl (AppError (NotFoundError (Some (MsgMentionUnknown n)))), s)
       | None \<Rightarrow> (let c = new_comment now (seq s T_comments) pid me b
                in (Inr c, commit (on_db (comments_update (\<lambda>cs. cs @ [c])) (take_pk T_comments s)))))"
    and "\<not> comment_admitted pid b (working s) \<Longrightarrow> \<exists>e. comment_create contains scan now pid me b s = (Inl e, s)"
proof -
  have ok: "fst (check_parent pid (cc_parent b) s) = Inr () \<longleftrightarrow> (case cc_parent b of None \<Rightarrow> True
      | Some q \<Rightarrow> list_ex (\<lambda>c. comment_id c = q \<and> cm_post_id c = pid \<and> parent_comment_id c = None) (comment_active (working s)))"
    by (auto simp: check_parent_cases(2) [OF assms] list_ex_iff split: option.split)
  show "comment_create contains scan now pid me b s =
      (case find (\<lambda>n. \<not> mention_known contains scan (working s) n) (mentions (cc_content b)) of
         Some n \<Rightarrow> (Inl (AppError (NotFoundError (Some (MsgMentionUnknown n)))), s)
       | None \<Rightarrow> (let c = new_comment now (seq s T_comments) pid me b
                in (Inr c, commit (on_db (comments_update (\<lambda>cs. cs @ [c])) (take_pk T_comments s)))))"
    if "comment_admitted pid b (working s)"
  proof -
    have "fst (check_parent pid (cc_parent b) s) = Inr ()" "pid \<in> post_id ` set (post_active (working s))"
      using that ok by (simp_all add: comment_admitted_def)
    then show ?thesis
      by (simp add: comment_create_cases [OF assms] validate_mentions_cases split: option.split)
  qed
  show "\<exists>e. comment_create contains scan now pid me b s = (Inl e, s)" if "\<not> comment_admitted pid b (working s)"
    using that ok unfolding comment_admitted_def comment_create_cases [OF assms]
    by (cases "fst (check_parent pid (cc_parent b) s)") auto
qed

text \<open>Who is found.\<close>

lemma mention_known_exists:
  "\<forall>xs. mset (scan xs) = mset xs \<Longrightarrow> mention_known contains scan d n \<Longrightarrow> \<exists>x\<in>set (users d). user_nickname x = n"
  by (auto simp: mention_known_def dest!: in_set_takeD) (metis filter_is_subset mset_eq_setD subsetD)

lemma mention_found:
  assumes "\<forall>xs. mset (scan xs) = mset xs" and "n \<in> user_nickname ` set (users d)" and "contains n n"
    and "length (filter (\<lambda>x. contains (user_nickname x) n) (users d)) \<le> 5"
  shows "mention_known contains scan d n"
proof -
  have "set (scan xs) = set xs" "length (scan xs) = length xs" for xs
    using assms(1) by (metis mset_eq_setD, metis mset_eq_length)
  with assms(2-4) show ?thesis by (auto simp: mention_known_def)
qed

text \<open>An order of the rows in which the account meant comes last.\<close>

lemma insort_key_bool:
  "\<not> P x \<Longrightarrow> insort_key P x ys = x # ys"
  "\<forall>y\<in>set ys. \<not> P y \<Longrightarrow> \<forall>z\<in>set zs. P z \<Longrightarrow> P x \<Longrightarrow> insort_key P x (ys @ zs) = ys @ x # zs"
  by (cases ys; simp) (induction ys; cases zs; simp)

lemma sort_key_bool: "sort_key P xs = filter (\<lambda>x. \<not> P x) xs @ filter P xs"
  by (induction xs) (simp_all add: insort_key_bool)

lemma mention_sorted_out:
  assumes "5 \<le> length (filter (\<lambda>x. contains (user_nickname x) n \<and> user_nickname x \<noteq> n) (users d))"
  shows "\<not> mention_known contains (sort_key (\<lambda>x. user_nickname x = n)) d n"
proof -
  let ?xs = "filter (\<lambda>x. contains (user_nickname x) n) (users d)" and ?k = "\<lambda>x. user_nickname x = n"
  have "filter (\<lambda>x. \<not> ?k x) ?xs = filter (\<lambda>x. contains (user_nickname x) n \<and> user_nickname x \<noteq> n) (users d)"
    by (simp add: conj_commute)
  with assms have "take 5 (sort_key ?k ?xs) = take 5 (filter (\<lambda>x. \<not> ?k x) ?xs)" by (simp add: sort_key_bool)
  then show ?thesis by (auto simp: mention_known_def dest!: in_set_takeD)
qed

section \<open>Properties\<close>

text \<open>
  C12.  Threads.  Replies stay one level deep and inside their post, whatever is created, edited or
  deleted, and however the request ends; a reply to a reply is refused; a request that fails
  changes nothing; one that succeeds adds exactly the comment it returns.
\<close>

theorem threads_stay_flat:
  fixes s t1 t2 t3 :: "'x session_scheme"
  assumes "session_ok coll s" and "comments_ok (working s)"
    and "comment_create contains scan now pid me b s = (r1, t1)"
    and "comment_update contains scan now cid me content s = (r2, t2)"
    and "comment_delete now cid me s = (r3, t3)"
  shows "(\<forall>t\<in>{t1, t2, t3}. session_ok coll t \<and> comments_ok (working t)) \<and>
    (\<forall>e. r1 = Inl e \<longrightarrow> t1 = s) \<and>
    (\<forall>c. r1 = Inr c \<longrightarrow> comments (committed t1) = comments (working s) @ [c] \<and>
       comment_id c \<notin> comment_id ` set (comments (working s)) \<and> cm_post_id c = pid \<and>
       cm_author_id c = user_id me \<and> comment_content c = cc_content b \<and> parent_comment_id c = cc_parent b \<and>
       pid \<in> post_id ` set (post_active (working s))) \<and>
    (\<forall>q\<in>set (comment_active (working s)). parent_comment_id q \<noteq> None \<and> cc_parent b = Some (comment_id q) \<longrightarrow>
       (\<exists>e. r1 = Inl (AppError e)))"
proof -
  have deep: "\<exists>e. r1 = Inl (AppError e)"
    if "q \<in> set (comment_active (working s))" "parent_comment_id q \<noteq> None" "cc_parent b = Some (comment_id q)" for q
  proof -
    have "comment_get_by_id (comment_id q) s = Inr (Some q)"
      using that by (simp add: comment_get_by_id_live(1) [OF assms(1)])
    then have "\<exists>e. fst (check_parent pid (cc_parent b) s) = Inl (AppError e)"
      using that by (simp add: check_parent_def prog_simps get_parent_comment_eq)
    then show ?thesis
      using assms(3) by (auto simp: comment_create_cases [OF assms(1)] split: if_splits)
  qed
  have made: "comments (committed t1) = comments (working s) @ [c] \<and> c = new_comment now (seq s T_comments) pid me b \<and>
      pid \<in> post_id ` set (post_active (working s))" if "r1 = Inr c" for c
    using comment_create_Inr [OF assms(1), of contains scan now pid me b c t1] that assms(3) by simp
  show ?thesis
    using comment_create_keeps [OF assms(1-3)] comment_update_keeps [OF assms(1,2,4)]
      comment_delete_keeps [OF assms(1,2,5)] new_comment_fresh [OF assms(1), of now pid me b]
      deep made comment_create_Inl [OF assms(1), of contains scan now pid me b _ t1] assms(3)
    by (auto simp: new_comment_def)
qed

theorem threads_stay_flat_witness:
  "\<exists>e. fst (comment_create (\<lambda>_ _. True) (\<lambda>xs. xs) 9 5 (demo_user 1 ''a@x'') \<lparr>cc_content = u ''yes'', cc_parent = Some 2\<rparr>
     (demo_comments [demo_comment 1 1 None, demo_comment 2 2 (Some 1)] [])) = Inl (AppError e)"
proof -
  let ?s = "demo_comments [demo_comment 1 1 None, demo_comment 2 2 (Some 1)] []"
  have ok: "session_ok lower ?s" "comments_ok (working ?s)" "demo_comment 2 2 (Some 1) \<in> set (comment_active (working ?s))"
    by (simp_all add: demo_comments_ok comments_ok_def comment_active_def)
  let ?b = "\<lparr>cc_content = u ''yes'', cc_parent = Some 2\<rparr>"
  have "\<forall>q\<in>set (comment_active (working ?s)). parent_comment_id q \<noteq> None \<and> cc_parent ?b = Some (comment_id q) \<longrightarrow>
      (\<exists>e. fst (comment_create (\<lambda>_ _. True) (\<lambda>xs. xs) 9 5 (demo_user 1 ''a@x'') ?b ?s) = Inl (AppError e))"
    using threads_stay_flat [OF ok(1,2) prod.collapse [symmetric] prod.collapse [symmetric] prod.collapse [symmetric],
        where contains = "\<lambda>_ _. True" and scan = "\<lambda>xs. xs" and now = 9 and pid = 5 and me = "demo_user 1 ''a@x''"
          and b = ?b] by blast
  from bspec [OF this ok(3)] show ?thesis by simp
qed

text \<open>
  C30.  Mentions.  A comment or a reply to which the post and the parent admit is accepted exactly if every nickname it mentions
  is among the first five accounts the search returns, and so is the edit of one's own comment; an accepted comment thus
  mentions existing accounts only, and a refused one names the first mention that was not found and changes nothing.  As long
  as at most five accounts match, every existing account can be mentioned.  With five other matches, the search has no
  order, and the database may return its rows so that the comment is refused, although the account exists.
\<close>

theorem mention_contract:
  assumes "session_ok coll s" and "\<forall>xs. mset (scan xs) = mset xs"
    and "comment_create contains scan now pid me b s = (r, t)"
  shows "((\<exists>c. r = Inr c) \<longleftrightarrow> comment_admitted pid b (working s) \<and>
      (\<forall>n\<in>set (mentions (cc_content b)). mention_known contains scan (working s) n)) \<and>
    (\<forall>c. r = Inr c \<longrightarrow> (\<forall>n\<in>set (mentions (cc_content b)). \<exists>x\<in>set (users (working s)). user_nickname x = n)) \<and>
    (\<forall>e. r = Inl e \<longrightarrow> t = s \<and> (comment_admitted pid b (working s) \<longrightarrow>
       (\<exists>n\<in>set (mentions (cc_content b)). \<not> mention_known contains scan (working s) n \<and>
         e = AppError (NotFoundError (Some (MsgMentionUnknown n)))))) \<and>
    (\<forall>n. n \<in> user_nickname ` set (users (working s)) \<and> contains n n \<and>
       length (filter (\<lambda>x. contains (user_nickname x) n) (users (working s))) \<le> 5 \<longrightarrow>
       mention_known contains scan (working s) n) \<and>
    (\<forall>n\<in>set (mentions (cc_content b)). comment_admitted pid b (working s) \<and> n \<in> user_nickname ` set (users (working s)) \<and>
       5 \<le> length (filter (\<lambda>x. contains (user_nickname x) n \<and> user_nickname x \<noteq> n) (users (working s))) \<longrightarrow>
       (\<exists>scan' m. (\<forall>xs. mset (scan' xs) = mset xs) \<and>
         comment_create contains scan' now pid me b s = (Inl (AppError (NotFoundError (Some (MsgMentionUnknown m)))), s))) \<and>
    (\<forall>c\<in>set (comment_active (working s)). cm_author_id c = user_id me \<longrightarrow>
       ((\<exists>c'. fst (comment_update contains scan now (comment_id c) me content s) = Inr c') \<longleftrightarrow>
        (\<forall>n\<in>set (mentions content). mention_known contains scan (working s) n)))"
proof -
  let ?known = "mention_known contains scan (working s)"
  note admitted = comment_create_admitted [OF assms(1), of pid b contains _ now me]
  have acc: "(\<exists>c. r = Inr c) \<longleftrightarrow> comment_admitted pid b (working s) \<and> (\<forall>n\<in>set (mentions (cc_content b)). ?known n)"
    and ref: "\<And>e. r = Inl e \<Longrightarrow> t = s \<and> (comment_admitted pid b (working s) \<longrightarrow>
       (\<exists>n\<in>set (mentions (cc_content b)). \<not> ?known n \<and> e = AppError (NotFoundError (Some (MsgMentionUnknown n)))))"
    using admitted [of scan] assms(3)
    by (cases "comment_admitted pid b (working s)";
        cases "find (\<lambda>n. \<not> ?known n) (mentions (cc_content b))"; auto simp: Let_def find_None_iff dest: find_SomeD)+
  have late: "\<exists>scan' m. (\<forall>xs. mset (scan' xs) = mset xs) \<and>
      comment_create contains scan' now pid me b s = (Inl (AppError (NotFoundError (Some (MsgMentionUnknown m)))), s)"
    if "n \<in> set (mentions (cc_content b))" "comment_admitted pid b (working s)"
      "5 \<le> length (filter (\<lambda>x. contains (user_nickname x) n \<and> user_nickname x \<noteq> n) (users (working s)))" for n
  proof -
    have "\<not> mention_known contains (sort_key (\<lambda>x. user_nickname x = n)) (working s) n"
      by (rule mention_sorted_out) (fact that(3))
    with that(1) have "find (\<lambda>n'. \<not> mention_known contains (sort_key (\<lambda>x. user_nickname x = n)) (working s) n')
        (mentions (cc_content b)) \<noteq> None"
      unfolding find_None_iff by blast
    then obtain m where m: "find (\<lambda>n'. \<not> mention_known contains (sort_key (\<lambda>x. user_nickname x = n)) (working s) n')
        (mentions (cc_content b)) = Some m" by blast
    have "comment_create contains (sort_key (\<lambda>x. user_nickname x = n)) now pid me b s =
        (Inl (AppError (NotFoundError (Some (MsgMentionUnknown m)))), s)"
      by (simp only: admitted(1) [OF that(2)] m option.case)
    moreover have "\<forall>xs. mset (sort_key (\<lambda>x. user_nickname x = n) xs) = mset xs" by (simp only: mset_sort simp_thms)
    ultimately show ?thesis by blast
  qed
  have edit: "(\<exists>c'. fst (comment_update contains scan now (comment_id c) me content s) = Inr c') \<longleftrightarrow>
      (\<forall>n\<in>set (mentions content). ?known n)" if "c \<in> set (comment_active (working s))" "cm_author_id c = user_id me" for c
  proof -
    have own: "fst (comment_owned (comment_id c) me s) = Inr c"
      using comment_owned_run [OF assms(1) that(1), of me] that(2) by simp
    note run = comment_update_cases [OF assms(1), of contains scan now "comment_id c" me content, unfolded own sum.case
        validate_mentions_cases]
    show ?thesis
    proof (cases "find (\<lambda>n. \<not> ?known n) (mentions content)")
      case None
      then have "\<forall>n\<in>set (mentions content). ?known n" by (simp add: find_None_iff)
      with None show ?thesis unfolding run by simp
    next
      case (Some n)
      then have "n \<in> set (mentions content)" "\<not> ?known n" by (auto dest: find_SomeD)
      with Some show ?thesis unfolding run by auto
    qed
  qed
  show ?thesis
    apply (intro conjI)
    subgoal by (rule acc)
    subgoal using acc mention_known_exists [OF assms(2)] by blast
    subgoal using ref by blast
    subgoal using mention_found [OF assms(2)] by blast
    subgoal using late by blast
    subgoal using edit by blast
    done
qed

text \<open>Six accounts match; the one meant comes last and is not found, although it exists.\<close>

theorem mention_contract_witness:
  "(\<exists>x\<in>set (users (working demo_crowd)). user_nickname x = u ''a'') \<and>
   fst (comment_create (\<lambda>n x. contains_sub x n) (\<lambda>xs. xs) 9 5 (demo_user 1 ''a@x'')
       \<lparr>cc_content = u ''hi @a'', cc_parent = None\<rparr> demo_crowd) =
     Inl (AppError (NotFoundError (Some (MsgMentionUnknown (u ''a'')))))"
proof -
  let ?b = "\<lparr>cc_content = u ''hi @a'', cc_parent = None\<rparr>"
  have h: "comment_admitted 5 ?b (working demo_crowd)"
    by (simp add: comment_admitted_def demo_crowd_def demo_comments_ok)
  have v: "u ''hi @a'' = [104, 105, 32, 64, 97]" "u ''a'' = [97]" by code_simp+
  have "split_ws [104, 105, 32, 64, 97] = [[104, 105], [64, 97]]"
    by (simp add: split_ws.simps [of "[104, 105, 32, 64, 97]"] split_ws.simps [of "[32, 64, 97]"]
        split_ws.simps [of "[]"] uspace_def Let_def)
  then have m: "mentions (cc_content ?b) = [u ''a'']" by (simp add: mentions_def v)
  have k: "\<not> mention_known (\<lambda>n x. contains_sub x n) (\<lambda>xs. xs) (working demo_crowd) (u ''a'')"
  proof -
    have "contains_sub (u ''a'') (u ''an'')" "contains_sub (u ''a'') (u ''bar'')" "contains_sub (u ''a'') (u ''can'')"
      "contains_sub (u ''a'') (u ''dan'')" "contains_sub (u ''a'') (u ''eva'')" "contains_sub (u ''a'') (u ''a'')"
      by code_simp+
    moreover have "u ''a'' \<noteq> u ''an''" "u ''a'' \<noteq> u ''bar''" "u ''a'' \<noteq> u ''can''" "u ''a'' \<noteq> u ''dan''" "u ''a'' \<noteq> u ''eva''"
      by code_simp+
    ultimately show ?thesis
      by (simp add: mention_known_def demo_crowd_def demo_comments_ok demo_nick_def numeral_eq_Suc)
  qed
  obtain r t where r: "comment_create (\<lambda>n x. contains_sub x n) (\<lambda>xs. xs) 9 5 (demo_user 1 ''a@x'') ?b demo_crowd = (r, t)"
    by (rule prod.exhaust)
  have "r = Inl (AppError (NotFoundError (Some (MsgMentionUnknown (u ''a'')))))"
    using mention_contract [OF demo_crowd_ok _ r] h m k by (cases r) auto
  with r show ?thesis by (simp add: demo_crowd_def demo_comments_ok demo_nick_def)
qed

text \<open>
  Reading comments.  The pages of a post's list are exactly its live top-level comments, newest
  first, with the right total, and the reply count shown beside each is the number of replies
  its reply list returns, all of them in the same post.  Reading changes nothing.
\<close>

theorem comment_list_contract:
  assumes "session_ok coll s" and "comments_ok (working s)" and "pid \<in> post_id ` set (post_active (working s))"
    and "\<forall>xs. mset (scan_c xs) = mset xs"
  shows "\<exists>L counts. list_comments scan_c pid params s = (Inr (page_of params L, int (length L), counts), s) \<and>
    mset L = mset (filter (\<lambda>c. cm_post_id c = pid \<and> parent_comment_id c = None) (comment_active (working s))) \<and>
    sorted_wrt (\<lambda>c d. comment_sort_key d < comment_sort_key c) L \<and>
    (\<forall>c\<in>set (page_of params L). \<exists>rs. list_replies scan_c (comment_id c) s = (Inr rs, s) \<and>
       mset rs = mset (filter (\<lambda>d. parent_comment_id d = Some (comment_id c)) (comment_active (working s))) \<and>
       (case counts (comment_id c) of None \<Rightarrow> 0 | Some k \<Rightarrow> k) = int (length rs) \<and>
       (\<forall>d\<in>set rs. cm_post_id d = pid))"
proof -
  define L where "L = sort_reverse comment_sort_key
    (scan_c (filter (\<lambda>c. cm_post_id c = pid \<and> parent_comment_id c = None) (comment_active (working s))))"
  note run = list_comments_run [OF assms(1,3,4) L_def]
  let ?counts = "count_replies_by_parents (map comment_id (page_of params L)) s"
  have "\<exists>rs. list_replies scan_c (comment_id c) s = (Inr rs, s) \<and>
       mset rs = mset (filter (\<lambda>d. parent_comment_id d = Some (comment_id c)) (comment_active (working s))) \<and>
       (case ?counts (comment_id c) of None \<Rightarrow> 0 | Some k \<Rightarrow> k) = int (length rs) \<and>
       (\<forall>d\<in>set rs. cm_post_id d = pid)" if c: "c \<in> set (page_of params L)" for c
  proof -
    have "c \<in> set L" using c by (rule subsetD [OF set_page_of])
    then have live: "c \<in> set (comment_active (working s))" "cm_post_id c = pid"
      using mset_eq_setD [OF run(2)] by auto
    note replies = list_replies_run [OF assms(1,2) live(1) assms(4) refl]
    then show ?thesis
      using c live(2) mset_eq_length [OF replies(2)]
      by (intro exI [of _ "scan_c (filter (\<lambda>d. parent_comment_id d = Some (comment_id c)) (comment_active (working s)))"])
        (auto simp: count_replies_by_parents_def Let_def)
  qed
  with run show ?thesis by (intro exI [of _ L] exI [of _ ?counts]) blast
qed

theorem comment_list_contract_witness:
  "\<exists>L counts. list_comments rev 5 \<lparr>page = 1, page_size = 20\<rparr>
       (demo_comments [demo_comment 1 1 None, demo_comment 2 2 (Some 1)] []) =
     (Inr (page_of \<lparr>page = 1, page_size = 20\<rparr> L, 1, counts),
      demo_comments [demo_comment 1 1 None, demo_comment 2 2 (Some 1)] [])"
proof -
  let ?s = "demo_comments [demo_comment 1 1 None, demo_comment 2 2 (Some 1)] []"
  have ok: "session_ok lower ?s" "comments_ok (working ?s)" "5 \<in> post_id ` set (post_active (working ?s))"
    by (simp_all add: demo_comments_ok comments_ok_def)
  obtain L counts where L: "list_comments rev 5 \<lparr>page = 1, page_size = 20\<rparr> ?s =
      (Inr (page_of \<lparr>page = 1, page_size = 20\<rparr> L, int (length L), counts), ?s)"
    "mset L = mset (filter (\<lambda>c. cm_post_id c = 5 \<and> parent_comment_id c = None) (comment_active (working ?s)))"
    using comment_list_contract [OF ok, where scan_c = rev and params = "\<lparr>page = 1, page_size = 20\<rparr>"] by auto
  have "length L = size (mset L)" by simp
  also have "\<dots> = 1" unfolding L(2) by (simp add: comment_active_def demo_comments_ok)
  finally show ?thesis using L(1) by auto
qed

text \<open>
  Ownership.  Only the author edits or deletes a comment, administrators included in the
  refusal, and a refusal changes nothing.  The author's edit replaces exactly the text of this
  comment; the author's deletion removes exactly it from every read.  Its replies stay stored and
  counted for the post, but the list of them is a 404 from then on.
\<close>

theorem comment_owner_contract:
  fixes s t2 t3 :: "'x session_scheme"
  assumes "session_ok coll s" and "c \<in> set (comment_active (working s))"
    and "comment_update contains scan now (comment_id c) me content s = (r2, t2)"
    and "comment_delete now (comment_id c) me s = (r3, t3)"
  shows "if cm_author_id c \<noteq> user_id me
    then r2 = Inl (AppError (ForbiddenError (Some MsgCommentNotOwner))) \<and> t2 = s \<and>
      r3 = Inl (AppError (ForbiddenError (Some MsgCommentNotOwner))) \<and> t3 = s
    else (\<forall>c'. r2 = Inr c' \<longrightarrow> comment_content c' = content \<and>
        comment_active (committed t2) = map (\<lambda>d. if d = c then c' else d) (comment_active (working s))) \<and>
      (\<forall>e. r2 = Inl e \<longrightarrow> t2 = s) \<and>
      r3 = Inr () \<and> comment_active (committed t3) = filter (\<lambda>d. d \<noteq> c) (comment_active (working s)) \<and>
      list_replies scan_c (comment_id c) t3 = (Inl comment_not_found, t3) \<and>
      (parent_comment_id c \<noteq> Some (comment_id c) \<longrightarrow>
        filter (\<lambda>d. parent_comment_id d = Some (comment_id c)) (comment_active (committed t3)) =
        filter (\<lambda>d. parent_comment_id d = Some (comment_id c)) (comment_active (working s)))"
proof (cases "cm_author_id c = user_id me")
  case True
  note edited = comment_edited [OF assms(1,2) True assms(3)] and deleted = comment_deleted [OF assms(1,2) True assms(4)]
  have "filter (\<lambda>d. parent_comment_id d = Some (comment_id c)) (comment_active (committed t3)) =
      filter (\<lambda>d. parent_comment_id d = Some (comment_id c)) (comment_active (working s))"
    if "parent_comment_id c \<noteq> Some (comment_id c)"
    unfolding deleted(2) filter_filter using that by (intro filter_cong) auto
  with True edited deleted show ?thesis by simp
next
  case False
  then have own: "fst (comment_owned (comment_id c) me s) = Inl (AppError (ForbiddenError (Some MsgCommentNotOwner)))"
    using comment_owned_run [OF assms(1,2), of me] by simp
  have "r2 = Inl (AppError (ForbiddenError (Some MsgCommentNotOwner))) \<and> t2 = s"
    using assms(3) own by (simp add: comment_update_cases [OF assms(1)])
  moreover have "r3 = Inl (AppError (ForbiddenError (Some MsgCommentNotOwner))) \<and> t3 = s"
    using assms(4) own by (simp add: comment_delete_cases [OF assms(1)])
  ultimately show ?thesis using False by simp
qed

theorem comment_owner_contract_witness:
  "fst (comment_delete 9 1 (demo_user 1 ''a@x'') (demo_comments [demo_comment 1 1 None, demo_comment 2 2 (Some 1)] [])) = Inr () \<and>
   fst (comment_delete 9 1 ((demo_user 2 ''b@x'')\<lparr>user_role := ADMIN\<rparr>)
     (demo_comments [demo_comment 1 1 None, demo_comment 2 2 (Some 1)] [])) =
   Inl (AppError (ForbiddenError (Some MsgCommentNotOwner)))"
proof -
  let ?s = "demo_comments [demo_comment 1 1 None, demo_comment 2 2 (Some 1)] []"
  have ok: "session_ok lower ?s" "demo_comment 1 1 None \<in> set (comment_active (working ?s))"
    by (simp_all add: demo_comments_ok comment_active_def)
  show ?thesis
    using comment_owner_contract [OF ok prod.collapse [symmetric] prod.collapse [symmetric], where now = 9
        and me = "demo_user 1 ''a@x''"]
      comment_owner_contract [OF ok prod.collapse [symmetric] prod.collapse [symmetric], where now = 9
        and me = "(demo_user 2 ''b@x'')\<lparr>user_role := ADMIN\<rparr>"]
    by (simp add: demo_user_def)
qed

end
