(* ===== verification/Reports.thy ===== *)
theory Reports
  imports Comments
begin

text \<open>
  \<^verbatim>\<open>modules/reports\<close>: reporting posts, comments and users, and the moderation of reports.  \<open>scan_r\<close> is the
  order in which the database returns rows whose ORDER BY keys are equal.
\<close>

section \<open>Schemas\<close>

record report_create_request =
  rc_content_type :: report_content_type
  rc_post_id :: "int option"
  rc_comment_id :: "int option"
  rc_reported_user_id :: "int option"
  rc_category :: utext
  rc_reason :: "utext option"

record report_process_request =
  rq_status :: report_status
  rq_sanction :: "sanction_type option"
  rq_expires_at :: "time option"

text \<open>The schema admits ACCEPTED and REJECTED only.\<close>

definition process_request_ok :: "report_process_request \<Rightarrow> bool" where
  "process_request_ok q \<longleftrightarrow> rq_status q \<noteq> PENDING"

record report_summary =
  rs_report_id :: int
  rs_reporter_user_id :: "int option"
  rs_content_type :: report_content_type
  rs_post_id :: "int option"
  rs_comment_id :: "int option"
  rs_reported_user_id :: int
  rs_category :: utext
  rs_reason :: "utext option"
  rs_status :: report_status
  rs_sanction :: "sanction_type option"
  rs_created_at :: time

definition report_summary_of :: "report \<Rightarrow> report_summary" where
  "report_summary_of r =
     \<lparr>rs_report_id = report_id r, rs_reporter_user_id = reporter_user_id r, rs_content_type = report_content_type r,
      rs_post_id = rp_post_id r, rs_comment_id = rp_comment_id r, rs_reported_user_id = rp_reported_user_id r,
      rs_category = report_category r, rs_reason = report_reason r, rs_status = report_status r,
      rs_sanction = rp_user_sanction_type r, rs_created_at = rp_created_at r\<rparr>"

section \<open>Repository\<close>

text \<open>\<open>_same_reports\<close>: the WHERE conditions for "the same target", or the \<^verbatim>\<open>ValueError\<close>.\<close>

definition same_reports :: "report \<Rightarrow> exn + (report \<Rightarrow> bool)" where
  "same_reports r =
     (case report_content_type r of
        POST \<Rightarrow>
          if rp_post_id r = None then Inl (ValueError MsgReportNoPostId)
          else Inr (\<lambda>x. report_content_type x = POST \<and> rp_post_id x = rp_post_id r \<and> rp_comment_id x = None)
      | COMMENT \<Rightarrow>
          if rp_post_id r = None \<or> rp_comment_id r = None then Inl (ValueError MsgReportCommentTarget)
          else Inr (\<lambda>x. report_content_type x = COMMENT \<and> rp_post_id x = rp_post_id r \<and> rp_comment_id x = rp_comment_id r)
      | USER_CONTENT \<Rightarrow>
          Inr (\<lambda>x. report_content_type x = USER_CONTENT \<and> rp_reported_user_id x = rp_reported_user_id r \<and>
                    rp_post_id x = None \<and> rp_comment_id x = None))"

text \<open>
  The INSERT: the three content columns are NOT NULL, the category has at most 50 characters and the
  reason at most the bytes of a TEXT (in MySQL's strict mode a longer one is an error).
\<close>

definition report_add ::
  "time \<Rightarrow> int option \<Rightarrow> report_content_type \<Rightarrow> int \<Rightarrow> utext \<Rightarrow> int option \<Rightarrow> utext option \<Rightarrow> utext option \<Rightarrow>
   int option \<Rightarrow> utext option \<Rightarrow> utext option \<Rightarrow> ('x session_scheme, exn, report) prog" where
  "report_add now reporter ty reported category pid title content cid ccontent reason =
     (if title = None \<or> content = None \<or> ccontent = None then raiseP (SQLAlchemyError IntegrityError)
      else if 50 < length category \<or> \<not> pred_option fits_text reason then raiseP (SQLAlchemyError OtherSqlError)
      else ins_row T_reports reports_update (\<lambda>i. \<lparr>report_id = i, reporter_user_id = reporter,
        report_content_type = ty, rp_post_id = pid, rp_post_title = title, rp_post_content = content,
        rp_comment_id = cid, rp_comment_content = ccontent, rp_reported_user_id = reported,
        report_category = category, report_reason = reason, report_status = PENDING,
        rp_user_sanction_type = None, reviewer_user_id = None, processed_at = None,
        rp_created_at = now, rp_updated_at = now\<rparr>))"

definition report_get_by_id :: "int \<Rightarrow> 'x session_scheme \<Rightarrow> exn + report option" where
  "report_get_by_id rid s =
     one_or_none (SQLAlchemyError MultipleResultsFound) (filter (\<lambda>r. report_id r = rid) (reports (working s)))"

definition report_list :: "(report list \<Rightarrow> report list) \<Rightarrow> page_params \<Rightarrow> 'x session_scheme \<Rightarrow> report list" where
  "report_list scan_r params s =
     page_of params (sort_reverse rp_created_at (scan_r (filter (\<lambda>r. report_status r = PENDING) (reports (working s)))))"

definition count_by_total_reports :: "'x session_scheme \<Rightarrow> int" where
  "count_by_total_reports s = int (length (filter (\<lambda>r. report_status r = PENDING) (reports (working s))))"

definition count_by_report :: "report \<Rightarrow> 'x session_scheme \<Rightarrow> exn + int" where
  "count_by_report r s = map_sum id (\<lambda>same. int (length (filter same (reports (working s))))) (same_reports r)"

definition stamp_report :: "time \<Rightarrow> report \<Rightarrow> report" where
  "stamp_report now r = r\<lparr>rp_updated_at := now\<rparr>"

definition decide :: "time \<Rightarrow> report_status \<Rightarrow> sanction_type option \<Rightarrow> int \<Rightarrow> report \<Rightarrow> report" where
  "decide now st ty reviewer = orm_update (stamp_report now)
     (\<lambda>r. r\<lparr>report_status := st, rp_user_sanction_type := ty, reviewer_user_id := Some reviewer,
            processed_at := Some now\<rparr>)"

definition update_report ::
  "time \<Rightarrow> report \<Rightarrow> report_status \<Rightarrow> sanction_type option \<Rightarrow> int \<Rightarrow> ('x session_scheme, exn, int) prog" where
  "update_report now r st ty reviewer =
     bindP (liftP (same_reports r)) (\<lambda>same.
     bindP (getsP (\<lambda>s. filter (\<lambda>x. report_status x = PENDING \<and> same x) (reports (working s)))) (\<lambda>pending.
     bindP (modifyP (on_db (reports_update (map (\<lambda>x.
              if report_status x = PENDING \<and> same x then decide now st ty reviewer x else x))))) (\<lambda>_.
     returnP (int (length pending)))))"

section \<open>Service\<close>

text \<open>
  \<open>_validate_report\<close>; the result is the reported user, the title and the content of the post and the
  content of the comment.
\<close>

definition validate_report ::
  "report_content_type \<Rightarrow> int option \<Rightarrow> int option \<Rightarrow> int option \<Rightarrow> report_status option \<Rightarrow>
   ('x session_scheme, exn, int \<times> utext option \<times> utext option \<times> utext option) prog" where
  "validate_report ty pid cid reported st =
     (if st \<noteq> None \<and> st \<noteq> Some PENDING then raiseP (ValueError MsgReportDone)
      else case ty of
        POST \<Rightarrow>
          (case (pid, cid) of
             (Some p, None) \<Rightarrow>
               bindP (\<lambda>s. (post_get_any_by_id p s, s)) (\<lambda>r.
               case r of
                 None \<Rightarrow> raiseP (AppError (NotFoundError (Some MsgReportPostGone)))
               | Some x \<Rightarrow> returnP (author_id x, Some (post_title x), Some (post_content x), None))
           | _ \<Rightarrow> raiseP (ValueError MsgReportPostTarget))
      | COMMENT \<Rightarrow>
          (case (pid, cid) of
             (Some p, Some c) \<Rightarrow>
               bindP (\<lambda>s. (comment_get_by_id c s, s)) (\<lambda>r.
               case r of
                 None \<Rightarrow> raiseP (AppError (NotFoundError (Some MsgReportCommentGone)))
               | Some y \<Rightarrow>
                   if cm_post_id y \<noteq> p then raiseP (ValueError MsgReportCommentElsewhere)
                   else bindP (\<lambda>s. (post_get_any_by_id (cm_post_id y) s, s)) (\<lambda>q.
                     case q of
                       None \<Rightarrow> raiseP (AppError (NotFoundError (Some MsgReportCommentPostGone)))
                     | Some x \<Rightarrow> returnP (cm_author_id y, Some (post_title x), None, Some (comment_content y))))
           | _ \<Rightarrow> raiseP (ValueError MsgReportCommentTarget))
      | USER_CONTENT \<Rightarrow>
          if pid \<noteq> None \<or> cid \<noteq> None then raiseP (ValueError MsgReportUserTarget)
          else (case reported of
                  None \<Rightarrow> raiseP (ValueError MsgReportUserMissing)
                | Some x \<Rightarrow> returnP (x, None, None, None)))"

definition report_create ::
  "time \<Rightarrow> user \<Rightarrow> report_create_request \<Rightarrow> ('x session_scheme, exn, report_summary) prog" where
  "report_create now me q =
     bindP (validate_report (rc_content_type q) (rc_post_id q) (rc_comment_id q) (rc_reported_user_id q) None)
       (\<lambda>(reported, title, content, ccontent).
     or_rollback
       (bindP (report_add now (Some (user_id me)) (rc_content_type q) reported (rc_category q) (rc_post_id q)
                 title content (rc_comment_id q) ccontent (rc_reason q)) (\<lambda>r.
        bindP (modifyP commit) (\<lambda>_. returnP (report_summary_of r)))))"

definition report_page ::
  "(report list \<Rightarrow> report list) \<Rightarrow> page_params \<Rightarrow> ('x session_scheme, exn, report_summary page_response) prog" where
  "report_page scan_r params =
     bindP (getsP (report_list scan_r params)) (\<lambda>rs.
     bindP (getsP count_by_total_reports) (\<lambda>n.
     returnP (page_response_create (map report_summary_of rs) n params)))"

definition hide_reported_content :: "time \<Rightarrow> report \<Rightarrow> ('x session_scheme, exn, unit) prog" where
  "hide_reported_content now r =
     (case report_content_type r of
        POST \<Rightarrow>
          (case rp_post_id r of
             None \<Rightarrow> raiseP (ValueError MsgReportNoPostId)
           | Some p \<Rightarrow> hide_if_published now p)
      | _ \<Rightarrow> raiseP (ValueError MsgReportUnsupported))"

text \<open>\<^verbatim>\<open>report.report_reason or report.report_category\<close>\<close>

definition sanction_reason :: "report \<Rightarrow> utext" where
  "sanction_reason r = (case report_reason r of None \<Rightarrow> report_category r | Some w \<Rightarrow> if w = [] then report_category r else w)"

definition report_sanction ::
  "time \<Rightarrow> report \<Rightarrow> sanction_type \<Rightarrow> time option \<Rightarrow> ('x session_scheme, exn, unit) prog" where
  "report_sanction now r ty expires =
     (if ty = SUSPENDED \<and> expires = None then raiseP (ValueError MsgSuspensionNeedsExpiry)
      else if ty \<noteq> SUSPENDED \<and> expires \<noteq> None then raiseP (ValueError MsgExpiryOnlySuspension)
      else bindP (add_user_sanction now (rp_reported_user_id r) ty (sanction_reason r) (report_id r) expires)
             (\<lambda>_. returnP ()))"

definition process_report ::
  "time \<Rightarrow> int \<Rightarrow> int \<Rightarrow> report_process_request \<Rightarrow> ('x session_scheme, exn, unit) prog" where
  "process_report now rid reviewer q =
     bindP (\<lambda>s. (report_get_by_id rid s, s)) (\<lambda>found.
     case found of
       None \<Rightarrow> raiseP (AppError (NotFoundError (Some MsgReportNotFound)))
     | Some r \<Rightarrow>
         bindP (validate_report (report_content_type r) (rp_post_id r) (rp_comment_id r)
                  (Some (rp_reported_user_id r)) (Some (report_status r))) (\<lambda>_.
         if rq_status q = REJECTED \<and> rq_sanction q \<noteq> None then raiseP (ValueError MsgReportRejectedSanction)
         else or_rollback
           (bindP (update_report now r (rq_status q) (rq_sanction q) reviewer) (\<lambda>_.
            bindP (whenP (rq_status q = ACCEPTED \<and> rq_sanction q \<in> {Some SUSPENDED, Some BANNED})
                     (hide_reported_content now r)) (\<lambda>_.
            bindP (case rq_sanction q of
                     Some ty \<Rightarrow> whenP (rq_status q = ACCEPTED) (report_sanction now r ty (rq_expires_at q))
                   | None \<Rightarrow> returnP ()) (\<lambda>_.
            modifyP commit))))))"

section \<open>Endpoints\<close>

text \<open>The router is not included in \<^verbatim>\<open>api/v1/router.py\<close>; its endpoints ask for the current user themselves.\<close>

definition list_reports_route ::
  "crypto \<Rightarrow> jwt_settings \<Rightarrow> (report list \<Rightarrow> report list) \<Rightarrow> time \<Rightarrow> string option \<Rightarrow> page_params \<Rightarrow>
   ('x session_scheme, exn, report_summary page_response) prog" where
  "list_reports_route C S scan_r now cred params = as_user C S now cred (\<lambda>me. report_page scan_r params)"

definition add_report_route ::
  "crypto \<Rightarrow> jwt_settings \<Rightarrow> time \<Rightarrow> string option \<Rightarrow> report_create_request \<Rightarrow>
   ('x session_scheme, exn, report_summary) prog" where
  "add_report_route C S now cred q = as_user C S now cred (\<lambda>me. report_create now me q)"

definition process_report_route ::
  "crypto \<Rightarrow> jwt_settings \<Rightarrow> time \<Rightarrow> string option \<Rightarrow> int \<Rightarrow> report_process_request \<Rightarrow>
   ('x session_scheme, exn, unit) prog" where
  "process_report_route C S now cred rid q = as_user C S now cred (\<lambda>me. process_report now rid (user_id me) q)"

section \<open>Lemmas\<close>

lemma session_report_ids: "session_ok coll s \<Longrightarrow> distinct (map report_id (reports (working s)))"
  using session_ok_working by (auto simp: schema_ok_def ids_ok_def)

lemma validate_report_state [simp]: "snd (validate_report ty pid cid reported st s) = s"
  by (cases ty; cases pid; cases cid; cases reported;
      simp add: validate_report_def prog_simps split: sum.split option.split)

text \<open>What a validated report gives: it is open, and its target exists.\<close>

lemma post_get_any_by_id_Some:
  "post_get_any_by_id p s = Inr (Some x) \<Longrightarrow> x \<in> set (posts (working s)) \<and> post_id x = p"
  unfolding post_get_any_by_id_def by (drule one_or_none_Some) simp

lemma validated:
  assumes "fst (validate_report (report_content_type r) (rp_post_id r) (rp_comment_id r) reported (Some st) s) = Inr v"
  shows "st = PENDING" and "\<exists>same. same_reports r = Inr same \<and> same r"
    and "report_content_type r = POST \<Longrightarrow> \<exists>p\<in>set (posts (working s)). rp_post_id r = Some (post_id p)"
proof -
  show st: "st = PENDING"
    using assms by (simp add: validate_report_def prog_simps split: if_splits)
  show "\<exists>same. same_reports r = Inr same \<and> same r"
    using assms
    by (cases "report_content_type r"; cases "rp_post_id r"; cases "rp_comment_id r")
      (simp_all add: validate_report_def same_reports_def prog_simps split: if_splits)
  show "\<exists>p\<in>set (posts (working s)). rp_post_id r = Some (post_id p)" if "report_content_type r = POST"
  proof -
    have v: "fst (validate_report POST (rp_post_id r) (rp_comment_id r) reported (Some PENDING) s) = Inr v"
      using assms that st by simp
    then obtain p where p: "rp_post_id r = Some p"
      by (cases "rp_post_id r") (simp_all add: validate_report_def prog_simps)
    with v obtain x where "post_get_any_by_id p s = Inr (Some x)"
      by (cases "rp_comment_id r"; cases "post_get_any_by_id p s")
        (auto simp: validate_report_def prog_simps split: option.splits)
    with p show ?thesis using post_get_any_by_id_Some by blast
  qed
qed

definition hide_post :: "time \<Rightarrow> int \<Rightarrow> post \<Rightarrow> post" where
  "hide_post now pid p =
     (if post_id p = pid \<and> post_status p = PUBLISHED then stamp_post now (p\<lparr>post_status := HIDDEN\<rparr>) else p)"

lemma posts_update_same: "map f (posts d) = posts d \<Longrightarrow> posts_update (map f) d = d"
  by (cases d) simp

lemma on_db_same: "f (working s) = working s \<Longrightarrow> on_db f s = s"
  by (simp add: on_db_def)

lemma hide_if_published_run:
  assumes "session_ok coll s" and "pid \<in> post_id ` set (posts (working s))"
  shows "hide_if_published now pid s = (Inr (), on_db (posts_update (map (hide_post now pid))) s)"
proof -
  note d = session_post_ids [OF assms(1)]
  obtain p where p: "p \<in> set (posts (working s))" "post_id p = pid" using assms(2) by auto
  have u: "q = p" if "q \<in> set (posts (working s))" "post_id q = pid" for q
    using that p d unfolding distinct_map by (blast dest: inj_onD)
  have g: "post_get_any_by_id pid s = Inr (Some p)"
    using one_or_none_unique [OF d, of _ pid "\<lambda>_. True"] find_unique_Some [OF d p]
    by (simp add: post_get_any_by_id_def)
  show ?thesis
  proof (cases "post_status p = PUBLISHED")
    case True
    have "orm_update (stamp_post now) (\<lambda>p. p\<lparr>post_status := HIDDEN\<rparr>) p = hide_post now pid p"
      using True p(2) by (cases p) (auto simp: orm_update_def hide_post_def)
    then have "map (\<lambda>q. if post_id q = pid then orm_update (stamp_post now) (\<lambda>p. p\<lparr>post_status := HIDDEN\<rparr>) q else q) (posts (working s)) =
        map (hide_post now pid) (posts (working s))"
      using u by (intro map_cong) (auto simp: hide_post_def)
    then have "upd_pk post_id posts_update pid (orm_update (stamp_post now) (\<lambda>p. p\<lparr>post_status := HIDDEN\<rparr>)) s =
        on_db (posts_update (map (hide_post now pid))) s"
      by (cases "working s") (simp add: upd_pk_def on_db_def)
    with True show ?thesis by (simp add: hide_if_published_def prog_simps g)
  next
    case False
    then have "map (hide_post now pid) (posts (working s)) = posts (working s)"
      using u by (intro map_idI) (auto simp: hide_post_def)
    then have "on_db (posts_update (map (hide_post now pid))) s = s"
      by (intro on_db_same posts_update_same)
    with False show ?thesis by (simp add: hide_if_published_def prog_simps g)
  qed
qed

text \<open>What a successful decision does to the database.\<close>

definition decide_all :: "time \<Rightarrow> (report \<Rightarrow> bool) \<Rightarrow> report_process_request \<Rightarrow> int \<Rightarrow> report \<Rightarrow> report" where
  "decide_all now same q reviewer x =
     (if report_status x = PENDING \<and> same x then decide now (rq_status q) (rq_sanction q) reviewer x else x)"

definition sanction_row :: "time \<Rightarrow> int \<Rightarrow> report \<Rightarrow> sanction_type \<Rightarrow> time option \<Rightarrow> user_sanction" where
  "sanction_row now i r ty expires =
     \<lparr>user_sanction_id = i, us_reported_user_id = rp_reported_user_id r, us_user_sanction_type = ty,
      user_sanction_reason = sanction_reason r, us_report_id = report_id r, us_expires_at = expires,
      us_created_at = now, us_updated_at = now\<rparr>"

definition hides :: "report_process_request \<Rightarrow> bool" where
  "hides q \<longleftrightarrow> rq_status q = ACCEPTED \<and> rq_sanction q \<in> {Some SUSPENDED, Some BANNED}"

definition decided_db ::
  "time \<Rightarrow> int \<Rightarrow> (report \<Rightarrow> bool) \<Rightarrow> report \<Rightarrow> report_process_request \<Rightarrow> int \<Rightarrow> db \<Rightarrow> db" where
  "decided_db now i same r q reviewer d = d\<lparr>
     reports := map (decide_all now same q reviewer) (reports d),
     posts := (if hides q then map (hide_post now (the (rp_post_id r))) (posts d) else posts d),
     sanctions := (case rq_sanction q of None \<Rightarrow> sanctions d
                   | Some ty \<Rightarrow> sanctions d @ [sanction_row now i r ty (rq_expires_at q)])\<rparr>"

lemma decide_sel [simp]:
  "report_id (decide now st ty rv r) = report_id r" "report_content_type (decide now st ty rv r) = report_content_type r"
  "rp_post_id (decide now st ty rv r) = rp_post_id r" "rp_comment_id (decide now st ty rv r) = rp_comment_id r"
  "rp_reported_user_id (decide now st ty rv r) = rp_reported_user_id r"
  "report_status (decide now st ty rv r) = st" "rp_user_sanction_type (decide now st ty rv r) = ty"
  "reviewer_user_id (decide now st ty rv r) = Some rv"
  by (cases r; auto simp: decide_def orm_update_def stamp_report_def)+

lemma session_ok_decide:
  fixes s :: "'x session_scheme"
  assumes "session_ok coll s"
  shows "session_ok coll (on_db (reports_update (map (decide_all now same q rv))) s)"
  using assms by (intro session_ok_on_db schema_ok_upd_reports) (auto simp: decide_all_def)

lemma session_ok_hide:
  fixes s :: "'x session_scheme"
  assumes "session_ok coll s"
  shows "session_ok coll (on_db (posts_update (map (hide_post now pid))) s)"
  using assms by (intro session_ok_on_db schema_ok_upd_posts) (auto simp: hide_post_def stamp_post_def)

lemma session_ok_sanction:
  fixes s :: "'x session_scheme"
  assumes "session_ok coll s"
  shows "session_ok coll (snd (add_user_sanction now i ty why rid ex s))"
  using assms unfolding add_user_sanction_def
  by (intro session_ok_ins) (auto simp: schema_ok_def intro: ids_ok_append)

text \<open>An expiry date is given for suspensions, and for nothing else.\<close>

definition expiry_fits :: "report_process_request \<Rightarrow> bool" where
  "expiry_fits q \<longleftrightarrow> (\<forall>ty. rq_sanction q = Some ty \<longrightarrow> (ty = SUSPENDED \<longleftrightarrow> rq_expires_at q \<noteq> None))"

definition process_body ::
  "time \<Rightarrow> report \<Rightarrow> report_process_request \<Rightarrow> int \<Rightarrow> ('x session_scheme, exn, unit) prog" where
  "process_body now r q reviewer =
     bindP (update_report now r (rq_status q) (rq_sanction q) reviewer) (\<lambda>_.
     bindP (whenP (hides q) (hide_reported_content now r)) (\<lambda>_.
     bindP (case rq_sanction q of
              Some ty \<Rightarrow> whenP (rq_status q = ACCEPTED) (report_sanction now r ty (rq_expires_at q))
            | None \<Rightarrow> returnP ()) (\<lambda>_.
     modifyP commit)))"

lemma update_report_run:
  assumes "same_reports r = Inr same"
  shows "\<exists>n. update_report now r (rq_status q) (rq_sanction q) rv s =
    (Inr n, on_db (reports_update (map (decide_all now same q rv))) s)"
  by (simp add: update_report_def prog_simps assms decide_all_def [abs_def])

lemma hide_part_run:
  fixes s :: "'x session_scheme"
  assumes "session_ok coll s"
    and "report_content_type r = POST \<Longrightarrow> \<exists>p\<in>set (posts (working s)). rp_post_id r = Some (post_id p)"
  shows "whenP (hides q) (hide_reported_content now r) s =
    (if hides q \<and> report_content_type r \<noteq> POST then (Inl (ValueError MsgReportUnsupported), s)
     else (Inr (), if hides q then on_db (posts_update (map (hide_post now (the (rp_post_id r))))) s else s))"
proof (cases "hides q \<and> report_content_type r = POST")
  case True
  then obtain p where p: "rp_post_id r = Some (post_id p)" "p \<in> set (posts (working s))" using assms(2) by auto
  then have "hide_if_published now (post_id p) s = (Inr (), on_db (posts_update (map (hide_post now (post_id p)))) s)"
    by (intro hide_if_published_run [OF assms(1)]) simp
  with True p(1) show ?thesis by (simp add: prog_simps hide_reported_content_def)
next
  case False
  then show ?thesis
    by (cases "report_content_type r") (auto simp: prog_simps hide_reported_content_def)
qed

definition sanction_part :: "time \<Rightarrow> report \<Rightarrow> report_process_request \<Rightarrow> ('x session_scheme, exn, unit) prog" where
  "sanction_part now r q = (case rq_sanction q of
     Some ty \<Rightarrow> whenP (rq_status q = ACCEPTED) (report_sanction now r ty (rq_expires_at q))
   | None \<Rightarrow> returnP ())"

lemma sanction_part_refused:
  assumes "rq_sanction q \<noteq> None \<Longrightarrow> rq_status q = ACCEPTED" and "\<not> expiry_fits q"
  shows "\<exists>e. sanction_part now r q s = (Inl (ValueError e), s)"
  using assms
  by (auto simp: sanction_part_def whenP_def report_sanction_def expiry_fits_def raiseP_def split: option.splits)

lemma sanction_part_run:
  fixes s :: "'x session_scheme"
  assumes "session_ok coll s" and "rq_sanction q \<noteq> None \<Longrightarrow> rq_status q = ACCEPTED" and "expiry_fits q"
  shows "\<exists>t. sanction_part now r q s = (Inr (), t) \<and> session_ok coll t \<and>
    working t = (case rq_sanction q of None \<Rightarrow> working s
      | Some ty \<Rightarrow> sanctions_update (\<lambda>xs. xs @ [sanction_row now (seq s T_sanctions) r ty (rq_expires_at q)]) (working s))"
proof (cases "rq_sanction q")
  case None
  then show ?thesis using assms(1) by (simp add: sanction_part_def returnP_def)
next
  case (Some ty)
  let ?t = "snd (add_user_sanction now (rp_reported_user_id r) ty (sanction_reason r) (report_id r) (rq_expires_at q) s)"
  have "sanction_part now r q s = (Inr (), ?t)"
    using assms(2,3) Some
    by (auto simp: sanction_part_def report_sanction_def expiry_fits_def prog_simps add_user_sanction_def)
  moreover have "working ?t = sanctions_update (\<lambda>xs. xs @ [sanction_row now (seq s T_sanctions) r ty (rq_expires_at q)]) (working s)"
    by (simp add: add_user_sanction_def prog_simps sanction_row_def)
  ultimately show ?thesis using session_ok_sanction [OF assms(1)] Some by simp
qed

lemma process_body_run:
  fixes s :: "'x session_scheme"
  assumes "session_ok coll s" and "same_reports r = Inr same"
    and "report_content_type r = POST \<Longrightarrow> \<exists>p\<in>set (posts (working s)). rp_post_id r = Some (post_id p)"
    and "rq_sanction q \<noteq> None \<Longrightarrow> rq_status q = ACCEPTED"
  shows "if hides q \<and> report_content_type r \<noteq> POST \<or> \<not> expiry_fits q
    then (\<exists>e t. process_body now r q rv s = (Inl (ValueError e), t) \<and> committed t = committed s \<and> session_ok coll t)
    else (\<exists>t. process_body now r q rv s = (Inr (), t) \<and> session_ok coll t \<and> working t = committed t \<and>
      committed t = decided_db now (seq s T_sanctions) same r q rv (working s))"
proof -
  let ?s1 = "on_db (reports_update (map (decide_all now same q rv))) s"
  let ?s2 = "if hides q then on_db (posts_update (map (hide_post now (the (rp_post_id r))))) ?s1 else ?s1"
  obtain n where u: "update_report now r (rq_status q) (rq_sanction q) rv s = (Inr n, ?s1)"
    using update_report_run [OF assms(2), of now q rv s] by auto
  have ok1: "session_ok coll ?s1" by (rule session_ok_decide [OF assms(1)])
  have ok2: "session_ok coll ?s2" using ok1 session_ok_hide [OF ok1] by simp
  have "whenP (hides q) (hide_reported_content now r) ?s1 =
      (if hides q \<and> report_content_type r \<noteq> POST then (Inl (ValueError MsgReportUnsupported), ?s1) else (Inr (), ?s2))"
    by (rule hide_part_run [OF ok1]) (use assms(3) in simp)
  then have run: "process_body now r q rv s =
      (if hides q \<and> report_content_type r \<noteq> POST then (Inl (ValueError MsgReportUnsupported), ?s1)
       else bindP (sanction_part now r q) (\<lambda>_. modifyP commit) ?s2)"
    unfolding process_body_def sanction_part_def [symmetric]
    by (simp only: bindP_apply u prod.case sum.case) simp
  have w2: "working ?s2 = (working s)\<lparr>reports := map (decide_all now same q rv) (reports (working s)),
      posts := (if hides q then map (hide_post now (the (rp_post_id r))) (posts (working s)) else posts (working s))\<rparr>"
    "committed ?s2 = committed s" "seq ?s2 = seq s"
    by (cases "working s"; simp)+
  show ?thesis
  proof (cases "hides q \<and> report_content_type r \<noteq> POST")
    case True
    then show ?thesis using ok1 by (simp add: run)
  next
    case nohide: False
    show ?thesis
    proof (cases "expiry_fits q")
      case False
      with sanction_part_refused [OF assms(4) this, of now r ?s2] nohide ok2 w2(2) show ?thesis
        by (auto simp: run bindP_apply)
    next
      case True
      from sanction_part_run [OF ok2 assms(4) True, of now r] obtain t where
        t: "sanction_part now r q ?s2 = (Inr (), t)" "session_ok coll t"
          "working t = (case rq_sanction q of None \<Rightarrow> working ?s2
            | Some ty \<Rightarrow> sanctions_update (\<lambda>xs. xs @ [sanction_row now (seq ?s2 T_sanctions) r ty (rq_expires_at q)]) (working ?s2))"
        by blast
      have "working t = decided_db now (seq s T_sanctions) same r q rv (working s)"
        unfolding t(3) w2 by (cases "working s") (simp add: decided_db_def split: option.split)
      moreover have "process_body now r q rv s = (Inr (), commit t)"
        using nohide by (simp only: run bindP_apply t(1) prod.case sum.case if_False modifyP_def)
      ultimately show ?thesis using True nohide t(2) by auto
    qed
  qed
qed

text \<open>A processing request as a whole.\<close>

definition accepted_now ::
  "time \<Rightarrow> int \<Rightarrow> int \<Rightarrow> report_process_request \<Rightarrow> 'x session_scheme \<Rightarrow> 'x session_scheme \<Rightarrow> report \<Rightarrow> (report \<Rightarrow> bool) \<Rightarrow> bool" where
  "accepted_now now rid rv q s t x same \<longleftrightarrow>
     x \<in> set (reports (working s)) \<and> report_id x = rid \<and> report_status x = PENDING \<and>
     same_reports x = Inr same \<and> same x \<and> (rq_sanction q \<noteq> None \<longrightarrow> rq_status q = ACCEPTED) \<and> expiry_fits q \<and>
     (hides q \<longrightarrow> report_content_type x = POST) \<and>
     working t = committed t \<and> committed t = decided_db now (seq s T_sanctions) same x q rv (working s)"

lemma process_report_cases:
  assumes "session_ok coll s"
  shows "process_report now rid rv q s = (case find (\<lambda>x. report_id x = rid) (reports (working s)) of
      None \<Rightarrow> (Inl (AppError (NotFoundError (Some MsgReportNotFound))), s)
    | Some x \<Rightarrow> (case fst (validate_report (report_content_type x) (rp_post_id x) (rp_comment_id x)
        (Some (rp_reported_user_id x)) (Some (report_status x)) s) of
          Inl e \<Rightarrow> (Inl e, s)
        | Inr _ \<Rightarrow> if rq_status q = REJECTED \<and> rq_sanction q \<noteq> None then (Inl (ValueError MsgReportRejectedSanction), s)
            else or_rollback (process_body now x q rv) s))"
proof -
  have found: "report_get_by_id rid s = Inr (find (\<lambda>x. report_id x = rid) (reports (working s)))"
    using one_or_none_unique [OF session_report_ids [OF assms(1)], of _ rid "\<lambda>_. True"]
    by (cases "find (\<lambda>x. report_id x = rid) (reports (working s))") (simp_all add: report_get_by_id_def)
  show ?thesis
  proof (cases "find (\<lambda>x. report_id x = rid) (reports (working s))")
    case (Some x)
    let ?v = "validate_report (report_content_type x) (rp_post_id x) (rp_comment_id x)
      (Some (rp_reported_user_id x)) (Some (report_status x))"
    have "process_report now rid rv q s = bindP ?v (\<lambda>_. if rq_status q = REJECTED \<and> rq_sanction q \<noteq> None
        then raiseP (ValueError MsgReportRejectedSanction) else or_rollback (process_body now x q rv)) s"
      by (simp only: process_report_def bindP_apply [of "\<lambda>s. (report_get_by_id rid s, s)"] found Some
          prod.case sum.case option.case process_body_def hides_def)
    then show ?thesis
      by (cases "fst (?v s)"; cases "rq_sanction q = None")
        (simp_all add: bindP_read [OF validate_report_state] Some raiseP_def)
  qed (simp add: process_report_def prog_simps found)
qed

lemma process_report_run:
  fixes s :: "'x session_scheme"
  assumes "session_ok coll s" and "process_request_ok q"
    and "process_report now rid rv q s = (r, t)"
  shows "session_ok coll t \<and>
    ((\<exists>e. r = Inl e) \<and> committed t = committed s \<and> (t = s \<or> working t = committed s) \<or>
     r = Inr () \<and> (\<exists>x same. accepted_now now rid rv q s t x same))"
proof -
  consider (failed) e where "(r, t) = (Inl e, s)"
    | (body) x v where "x \<in> set (reports (working s))" "report_id x = rid"
        "fst (validate_report (report_content_type x) (rp_post_id x) (rp_comment_id x)
          (Some (rp_reported_user_id x)) (Some (report_status x)) s) = Inr v"
        "rq_sanction q \<noteq> None \<Longrightarrow> rq_status q = ACCEPTED" "(r, t) = or_rollback (process_body now x q rv) s"
    using process_report_cases [OF assms(1), of now rid rv q] assms(2,3)
    by (cases "rq_status q") (auto simp: process_request_ok_def dest!: find_SomeD split: option.splits sum.splits if_splits)
  then show ?thesis
  proof cases
    case failed
    then show ?thesis using assms(1) by simp
  next
    case body
    note val = validated [OF body(3)]
    obtain same where same: "same_reports x = Inr same" "same x" using val(2) by auto
    have b: "r = fst (process_body now x q rv s)"
      "t = (case r of Inl _ \<Rightarrow> rollback (snd (process_body now x q rv s)) | Inr _ \<Rightarrow> snd (process_body now x q rv s))"
      using arg_cong [OF body(5), of fst] arg_cong [OF body(5), of snd] by (simp_all add: or_rollback_run)
    note run = process_body_run [OF assms(1) same(1) val(3) body(4), of now rv]
    show ?thesis
    proof (cases "hides q \<and> report_content_type x \<noteq> POST \<or> \<not> expiry_fits q")
      case True
      with run obtain e t' where "process_body now x q rv s = (Inl (ValueError e), t')"
        "committed t' = committed s" "session_ok coll t'" by auto
      with b show ?thesis by auto
    next
      case ok: False
      with run obtain t' where "process_body now x q rv s = (Inr (), t')" "session_ok coll t'"
        "working t' = committed t'"
        "committed t' = decided_db now (seq s T_sanctions) same x q rv (working s)" by auto
      with b ok body(1,2,4) same val(1) show ?thesis
        by (auto simp: accepted_now_def intro!: exI [of _ x] exI [of _ same])
    qed
  qed
qed

text \<open>Registering a report: some content column is always missing.\<close>

lemma validate_report_missing:
  "fst (validate_report ty pid cid reported st s) = Inr (a, title, content, ccontent) \<Longrightarrow>
   title = None \<or> content = None \<or> ccontent = None"
  by (cases ty; cases pid; cases cid; cases reported; cases "st \<noteq> None \<and> st \<noteq> Some PENDING")
    (auto simp: validate_report_def prog_simps split: option.splits sum.splits if_splits)

lemma report_create_fails:
  fixes s :: "'x session_scheme"
  shows "\<exists>e. report_create now me q s = (Inl e, s) \<or>
    report_create now me q s = (Inl (SQLAlchemyError IntegrityError), rollback s)"
proof -
  let ?v = "validate_report (rc_content_type q) (rc_post_id q) (rc_comment_id q) (rc_reported_user_id q) None"
  show ?thesis
  proof (cases "fst (?v s)")
    case (Inl e)
    then show ?thesis by (simp add: report_create_def bindP_read)
  next
    case (Inr v)
    obtain a title content ccontent where v: "v = (a, title, content, ccontent)" by (cases v)
    then have "title = None \<or> content = None \<or> ccontent = None" using validate_report_missing Inr by metis
    then have "(report_add now (Some (user_id me)) (rc_content_type q) a (rc_category q) (rc_post_id q)
        title content (rc_comment_id q) ccontent (rc_reason q) :: ('x session_scheme, exn, report) prog) =
      raiseP (SQLAlchemyError IntegrityError)"
      by (auto simp: report_add_def)
    then have "report_create now me q s = or_rollback (raiseP (SQLAlchemyError IntegrityError)) s"
      using Inr v by (simp add: report_create_def bindP_read)
    then show ?thesis by (simp add: or_rollback_def prog_simps)
  qed
qed

text \<open>Every sanction rests on one accepted report of that user with that sanction.\<close>

definition grounded :: "report list \<Rightarrow> user_sanction \<Rightarrow> bool" where
  "grounded rs z \<longleftrightarrow> (\<exists>r\<in>set rs. report_id r = us_report_id z \<and> report_status r = ACCEPTED \<and>
     rp_user_sanction_type r = Some (us_user_sanction_type z) \<and> us_reported_user_id z = rp_reported_user_id r \<and>
     (us_user_sanction_type z = SUSPENDED \<longleftrightarrow> us_expires_at z \<noteq> None))"

definition sanctions_ok :: "db \<Rightarrow> bool" where
  "sanctions_ok d \<longleftrightarrow> distinct (map us_report_id (sanctions d)) \<and> (\<forall>z\<in>set (sanctions d). grounded (reports d) z)"

lemma decide_all_final: "report_status x \<noteq> PENDING \<Longrightarrow> decide_all now same q rv x = x"
  by (simp add: decide_all_def)

lemma decide_all_sel [simp]:
  "report_id (decide_all now same q rv x) = report_id x"
  "report_content_type (decide_all now same q rv x) = report_content_type x"
  "rp_post_id (decide_all now same q rv x) = rp_post_id x" "rp_comment_id (decide_all now same q rv x) = rp_comment_id x"
  "rp_reported_user_id (decide_all now same q rv x) = rp_reported_user_id x"
  by (simp_all add: decide_all_def)

lemma grounded_decide:
  assumes "grounded rs z"
  shows "grounded (map (decide_all now same q rv) rs) z"
  using assms by (fastforce simp: grounded_def decide_all_final)

lemma grounded_new:
  assumes "x \<in> set rs" and "report_status x = PENDING" and "same x" and "expiry_fits q"
    and "rq_sanction q = Some ty" and "rq_status q = ACCEPTED"
  shows "grounded (map (decide_all now same q rv) rs) (sanction_row now i x ty (rq_expires_at q))"
  unfolding grounded_def using assms
  by (intro bexI [of _ "decide_all now same q rv x"]) (auto simp: sanction_row_def decide_all_def expiry_fits_def)

text \<open>An open report has no sanction yet.\<close>

lemma pending_unsanctioned:
  assumes "sanctions_ok (working s)" and "session_ok coll s" and "x \<in> set (reports (working s))" and "report_status x = PENDING"
  shows "report_id x \<notin> us_report_id ` set (sanctions (working s))"
proof
  assume "report_id x \<in> us_report_id ` set (sanctions (working s))"
  then obtain r where "r \<in> set (reports (working s))" "report_id r = report_id x" "report_status r = ACCEPTED"
    using assms(1) by (fastforce simp: sanctions_ok_def grounded_def)
  moreover from this assms(3) have "r = x"
    using session_report_ids [OF assms(2)] unfolding distinct_map by (blast dest: inj_onD)
  ultimately show False using assms(4) by simp
qed

lemma sanctions_ok_accepted:
  assumes "sanctions_ok (working s)" and "session_ok coll s" and "accepted_now now rid rv q s t x same"
  shows "sanctions_ok (committed t)"
proof -
  have t: "committed t = decided_db now (seq s T_sanctions) same x q rv (working s)"
    and x: "x \<in> set (reports (working s))" "report_status x = PENDING" "same x"
    and fits: "expiry_fits q" "rq_sanction q \<noteq> None \<Longrightarrow> rq_status q = ACCEPTED"
    using assms(3) by (auto simp: accepted_now_def)
  show ?thesis
    using assms(1) pending_unsanctioned [OF assms(1,2) x(1,2)] grounded_new [where same = same, OF x fits(1)] fits(2)
    by (cases "rq_sanction q") (auto simp: sanctions_ok_def t decided_db_def grounded_decide sanction_row_def)
qed

section \<open>Moderation as a state machine\<close>

text \<open>
  Any sequence of requests: reports registered, reports processed by anybody, and other requests,
  which do not touch reports or sanctions.
\<close>

inductive moderation ::
  "(string \<Rightarrow> string) \<Rightarrow> 'x session_scheme \<Rightarrow> 'x session_scheme \<Rightarrow> bool" for coll s where
  start: "moderation coll s s"
| register: "moderation coll s t \<Longrightarrow> moderation coll s (snd (get_db (report_create now me q) t))"
| process: "moderation coll s t \<Longrightarrow> process_request_ok q \<Longrightarrow>
    moderation coll s (snd (get_db (process_report now rid rv q) t))"
| other: "moderation coll s t \<Longrightarrow> session_ok coll t' \<Longrightarrow> working t' = committed t' \<Longrightarrow>
    reports (committed t') = reports (committed t) \<Longrightarrow> sanctions (committed t') = sanctions (committed t) \<Longrightarrow>
    moderation coll s t'"

text \<open>How one report may change over time: not at all once decided, and never its target.\<close>

definition evolves :: "report \<Rightarrow> report \<Rightarrow> bool" where
  "evolves x y \<longleftrightarrow> report_id y = report_id x \<and> (report_status x \<noteq> PENDING \<longrightarrow> y = x) \<and>
     report_content_type y = report_content_type x \<and> rp_post_id y = rp_post_id x \<and>
     rp_comment_id y = rp_comment_id x \<and> rp_reported_user_id y = rp_reported_user_id x"

lemma evolves_refl [simp]: "evolves x x"
  by (simp add: evolves_def)

lemma evolves_trans: "evolves x y \<Longrightarrow> evolves y z \<Longrightarrow> evolves x z"
  by (auto simp: evolves_def)

lemma evolves_decide_all: "evolves x (decide_all now same q rv x)"
  by (auto simp: evolves_def decide_all_final)

lemma session_ok_get_db:
  fixes s :: "'x session_scheme"
  assumes "session_ok coll (snd (m s))"
  shows "session_ok coll (snd (get_db m s))"
  using assms by (cases "m s") (auto simp: get_db_def split: sum.splits)

lemma moderation_keeps:
  assumes "moderation coll s t" and "session_ok coll s" and "working s = committed s" and "sanctions_ok (committed s)"
  shows "session_ok coll t \<and> working t = committed t \<and> sanctions_ok (committed t) \<and>
    (\<forall>x\<in>set (reports (committed s)). \<exists>y\<in>set (reports (committed t)). evolves x y)"
  using assms
proof (induction rule: moderation.induct)
  case start
  then show ?case by (auto intro: evolves_refl)
next
  case (register t now me q)
  then have t: "session_ok coll t" by simp
  then have "session_ok coll (snd (report_create now me q t))" "committed (snd (report_create now me q t)) = committed t"
    using report_create_fails [of now me q t] by auto
  with register show ?case by (auto simp: session_ok_get_db)
next
  case (process t q now rid rv)
  then have t: "session_ok coll t" "working t = committed t" "sanctions_ok (committed t)" by simp_all
  obtain r t' where p: "process_report now rid rv q t = (r, t')" by (rule prod.exhaust)
  note run = process_report_run [OF t(1) process.hyps(2) p]
  have "sanctions_ok (committed t') \<and> (\<forall>x\<in>set (reports (committed t)). \<exists>y\<in>set (reports (committed t')). evolves x y)"
  proof (cases "\<exists>x same. accepted_now now rid rv q t t' x same")
    case True
    then obtain x same where a: "accepted_now now rid rv q t t' x same" by blast
    then have "reports (committed t') = map (decide_all now same q rv) (reports (committed t))"
      using t(2) by (auto simp: accepted_now_def decided_db_def)
    with a t show ?thesis
      using sanctions_ok_accepted [of t coll now rid rv q t' x same] by (auto intro: evolves_decide_all)
  next
    case False
    with run have "committed t' = committed t" by auto
    with t(3) show ?thesis by (auto intro: evolves_refl)
  qed
  with process run p show ?case
    using evolves_trans by (simp add: session_ok_get_db) blast
next
  case (other t t')
  then show ?case by simp (simp add: sanctions_ok_def)
qed

text \<open>A concrete deployment: report 1 about post 5 and report 2 about user 2, both open.\<close>

definition demo_report :: "int \<Rightarrow> report_content_type \<Rightarrow> int option \<Rightarrow> report" where
  "demo_report i ty pid = \<lparr>report_id = i, reporter_user_id = Some 2, report_content_type = ty, rp_post_id = pid,
     rp_post_title = Some [], rp_post_content = Some [], rp_comment_id = None, rp_comment_content = Some [],
     rp_reported_user_id = 1, report_category = u ''SPAM'', report_reason = None, report_status = PENDING,
     rp_user_sanction_type = None, reviewer_user_id = None, processed_at = None, rp_created_at = 1, rp_updated_at = 1\<rparr>"

definition demo_reports :: session where
  "demo_reports =
     (let d = empty_db\<lparr>posts := [demo_post 5 False], reports := [demo_report 1 POST (Some 5), demo_report 2 USER_CONTENT None]\<rparr>
      in \<lparr>committed = d, working = d, seq = (\<lambda>t. 100)\<rparr>)"

lemma demo_reports_ok:
  "session_ok coll demo_reports" "working demo_reports = committed demo_reports" "sanctions_ok (committed demo_reports)"
  "posts (committed demo_reports) = [demo_post 5 False]" "sanctions (committed demo_reports) = []"
  "reports (committed demo_reports) = [demo_report 1 POST (Some 5), demo_report 2 USER_CONTENT None]"
  by (simp_all add: session_ok_def schema_ok_def sanctions_ok_def demo_reports_def empty_db_def ids_ok_def Let_def demo_report_def)

text \<open>The target of a report, if the report is well formed.\<close>

datatype target = Post_target int | Comment_target int int | User_target int

definition target_of :: "report \<Rightarrow> target option" where
  "target_of r =
     (case (report_content_type r, rp_post_id r, rp_comment_id r) of
        (POST, Some p, None) \<Rightarrow> Some (Post_target p)
      | (COMMENT, Some p, Some c) \<Rightarrow> Some (Comment_target p c)
      | (USER_CONTENT, None, None) \<Rightarrow> Some (User_target (rp_reported_user_id r))
      | _ \<Rightarrow> None)"

lemma same_reports_target:
  assumes "same_reports x = Inr same" and "same x"
  shows "target_of x \<noteq> None" and "same = (\<lambda>y. target_of y = target_of x)"
proof -
  show n: "target_of x \<noteq> None"
    using assms by (auto simp: same_reports_def target_of_def split: report_content_type.splits if_splits option.splits)
  have "same y \<longleftrightarrow> target_of y = target_of x" for y
    using assms by (auto simp: same_reports_def target_of_def split: report_content_type.splits if_splits option.splits)
  then show "same = (\<lambda>y. target_of y = target_of x)" by blast
qed

section \<open>Properties\<close>

text \<open>
  C11.  Processing a report is all or nothing.  A request that fails leaves the database as it was.
  One that succeeds decides the open reports about the same target, all of them and no others, with
  one result; hides exactly the reported post, if it was visible, for a suspension or a ban; and
  adds exactly one sanction if one was asked for; nothing else changes.
\<close>

theorem process_report_contract:
  fixes s :: "'x session_scheme"
  assumes "session_ok coll s" and "working s = committed s" and "process_request_ok q"
    and "process_report now rid rv q s = (r, t)"
  shows "session_ok coll t \<and> working t = committed t \<and>
    ((\<exists>e. r = Inl e) \<longrightarrow> committed t = committed s) \<and>
    (r = Inr () \<longrightarrow> (\<exists>x\<in>set (reports (committed s)).
       report_id x = rid \<and> report_status x = PENDING \<and> target_of x \<noteq> None \<and>
       reports (committed t) = map (decide_all now (\<lambda>y. target_of y = target_of x) q rv) (reports (committed s)) \<and>
       (\<forall>y\<in>set (reports (committed t)). target_of y = target_of x \<longrightarrow> report_status y \<noteq> PENDING) \<and>
       posts (committed t) = (if hides q then map (hide_post now (the (rp_post_id x))) (posts (committed s)) else posts (committed s)) \<and>
       sanctions (committed t) = sanctions (committed s) @
         (case rq_sanction q of None \<Rightarrow> [] | Some ty \<Rightarrow> [sanction_row now (seq s T_sanctions) x ty (rq_expires_at q)]) \<and>
       users (committed t) = users (committed s) \<and> comments (committed t) = comments (committed s) \<and>
       images (committed t) = images (committed s) \<and> likes (committed t) = likes (committed s) \<and>
       menus (committed t) = menus (committed s)))"
proof -
  note run = process_report_run [OF assms(1,3,4)]
  have "\<exists>x\<in>set (reports (committed s)).
       report_id x = rid \<and> report_status x = PENDING \<and> target_of x \<noteq> None \<and>
       reports (committed t) = map (decide_all now (\<lambda>y. target_of y = target_of x) q rv) (reports (committed s)) \<and>
       (\<forall>y\<in>set (reports (committed t)). target_of y = target_of x \<longrightarrow> report_status y \<noteq> PENDING) \<and>
       posts (committed t) = (if hides q then map (hide_post now (the (rp_post_id x))) (posts (committed s)) else posts (committed s)) \<and>
       sanctions (committed t) = sanctions (committed s) @
         (case rq_sanction q of None \<Rightarrow> [] | Some ty \<Rightarrow> [sanction_row now (seq s T_sanctions) x ty (rq_expires_at q)]) \<and>
       users (committed t) = users (committed s) \<and> comments (committed t) = comments (committed s) \<and>
       images (committed t) = images (committed s) \<and> likes (committed t) = likes (committed s) \<and>
       menus (committed t) = menus (committed s)" if r: "r = Inr ()"
  proof -
    obtain x same where a: "accepted_now now rid rv q s t x same" using run r by auto
    then have c: "committed t = decided_db now (seq s T_sanctions) same x q rv (committed s)"
      using assms(2) by (simp add: accepted_now_def)
    have "same (decide_all now same q rv y) \<Longrightarrow> report_status (decide_all now same q rv y) \<noteq> PENDING" for y
      using assms(3) a
      by (auto simp: decide_all_def process_request_ok_def accepted_now_def same_reports_def
          split: report_content_type.splits if_splits)
    then have "\<forall>y\<in>set (reports (committed t)). same y \<longrightarrow> report_status y \<noteq> PENDING"
      by (auto simp: c decided_db_def)
    moreover have "target_of x \<noteq> None" and "same = (\<lambda>y. target_of y = target_of x)"
      using same_reports_target a by (auto simp: accepted_now_def)
    ultimately show ?thesis using a assms(2)
      by (intro bexI [of _ x]) (auto simp: accepted_now_def decided_db_def split: option.split)
  qed
  with run assms(2) show ?thesis by (auto simp: accepted_now_def)
qed

theorem process_report_contract_witness:
  "\<exists>t. process_report 9 1 7 \<lparr>rq_status = ACCEPTED, rq_sanction = Some BANNED, rq_expires_at = None\<rparr> demo_reports = (Inr (), t) \<and>
     sanctions (committed t) = [sanction_row 9 100 (demo_report 1 POST (Some 5)) BANNED None] \<and>
     map post_status (posts (committed t)) = [HIDDEN]"
proof -
  let ?q = "\<lparr>rq_status = ACCEPTED, rq_sanction = Some BANNED, rq_expires_at = None\<rparr>"
  obtain r t where p: "process_report 9 1 7 ?q demo_reports = (r, t)" by (rule prod.exhaust)
  have q: "process_request_ok ?q" by (simp add: process_request_ok_def)
  have "fst (process_report 9 1 7 ?q demo_reports) = Inr ()"
    by (simp add: process_report_def prog_simps report_get_by_id_def demo_reports_def Let_def demo_report_def empty_db_def
        validate_report_def post_get_any_by_id_def or_rollback_def update_report_def same_reports_def
        hide_reported_content_def hide_if_published_def demo_post_def report_sanction_def add_user_sanction_def)
  then have r: "r = Inr ()" using p by simp
  have s: "seq demo_reports T_sanctions = 100" by (simp add: demo_reports_def Let_def)
  obtain x where x: "x \<in> set (reports (committed demo_reports))" "report_id x = 1"
    "posts (committed t) = (if hides ?q then map (hide_post 9 (the (rp_post_id x))) (posts (committed demo_reports)) else posts (committed demo_reports))"
    "sanctions (committed t) = sanctions (committed demo_reports) @
       (case rq_sanction ?q of None \<Rightarrow> [] | Some ty \<Rightarrow> [sanction_row 9 (seq demo_reports T_sanctions) x ty (rq_expires_at ?q)])"
    using process_report_contract [OF demo_reports_ok(1,2) q p] r by blast
  then have "x = demo_report 1 POST (Some 5)" by (auto simp: demo_reports_ok demo_report_def)
  with x(3,4) p r s show ?thesis
    by (simp add: demo_reports_ok hides_def) (simp add: hide_post_def demo_report_def demo_post_def stamp_post_def)
qed

text \<open>
  Moderation over time.  Whatever requests are made, by anybody and in any order: every
  sanction on record rests on one accepted report against that user, which carries this very
  sanction, no report has two, and only suspensions have an end; and a report, once decided, never
  changes again, nor does the target of any report.
\<close>

theorem moderation_is_sound:
  assumes "moderation coll s t"
    and "session_ok coll s" and "working s = committed s" and "sanctions_ok (committed s)"
  shows "sanctions_ok (committed t) \<and>
    (\<forall>x\<in>set (reports (committed s)). \<exists>y\<in>set (reports (committed t)). evolves x y)"
  using moderation_keeps [OF assms] by simp

theorem moderation_is_sound_witness:
  "sanctions_ok (committed (snd (get_db (process_report 9 1 7
     \<lparr>rq_status = ACCEPTED, rq_sanction = Some WARNING, rq_expires_at = None\<rparr>) demo_reports)))"
proof -
  have q: "process_request_ok \<lparr>rq_status = ACCEPTED, rq_sanction = Some WARNING, rq_expires_at = None\<rparr>"
    by (simp add: process_request_ok_def)
  have "moderation (\<lambda>e. e) demo_reports (snd (get_db (process_report 9 1 7
     \<lparr>rq_status = ACCEPTED, rq_sanction = Some WARNING, rq_expires_at = None\<rparr>) demo_reports))"
    by (rule moderation.process [OF moderation.start q])
  from moderation_is_sound [OF this demo_reports_ok(1-3)] show ?thesis by simp
qed

text \<open>
  C31.  What does not work.  No report can be registered: each kind lacks one of the three content
  columns, which are NOT NULL, so even the report of an existing post ends as a database error.
  And a suspension or a ban can never be applied to an open report of a comment or of a user, because the
  step that hides the content knows posts only; nothing is changed then.  Moreover the
  endpoint that processes reports asks for a login only, not for a role.
\<close>

theorem reporting_gaps:
  fixes s :: "'x session_scheme"
  assumes "session_ok coll s" and "working s = committed s" and "get_current_user C S now cred s = (Inr me, s)"
  shows "(\<exists>e. fst (report_create now me q s) = Inl e) \<and> committed (snd (report_create now me q s)) = committed s \<and>
    (\<forall>p\<in>set (posts (working s)). rc_content_type q = POST \<and> rc_post_id q = Some (post_id p) \<and> rc_comment_id q = None \<longrightarrow>
       fst (report_create now me q s) = Inl (SQLAlchemyError IntegrityError)) \<and>
    (\<forall>x\<in>set (reports (working s)). report_content_type x \<noteq> POST \<and> hides pq \<longrightarrow>
       (\<exists>e. fst (process_report now (report_id x) rv pq s) = Inl e) \<and>
       committed (snd (process_report now (report_id x) rv pq s)) = committed s) \<and>
    fst (process_report_route C S now cred rid pq s) = fst (process_report now rid (user_id me) pq s)"
proof -
  have c: "(\<exists>e. fst (report_create now me q s) = Inl e) \<and> committed (snd (report_create now me q s)) = committed s"
    using report_create_fails [of now me q s] by auto
  have post: "fst (report_create now me q s) = Inl (SQLAlchemyError IntegrityError)"
    if "p \<in> set (posts (working s))" "rc_content_type q = POST \<and> rc_post_id q = Some (post_id p) \<and> rc_comment_id q = None" for p
  proof -
    have "post_get_any_by_id (post_id p) s = Inr (Some p)"
      using one_or_none_unique [OF session_post_ids [OF assms(1)], of _ "post_id p" "\<lambda>_. True"]
        find_unique_Some [OF session_post_ids [OF assms(1)] that(1)]
      by (simp add: post_get_any_by_id_def)
    then show ?thesis
      using that(2) by (simp add: report_create_def validate_report_def bindP_apply returnP_apply report_add_def or_rollback_def)
        (simp add: prog_simps)
  qed
  have target: "(\<exists>e. fst (process_report now (report_id x) rv pq s) = Inl e) \<and>
       committed (snd (process_report now (report_id x) rv pq s)) = committed s"
    if x: "x \<in> set (reports (working s))" "report_content_type x \<noteq> POST \<and> hides pq" for x
  proof -
    have ok: "process_request_ok pq" using x(2) by (simp add: hides_def process_request_ok_def)
    note run = process_report_run [OF assms(1) ok prod.collapse [symmetric], of now "report_id x" rv]
    have "False" if a: "accepted_now now (report_id x) rv pq s (snd (process_report now (report_id x) rv pq s)) y same" for y same
    proof -
      have "y \<in> set (reports (working s))" "report_id y = report_id x" "report_content_type y = POST"
        using a x(2) by (auto simp: accepted_now_def)
      moreover from this x(1) have "y = x"
        using session_report_ids [OF assms(1)] unfolding distinct_map by (blast dest: inj_onD)
      ultimately show False using x(2) by simp
    qed
    with run show ?thesis by blast
  qed
  have "fst (process_report_route C S now cred rid pq s) = fst (process_report now rid (user_id me) pq s)"
    using assms(3) by (simp add: process_report_route_def as_user_def authenticated)
  with c post target show ?thesis by blast
qed

theorem reporting_gaps_witness:
  "let s = demo_reports\<lparr>working := (working demo_reports)\<lparr>users := [demo_user 7 ''a@x'']\<rparr>,
                        committed := (committed demo_reports)\<lparr>users := [demo_user 7 ''a@x'']\<rparr>\<rparr>
   in fst (report_create 100 (demo_user 7 ''a@x'') \<lparr>rc_content_type = POST, rc_post_id = Some 5, rc_comment_id = None,
        rc_reported_user_id = None, rc_category = u ''SPAM'', rc_reason = None\<rparr> s) = Inl (SQLAlchemyError IntegrityError)"
proof -
  let ?s = "demo_reports\<lparr>working := (working demo_reports)\<lparr>users := [demo_user 7 ''a@x'']\<rparr>,
                        committed := (committed demo_reports)\<lparr>users := [demo_user 7 ''a@x'']\<rparr>\<rparr>"
  let ?q = "\<lparr>rc_content_type = POST, rc_post_id = Some 5, rc_comment_id = None,
        rc_reported_user_id = None, rc_category = u ''SPAM'', rc_reason = None\<rparr>"
  let ?tok = "create_access_token demo_crypto demo_settings 90 ''i'' 7"
  have ok: "session_ok (\<lambda>e. e) ?s" "working ?s = committed ?s"
    by (simp_all add: session_ok_def schema_ok_def demo_reports_def empty_db_def ids_ok_def Let_def demo_report_def)
  have "decode_token demo_crypto demo_settings 100 ?tok ACCESS =
      Inr \<lparr>tp_user_id = 7, tp_token_type = ACCESS, tp_jti = ''i'', tp_expires_at = 1890\<rparr>"
    using decode_access [OF demo_crypto_ok, of demo_settings 90 100 "''i''" 7] by (simp add: demo_settings_def)
  then have g: "get_current_user demo_crypto demo_settings 100 (Some ?tok) ?s = (Inr (demo_user 7 ''a@x''), ?s)"
    by (simp add: get_current_user_def prog_simps user_get_by_id_def sel_pk_def demo_user_def)
  have p: "demo_post 5 False \<in> set (posts (working ?s))" by (simp add: demo_reports_def Let_def)
  have "\<forall>p\<in>set (posts (working ?s)). rc_content_type ?q = POST \<and> rc_post_id ?q = Some (post_id p) \<and> rc_comment_id ?q = None \<longrightarrow>
       fst (report_create 100 (demo_user 7 ''a@x'') ?q ?s) = Inl (SQLAlchemyError IntegrityError)"
    using reporting_gaps [OF ok g] by blast
  from bspec [OF this p] show ?thesis by (simp add: Let_def)
qed

end
