(* ===== verification/Images.thy ===== *)
theory Images
  imports Posts
begin

text \<open>
  Images of posts: \<^verbatim>\<open>PostService.upload_image\<close>, \<^verbatim>\<open>list_images\<close>, the two conversions, and the endpoints.  Pillow
  is a parameter (\<open>pillow\<close>): any of its operations may raise.  \<open>OtherError ''OSError''\<close> is an \<^verbatim>\<open>OSError\<close>
  or a subclass of it such as \<^verbatim>\<open>UnidentifiedImageError\<close>.
\<close>

section \<open>Pillow\<close>

record 'i pillow =
  image_open :: "nat list \<Rightarrow> exn + 'i"
  exif_transpose :: "'i \<Rightarrow> exn + 'i"
  image_width :: "'i \<Rightarrow> int"
  image_height :: "'i \<Rightarrow> int"
  image_mode :: "'i \<Rightarrow> string"
  transparency_info :: "'i \<Rightarrow> bool"
  image_convert :: "string \<Rightarrow> 'i \<Rightarrow> exn + 'i"
  image_thumbnail :: "int \<times> int \<Rightarrow> 'i \<Rightarrow> exn + 'i"
  white_rgba :: "int \<times> int \<Rightarrow> exn + 'i"
  alpha_composite :: "'i \<Rightarrow> 'i \<Rightarrow> exn + 'i"
  ops_fit :: "int \<times> int \<Rightarrow> 'i \<Rightarrow> exn + 'i"
  ops_pad :: "int \<times> int \<Rightarrow> 'i \<Rightarrow> exn + 'i"
  save_webp :: "int \<Rightarrow> 'i \<Rightarrow> exn + nat list"

definition MAX_IMAGE_HEIGHT_PX :: int where "MAX_IMAGE_HEIGHT_PX = 15000"
definition MAX_CONTENT_WIDTH_PX :: int where "MAX_CONTENT_WIDTH_PX = 1600"
definition max_image_bytes :: nat where "max_image_bytes = 10 * 1024 * 1024"

text \<open>Sequencing of steps that only compute.\<close>

definition bindE :: "exn + 'a \<Rightarrow> ('a \<Rightarrow> exn + 'b) \<Rightarrow> exn + 'b" where
  "bindE m f = (case m of Inl e \<Rightarrow> Inl e | Inr a \<Rightarrow> f a)"

definition resize_image :: "'i pillow \<Rightarrow> nat list \<Rightarrow> int \<Rightarrow> exn + nat list" where
  "resize_image P original_data max_width =
     bindE (image_open P original_data) (\<lambda>opened.
     bindE (exif_transpose P opened) (\<lambda>image.
     if MAX_IMAGE_HEIGHT_PX < image_height P image then Inl (ValueError MsgImageTooTall)
     else
       let has_transparency = (image_mode P image \<in> {''RGBA'', ''LA''} \<or>
                               image_mode P image = ''P'' \<and> transparency_info P image)
       in bindE (image_convert P (if has_transparency then ''RGBA'' else ''RGB'') image) (\<lambda>image.
          bindE (image_thumbnail P (max_width, MAX_IMAGE_HEIGHT_PX) image) (\<lambda>image.
          save_webp P 85 image))))"

definition create_thumbnail_image :: "'i pillow \<Rightarrow> nat list \<Rightarrow> exn + nat list" where
  "create_thumbnail_image P original_data =
     bindE (image_open P original_data) (\<lambda>opened.
     bindE (exif_transpose P opened) (\<lambda>image.
     bindE (image_convert P ''RGBA'' image) (\<lambda>image.
     bindE (white_rgba P (image_width P image, image_height P image)) (\<lambda>canvas.
     bindE (alpha_composite P canvas image) (\<lambda>image.
     bindE (image_convert P ''RGB'' image) (\<lambda>image.
     bindE (if image_width P image \<le> image_height P image then ops_fit P (300, 300) image
            else ops_pad P (300, 300) image) (\<lambda>image.
     save_webp P 80 image)))))))"

text \<open>\<^verbatim>\<open>except (OSError, ValueError, Image.DecompressionBombError)\<close>\<close>

fun image_error :: "exn \<Rightarrow> bool" where
  "image_error (ValueError _) \<longleftrightarrow> True"
| "image_error (OtherError k) \<longleftrightarrow> k \<in> {''OSError'', ''DecompressionBombError''}"
| "image_error _ \<longleftrightarrow> False"

definition convert_image :: "'i pillow \<Rightarrow> nat list \<Rightarrow> exn + nat list \<times> nat list" where
  "convert_image P original_data =
     (case bindE (resize_image P original_data MAX_CONTENT_WIDTH_PX) (\<lambda>content.
           bindE (create_thumbnail_image P original_data) (\<lambda>thumbnail. Inr (content, thumbnail))) of
        Inl e \<Rightarrow> if image_error e then Inl (AppError (BadRequestError (Some MsgImageUnsupported))) else Inl e
      | Inr d \<Rightarrow> Inr d)"

section \<open>File names\<close>

text \<open>\<^verbatim>\<open>Path(name).suffix.lower()\<close> of Python 3.13 on a POSIX system.\<close>

definition path_name :: "string \<Rightarrow> string" where
  "path_name s = (case filter (\<lambda>c. c \<noteq> [] \<and> c \<noteq> ''.'') (split_on CHR ''/'' s) of [] \<Rightarrow> [] | p # ps \<Rightarrow> last (p # ps))"

definition path_suffix :: "string \<Rightarrow> string" where
  "path_suffix s =
     (let name = path_name s; tail = after_last CHR ''.'' name;
          i = length name - length tail - 1
      in if CHR ''.'' \<in> set name \<and> 0 < i \<and> i < length name - 1 then CHR ''.'' # tail else [])"

section \<open>The request\<close>

record 'o media = session +
  objs :: 'o

record upload_file =
  uf_filename :: "string option"
  uf_content_type :: "string option"
  uf_data :: "nat list"

record post_image_response =
  pi_image_id :: int
  pi_post_id :: int
  pi_image_url :: string

definition on_objs :: "('o, exn, 'a) prog \<Rightarrow> ('o media, exn, 'a) prog" where
  "on_objs m = (\<lambda>w. case m (objs w) of (r, o') \<Rightarrow> (r, w\<lparr>objs := o'\<rparr>))"

definition image_key :: "int \<Rightarrow> string \<Rightarrow> string \<Rightarrow> string \<Rightarrow> string" where
  "image_key pid kind file_id suffix =
     ''posts/'' @ show_int pid @ ''/'' @ kind @ ''/'' @ file_id @ suffix"

text \<open>The three columns hold at most 500 characters.\<close>

definition add_image ::
  "time \<Rightarrow> int \<Rightarrow> string \<Rightarrow> string \<Rightarrow> string \<Rightarrow> ('x session_scheme, exn, post_image) prog" where
  "add_image now pid original content thumbnail =
     (if 500 < length original \<or> 500 < length content \<or> 500 < length thumbnail
      then raiseP (SQLAlchemyError OtherSqlError)
      else ins_row T_images images_update (\<lambda>i. \<lparr>image_id = i, im_post_id = pid, image_original_path = original,
             image_content_path = content, image_thumbnail_path = thumbnail, im_created_at = now,
             im_updated_at = now\<rparr>))"

definition store_image ::
  "'o storage \<Rightarrow> time \<Rightarrow> string \<Rightarrow> int \<Rightarrow> upload_file \<Rightarrow> nat list \<Rightarrow> nat list \<times> nat list \<Rightarrow>
   ('o media, exn, post_image) prog" where
  "store_image st now file_id pid f original_data converted =
     (let suffix = lower (path_suffix (case uf_filename f of None \<Rightarrow> [] | Some n \<Rightarrow> n));
          original_key = image_key pid ''original'' file_id suffix;
          content_key = image_key pid ''content'' file_id ''.webp'';
          thumbnail_key = image_key pid ''thumbnail'' file_id ''.webp''
      in bindP (on_objs (st_upload st original_key original_data (uf_content_type f))) (\<lambda>_.
         bindP (on_objs (st_upload st content_key (fst converted) (Some ''image/webp''))) (\<lambda>_.
         bindP (on_objs (st_upload st thumbnail_key (snd converted) (Some ''image/webp''))) (\<lambda>_.
         bindP (add_image now pid original_key content_key thumbnail_key) (\<lambda>img.
         bindP (modifyP commit) (\<lambda>_. returnP img))))))"

definition upload_image ::
  "'i pillow \<Rightarrow> 'o storage option \<Rightarrow> time \<Rightarrow> string \<Rightarrow> int \<Rightarrow> user \<Rightarrow> upload_file \<Rightarrow>
   ('o media, exn, post_image_response) prog" where
  "upload_image P storage now file_id pid me f =
     bindP (post_or_404 pid) (\<lambda>p.
     if author_id p \<noteq> user_id me then raiseP (AppError (ForbiddenError (Some MsgImageNotOwner)))
     else (case storage of
       None \<Rightarrow> raiseP not_configured
     | Some st \<Rightarrow>
         (let original_data = take (max_image_bytes + 1) (uf_data f) in
          if max_image_bytes < length original_data then raiseP (AppError (BadRequestError (Some MsgImageTooLarge)))
          else bindP (liftP (convert_image P original_data)) (\<lambda>converted.
               bindP (or_rollback (store_image st now file_id pid f original_data converted)) (\<lambda>img.
               returnP \<lparr>pi_image_id = image_id img, pi_post_id = im_post_id img,
                        pi_image_url = st_presign st (image_key pid ''content'' file_id ''.webp'') 3600\<rparr>)))))"

definition list_images :: "'o storage option \<Rightarrow> int \<Rightarrow> ('x session_scheme, exn, post_image_response list) prog" where
  "list_images storage pid =
     bindP (post_or_404 pid) (\<lambda>_.
     bindP (getsP (post_list_images pid)) (\<lambda>imgs.
     if imgs = [] then returnP []
     else (case storage of
       None \<Rightarrow> raiseP not_configured
     | Some st \<Rightarrow> returnP (map (\<lambda>i. \<lparr>pi_image_id = image_id i, pi_post_id = im_post_id i,
                                   pi_image_url = st_presign st (image_content_path i) 3600\<rparr>) imgs))))"

section \<open>Endpoints\<close>

text \<open>
  \<^verbatim>\<open>get_storage\<close> is a dependency of both; dependencies are resolved in the order of the parameters, after
  the router's own, so an unauthenticated request is refused before the storage is looked at.
\<close>

definition upload_post_image ::
  "'i pillow \<Rightarrow> 'o boto3 \<Rightarrow> storage_settings \<Rightarrow> crypto \<Rightarrow> jwt_settings \<Rightarrow> time \<Rightarrow> string option \<Rightarrow> string \<Rightarrow> int \<Rightarrow>
   upload_file \<Rightarrow> ('o media, exn, post_image_response) prog" where
  "upload_post_image P B SS C S now cred file_id pid f =
     as_user C S now cred (\<lambda>me. bindP (liftP (get_storage B SS)) (\<lambda>st.
       upload_image P (Some st) now file_id pid me f))"

definition list_post_images ::
  "'o boto3 \<Rightarrow> storage_settings \<Rightarrow> crypto \<Rightarrow> jwt_settings \<Rightarrow> time \<Rightarrow> string option \<Rightarrow> int \<Rightarrow>
   ('x session_scheme, exn, post_image_response list) prog" where
  "list_post_images B SS C S now cred pid =
     as_user C S now cred (\<lambda>_. bindP (liftP (get_storage B SS)) (\<lambda>st. list_images (Some st) pid))"

section \<open>Lemmas\<close>

lemma objs_session [simp]:
  fixes w :: "'o media"
  shows "objs (commit w) = objs w" and "objs (rollback w) = objs w" and "objs (on_db f w) = objs w"
    and "objs (take_pk t w) = objs w"
  by (simp_all add: commit_def rollback_def on_db_def take_pk_def)

lemma media_objs_update [simp]:
  fixes w :: "'o media"
  shows "committed (w\<lparr>objs := x\<rparr>) = committed w" and "working (w\<lparr>objs := x\<rparr>) = working w" and "seq (w\<lparr>objs := x\<rparr>) = seq w"
  by simp_all

lemma image_key_inject [simp]:
  "kind \<noteq> kind' \<Longrightarrow> CHR ''/'' \<notin> set kind \<Longrightarrow> CHR ''/'' \<notin> set kind' \<Longrightarrow> image_key pid kind fid x \<noteq> image_key pid kind' fid y"
  by (auto simp: image_key_def append_sep_inject)

text \<open>The three keys of an upload.\<close>

definition upload_keys :: "int \<Rightarrow> string \<Rightarrow> upload_file \<Rightarrow> string \<times> string \<times> string" where
  "upload_keys pid fid f =
     (image_key pid ''original'' fid (lower (path_suffix (case uf_filename f of None \<Rightarrow> [] | Some n \<Rightarrow> n))),
      image_key pid ''content'' fid ''.webp'', image_key pid ''thumbnail'' fid ''.webp'')"

lemma upload_keys_distinct:
  "upload_keys pid fid f = (k1, k2, k3) \<Longrightarrow> k1 \<noteq> k2 \<and> k1 \<noteq> k3 \<and> k2 \<noteq> k3"
  by (auto simp: upload_keys_def)

definition image_row :: "time \<Rightarrow> int \<Rightarrow> int \<Rightarrow> string \<times> string \<times> string \<Rightarrow> post_image" where
  "image_row now i pid ks =
     \<lparr>image_id = i, im_post_id = pid, image_original_path = fst ks, image_content_path = fst (snd ks),
      image_thumbnail_path = snd (snd ks), im_created_at = now, im_updated_at = now\<rparr>"

lemma store_image_run:
  assumes "storage_contract st obj" and "upload_keys pid fid f = (k1, k2, k3)"
    and "store_image st now fid pid f d c w = (r, t)"
  shows "(\<forall>k. k \<notin> {k1, k2, k3} \<longrightarrow> obj (objs t) k = obj (objs w) k) \<and>
    (\<forall>e. r = Inl e \<longrightarrow> working t = working w \<and> committed t = committed w \<and> seq t = seq w) \<and>
    (\<forall>img. r = Inr img \<longrightarrow> img = image_row now (seq w T_images) pid (k1, k2, k3) \<and>
       committed t = working t \<and> working t = images_update (\<lambda>is. is @ [img]) (working w) \<and>
       seq t = (seq w)(T_images := seq w T_images + 1) \<and>
       obj (objs t) k1 = Some (d, if uf_content_type f = Some [] then None else uf_content_type f) \<and>
       obj (objs t) k2 = Some (fst c, Some ''image/webp'') \<and> obj (objs t) k3 = Some (snd c, Some ''image/webp''))"
proof -
  note other = storage_contract.upload_other [OF assms(1)] and stores = storage_contract.upload_stores [OF assms(1)]
  have k: "k1 \<noteq> k2" "k1 \<noteq> k3" "k2 \<noteq> k3" using upload_keys_distinct [OF assms(2)] by simp_all
  let ?ct = "uf_content_type f" and ?w = "Some ''image/webp''"
  obtain r1 o1 where u1: "st_upload st k1 d ?ct (objs w) = (r1, o1)" by (rule prod.exhaust)
  obtain r2 o2 where u2: "st_upload st k2 (fst c) ?w o1 = (r2, o2)" by (rule prod.exhaust)
  obtain r3 o3 where u3: "st_upload st k3 (snd c) ?w o2 = (r3, o3)" by (rule prod.exhaust)
  have run: "store_image st now fid pid f d c w =
      (case r1 of Inl e \<Rightarrow> (Inl e, w\<lparr>objs := o1\<rparr>) | Inr _ \<Rightarrow> (case r2 of Inl e \<Rightarrow> (Inl e, w\<lparr>objs := o2\<rparr>) | Inr _ \<Rightarrow>
      (case r3 of Inl e \<Rightarrow> (Inl e, w\<lparr>objs := o3\<rparr>) | Inr _ \<Rightarrow>
        bindP (add_image now pid k1 k2 k3) (\<lambda>img. bindP (modifyP commit) (\<lambda>_. returnP img)) (w\<lparr>objs := o3\<rparr>))))"
    using assms(2) u1 u2 u3
    by (auto simp: store_image_def upload_keys_def Let_def bindP_def on_objs_def split: sum.split)
  have w: "obj o1 k1 = Some (d, if ?ct = Some [] then None else ?ct)" if "r1 = Inr x" for x
    using stores [OF u1 [unfolded that]] by simp
  have w2: "obj o2 k2 = Some (fst c, ?w)" if "r2 = Inr x" for x using stores [OF u2 [unfolded that]] by simp
  have w3: "obj o3 k3 = Some (snd c, ?w)" if "r3 = Inr x" for x using stores [OF u3 [unfolded that]] by simp
  show ?thesis
    using assms(3) k w w2 w3 other [OF u1] other [OF u2] other [OF u3] unfolding run
    by (cases r1; cases r2; cases r3) (auto simp: add_image_def prog_simps image_row_def split: if_splits)
qed

lemma session_image_ids: "session_ok coll s \<Longrightarrow> ids_ok image_id (seq s T_images) (images (working s))"
  by (drule session_ok_working) (simp add: schema_ok_def)

lemma post_list_images_snoc:
  assumes "session_ok coll w" and "working t = images_update (\<lambda>is. is @ [i]) (working w)"
    and "image_id i = seq w T_images" and "im_post_id i = pid"
  shows "post_list_images pid t = post_list_images pid w @ [i]"
proof -
  let ?F = "filter (\<lambda>i. im_post_id i = pid) (images (working w))"
  have ids: "distinct (map image_id ?F)" "\<forall>x\<in>set ?F. image_id x < image_id i"
    using session_image_ids [OF assms(1)] assms(3) by (auto simp: ids_ok_def distinct_map_filter)
  have "sort_key image_id (?F @ [i]) = sort_key image_id ?F @ [i]"
  proof (rule sort_key_inj_key_eq)
    show "mset (?F @ [i]) = mset (sort_key image_id ?F @ [i])" by simp
    show "inj_on image_id (set (?F @ [i]))" using ids by (auto simp: distinct_map inj_on_def)
    show "sorted (map image_id (sort_key image_id ?F @ [i]))" using ids(2) by (auto simp: sorted_append)
  qed
  then show ?thesis using assms(2,4) by (simp add: post_list_images_def)
qed

lemma list_images_run:
  assumes "session_ok coll w" and "p \<in> set (post_active (working w))"
  shows "list_images (Some st) (post_id p) w =
    (Inr (map (\<lambda>i. \<lparr>pi_image_id = image_id i, pi_post_id = im_post_id i,
                    pi_image_url = st_presign st (image_content_path i) 3600\<rparr>) (post_list_images (post_id p) w)), w)"
  using sel_active [OF assms(1), of p] assms(2)
  by (simp add: list_images_def post_or_404_cases [OF assms(1)] prog_simps)

text \<open>A stand-in for Pillow: an image is its bytes, one pixel per byte and one pixel wide.\<close>

definition ref_pillow :: "nat list pillow" where
  "ref_pillow =
     \<lparr>image_open = (\<lambda>d. if d = [] then Inl (OtherError ''OSError'') else Inr d), exif_transpose = Inr,
      image_width = (\<lambda>_. 1), image_height = (\<lambda>i. int (length i)), image_mode = (\<lambda>_. ''RGB''),
      transparency_info = (\<lambda>_. False), image_convert = (\<lambda>_. Inr), image_thumbnail = (\<lambda>_. Inr),
      white_rgba = (\<lambda>_. Inr [255]), alpha_composite = (\<lambda>_. Inr), ops_fit = (\<lambda>_ i. Inr (take 300 i)),
      ops_pad = (\<lambda>_. Inr), save_webp = (\<lambda>q i. Inr (nat q # i))\<rparr>"

definition demo_bucket :: "(object_name \<times> nat list \<times> string option) list storage" where
  "demo_bucket = S3Storage ref_boto
     \<lparr>endpoint_url = None, aws_access_key_id = ''a'', aws_secret_access_key = ''s'', region_name = ''r'', path_style = True\<rparr> ''b''"

definition demo_objects :: "(object_name \<times> nat list \<times> string option) list \<Rightarrow> string \<Rightarrow> (nat list \<times> string option) option" where
  "demo_objects os k = object_at ref_boto os
     (\<lparr>endpoint_url = None, aws_access_key_id = ''a'', aws_secret_access_key = ''s'', region_name = ''r'', path_style = True\<rparr>, ''b'', k)"

lemma upload_image_refused:
  assumes "session_ok coll w"
    and "\<nexists>p c. sel_pk post_id posts pid w = Some p \<and> visible p \<and> author_id p = user_id me \<and>
      length (take (max_image_bytes + 1) (uf_data f)) \<le> max_image_bytes \<and>
      convert_image P (take (max_image_bytes + 1) (uf_data f)) = Inr c"
  shows "\<exists>e. upload_image P (Some st) now fid pid me f w = (Inl e, w)"
  using assms(2)
  by (cases "sel_pk post_id posts pid w")
    (auto simp: upload_image_def prog_simps post_or_404_cases [OF assms(1)] Let_def split: sum.splits)

lemma upload_image_accepted:
  assumes "session_ok coll w" and "sel_pk post_id posts pid w = Some p" and "visible p" and "author_id p = user_id me"
    and "length (take (max_image_bytes + 1) (uf_data f)) \<le> max_image_bytes"
    and "convert_image P (take (max_image_bytes + 1) (uf_data f)) = Inr c"
  shows "take (max_image_bytes + 1) (uf_data f) = uf_data f"
    and "upload_image P (Some st) now fid pid me f w = bindP (or_rollback (store_image st now fid pid f (uf_data f) c)) (\<lambda>img.
        returnP \<lparr>pi_image_id = image_id img, pi_post_id = im_post_id img,
                 pi_image_url = st_presign st (image_key pid ''content'' fid ''.webp'') 3600\<rparr>) w"
proof -
  show data: "take (max_image_bytes + 1) (uf_data f) = uf_data f"
    using assms(5) by (auto simp: min_def split: if_splits)
  show "upload_image P (Some st) now fid pid me f w = bindP (or_rollback (store_image st now fid pid f (uf_data f) c)) (\<lambda>img.
        returnP \<lparr>pi_image_id = image_id img, pi_post_id = im_post_id img,
                 pi_image_url = st_presign st (image_key pid ''content'' fid ''.webp'') 3600\<rparr>) w"
    using assms(2-6) unfolding upload_image_def data Let_def
    by (simp add: bindP_apply [of "post_or_404 pid"] post_or_404_cases [OF assms(1)] liftP_Inr leD)
qed

text \<open>A stored image is the last of the list of its post, under the address the upload answered with.\<close>

lemma stored_image_listed:
  fixes w t :: "'o media"
  assumes "session_ok coll w" and "p \<in> set (post_active (working w))" and "upload_keys (post_id p) fid f = (k1, k2, k3)"
    and "img = image_row now (seq w T_images) (post_id p) (k1, k2, k3)" and "committed t = working t"
    and "working t = images_update (\<lambda>is. is @ [img]) (working w)" and "seq t = (seq w)(T_images := seq w T_images + 1)"
  shows "\<exists>before. list_images (Some st) (post_id p) w = (Inr before, w) \<and> list_images (Some st) (post_id p) t =
    (Inr (before @ [\<lparr>pi_image_id = image_id img, pi_post_id = im_post_id img,
      pi_image_url = st_presign st (image_key (post_id p) ''content'' fid ''.webp'') 3600\<rparr>]), t)"
proof -
  have "session_ok coll (snd (ins_row T_images images_update (\<lambda>i. image_row now i (post_id p) (k1, k2, k3)) w))"
    using assms(1) by (intro session_ok_ins) (auto simp: schema_ok_def image_row_def intro: ids_ok_append)
  then have ok: "session_ok coll t"
    using assms(1,4-7) by (simp add: session_ok_def prog_simps)
  have "post_list_images (post_id p) t = post_list_images (post_id p) w @ [img]"
    by (rule post_list_images_snoc [OF assms(1,6)]) (simp_all add: assms(4) image_row_def)
  moreover have "p \<in> set (post_active (working t))" using assms(2) by (simp add: assms(6) post_active_def)
  ultimately show ?thesis
    using list_images_run [OF assms(1,2), of st] list_images_run [OF ok, of p st] assms(3)
    by (auto simp: assms(4) image_row_def upload_keys_def)
qed

lemma demo_bucket_ok: "storage_contract demo_bucket demo_objects"
  unfolding demo_bucket_def demo_objects_def [abs_def] by (rule refb.s3.storage_contract_axioms)

definition demo_media :: "(object_name \<times> nat list \<times> string option) list media" where
  "demo_media =
     (let d = empty_db\<lparr>posts := [demo_post 5 False]\<rparr>
      in \<lparr>committed = d, working = d, seq = (\<lambda>t. 100), objs = []\<rparr>)"

lemma demo_media_ok:
  "session_ok coll demo_media" "working demo_media = committed demo_media" "images (committed demo_media) = []"
  "posts (working demo_media) = [demo_post 5 False]" "visible (demo_post 5 False)"
  by (simp_all add: session_ok_def schema_ok_def demo_media_def empty_db_def ids_ok_def Let_def visible_def demo_post_def)

definition demo_file :: upload_file where
  "demo_file = \<lparr>uf_filename = Some ''a.PNG'', uf_content_type = Some ''image/png'', uf_data = [7, 8]\<rparr>"

lemma upload_image_outcome:
  fixes w t :: "'o media"
  assumes "storage_contract st obj" and "session_ok coll w" and "working w = committed w"
    and "upload_keys pid fid f = (k1, k2, k3)"
    and "upload_image P (Some st) now fid pid me f w = (r, t)"
  shows "(\<forall>e. r = Inl e \<longrightarrow> committed t = committed w \<and> working t = committed t) \<and>
    (\<forall>k. k \<notin> {k1, k2, k3} \<longrightarrow> obj (objs t) k = obj (objs w) k) \<and>
    (\<forall>resp. r = Inr resp \<longrightarrow> (\<exists>p\<in>set (post_active (working w)). \<exists>content thumbnail.
       post_id p = pid \<and> author_id p = user_id me \<and> length (uf_data f) \<le> max_image_bytes \<and>
       convert_image P (uf_data f) = Inr (content, thumbnail) \<and>
       obj (objs t) k1 = Some (uf_data f, if uf_content_type f = Some [] then None else uf_content_type f) \<and>
       obj (objs t) k2 = Some (content, Some ''image/webp'') \<and> obj (objs t) k3 = Some (thumbnail, Some ''image/webp'') \<and>
       committed t = images_update (\<lambda>is. is @ [image_row now (seq w T_images) pid (k1, k2, k3)]) (committed w) \<and>
       (\<exists>before. list_images (Some st) pid w = (Inr before, w) \<and> list_images (Some st) pid t = (Inr (before @ [resp]), t))))"
proof (cases "\<exists>p c. sel_pk post_id posts pid w = Some p \<and> visible p \<and> author_id p = user_id me \<and>
    length (take (max_image_bytes + 1) (uf_data f)) \<le> max_image_bytes \<and>
    convert_image P (take (max_image_bytes + 1) (uf_data f)) = Inr c")
  case False
  from upload_image_refused [OF assms(2) this, of st now fid] obtain e where "(r, t) = (Inl e, w)" using assms(5) by metis
  with assms(3) show ?thesis by simp
next
  case True
  then obtain p c where p: "sel_pk post_id posts pid w = Some p" "visible p" and me: "author_id p = user_id me"
    and len: "length (take (max_image_bytes + 1) (uf_data f)) \<le> max_image_bytes"
    and c: "convert_image P (take (max_image_bytes + 1) (uf_data f)) = Inr c" by blast
  note data = upload_image_accepted(1) [OF assms(2) p me len c]
    and run = upload_image_accepted(2) [OF assms(2) p me len c, of st now fid]
  obtain r1 t1 where s1: "store_image st now fid pid f (uf_data f) c w = (r1, t1)" by (rule prod.exhaust)
  note store = store_image_run [OF assms(1,4) s1]
  show ?thesis
  proof (cases r1)
    case (Inl e)
    then have "r = Inl e" "t = rollback t1" using run assms(5) s1 by (auto simp: or_rollback_def prog_simps)
    then show ?thesis using store Inl by auto
  next
    case (Inr img)
    then have t: "t = t1" and r: "r = Inr \<lparr>pi_image_id = image_id img, pi_post_id = im_post_id img,
        pi_image_url = st_presign st (image_key pid ''content'' fid ''.webp'') 3600\<rparr>"
      using run assms(5) s1 by (auto simp: or_rollback_def prog_simps)
    have act: "p \<in> set (post_active (working w))" "post_id p = pid"
      using p posts.sel_working [OF p(1)] by (auto simp: post_active_visible)
    have lists: "\<exists>before. list_images (Some st) pid w = (Inr before, w) \<and>
        list_images (Some st) pid t = (Inr (before @ [resp]), t)" if "r = Inr resp" for resp
      using stored_image_listed [OF assms(2) act(1), unfolded act(2), OF assms(4), of img now t st] store Inr t that
      unfolding r by simp
    have img: "img = image_row now (seq w T_images) pid (k1, k2, k3)" using store Inr by blast
    have "\<forall>k. k \<notin> {k1, k2, k3} \<longrightarrow> obj (objs t) k = obj (objs w) k" using store unfolding t by blast
    moreover have "obj (objs t) k1 = Some (uf_data f, if uf_content_type f = Some [] then None else uf_content_type f) \<and>
        obj (objs t) k2 = Some (fst c, Some ''image/webp'') \<and> obj (objs t) k3 = Some (snd c, Some ''image/webp'') \<and>
        committed t = images_update (\<lambda>is. is @ [image_row now (seq w T_images) pid (k1, k2, k3)]) (committed w)"
      using store Inr assms(3) unfolding t img by simp
    moreover have "convert_image P (uf_data f) = Inr (fst c, snd c)" "length (uf_data f) \<le> max_image_bytes"
      using c len unfolding data by simp_all
    moreover have "\<forall>e. r \<noteq> Inl e" using r by simp
    ultimately show ?thesis using act me lists by blast
  qed
qed

text \<open>
  A key longer than its column, as a long extension of the file name makes it: the INSERT fails after the three uploads,
  the session is rolled back, and nobody removes the objects.
\<close>

lemma store_image_too_long:
  assumes "storage_contract st obj" and "upload_keys pid fid f = (k1, k2, k3)"
    and "st_upload st k1 d (uf_content_type f) (objs w) = (Inr x1, o1)"
    and "st_upload st k2 (fst c) (Some ''image/webp'') o1 = (Inr x2, o2)"
    and "st_upload st k3 (snd c) (Some ''image/webp'') o2 = (Inr x3, o3)" and "\<exists>k\<in>{k1, k2, k3}. 500 < length k"
  shows "store_image st now fid pid f d c w = (Inl (SQLAlchemyError OtherSqlError), w\<lparr>objs := o3\<rparr>)"
    and "obj o3 k1 = Some (d, if uf_content_type f = Some [] then None else uf_content_type f)"
    and "obj o3 k2 = Some (fst c, Some ''image/webp'')" and "obj o3 k3 = Some (snd c, Some ''image/webp'')"
proof -
  have k: "k1 \<noteq> k2" "k1 \<noteq> k3" "k2 \<noteq> k3" using upload_keys_distinct [OF assms(2)] by simp_all
  have "store_image st now fid pid f d c w = add_image now pid k1 k2 k3 (w\<lparr>objs := o3\<rparr>)"
    using assms(2-6) by (auto simp: store_image_def upload_keys_def Let_def bindP_def on_objs_def add_image_def raiseP_def)
  then show "store_image st now fid pid f d c w = (Inl (SQLAlchemyError OtherSqlError), w\<lparr>objs := o3\<rparr>)"
    using assms(6) by (auto simp: add_image_def raiseP_def)
  note stores = storage_contract.upload_stores [OF assms(1)]
  from stores [OF assms(3)] stores [OF assms(4)] stores [OF assms(5)] k
  show "obj o3 k1 = Some (d, if uf_content_type f = Some [] then None else uf_content_type f)"
    and "obj o3 k2 = Some (fst c, Some ''image/webp'')" and "obj o3 k3 = Some (snd c, Some ''image/webp'')" by simp_all
qed

section \<open>Properties\<close>

text \<open>A name whose extension alone fills the column.\<close>

definition demo_long_file :: upload_file where
  "demo_long_file = demo_file\<lparr>uf_filename := Some (''a.'' @ replicate 500 CHR ''b'')\<rparr>"

lemma demo_long_file_ok:
  assumes "upload_keys 5 ''id'' demo_long_file = (k1, k2, k3)"
  shows "500 < length k1"
proof -
  let ?n = "''a'' @ CHR ''.'' # replicate 500 CHR ''b''"
  have "path_name ?n = ?n"
    by (simp add: path_name_def split_on_none)
  moreover have "after_last CHR ''.'' ?n = replicate 500 CHR ''b''"
    by (rule after_last_append) simp
  ultimately have "path_suffix ?n = CHR ''.'' # replicate 500 CHR ''b''"
    by (simp add: path_suffix_def Let_def)
  then have "path_suffix (''a.'' @ replicate 500 CHR ''b'') = CHR ''.'' # replicate 500 CHR ''b''" by simp
  then show ?thesis
    using assms by (auto simp: upload_keys_def image_key_def demo_long_file_def lower_def)
qed

text \<open>
  C25.  Uploading an image.  Only the author uploads to a visible post, at most ten megabytes, and only
  what Pillow can convert.  A request that succeeds has stored the bytes as uploaded and the two
  conversions under three different keys, committed exactly one row that names them, and the list
  of images gets exactly this image at its end.  A request that fails, wherever it fails, leaves the
  database as it was; no upload touches any other object.  A request whose uploads succeed and whose
  INSERT fails (a key of more than 500 characters) leaves its three objects behind.
\<close>

theorem upload_image_contract:
  fixes w t :: "'o media"
  assumes "storage_contract st obj" and "session_ok coll w" and "working w = committed w"
    and "upload_keys pid fid f = (k1, k2, k3)"
    and "upload_image P (Some st) now fid pid me f w = (r, t)"
  shows "(\<forall>e. r = Inl e \<longrightarrow> committed t = committed w \<and> working t = committed t) \<and>
    (\<forall>k. k \<notin> {k1, k2, k3} \<longrightarrow> obj (objs t) k = obj (objs w) k) \<and>
    (\<forall>resp. r = Inr resp \<longrightarrow> (\<exists>p\<in>set (post_active (working w)). \<exists>content thumbnail.
       post_id p = pid \<and> author_id p = user_id me \<and> length (uf_data f) \<le> max_image_bytes \<and>
       convert_image P (uf_data f) = Inr (content, thumbnail) \<and>
       obj (objs t) k1 = Some (uf_data f, if uf_content_type f = Some [] then None else uf_content_type f) \<and>
       obj (objs t) k2 = Some (content, Some ''image/webp'') \<and> obj (objs t) k3 = Some (thumbnail, Some ''image/webp'') \<and>
       committed t = images_update (\<lambda>is. is @ [image_row now (seq w T_images) pid (k1, k2, k3)]) (committed w) \<and>
       (\<exists>before. list_images (Some st) pid w = (Inr before, w) \<and> list_images (Some st) pid t = (Inr (before @ [resp]), t)))) \<and>
    (\<forall>p\<in>set (post_active (working w)). \<forall>content thumbnail x1 x2 x3 o1 o2 o3.
       post_id p = pid \<and> author_id p = user_id me \<and> length (uf_data f) \<le> max_image_bytes \<and>
       convert_image P (uf_data f) = Inr (content, thumbnail) \<and>
       st_upload st k1 (uf_data f) (uf_content_type f) (objs w) = (Inr x1, o1) \<and>
       st_upload st k2 content (Some ''image/webp'') o1 = (Inr x2, o2) \<and>
       st_upload st k3 thumbnail (Some ''image/webp'') o2 = (Inr x3, o3) \<and> (\<exists>k\<in>{k1, k2, k3}. 500 < length k) \<longrightarrow>
       r = Inl (SQLAlchemyError OtherSqlError) \<and> images (committed t) = images (committed w) \<and>
       obj (objs t) k1 = Some (uf_data f, if uf_content_type f = Some [] then None else uf_content_type f) \<and>
       obj (objs t) k2 = Some (content, Some ''image/webp'') \<and> obj (objs t) k3 = Some (thumbnail, Some ''image/webp''))"
proof -
  have orphans: "r = Inl (SQLAlchemyError OtherSqlError) \<and> images (committed t) = images (committed w) \<and>
      obj (objs t) k1 = Some (uf_data f, if uf_content_type f = Some [] then None else uf_content_type f) \<and>
      obj (objs t) k2 = Some (content, Some ''image/webp'') \<and> obj (objs t) k3 = Some (thumbnail, Some ''image/webp'')"
    if p: "p \<in> set (post_active (working w))" "post_id p = pid" "author_id p = user_id me"
      and data: "length (uf_data f) \<le> max_image_bytes" "convert_image P (uf_data f) = Inr (content, thumbnail)"
      and up: "st_upload st k1 (uf_data f) (uf_content_type f) (objs w) = (Inr x1, o1)"
        "st_upload st k2 content (Some ''image/webp'') o1 = (Inr x2, o2)"
        "st_upload st k3 thumbnail (Some ''image/webp'') o2 = (Inr x3, o3)" "\<exists>k\<in>{k1, k2, k3}. 500 < length k"
    for p content thumbnail x1 x2 x3 o1 o2 o3
  proof -
    have sel: "sel_pk post_id posts pid w = Some p" "visible p"
      using sel_active [OF assms(2), of p] p(1,2) by simp_all
    have take: "take (max_image_bytes + 1) (uf_data f) = uf_data f" using data(1) by simp
    note run = upload_image_accepted(2) [OF assms(2) sel p(3), where f = f and c = "(content, thumbnail)", unfolded take, OF data]
    note long = store_image_too_long [OF assms(1,4), where c = "(content, thumbnail)", unfolded fst_conv snd_conv, OF up]
    have "upload_image P (Some st) now fid pid me f w = (Inl (SQLAlchemyError OtherSqlError), rollback (w\<lparr>objs := o3\<rparr>))"
      unfolding run using long(1) by (simp add: or_rollback_def prog_simps)
    then have "r = Inl (SQLAlchemyError OtherSqlError)" "t = rollback (w\<lparr>objs := o3\<rparr>)" using assms(5) by simp_all
    with long(2-4) show ?thesis by simp
  qed
  note outcome = upload_image_outcome [OF assms]
  show ?thesis
    by (intro conjI outcome [THEN conjunct1] outcome [THEN conjunct2, THEN conjunct1] outcome [THEN conjunct2, THEN conjunct2])
      (intro ballI allI impI, elim conjE, rule orphans)
qed

theorem upload_image_contract_witness:
  "(\<exists>resp t. upload_image ref_pillow (Some demo_bucket) 9 ''id'' 5 (demo_user 1 ''a@x'') demo_file demo_media = (Inr resp, t) \<and>
     demo_objects (objs t) ''posts/5/original/id.png'' = Some ([7, 8], Some ''image/png'') \<and>
     length (images (committed t)) = 1) \<and>
   (\<exists>t. upload_image ref_pillow (Some demo_bucket) 9 ''id'' 5 (demo_user 1 ''a@x'') demo_long_file demo_media =
       (Inl (SQLAlchemyError OtherSqlError), t) \<and>
     images (committed t) = [] \<and> demo_objects (objs t) ''posts/5/content/id.webp'' = Some ([85, 7, 8], Some ''image/webp''))"
proof (rule conjI)
  have up: "\<exists>o2. st_upload demo_bucket k d ct o1 = (Inr k, o2)" for k d ct o1
    by (simp add: demo_bucket_def S3Storage_def S3Storage_upload_def ref_boto_def prog_simps)
  let ?f = demo_long_file
  obtain k1 k2 k3 where k': "upload_keys 5 ''id'' ?f = (k1, k2, k3)" by (rule prod_cases3)
  obtain r' t' where r': "upload_image ref_pillow (Some demo_bucket) 9 ''id'' 5 (demo_user 1 ''a@x'') ?f demo_media = (r', t')"
    by (rule prod.exhaust)
  obtain o1 where o1: "st_upload demo_bucket k1 (uf_data ?f) (uf_content_type ?f) (objs demo_media) = (Inr k1, o1)" using up by blast
  obtain o2 where o2: "st_upload demo_bucket k2 [85, 7, 8] (Some ''image/webp'') o1 = (Inr k2, o2)" using up by blast
  obtain o3 where o3: "st_upload demo_bucket k3 [80, 7, 8] (Some ''image/webp'') o2 = (Inr k3, o3)" using up by blast
  have conv: "convert_image ref_pillow [7, 8] = Inr ([85, 7, 8], [80, 7, 8])"
    by (simp add: convert_image_def resize_image_def create_thumbnail_image_def bindE_def ref_pillow_def Let_def
        MAX_IMAGE_HEIGHT_PX_def)
  have p: "demo_post 5 False \<in> set (post_active (working demo_media))" "post_id (demo_post 5 False) = 5"
    "author_id (demo_post 5 False) = user_id (demo_user 1 ''a@x'')" "length (uf_data ?f) \<le> max_image_bytes"
    "convert_image ref_pillow (uf_data ?f) = Inr ([85, 7, 8], [80, 7, 8])" "\<exists>k\<in>{k1, k2, k3}. 500 < length k"
    using demo_media_ok(4,5) demo_long_file_ok [OF k'] conv
    by (simp_all add: post_active_visible demo_post_def demo_user_def demo_long_file_def demo_file_def max_image_bytes_def)
  have k2: "k2 = ''posts/5/content/id.webp''"
  proof -
    have "show_int 5 = ''5''" by code_simp
    then show ?thesis using k' by (auto simp: upload_keys_def image_key_def)
  qed
  note upload_image_contract [OF demo_bucket_ok demo_media_ok(1,2) k' r', THEN conjunct2, THEN conjunct2, THEN conjunct2]
  then show "\<exists>t. upload_image ref_pillow (Some demo_bucket) 9 ''id'' 5 (demo_user 1 ''a@x'') ?f demo_media =
       (Inl (SQLAlchemyError OtherSqlError), t) \<and>
     images (committed t) = [] \<and> demo_objects (objs t) ''posts/5/content/id.webp'' = Some ([85, 7, 8], Some ''image/webp'')"
    using p o1 o2 o3 r' unfolding k2 demo_media_ok(3) by blast
next
  obtain r t where r: "upload_image ref_pillow (Some demo_bucket) 9 ''id'' 5 (demo_user 1 ''a@x'') demo_file demo_media = (r, t)"
    by (rule prod.exhaust)
  have k: "upload_keys 5 ''id'' demo_file =
      (''posts/5/original/id.png'', ''posts/5/content/id.webp'', ''posts/5/thumbnail/id.webp'')"
  proof -
    have "lower (path_suffix ''a.PNG'') = ''.png''" "show_int 5 = ''5''" by code_simp+
    then show ?thesis by (simp add: upload_keys_def image_key_def demo_file_def)
  qed
  have "convert_image ref_pillow [7, 8] = Inr ([85, 7, 8], [80, 7, 8])"
    by (simp add: convert_image_def resize_image_def create_thumbnail_image_def bindE_def ref_pillow_def Let_def
        MAX_IMAGE_HEIGHT_PX_def)
  moreover have "fst (store_image demo_bucket 9 ''id'' 5 demo_file d c demo_media) =
      Inr (image_row 9 100 5 (upload_keys 5 ''id'' demo_file))" for d c
    by (simp add: store_image_def on_objs_def prog_simps demo_bucket_def S3Storage_def S3Storage_upload_def ref_boto_def
        add_image_def k [unfolded upload_keys_def, simplified] Let_def image_row_def)
      (simp add: demo_media_def Let_def k)
  then obtain w where "store_image demo_bucket 9 ''id'' 5 demo_file [7, 8] ([85, 7, 8], [80, 7, 8]) demo_media =
      (Inr (image_row 9 100 5 (upload_keys 5 ''id'' demo_file)), w)"
    by (metis prod.collapse)
  moreover have "post_or_404 5 demo_media = (Inr (demo_post 5 False), demo_media)"
    by (simp add: post_or_404_cases [OF demo_media_ok(1)] sel_pk_def demo_media_ok(4,5))
  moreover have "uf_data demo_file = [7, 8]" by (simp add: demo_file_def)
  moreover have "take (Suc max_image_bytes) [7, 8] = [7, 8 :: nat]" "\<not> max_image_bytes < Suc (Suc 0)"
    by (simp_all add: max_image_bytes_def)
  ultimately have "\<exists>resp. r = Inr resp"
    using r by (simp add: upload_image_def prog_simps or_rollback_def Let_def) auto
  then obtain resp where resp: "r = Inr resp" by blast
  note c = upload_image_contract [OF demo_bucket_ok demo_media_ok(1,2) k r]
  have "demo_objects (objs t) ''posts/5/original/id.png'' =
      Some (uf_data demo_file, if uf_content_type demo_file = Some [] then None else uf_content_type demo_file)"
    using c resp by blast
  then have 1: "demo_objects (objs t) ''posts/5/original/id.png'' = Some ([7, 8], Some ''image/png'')"
    by (simp add: demo_file_def)
  obtain x where "committed t = images_update (\<lambda>is. is @ [x]) (committed demo_media)"
    using c resp by blast
  then have "length (images (committed t)) = 1" by (simp add: demo_media_ok(3))
  with 1 resp r show "\<exists>resp t. upload_image ref_pillow (Some demo_bucket) 9 ''id'' 5 (demo_user 1 ''a@x'') demo_file demo_media = (Inr resp, t) \<and>
     demo_objects (objs t) ''posts/5/original/id.png'' = Some ([7, 8], Some ''image/png'') \<and>
     length (images (committed t)) = 1" by blast
qed

end
