(* ===== verification/Frames.thy ===== *)
theory Frames
  imports Auth Menus Reports Images
begin

text \<open>
  What each request leaves alone.  \<open>framed coll f v g\<close> says that the schema holds, that the part \<open>f\<close> of the
  database has the value \<open>v\<close>, committed and in the open transaction, and that the rest of the state
  (Redis, the object store) satisfies \<open>g\<close>.  A program keeps it if it writes only tables \<open>f\<close> is
  \<open>blind\<close> to; one lemma per operation says which tables these are.
\<close>

section \<open>Frames\<close>

definition framed ::
  "(string \<Rightarrow> string) \<Rightarrow> (db \<Rightarrow> 'a) \<Rightarrow> 'a \<Rightarrow> ('x \<Rightarrow> bool) \<Rightarrow> 'x session_scheme \<Rightarrow> bool" where
  "framed coll f v g s \<longleftrightarrow>
     session_ok coll s \<and> f (committed s) = v \<and> f (working s) = v \<and> g (session.more s)"

definition blind :: "(db \<Rightarrow> 'a) \<Rightarrow> (('row list \<Rightarrow> 'row list) \<Rightarrow> db \<Rightarrow> db) \<Rightarrow> bool" where
  "blind f put \<longleftrightarrow> (\<forall>h d. f (put h d) = f d)"

lemma blindD [simp]: "blind f put \<Longrightarrow> f (put h d) = f d"
  by (simp add: blind_def)

lemma framed_session: "framed coll f v g s \<Longrightarrow> session_ok coll s"
  by (simp add: framed_def)

named_theorems frame_rules \<open>programs that keep a frame\<close>

lemmas keeps_control = keeps_bindP keeps_catchP keeps_whenP keeps_mapP

lemma keeps_read [intro!, simp]: "keeps I (\<lambda>s. (h s, s))"
  by (simp add: keeps_def)

lemma keeps_if [intro]: "keeps I m \<Longrightarrow> keeps I n \<Longrightarrow> keeps I (if b then m else n)"
  by simp

lemma framed_commit [frame_rules]: "keeps (framed coll f v g) (modifyP commit)"
  by (auto simp: keeps_def modifyP_def framed_def)

lemma framed_rollback [frame_rules]: "keeps (framed coll f v g) (modifyP rollback)"
  by (auto simp: keeps_def modifyP_def framed_def)

lemma framed_get_db [frame_rules]: "keeps (framed coll f v g) m \<Longrightarrow> keeps (framed coll f v g) (get_db m)"
  by (rule keepsI, drule (1) keepsD) (auto simp: get_db_def framed_def intro!: session_ok_rollback split: prod.splits sum.splits)

lemma framed_or_rollback [frame_rules]:
  "keeps (framed coll f v g) m \<Longrightarrow> keeps (framed coll f v g) (or_rollback m)"
  unfolding or_rollback_def by (intro keeps_control framed_rollback keeps_raiseP)

lemma framed_protected [frame_rules]:
  "keeps (framed coll f v g) m \<Longrightarrow> keeps (framed coll f v g) (protected C S now cred m)"
  unfolding protected_def by (intro framed_get_db keeps_control keeps_get_current_user)

lemma framed_as_user [frame_rules]:
  "(\<And>me. keeps (framed coll f v g) (m me)) \<Longrightarrow> keeps (framed coll f v g) (as_user C S now cred m)"
  unfolding as_user_def by (intro framed_get_db keeps_control keeps_get_current_user)

text \<open>A frame is kept by an INSERT or an UPDATE that keeps the schema, in a table the frame does not see.\<close>

lemma framed_ins_if:
  assumes "\<And>i d. f d = v \<Longrightarrow> f (put (\<lambda>rs. rs @ [mk i]) d) = v"
    and "\<And>s :: 'x session_scheme. session_ok coll s \<Longrightarrow> session_ok coll (snd (ins_row t put mk s))"
  shows "keeps (framed coll f v (g :: 'x \<Rightarrow> bool)) (ins_row t put mk)"
proof (rule keepsI)
  fix s :: "'x session_scheme"
  assume "framed coll f v g s"
  moreover from this have "session_ok coll (snd (ins_row t put mk s))"
    by (intro assms(2)) (simp add: framed_def)
  ultimately show "framed coll f v g (snd (ins_row t put mk s))"
    using assms(1) by (simp add: framed_def ins_row_apply)
qed

lemma framed_ins:
  assumes "blind f put"
    and "\<And>s :: 'x session_scheme. session_ok coll s \<Longrightarrow> session_ok coll (snd (ins_row t put mk s))"
  shows "keeps (framed coll f v (g :: 'x \<Rightarrow> bool)) (ins_row t put mk)"
  using assms by (intro framed_ins_if) simp_all

lemma framed_upd_if:
  assumes "\<And>d. f d = v \<Longrightarrow> f (put (map (\<lambda>r. if pk r = i then h r else r)) d) = v"
    and "\<And>s :: 'x session_scheme. session_ok coll s \<Longrightarrow> session_ok coll (upd_pk pk put i h s)"
  shows "keeps (framed coll f v (g :: 'x \<Rightarrow> bool)) (modifyP (upd_pk pk put i h))"
  using assms by (auto simp: keeps_def modifyP_def framed_def upd_pk_def)

lemma framed_upd:
  assumes "blind f put"
    and "\<And>s :: 'x session_scheme. session_ok coll s \<Longrightarrow> session_ok coll (upd_pk pk put i h s)"
  shows "keeps (framed coll f v (g :: 'x \<Rightarrow> bool)) (modifyP (upd_pk pk put i h))"
  using assms by (intro framed_upd_if) simp_all

lemma framed_on_db:
  assumes "blind f put"
    and "\<And>s :: 'x session_scheme. session_ok coll s \<Longrightarrow> session_ok coll (on_db (put h) s)"
  shows "keeps (framed coll f v (g :: 'x \<Rightarrow> bool)) (modifyP (on_db (put h)))"
  using assms by (auto simp: keeps_def modifyP_def framed_def)

section \<open>Users\<close>

lemma framed_user_add [frame_rules]:
  "blind f users_update \<Longrightarrow> keeps (framed coll f v g) (user_add coll now e h n)"
proof (rule keepsI)
  fix s :: "'b session_scheme"
  assume b: "blind f users_update" and s: "framed coll f v g s"
  then have "session_ok coll (snd (user_add coll now e h n s))"
    by (intro keepsD [OF keeps_user_add]) (simp add: framed_def)
  with b s show "framed coll f v g (snd (user_add coll now e h n s))"
    by (simp add: framed_def user_add_cases split: if_splits)
qed

lemma framed_user_create [frame_rules]:
  "blind f users_update \<Longrightarrow> keeps (framed coll f v g) (user_create C coll (\<lambda>s. s) salt now body)"
  unfolding user_create_def
  by (auto intro!: keeps_control frame_rules simp: keeps_def [of _ "modifyP (\<lambda>s. s)"] modifyP_apply)

lemma framed_user_write:
  assumes "blind f users_update" "\<And>r. user_id (h r) = user_id r" and "\<And>r. user_email (h r) = user_email r"
  shows "keeps (framed coll f v g) (modifyP (upd_pk user_id users_update uid h))"
  using assms by (intro framed_upd) (auto intro!: session_ok_upd schema_ok_upd_users)

lemma framed_user_update [frame_rules]:
  "blind f users_update \<Longrightarrow> keeps (framed coll f v g) (user_update now uid nick)"
  unfolding user_update_def
  by (cases nick) (auto intro!: keeps_control frame_rules framed_user_write simp: orm_update_pk)

lemma framed_user_deactivate [frame_rules]:
  "blind f users_update \<Longrightarrow> keeps (framed coll f v g) (user_deactivate now uid)"
  unfolding user_deactivate_def
  by (auto intro!: keeps_control frame_rules framed_user_write simp: orm_update_pk)

lemma framed_user_get [frame_rules]: "keeps (framed coll f v g) (user_get uid)"
  unfolding user_get_def by (auto intro!: keeps_control split: option.split)

section \<open>Posts and images\<close>

lemma framed_post_write:
  assumes "blind f posts_update" and "\<And>r. post_id (h r) = post_id r"
  shows "keeps (framed coll f v g) (modifyP (upd_pk post_id posts_update pid h))"
  using assms by (intro framed_upd) (auto intro!: session_ok_upd schema_ok_upd_posts)

lemma framed_post_or_404 [frame_rules]: "keeps (framed coll f v g) (post_or_404 pid)"
  unfolding post_or_404_def by (auto intro!: keeps_control split: option.split)

lemma framed_get_owned [frame_rules]: "keeps (framed coll f v g) (get_owned pid me)"
  unfolding get_owned_def by (auto intro!: keeps_control frame_rules)

lemma framed_post_create [frame_rules]:
  "blind f posts_update \<Longrightarrow> keeps (framed coll f v g) (post_create now me b)"
  unfolding post_create_def post_add_def
  by (auto intro!: keeps_control frame_rules framed_ins session_ok_ins schema_ok_ins_posts)

lemma framed_post_delete [frame_rules]:
  "blind f posts_update \<Longrightarrow> keeps (framed coll f v g) (post_delete now pid me)"
  unfolding post_delete_def
  by (auto intro!: keeps_control frame_rules framed_post_write simp: post_mark_def orm_update_def stamp_post_def)

lemma framed_get_share_url [frame_rules]: "keeps (framed coll f v g) (get_share_url pid)"
  unfolding get_share_url_def by (auto intro!: keeps_control frame_rules)

lemma framed_count_likes [frame_rules]: "keeps (framed coll f v g) (count_likes R pid)"
  unfolding count_likes_def by (auto simp: keeps_def Let_def split: option.split)

lemma framed_refresh_post [frame_rules]: "keeps (framed coll f v g) (refresh_post pid)"
  unfolding refresh_post_def by (auto intro!: keeps_control split: option.split)

lemma framed_post_detail [frame_rules]:
  "blind f posts_update \<Longrightarrow> keeps (framed coll f v g) (post_detail R now pid me)"
  unfolding post_detail_def increment_views_def
  by (auto intro!: keeps_control frame_rules framed_post_write split: option.split)

lemma framed_post_update [frame_rules]:
  "blind f posts_update \<Longrightarrow> keeps (framed coll f v g) (post_update R now pid me b)"
  unfolding post_update_def
  by (auto intro!: keeps_control frame_rules framed_post_write simp: post_edit_def orm_update_def stamp_post_def)

lemma framed_add_image [frame_rules]:
  "blind f images_update \<Longrightarrow> keeps (framed coll f v g) (add_image now pid o' c t)"
  unfolding add_image_def
  by (auto intro!: keeps_control frame_rules framed_ins session_ok_ins schema_ok_ins_images)

lemma framed_on_objs [frame_rules]: "keeps (framed coll f v (\<lambda>_. True)) (on_objs m)"
  by (auto simp: keeps_def on_objs_def framed_def session_ok_def split: prod.split)

lemma framed_upload_image [frame_rules]:
  "blind f images_update \<Longrightarrow> keeps (framed coll f v (\<lambda>_. True)) (upload_image P st now fid pid me b)"
  unfolding upload_image_def store_image_def
  by (auto intro!: keeps_control frame_rules simp: Let_def split: option.split)

section \<open>Comments\<close>

lemma framed_ensure_post_exists [frame_rules]: "keeps (framed coll f v g) (ensure_post_exists pid)"
  unfolding ensure_post_exists_def by (auto intro!: keeps_control)

lemma framed_comment_owned [frame_rules]: "keeps (framed coll f v g) (comment_owned cid me)"
  unfolding comment_owned_def by (auto intro!: keeps_control split: option.split)

lemma framed_validate_words [frame_rules]: "keeps (framed coll f v g) (validate_words search ws)"
  by (induction ws) (auto intro!: keeps_control simp: Let_def split: option.split)

lemma framed_validate_mentions [frame_rules]: "keeps (framed coll f v g) (validate_mentions contains scan pid content)"
  unfolding validate_mentions_def by (rule framed_validate_words)

lemma framed_check_parent [frame_rules]: "keeps (framed coll f v g) (check_parent pid parent)"
  unfolding check_parent_def by (auto intro!: keeps_control split: option.split)

lemma framed_comment_create [frame_rules]:
  "blind f comments_update \<Longrightarrow> keeps (framed coll f v g) (comment_create contains scan now pid me b)"
  unfolding comment_create_def comment_add_def
  by (auto intro!: keeps_control frame_rules framed_ins session_ok_ins schema_ok_ins_comments)

lemma framed_comment_write:
  assumes "blind f comments_update" and "\<And>r. comment_id (h r) = comment_id r"
  shows "keeps (framed coll f v g) (modifyP (upd_pk comment_id comments_update cid h))"
  using assms by (intro framed_upd) (auto intro!: session_ok_upd schema_ok_upd_comments)

lemma framed_comment_update [frame_rules]:
  "blind f comments_update \<Longrightarrow> keeps (framed coll f v g) (comment_update contains scan now cid me content)"
  unfolding comment_update_def
  by (auto intro!: keeps_control frame_rules framed_comment_write simp: comment_edit_def orm_update_def stamp_comment_def)

lemma framed_comment_delete [frame_rules]:
  "blind f comments_update \<Longrightarrow> keeps (framed coll f v g) (comment_delete now cid me)"
  unfolding comment_delete_def
  by (auto intro!: keeps_control frame_rules framed_comment_write simp: comment_mark_def orm_update_def stamp_comment_def)

lemma framed_list_comments [frame_rules]: "keeps (framed coll f v g) (list_comments scan pid params)"
  unfolding list_comments_def by (auto intro!: keeps_control frame_rules)

lemma framed_list_replies [frame_rules]: "keeps (framed coll f v g) (list_replies scan cid)"
  unfolding list_replies_def by (auto intro!: keeps_control frame_rules)

section \<open>Menus\<close>

lemma framed_menu_get_or_404 [frame_rules]: "keeps (framed coll f v g) (menu_get_or_404 mid)"
  unfolding menu_get_or_404_def by (auto intro!: keeps_control split: option.split)

lemma framed_ensure_parent_exists [frame_rules]: "keeps (framed coll f v g) (ensure_parent_exists pid)"
  unfolding ensure_parent_exists_def by (auto intro!: keeps_control split: option.split)

lemma framed_ensure_name_available [frame_rules]: "keeps (framed coll f v g) (ensure_name_available ncoll pid name)"
  unfolding ensure_name_available_def by (auto intro!: keeps_control)

lemma framed_menu_flush:
  assumes "blind f menus_update" and "\<And>r. menu_id (h r) = menu_id r"
  shows "keeps (framed coll f v g) (menu_flush ncoll (upd_pk menu_id menus_update mid h))"
proof -
  have "keeps (framed coll f v g) (modifyP (upd_pk menu_id menus_update mid h))"
    using assms by (intro framed_upd) (auto intro!: session_ok_upd schema_ok_upd_menus)
  then show ?thesis by (auto simp: keeps_def menu_flush_def modifyP_apply)
qed

lemma framed_menu_create [frame_rules]:
  "blind f menus_update \<Longrightarrow> keeps (framed coll f v g) (menu_create ncoll (\<lambda>s. s) now b)"
  unfolding menu_create_def
  by (auto intro!: keeps_control frame_rules framed_ins session_ok_ins schema_ok_ins_menus
      simp: keeps_def [of _ "modifyP (\<lambda>s. s)"] modifyP_apply)

lemma framed_menu_write [frame_rules]:
  "blind f menus_update \<Longrightarrow> keeps (framed coll f v g) (menu_write ncoll now mid name pid)"
  unfolding menu_write_def
  by (auto intro!: keeps_control frame_rules framed_menu_flush split: option.split simp: orm_update_def stamp_menu_def)

lemma framed_menu_update_rest [frame_rules]:
  "blind f menus_update \<Longrightarrow> keeps (framed coll f v g) (menu_update_rest ncoll now m b)"
  unfolding menu_update_rest_def by (auto intro!: keeps_control frame_rules simp: Let_def)

lemma framed_menu_update:
  assumes "blind f menus_update" and "framed coll f v g s" and "menu_update ncoll now mid b s = Some (r, t)"
  shows "framed coll f v g t"
  using assms(3) by (rule menu_update_end) (auto intro: assms keepsD [OF framed_menu_update_rest])

lemma framed_menu_delete [frame_rules]:
  "blind f menus_update \<Longrightarrow> keeps (framed coll f v g) (menu_delete ncoll now mid)"
  unfolding menu_delete_def
  by (auto intro!: keeps_control frame_rules framed_menu_flush simp: orm_update_def stamp_menu_def)

section \<open>Reports\<close>

lemma framed_validate_report [frame_rules]: "keeps (framed coll f v g) (validate_report ty pid cid reported st)"
  by (simp add: keeps_def)

lemma framed_report_create [frame_rules]:
  "blind f reports_update \<Longrightarrow> keeps (framed coll f v g) (report_create now me q)"
  unfolding report_create_def report_add_def
  by (auto intro!: keeps_control frame_rules framed_ins session_ok_ins schema_ok_ins_reports)

lemma framed_update_report [frame_rules]:
  "blind f reports_update \<Longrightarrow> keeps (framed coll f v g) (update_report now r st ty rv)"
  unfolding update_report_def
  by (auto intro!: keeps_control frame_rules framed_on_db [where put = reports_update] session_ok_on_db schema_ok_upd_reports
      simp: decide_def orm_update_def stamp_report_def)

lemma framed_hide_if_published [frame_rules]:
  "blind f posts_update \<Longrightarrow> keeps (framed coll f v g) (hide_if_published now pid)"
  unfolding hide_if_published_def
  by (auto intro!: keeps_control frame_rules framed_post_write split: option.split simp: orm_update_def stamp_post_def)

lemma framed_process_report [frame_rules]:
  "blind f reports_update \<Longrightarrow> blind f posts_update \<Longrightarrow> blind f sanctions_update \<Longrightarrow>
   keeps (framed coll f v g) (process_report now rid rv q)"
  unfolding process_report_def hide_reported_content_def report_sanction_def add_user_sanction_def
  by (auto intro!: keeps_control frame_rules framed_ins session_ok_ins schema_ok_ins_sanctions
      split: option.split report_content_type.split)

section \<open>Redis\<close>

text \<open>
  What the requests do to Redis: the events of \<open>Token_Store\<close>, with pending likes as \<open>add_like\<close> and
  \<open>delete_like\<close> write them, and attempts counted in windows of \<open>W\<close> seconds.
\<close>

fun genuine :: "nat \<Rightarrow> store_event \<Rightarrow> bool" where
  "genuine W (Ev_like_set k x) \<longleftrightarrow> (\<exists>p a. ''post_like:'' @ k = post_like_key p a) \<and> x \<in> {''1'', ''0''}"
| "genuine W (Ev_ratelimit_hit k w) \<longleftrightarrow> w = W"
| "genuine W _ \<longleftrightarrow> True"

definition on_more :: "('r \<Rightarrow> bool) \<Rightarrow> ('r, unit) app_ext \<Rightarrow> bool" where
  "on_more J m = J (kv (session.extend \<lparr>committed = empty_db, working = empty_db, seq = (\<lambda>_. 0)\<rparr> m))"

lemma framed_kv:
  fixes w :: "'r app"
  shows "framed coll f v (on_more J) w \<longleftrightarrow> session_ok coll w \<and> f (committed w) = v \<and> f (working w) = v \<and> J (kv w)"
  by (cases w) (simp add: framed_def on_more_def session.defs)

lemma framed_on_kv:
  assumes "\<And>s. J s \<Longrightarrow> J (h s)"
  shows "keeps (framed coll f v (on_more J)) (modifyP (on_kv h))"
  using assms by (auto simp: keeps_def modifyP_def framed_kv session_ok_def)

locale kv_steps =
  fixes R :: "'r redis_api" and ttl W :: nat and J :: "'r \<Rightarrow> bool"
  assumes step: "genuine W e \<Longrightarrow> J s \<Longrightarrow> J (store_step R ttl e s)"
begin

abbreviation I :: "(string \<Rightarrow> string) \<Rightarrow> (db \<Rightarrow> 'a) \<Rightarrow> 'a \<Rightarrow> 'r app \<Rightarrow> bool" where
  "I coll f v \<equiv> framed coll f v (on_more J)"

lemmas steps =
  step [of "Ev_save _ _ _", simplified] step [of "Ev_rotate _ _ _", simplified] step [of "Ev_revoke _ _", simplified]
  step [of "Ev_revoke_all _", simplified] step [of "Ev_tick _", simplified] step [of "Ev_ratelimit_hit _ _", simplified]
  step [of "Ev_ratelimit_reset _", simplified] step [of "Ev_like_del _", simplified] step [of "Ev_like_set _ _", simplified]

lemma hit_kept: "J s \<Longrightarrow> J (snd (hit R (''ratelimit:'' @ k) n W s))"
  using step [of "Ev_ratelimit_hit k W" s] by (simp add: hit_def Let_def)

lemma keeps_check_keys:
  assumes "W = login_rate_limit_window_seconds A" and "\<And>k. k \<in> set ks \<Longrightarrow> \<exists>k'. k = ''ratelimit:'' @ k'"
  shows "keeps (I coll f v) (check_keys R A ks)"
  using assms(2)
proof (induction ks)
  case (Cons k ks)
  then obtain k' where k: "k = ''ratelimit:'' @ k'" by auto
  show ?case
  proof (rule keepsI)
    fix w assume w: "I coll f v w"
    obtain r s where h: "hit R k (login_rate_limit_max_attempts A) (login_rate_limit_window_seconds A) (kv w) = (r, s)"
      by (rule prod.exhaust)
    have "J s"
      using hit_kept [of "kv w" k' "login_rate_limit_max_attempts A"] h w
      unfolding k assms(1) by (simp add: framed_kv)
    with w have "I coll f v (on_kv (\<lambda>_. s) w)" by (simp add: framed_kv session_ok_def)
    with Cons h show "I coll f v (snd (check_keys R A (k # ks) w))"
      by (auto simp: Let_def keeps_def)
  qed
qed simp

lemma keeps_check_login:
  assumes "W = login_rate_limit_window_seconds A"
  shows "keeps (I coll f v) (check_login_rate_limit R A email ip)"
  unfolding check_login_rate_limit_def using assms by (rule keeps_check_keys) (auto simp: rate_limit_keys_def)

lemma keeps_reset_login: "keeps (I coll f v) (modifyP (on_kv (reset_login_rate_limit R email ip)))"
proof (rule framed_on_kv)
  fix s assume "J s"
  then show "J (reset_login_rate_limit R email ip s)"
    using steps(7) [of _ "''login:email:'' @ lower email"] steps(7) [of _ "''login:ip:'' @ ip"]
    by (simp add: reset_login_rate_limit_def rate_limit_keys_def reset_def)
qed

lemma keeps_issue_tokens:
  assumes "ttl = ttl_seconds (a_jwt A)"
  shows "keeps (I coll f v) (issue_tokens R C A now i j uid)"
  using steps(1) assms
  by (auto simp: keeps_def issue_tokens_def framed_kv session_ok_def Let_def split: prod.split)

lemma keeps_login:
  assumes "ttl = ttl_seconds (a_jwt A)" and "W = login_rate_limit_window_seconds A"
  shows "keeps (I coll f v) (login R C A coll' now i j email password ip)"
  unfolding login_def using assms
  by (auto intro!: keeps_control keeps_check_login keeps_reset_login keeps_issue_tokens simp: Let_def split: option.split)

lemma keeps_refresh:
  assumes "ttl = ttl_seconds (a_jwt A)"
  shows "keeps (I coll f v) (refresh R C A now i j tok)"
  unfolding refresh_def refresh_check_def refresh_rotate_def using assms
  by (auto intro!: keeps_control framed_on_kv keeps_issue_tokens steps simp: Let_def split: option.split prod.split)

lemma keeps_logout: "keeps (I coll f v) (logout R C A now tok)"
  unfolding logout_def by (auto intro!: framed_on_kv steps split: option.split sum.split)

lemma keeps_logout_all: "keeps (I coll f v) (logout_all R uid)"
  using steps(4) [of _ uid]
  by (auto simp: keeps_def logout_all_def framed_kv session_ok_def split: prod.split) force

lemma like_set_kept: "J s \<Longrightarrow> x \<in> {''1'', ''0''} \<Longrightarrow> J (r_set R (post_like_key p a) x s)"
  using step [of "Ev_like_set (show_int p @ CHR '':'' # show_int a) x" s]
  by (auto simp: post_like_key_def like_prefix_def)

lemma keeps_like: "keeps (I coll f v) (like_post R pid me)"
  unfolding like_post_def add_like_def
  by (auto intro!: keeps_control frame_rules framed_on_kv like_set_kept)

lemma keeps_unlike: "keeps (I coll f v) (unlike_post R pid me)"
  unfolding unlike_post_def delete_like_def
  by (auto intro!: keeps_control framed_on_kv like_set_kept)

lemma keeps_sync_key:
  assumes "blind f likes_update"
  shows "keeps (I coll f v) (sync_key R now key)"
proof (rule keepsI)
  fix w assume w: "I coll f v w"
  then have ok: "session_ok coll w" by (simp add: framed_kv)
  have ins: "I coll f v (on_db (likes_update (\<lambda>rs. rs @ [l])) (take_pk T_likes w))"
    if "find (\<lambda>l. like_key l = (p, a)) (likes (working w)) = None" "like_key l = (p, a)" "like_id l = seq w T_likes" for p a l
  proof -
    have "like_key l \<notin> like_key ` set (likes (working w))"
      using that find_like_iff [of p a "working w"] by (simp add: has_like_def)
    then have "session_ok coll (snd (ins_row T_likes likes_update (\<lambda>i. l\<lparr>like_id := i\<rparr>) w))"
      using ok by (intro session_ok_ins schema_ok_ins_likes) (simp_all add: like_key_def)
    moreover have "l\<lparr>like_id := seq w T_likes\<rparr> = l" using that(3) by simp
    ultimately show ?thesis using w assms by (simp add: ins_row_apply framed_kv)
  qed
  have del: "I coll f v (on_db (likes_update (filter P)) w)" for P
    using w assms by (auto simp: framed_kv intro!: session_ok_on_db schema_ok_filter_likes)
  show "I coll f v (snd (sync_key R now key w))"
    using w ins del
    by (auto simp: sync_key_def prog_simps select_like_find [OF ok] like_key_def
        split: list.splits option.splits)
qed

lemma fold_like_del: "(\<And>k. k \<in> set ks \<Longrightarrow> \<exists>k'. k = ''post_like:'' @ k') \<Longrightarrow> J s \<Longrightarrow> J (fold (r_delete R) ks s)"
proof (induction ks arbitrary: s)
  case (Cons k ks)
  from Cons.prems(1) obtain k' where "k = ''post_like:'' @ k'" by auto
  with Cons steps(8) [of s k'] show ?case by simp
qed simp

lemma keeps_sync:
  assumes "blind f likes_update"
  shows "keeps (I coll f v) (post_like_sync R (\<lambda>w. w) now)"
  unfolding post_like_sync_def
proof (intro framed_get_db keepsI)
  fix w assume w: "I coll f v w"
  let ?ks = "scan_prefix R ''post_like:'' (kv w)"
  have "\<exists>k'. k = ''post_like:'' @ k'" if "k \<in> set ?ks" for k
  proof -
    from that have "take (length ''post_like:'') k = ''post_like:''" by (simp add: scan_prefix_def)
    then show ?thesis by (metis append_take_drop_id)
  qed
  then have "J s \<Longrightarrow> J (fold (r_delete R) ?ks s)" for s by (rule fold_like_del)
  then have "keeps (I coll f v) (bindP (mapP (sync_key R now) ?ks) (\<lambda>_. bindP (modifyP commit) (\<lambda>_.
      bindP (modifyP (\<lambda>w. w)) (\<lambda>_. modifyP (on_kv (fold (r_delete R) ?ks))))))"
    using assms by (intro keeps_control keeps_sync_key framed_commit framed_on_kv) (simp_all add: keeps_def modifyP_apply)
  from keepsD [OF this w] show "I coll f v (snd (scan_like_to_db R (\<lambda>w. w) now w))"
    by (simp add: scan_like_to_db_def bindP_apply getsP_apply)
qed

end

end
