(* ===== verification/System.thy ===== *)
theory System
  imports Frames
begin

text \<open>
  The running application: every endpoint, the scheduled like job and the passing of time, as the steps
  of one machine whose state is the database session, Redis and the object store.  Requests run one
  after the other.  The invariants of the components hold together over every run.
\<close>

section \<open>Requests\<close>

text \<open>The deployment: the services outside the repository, the settings, and how the database compares text.\<close>

record ('r, 'o, 'i) deployment =
  d_redis :: "'r redis_api"
  d_pillow :: "'i pillow"
  d_boto :: "'o boto3"
  d_storage :: storage_settings
  d_crypto :: crypto
  d_auth :: auth_settings
  d_mail_coll :: "string \<Rightarrow> string"
  d_name_coll :: "utext \<Rightarrow> utext"
  d_contains :: "utext \<Rightarrow> utext \<Rightarrow> bool"
  d_scan_users :: "user list \<Rightarrow> user list"

abbreviation d_jwt :: "('r, 'o, 'i) deployment \<Rightarrow> jwt_settings" where
  "d_jwt D \<equiv> a_jwt (d_auth D)"

abbreviation d_window :: "('r, 'o, 'i) deployment \<Rightarrow> nat" where
  "d_window D \<equiv> login_rate_limit_window_seconds (d_auth D)"

abbreviation d_ttl :: "('r, 'o, 'i) deployment \<Rightarrow> nat" where
  "d_ttl D \<equiv> ttl_seconds (d_jwt D)"

text \<open>
  The requests that write, component by component.  Everything a client sends that passes the schema of
  the endpoint, and every random value drawn, is arbitrary.  What a component's requests do to tables of other components, and to
  Redis, is not restricted here: it follows from the definitions of the endpoints.
\<close>

inductive account_request :: "('r, 'o, 'i) deployment \<Rightarrow> 'r app \<Rightarrow> 'r app \<Rightarrow> bool" for D w where
  signup: "UserCreate norm_email e p n = Some body \<Longrightarrow>
    account_request D w (snd (signup_route (d_crypto D) (d_mail_coll D) (\<lambda>w. w) salt now body w))"
| login: "account_request D w
    (snd (login_route (d_redis D) (d_crypto D) (d_auth D) (d_mail_coll D) now i j email password host w))"
| refresh: "account_request D w (snd (refresh_route (d_redis D) (d_crypto D) (d_auth D) now i j cookie w))"
| logout: "account_request D w (snd (logout_route (d_redis D) (d_crypto D) (d_auth D) now cookie w))"
| logout_all: "account_request D w (snd (logout_all_route (d_redis D) (d_crypto D) (d_auth D) now cred w))"
| update_me: "UserUpdate v = Some nick \<Longrightarrow> account_request D w (snd (update_me (d_crypto D) (d_jwt D) now cred nick w))"
| deactivate_me: "account_request D w (snd (deactivate_me (d_crypto D) (d_jwt D) now cred w))"

inductive post_request :: "('r, 'o, 'i) deployment \<Rightarrow> 'r app \<Rightarrow> 'r app \<Rightarrow> bool" for D w where
  get_post: "post_request D w (snd (get_post (d_redis D) (d_crypto D) (d_jwt D) now cred pid w))"
| create_post: "PostCreate t c = Some pb \<Longrightarrow> post_request D w (snd (create_post (d_crypto D) (d_jwt D) now cred pb w))"
| update_post: "PostUpdate ut uc = Some eb \<Longrightarrow> post_request D w (snd (update_post (d_redis D) (d_crypto D) (d_jwt D) now cred pid eb w))"
| delete_post: "post_request D w (snd (delete_post (d_crypto D) (d_jwt D) now cred pid w))"
| like: "post_request D w (snd (like_post_route (d_redis D) (d_crypto D) (d_jwt D) now cred pid w))"
| unlike: "post_request D w (snd (unlike_post_route (d_redis D) (d_crypto D) (d_jwt D) now cred pid w))"
| like_sync: "post_request D w (snd (post_like_sync (d_redis D) (\<lambda>w. w) now w))"

inductive menu_request :: "('r, 'o, 'i) deployment \<Rightarrow> 'r app \<Rightarrow> 'r app \<Rightarrow> bool" for D w where
  create_menu: "MenuCreate n p = Some mb \<Longrightarrow> menu_request D w (snd (create_menu (d_crypto D) (d_jwt D) (d_name_coll D) (\<lambda>w. w) now cred mb w))"
| update_menu: "MenuUpdate un up = Some ub \<Longrightarrow> update_menu (d_crypto D) (d_jwt D) (d_name_coll D) now cred mid ub w = Some (r, w') \<Longrightarrow>
    menu_request D w w'"
| delete_menu: "menu_request D w (snd (delete_menu (d_crypto D) (d_jwt D) (d_name_coll D) now cred mid w))"

inductive comment_request :: "('r, 'o, 'i) deployment \<Rightarrow> 'r app \<Rightarrow> 'r app \<Rightarrow> bool" for D w where
  create_comment: "CommentCreate c p = Some cb \<Longrightarrow> comment_request D w
    (snd (create_comment_route (d_crypto D) (d_jwt D) (d_contains D) (d_scan_users D) now cred pid cb w))"
| update_comment: "CommentUpdate c = Some content \<Longrightarrow> comment_request D w
    (snd (update_comment_route (d_crypto D) (d_jwt D) (d_contains D) (d_scan_users D) now cred cid content w))"
| delete_comment: "comment_request D w (snd (delete_comment_route (d_crypto D) (d_jwt D) now cred cid w))"

inductive report_request :: "('r, 'o, 'i) deployment \<Rightarrow> 'r app \<Rightarrow> 'r app \<Rightarrow> bool" for D w where
  add_report: "report_request D w (snd (add_report_route (d_crypto D) (d_jwt D) now cred rb w))"
| process_report: "process_request_ok q \<Longrightarrow>
    report_request D w (snd (process_report_route (d_crypto D) (d_jwt D) now cred rid q w))"

text \<open>The endpoints that only read; the arguments of the last two fix orders the database is free to choose.\<close>

inductive read_request :: "('r, 'o, 'i) deployment \<Rightarrow> 'r app \<Rightarrow> 'r app \<Rightarrow> bool" for D w where
  get_me: "read_request D w (snd (get_me (d_crypto D) (d_jwt D) now cred w))"
| list_users: "read_request D w (snd (list_users_route (d_crypto D) (d_jwt D) now cred params w))"
| get_user: "read_request D w (snd (get_user (d_crypto D) (d_jwt D) now cred uid w))"
| menu_tree: "read_request D w (snd (get_menu_tree (d_crypto D) (d_jwt D) now cred w))"
| get_menu: "read_request D w (snd (get_menu (d_crypto D) (d_jwt D) now cred mid w))"
| list_posts: "read_request D w (snd (list_posts_route (d_crypto D) (d_jwt D) not_like scan_n now cred params w))"
| share: "read_request D w (snd (share_post (d_crypto D) (d_jwt D) now cred pid w))"
| list_images: "read_request D w (snd (list_post_images (d_boto D) (d_storage D) (d_crypto D) (d_jwt D) now cred pid w))"
| list_comments: "read_request D w (snd (list_comments_route (d_crypto D) (d_jwt D) scan_c now cred pid params w))"
| list_replies: "read_request D w (snd (list_replies_route (d_crypto D) (d_jwt D) scan_c now cred cid w))"
| list_reports: "read_request D w (snd (list_reports_route (d_crypto D) (d_jwt D) scan_r now cred params w))"

text \<open>An upload works on the session and the object store.\<close>

definition to_media :: "'r app \<Rightarrow> 'o \<Rightarrow> 'o media" where
  "to_media w ob = \<lparr>committed = committed w, working = working w, seq = seq w, objs = ob\<rparr>"

definition from_media :: "'o media \<Rightarrow> 'r app \<Rightarrow> 'r app" where
  "from_media m w = w\<lparr>committed := committed m, working := working m, seq := seq m\<rparr>"

text \<open>\<open>wait\<close> is the passing of \<open>d\<close> seconds.\<close>

inductive app_step :: "('r, 'o, 'i) deployment \<Rightarrow> 'r app \<times> 'o \<Rightarrow> 'r app \<times> 'o \<Rightarrow> bool" for D where
  account: "account_request D w w' \<Longrightarrow> app_step D (w, ob) (w', ob)"
| posting: "post_request D w w' \<Longrightarrow> app_step D (w, ob) (w', ob)"
| menu: "menu_request D w w' \<Longrightarrow> app_step D (w, ob) (w', ob)"
| comment: "comment_request D w w' \<Longrightarrow> app_step D (w, ob) (w', ob)"
| report: "report_request D w w' \<Longrightarrow> app_step D (w, ob) (w', ob)"
| reading: "read_request D w w' \<Longrightarrow> app_step D (w, ob) (w', ob)"
| upload: "upload_post_image (d_pillow D) (d_boto D) (d_storage D) (d_crypto D) (d_jwt D) now cred fid pid f
      (to_media w ob) = (r, m) \<Longrightarrow> app_step D (w, ob) (from_media m w, objs m)"
| wait: "app_step D (w, ob) (on_kv (r_tick (d_redis D) d) w, ob)"

inductive app_run :: "('r, 'o, 'i) deployment \<Rightarrow> 'r app \<times> 'o \<Rightarrow> 'r app \<times> 'o \<Rightarrow> bool" for D x where
  start: "app_run D x x"
| step: "app_run D x y \<Longrightarrow> app_step D y z \<Longrightarrow> app_run D x z"

section \<open>Frames of the endpoints\<close>

abbreviation quiet :: "db \<Rightarrow> menu list \<times> comment list \<times> report list \<times> user_sanction list" where
  "quiet d \<equiv> (menus d, comments d, reports d, sanctions d)"

context kv_steps
begin

lemma kept: "I coll f v w \<Longrightarrow> keeps (I coll f v) m \<Longrightarrow> I coll f v (snd (m w))"
  by (rule keepsD)

text \<open>
  A request keeps a frame if the service operations behind it do.  The hypotheses leave open why: because the
  frame does not see the table, or because of what the schema let through.
\<close>

lemma account_kept:
  assumes "account_request D w w'" and "R = d_redis D" and "ttl = d_ttl D" and "W = d_window D" and "I (d_mail_coll D) f v w"
    and create: "\<And>salt now norm_email e p n body. UserCreate norm_email e p n = Some body \<Longrightarrow>
      keeps (I (d_mail_coll D) f v) (user_create (d_crypto D) (d_mail_coll D) (\<lambda>w. w) salt now body)"
    and update: "\<And>now uid x nick. UserUpdate x = Some nick \<Longrightarrow> keeps (I (d_mail_coll D) f v) (user_update now uid nick)"
    and deactivate: "\<And>now uid. keeps (I (d_mail_coll D) f v) (user_deactivate now uid)"
  shows "I (d_mail_coll D) f v w' \<and> working w' = committed w'"
  using assms(1)
proof cases
  case (signup norm_email e p n body salt now)
  show ?thesis unfolding signup signup_route_def signup_def
    by (intro conjI get_db_clean kept [OF assms(5)] framed_get_db keeps_control create [OF signup(2)]) simp
next
  case (login now i j email password host)
  show ?thesis unfolding login login_route_def assms(2) [symmetric]
    by (intro conjI get_db_clean kept [OF assms(5)] framed_get_db keeps_control keeps_login assms(3,4)) simp
next
  case (refresh now i j cookie)
  have "I (d_mail_coll D) f v w'" unfolding refresh refresh_route_def assms(2) [symmetric]
    by (rule kept [OF assms(5)]) (auto intro!: framed_get_db keeps_control keeps_refresh assms(3) split: option.split)
  then show ?thesis by (simp add: refresh refresh_route_def)
next
  case (logout now cookie)
  show ?thesis unfolding logout logout_route_def assms(2) [symmetric]
    by (intro conjI get_db_clean kept [OF assms(5)] framed_get_db keeps_control keeps_logout) simp
next
  case (logout_all now cred)
  show ?thesis unfolding logout_all logout_all_route_def assms(2) [symmetric]
    by (intro conjI get_db_clean kept [OF assms(5)] framed_get_db keeps_control keeps_logout_all keeps_get_current_user) simp
next
  case (update_me x nick now cred)
  show ?thesis unfolding update_me update_me_def
    by (intro conjI get_db_clean kept [OF assms(5)] framed_get_db keeps_control update [OF update_me(2)] framed_user_get
        keeps_get_current_user) simp
next
  case (deactivate_me now cred)
  show ?thesis unfolding deactivate_me deactivate_me_def
    by (intro conjI get_db_clean kept [OF assms(5)] framed_get_db keeps_control deactivate keeps_get_current_user)
qed

lemma account_framed:
  assumes "account_request D w w'" and "R = d_redis D" and "ttl = d_ttl D" and "W = d_window D"
    and "blind f users_update" and "I (d_mail_coll D) f v w"
  shows "I (d_mail_coll D) f v w' \<and> working w' = committed w'"
  by (rule account_kept [OF assms(1-4,6)]) (intro framed_user_create framed_user_update framed_user_deactivate assms(5))+

lemma post_kept:
  assumes "post_request D w w'" and "R = d_redis D" and "blind f likes_update" and "I coll f v w"
    and detail: "\<And>now pid me. keeps (I coll f v) (post_detail R now pid me)"
    and create: "\<And>now me t c b. PostCreate t c = Some b \<Longrightarrow> keeps (I coll f v) (post_create now me b)"
    and update: "\<And>now pid me t c b. PostUpdate t c = Some b \<Longrightarrow> keeps (I coll f v) (post_update R now pid me b)"
    and delete: "\<And>now pid me. keeps (I coll f v) (post_delete now pid me)"
  shows "I coll f v w' \<and> working w' = committed w'"
  using assms(1)
proof cases
  case (like_sync now)
  then have "I coll f v w'"
    unfolding like_sync assms(2) [symmetric] by (intro kept [OF assms(4)] keeps_sync assms(3))
  then show ?thesis by (simp add: like_sync post_like_sync_def)
qed (simp_all only: get_post_def create_post_def update_post_def delete_post_def like_post_route_def
    unlike_post_route_def assms(2) [symmetric],
  (intro conjI kept [OF assms(4)] framed_as_user detail create update delete keeps_like keeps_unlike; assumption?,
   (simp add: as_user_def)?)+)

lemma post_framed:
  assumes "post_request D w w'" and "R = d_redis D"
    and "blind f posts_update" and "blind f likes_update" and "I coll f v w"
  shows "I coll f v w' \<and> working w' = committed w'"
  by (rule post_kept [OF assms(1,2,4,5)]) (intro frame_rules assms(3))+

lemma menu_kept:
  assumes "menu_request D w w'" and "I coll f v w"
    and create: "\<And>now n p b. MenuCreate n p = Some b \<Longrightarrow> keeps (I coll f v) (menu_create (d_name_coll D) (\<lambda>w. w) now b)"
    and update: "\<And>now mid n p b q t. MenuUpdate n p = Some b \<Longrightarrow>
      Menus.menu_update (d_name_coll D) now mid b w = Some (q, t) \<Longrightarrow> I coll f v t"
    and delete: "\<And>now mid. keeps (I coll f v) (menu_delete (d_name_coll D) now mid)"
  shows "I coll f v w' \<and> working w' = committed w'"
  using assms(1)
proof cases
  case (create_menu n p mb now cred)
  show ?thesis unfolding create_menu create_menu_def
    by (intro conjI kept [OF assms(2)] framed_protected keeps_control create [OF create_menu(2)])
      (simp_all add: protected_def)
next
  case (update_menu n p ub now cred mid r)
  have "\<exists>t. w' = rollback t \<and> I coll f v t"
    using update_menu update [OF update_menu(1), of now mid] assms(2)
    by (auto simp: update_menu_def split: prod.splits sum.splits) (metis get_current_user_state snd_conv)+
  then show ?thesis by (auto simp: framed_def)
next
  case (delete_menu now cred mid)
  show ?thesis unfolding delete_menu delete_menu_def
    by (intro conjI kept [OF assms(2)] framed_protected delete) (simp add: protected_def)
qed

lemma menu_framed:
  assumes "menu_request D w w'" and "blind f menus_update" and "I coll f v w"
  shows "I coll f v w' \<and> working w' = committed w'"
  using framed_menu_update [OF assms(2,3)]
  by (intro menu_kept [OF assms(1,3)]) (auto intro: framed_menu_create framed_menu_delete assms(2))

lemma comment_kept:
  assumes "comment_request D w w'" and "I coll f v w"
    and create: "\<And>contains scan now pid me c p b. CommentCreate c p = Some b \<Longrightarrow>
      keeps (I coll f v) (comment_create contains scan now pid me b)"
    and update: "\<And>contains scan now cid me c content. CommentUpdate c = Some content \<Longrightarrow>
      keeps (I coll f v) (comment_update contains scan now cid me content)"
    and delete: "\<And>now cid me. keeps (I coll f v) (comment_delete now cid me)"
  shows "I coll f v w' \<and> working w' = committed w'"
  using assms(1)
  by cases (simp_all only: create_comment_route_def update_comment_route_def delete_comment_route_def,
    (intro conjI kept [OF assms(2)] framed_as_user keeps_control create update delete keeps_returnP; assumption?,
     (simp add: as_user_def)?)+)

lemma comment_framed:
  assumes "comment_request D w w'" and "blind f comments_update" and "I coll f v w"
  shows "I coll f v w' \<and> working w' = committed w'"
  by (rule comment_kept [OF assms(1,3)]) (intro frame_rules assms(2))+

lemma report_kept:
  assumes "report_request D w w'" and "blind f reports_update" and "I coll f v w"
    and process: "\<And>now rid rv q. keeps (I coll f v) (process_report now rid rv q)"
  shows "I coll f v w' \<and> working w' = committed w'"
  using assms(1)
  by cases (simp_all only: add_report_route_def process_report_route_def,
    (intro conjI kept [OF assms(3)] framed_as_user framed_report_create process assms(2), simp add: as_user_def)+)

lemma report_framed:
  assumes "report_request D w w'" and "blind f reports_update" and "blind f posts_update" and "blind f sanctions_update"
    and "I coll f v w"
  shows "I coll f v w' \<and> working w' = committed w'"
  by (rule report_kept [OF assms(1,2,5)]) (intro framed_process_report assms(2-4))

lemmas read_defs = get_me_def list_users_route_def get_user_def get_menu_tree_def get_menu_def list_posts_route_def
  share_post_def list_post_images_def list_comments_route_def list_replies_route_def list_reports_route_def

lemma read_framed:
  assumes "read_request D w w'" and "I coll f v w"
  shows "I coll f v w' \<and> working w' = committed w'"
proof
  have reads: "keeps (I coll f v) (list_users params)" "keeps (I coll f v) (menu_get_detail mid)"
    "keeps (I coll f v) (Posts.list_posts not_like scan_n params)" "keeps (I coll f v) (Images.list_images st pid)"
    "keeps (I coll f v) (report_page scan_r params)" for params mid not_like scan_n st pid scan_r
    unfolding list_users_def menu_get_detail_def list_posts_def list_images_def report_page_def
    by (auto intro!: keeps_control frame_rules split: option.split prod.split)
  show "I coll f v w'"
    using assms(1)
    by cases (simp_all only: read_defs,
      (rule kept [OF assms(2)], auto intro!: keeps_control frame_rules reads split: prod.split)+)
  show "working w' = committed w'"
    using assms(1) by cases (simp_all add: read_defs protected_def as_user_def)
qed

lemma upload_framed:
  assumes "upload_post_image P B SS C S now cred fid pid x (to_media w ob) = (r, m)" and "blind f images_update"
    and "I coll f v w"
  shows "I coll f v (from_media m w) \<and> working (from_media m w) = committed (from_media m w)"
proof -
  have m: "m = snd (upload_post_image P B SS C S now cred fid pid x (to_media w ob))"
    using assms(1) by simp
  have w: "session_ok coll w" "f (committed w) = v" "f (working w) = v" "J (kv w)" using assms(3) by (simp_all add: framed_kv)
  have "framed coll f v (\<lambda>_. True) (to_media w ob)"
    using w by (simp add: framed_def to_media_def session_ok_def)
  then have "framed coll f v (\<lambda>_. True) m"
    unfolding m upload_post_image_def
    by (rule keepsD [rotated]) (intro framed_as_user keeps_control keeps_liftP framed_upload_image assms(2))
  then have "session_ok coll m" and "f (committed m) = v" by (simp_all add: framed_def)
  moreover have "working m = committed m"
    unfolding m by (simp add: upload_post_image_def as_user_def)
  ultimately show ?thesis
    using w(4) by (simp add: framed_kv from_media_def session_ok_def)
qed

lemma wait_framed:
  assumes "I coll f v w" and "working w = committed w"
  shows "I coll f v (on_kv (r_tick R d) w) \<and> working (on_kv (r_tick R d) w) = committed (on_kv (r_tick R d) w)"
  using assms steps(5) by (simp add: framed_kv session_ok_def)

text \<open>One step of the machine: the schema and what holds of Redis are kept, whatever the step is.\<close>

lemma step_kept:
  assumes "app_step D (w, ob) (w', ob')" and "R = d_redis D" and "ttl = d_ttl D" and "W = d_window D"
    and "session_ok (d_mail_coll D) w" and "working w = committed w" and "J (kv w)"
  shows "session_ok (d_mail_coll D) w' \<and> working w' = committed w' \<and> J (kv w')"
proof -
  have b: "blind (\<lambda>_. ()) put" for put :: "('row list \<Rightarrow> 'row list) \<Rightarrow> db \<Rightarrow> db"
    by (simp add: blind_def)
  have w: "I (d_mail_coll D) (\<lambda>_. ()) () w" using assms(5,7) by (simp add: framed_kv)
  have "I (d_mail_coll D) (\<lambda>_. ()) () w' \<and> working w' = committed w'"
    using assms(1)
  proof cases
    case account then show ?thesis using account_framed [OF account(2) assms(2-4) b w] by simp
  next
    case posting then show ?thesis using post_framed [OF posting(2) assms(2) b b w] by simp
  next
    case menu then show ?thesis using menu_framed [OF menu(2) b w] by simp
  next
    case comment then show ?thesis using comment_framed [OF comment(2) b w] by simp
  next
    case report then show ?thesis using report_framed [OF report(2) b b b w] by simp
  next
    case reading then show ?thesis using read_framed [OF reading(2) w] by simp
  next
    case (upload now cred fid pid x r m)
    then show ?thesis using upload_framed [OF upload(3) b w] by simp
  next
    case wait then show ?thesis using wait_framed [OF w assms(6)] assms(2) by simp
  qed
  then show ?thesis by (simp add: framed_kv)
qed

end

text \<open>Nothing at all is asked of Redis: the frames of the tables.\<close>

interpretation anything: kv_steps R ttl W "\<lambda>_. True"
  by unfold_locales simp

lemma step_tables:
  assumes "app_step D (w, ob) (w', ob')" and "session_ok (d_mail_coll D) w" and "working w = committed w"
  obtains "quiet (committed w') = quiet (committed w)"
    | "menu_request D w w'" "comments (committed w') = comments (committed w)"
      "reports (committed w') = reports (committed w)" "sanctions (committed w') = sanctions (committed w)"
    | "comment_request D w w'" "menus (committed w') = menus (committed w)"
      "reports (committed w') = reports (committed w)" "sanctions (committed w') = sanctions (committed w)"
    | "report_request D w w'" "menus (committed w') = menus (committed w)" "comments (committed w') = comments (committed w)"
proof -
  let ?F = "\<lambda>f. framed (d_mail_coll D) f (f (committed w)) (on_more (\<lambda>_. True))"
  have w: "?F quiet w" "?F (\<lambda>d. (comments d, reports d, sanctions d)) w"
    "?F (\<lambda>d. (menus d, reports d, sanctions d)) w" "?F (\<lambda>d. (menus d, comments d)) w"
    using assms(2,3) by (simp_all add: framed_kv)
  have b: "blind quiet users_update" "blind quiet posts_update" "blind quiet images_update" "blind quiet likes_update"
    by (simp_all add: blind_def)
  from assms(1) show ?thesis
  proof cases
    case account
    from anything.account_framed [OF account(2) refl refl refl b(1) w(1)] that(1) show ?thesis by (simp add: framed_kv)
  next
    case posting
    from anything.post_framed [OF posting(2) refl b(2,4) w(1)] that(1) show ?thesis by (simp add: framed_kv)
  next
    case menu
    have "blind (\<lambda>d. (comments d, reports d, sanctions d)) menus_update" by (simp add: blind_def)
    from anything.menu_framed [OF menu(2) this w(2)] menu(2) that(2) show ?thesis by (simp add: framed_kv)
  next
    case comment
    have "blind (\<lambda>d. (menus d, reports d, sanctions d)) comments_update" by (simp add: blind_def)
    from anything.comment_framed [OF comment(2) this w(3)] comment(2) that(3) show ?thesis by (simp add: framed_kv)
  next
    case report
    let ?f = "\<lambda>d. (menus d, comments d)"
    have "blind ?f reports_update" "blind ?f posts_update" "blind ?f sanctions_update" by (simp_all add: blind_def)
    from anything.report_framed [OF report(2) this w(4)] report(2) that(4) show ?thesis by (simp add: framed_kv)
  next
    case reading
    from anything.read_framed [OF reading(2) w(1)] that(1) show ?thesis by (simp add: framed_kv)
  next
    case (upload now cred fid pid x r m)
    from anything.upload_framed [OF upload(3) b(3) w(1)] upload(1) that(1) show ?thesis by (simp add: framed_kv)
  next
    case wait
    with that(1) show ?thesis by simp
  qed
qed

section \<open>What each component's requests keep\<close>

text \<open>What an endpoint leaves committed is what its service left committed, if the caller was let in.\<close>

lemma protected_end:
  "committed (snd (protected C S now cred m w)) \<in> {committed w, committed (snd (m w))}"
  using authenticated [of C S now cred "\<lambda>_. m" w] by (auto simp: protected_def split: sum.splits)

lemma as_user_end:
  assumes "working w = committed w"
  obtains "snd (as_user C S now cred m w) = w" | me where "snd (as_user C S now cred m w) = snd (get_db (m me) w)"
proof (cases "fst (get_current_user C S now cred w)")
  case (Inl e)
  have "rollback (rollback w) = w" using assms by (simp add: rollback_def)
  with Inl that(1) show ?thesis
    by (simp add: as_user_def get_db_def authenticated)
next
  case (Inr me)
  then have "bindP (get_current_user C S now cred) m w = m me w" by (simp add: authenticated)
  then have "snd (as_user C S now cred m w) = snd (get_db (m me) w)" by (simp add: as_user_def get_db_def)
  with that(2) show ?thesis .
qed

lemma as_user_keeps:
  assumes "working w = committed w" and "P (committed w)" and "\<And>me. P (committed (snd (m me w)))"
  shows "P (committed (snd (as_user C S now cred m w)))"
  by (rule as_user_end [OF assms(1), of C S now cred m]) (simp_all add: assms(2,3))

lemma settled_end: "settled w t \<Longrightarrow> working w = committed w \<Longrightarrow> P (committed w) \<Longrightarrow> P (working t) \<Longrightarrow> P (committed t)"
  by (auto simp: settled_def)

lemma then_return [simp]: "snd (bindP m (\<lambda>a. returnP (h a)) s) = snd (m s)"
  by (simp add: bindP_apply returnP_apply split: prod.split sum.split)

definition menu_inv :: "(utext \<Rightarrow> utext) \<Rightarrow> db \<Rightarrow> bool" where
  "menu_inv ncoll d \<longleftrightarrow> menus_ok d \<and> sibling_names_ok ncoll d"

lemma menu_inv_same: "menus d' = menus d \<Longrightarrow> menu_inv ncoll d' = menu_inv ncoll d"
  by (simp add: menu_inv_def menus_ok_def sibling_names_ok_def menu_active_def)

lemma menu_request_keeps:
  assumes "menu_request D w w'" and "session_ok coll w" and "working w = committed w"
    and "menu_inv (d_name_coll D) (committed w)"
  shows "menu_inv (d_name_coll D) (committed w')"
proof -
  have ok: "menus_ok (working w)" "sibling_names_ok (d_name_coll D) (working w)"
    using assms(3,4) by (simp_all add: menu_inv_def)
  from assms(1) show ?thesis
  proof cases
    case (create_menu n p b now cred)
    obtain r t where c: "menu_create (d_name_coll D) (\<lambda>w. w) now b w = (r, t)" by (rule prod.exhaust)
    have "menu_inv (d_name_coll D) (committed t)"
      using menu_create_settled [OF c] assms(3,4) menu_create_keeps [OF assms(2) ok(1) c] menu_create_names [OF ok(2) c]
      by (elim settled_end) (simp_all add: menu_inv_def)
    with assms(4) c show ?thesis
      using protected_end [of "d_crypto D" "d_jwt D" now cred "bindP (menu_create (d_name_coll D) (\<lambda>w. w) now b) (\<lambda>m. returnP (menu_response_of m))" w]
      by (auto simp: create_menu create_menu_def)
  next
    case (update_menu n p b now cred mid r)
    have "menu_inv (d_name_coll D) (committed t)" if c: "Menus.menu_update (d_name_coll D) now mid b w = Some (q, t)" for q t
      using menu_update_settled [OF c] assms(3,4) menu_update_keeps [OF assms(2) ok(1) c] menu_update_names [OF assms(2) ok(2) c]
      by (elim settled_end) (simp_all add: menu_inv_def)
    moreover have "w' = rollback w \<or> (\<exists>q t. w' = rollback t \<and> Menus.menu_update (d_name_coll D) now mid b w = Some (q, t))"
      using update_menu by (auto simp: update_menu_def split: prod.splits sum.splits)
        (metis get_current_user_state snd_conv)+
    ultimately show ?thesis using assms(4) by auto
  next
    case (delete_menu now cred mid)
    obtain r t where c: "menu_delete (d_name_coll D) now mid w = (r, t)" by (rule prod.exhaust)
    have "menu_inv (d_name_coll D) (committed t)"
      using menu_delete_settled [OF c] assms(3,4) menu_delete_keeps [OF ok(1) c] menu_delete_names [OF ok(2) c]
      by (elim settled_end) (simp_all add: menu_inv_def)
    with assms(4) c show ?thesis
      using protected_end [of "d_crypto D" "d_jwt D" now cred "menu_delete (d_name_coll D) now mid" w]
      by (auto simp: delete_menu delete_menu_def)
  qed
qed

lemma comment_request_keeps:
  assumes "comment_request D w w'" and "session_ok coll w" and "working w = committed w" and "comments_ok (committed w)"
  shows "comments_ok (committed w')"
proof -
  have ok: "comments_ok (working w)" using assms(3,4) by simp
  have create: "comments_ok (committed (snd (comment_create contains scan now pid me b w)))" for contains scan now pid me b
    using comment_create_keeps [OF assms(2) ok prod.collapse [symmetric]] assms(3,4) by (blast intro: settled_end)
  have update: "comments_ok (committed (snd (comment_update contains scan now cid me c w)))" for contains scan now cid me c
    using comment_update_keeps [OF assms(2) ok prod.collapse [symmetric]] assms(3,4) by (blast intro: settled_end)
  have delete: "comments_ok (committed (snd (comment_delete now cid me w)))" for now cid me
    using comment_delete_keeps [OF assms(2) ok prod.collapse [symmetric]] assms(3,4) by (blast intro: settled_end)
  show ?thesis
    using assms(1)
    by cases (simp_all add: create_comment_route_def update_comment_route_def delete_comment_route_def
        as_user_keeps [where P = comments_ok, OF assms(3,4)] create update delete)
qed

lemma report_request_moderation:
  assumes "report_request D w w'" and "working w = committed w"
  shows "moderation coll w w'"
  using assms(1)
proof cases
  case (add_report now cred b)
  show ?thesis
    using as_user_end [OF assms(2), of "d_crypto D" "d_jwt D" now cred "\<lambda>me. report_create now me b"]
    by (rule) (auto simp: add_report add_report_route_def intro: moderation.intros)
next
  case (process_report q now cred rid)
  show ?thesis
    using as_user_end [OF assms(2), of "d_crypto D" "d_jwt D" now cred "\<lambda>me. process_report now rid (user_id me) q"]
    by (rule) (use process_report in \<open>auto simp: process_report_route_def intro: moderation.intros\<close>)
qed

section \<open>Redis\<close>

text \<open>What a run does to Redis is a history of store events, as \<open>Token_Store\<close> studies them.\<close>

interpretation history: kv_steps R ttl W "\<lambda>s. \<exists>es. list_all (genuine W) es \<and> s = run_events R ttl es s0"
proof
  fix e s
  assume "genuine W e" and "\<exists>es. list_all (genuine W) es \<and> s = run_events R ttl es s0"
  then obtain es where "list_all (genuine W) (es @ [e])" "store_step R ttl e s = run_events R ttl (es @ [e]) s0"
    by (auto simp: run_events_def)
  then show "\<exists>es. list_all (genuine W) es \<and> store_step R ttl e s = run_events R ttl es s0" by blast
qed

text \<open>Genuine events keep the pending likes readable.\<close>

lemma like_keys_frame:
  "like_keys_ok R s \<Longrightarrow> (\<And>k. take 10 k = ''post_like:'' \<Longrightarrow> r_lookup R s' k = r_lookup R s k) \<Longrightarrow> like_keys_ok R s'"
  unfolding like_keys_ok_def by metis

lemma foreign_prefix [simp]:
  "take 10 (token_key a i) \<noteq> ''post_like:''" "take 10 (index_key a) \<noteq> ''post_like:''"
  "take 10 (used_key a i) \<noteq> ''post_like:''" "take 10 (''ratelimit:'' @ k) \<noteq> ''post_like:''"
  by (simp_all add: token_key_def index_key_def used_key_def)

lemma foreign_prefix_neq:
  assumes "take 10 k = ''post_like:''"
  shows "k \<noteq> token_key a i" and "k \<noteq> index_key a" and "k \<noteq> used_key a i" and "k \<noteq> ''ratelimit:'' @ k'"
  using assms foreign_prefix by metis+

context redis
begin

lemma like_keys_step:
  assumes "genuine W e" and "0 < ttl" and "like_keys_ok R s"
  shows "like_keys_ok R (store_step R ttl e s)"
proof (cases e)
  case (Ev_save a i h)
  with assms(2) show ?thesis
    by (auto intro!: like_keys_frame [OF assms(3)] simp: lookup_save foreign_prefix_neq)
next
  case (Ev_rotate a i n)
  then show ?thesis by (auto intro!: like_keys_frame [OF assms(3)] simp: lookup_rotate foreign_prefix_neq)
next
  case (Ev_revoke a i)
  then show ?thesis by (auto intro!: like_keys_frame [OF assms(3)] simp: lookup_revoke foreign_prefix_neq)
next
  case (Ev_revoke_all a)
  then show ?thesis by (auto intro!: like_keys_frame [OF assms(3)] simp: lookup_revoke_all foreign_prefix_neq)
next
  case (Ev_ratelimit_hit k w)
  then show ?thesis
    using foreign_prefix_neq(4) [of _ k] by (auto intro!: like_keys_frame [OF assms(3)] simp: lookup_simps)
next
  case (Ev_ratelimit_reset k)
  then show ?thesis
    using foreign_prefix_neq(4) [of _ k] by (auto intro!: like_keys_frame [OF assms(3)] simp: lookup_simps)
next
  case (Ev_like_set k x)
  with assms show ?thesis by (fastforce simp: like_keys_ok_def lookup_simps)
next
  case (Ev_like_del k)
  with assms(3) show ?thesis by (auto simp: like_keys_ok_def lookup_simps)
next
  case (Ev_tick d)
  have same: "r_lookup R (r_tick R d s) k = r_lookup R s k" if "take 10 k = ''post_like:''" for k
    using assms(3) that by (cases "r_lookup R s k") (fastforce simp: like_keys_ok_def lookup_tick)+
  with Ev_tick show ?thesis by (simp add: like_keys_frame [OF assms(3)])
qed

lemma like_keys_run:
  "list_all (genuine W) es \<Longrightarrow> 0 < ttl \<Longrightarrow> like_keys_ok R s \<Longrightarrow> like_keys_ok R (run_events R ttl es s)"
  unfolding run_events_def by (induction es arbitrary: s) (auto intro: like_keys_step)

end

text \<open>Every counter of attempts expires, at the latest \<open>W\<close> seconds from now.\<close>

definition limiter_ok :: "'r redis_api \<Rightarrow> nat \<Rightarrow> 'r \<Rightarrow> bool" where
  "limiter_ok R W s \<longleftrightarrow> (\<forall>k e t. r_lookup R s (''ratelimit:'' @ k) = Some (e, t) \<longrightarrow> (\<exists>n. t = Some n \<and> n \<le> W))"

lemma limiter_frame:
  "limiter_ok R W s \<Longrightarrow> (\<And>k. r_lookup R s' (''ratelimit:'' @ k) = r_lookup R s (''ratelimit:'' @ k)) \<Longrightarrow> limiter_ok R W s'"
  by (simp add: limiter_ok_def)

lemma limiter_keys [simp]:
  "''ratelimit:'' @ k \<noteq> token_key a i" "''ratelimit:'' @ k \<noteq> index_key a" "''ratelimit:'' @ k \<noteq> used_key a i"
  "''ratelimit:'' @ k \<noteq> ''post_like:'' @ k'"
  by (simp_all add: token_key_def index_key_def used_key_def)

lemma limiter_upd:
  assumes "limiter_ok R W s" and "r_lookup R s' = (r_lookup R s)(''ratelimit:'' @ k := x)"
    and "\<And>e t. x = Some (e, t) \<Longrightarrow> \<exists>n. t = Some n \<and> n \<le> W"
  shows "limiter_ok R W s'"
  using assms by (auto simp: limiter_ok_def)

context redis
begin

lemma limiter_hit:
  assumes "limiter_ok R W s"
  shows "limiter_ok R W (store_step R ttl (Ev_ratelimit_hit k W) s)"
proof (rule limiter_upd [OF assms])
  let ?k = "''ratelimit:'' @ k"
  show "r_lookup R (store_step R ttl (Ev_ratelimit_hit k W) s) =
      (r_lookup R s)(?k := expire_nx_entry W (incr_entry (r_lookup R s ?k)))"
    by (simp add: lookup_simps)
  have "r_lookup R s ?k = Some (e, t) \<Longrightarrow> \<exists>n. t = Some n \<and> n \<le> W" for e t
    using assms by (simp add: limiter_ok_def)
  then show "\<exists>n. t = Some n \<and> n \<le> W" if "expire_nx_entry W (incr_entry (r_lookup R s ?k)) = Some (e, t)" for e t
    using that by (cases "r_lookup R s ?k" rule: incr_entry.cases) (auto split: if_splits option.splits)
qed

lemma limiter_tick:
  assumes "limiter_ok R W s" shows "limiter_ok R W (r_tick R d s)"
  unfolding limiter_ok_def
proof (intro allI impI)
  fix k e t
  assume a: "r_lookup R (r_tick R d s) (''ratelimit:'' @ k) = Some (e, t)"
  then obtain e0 t0 where e0: "r_lookup R s (''ratelimit:'' @ k) = Some (e0, t0)"
    by (cases "r_lookup R s (''ratelimit:'' @ k)") (auto simp: lookup_tick)
  with assms obtain n where "t0 = Some n" "n \<le> W" unfolding limiter_ok_def by blast
  with a e0 show "\<exists>n. t = Some n \<and> n \<le> W" by (auto simp: lookup_tick split: if_splits)
qed

lemma limiter_step:
  assumes "genuine W e" and "0 < ttl" and "limiter_ok R W s"
  shows "limiter_ok R W (store_step R ttl e s)"
proof (cases e)
  case (Ev_ratelimit_hit k w)
  with assms(1) limiter_hit [OF assms(3)] show ?thesis by simp
next
  case (Ev_tick d)
  with limiter_tick [OF assms(3)] show ?thesis by simp
next
  case (Ev_ratelimit_reset k)
  then show ?thesis by (intro limiter_upd [OF assms(3), where k = k and x = None]) (simp_all add: lookup_simps)
next
  case (Ev_revoke_all a)
  then show ?thesis
    by (intro limiter_frame [OF assms(3)]) (auto simp: lookup_revoke_all simp del: append.simps)
qed (use assms(2) in \<open>auto intro!: limiter_frame [OF assms(3)] simp: lookup_save lookup_rotate lookup_revoke lookup_simps simp del: append.simps\<close>)

lemma limiter_run:
  "list_all (genuine W) es \<Longrightarrow> 0 < ttl \<Longrightarrow> limiter_ok R W s \<Longrightarrow> limiter_ok R W (run_events R ttl es s)"
  unfolding run_events_def by (induction es arbitrary: s) (auto intro: limiter_step)

lemma limiter_expired:
  assumes "limiter_ok R W s" and "W \<le> d"
  shows "r_lookup R (r_tick R d s) (''ratelimit:'' @ k) = None"
proof (cases "r_lookup R s (''ratelimit:'' @ k)")
  case (Some x)
  then obtain e t where x: "x = (e, t)" by (cases x)
  with Some assms(1) obtain n where "t = Some n" "n \<le> W" unfolding limiter_ok_def by blast
  with Some x assms(2) show ?thesis by (simp add: lookup_tick)
qed (simp add: lookup_tick)

end

section \<open>The invariant of the application\<close>

definition app_ok :: "('r, 'o, 'i) deployment \<Rightarrow> 'r app \<Rightarrow> bool" where
  "app_ok D w \<longleftrightarrow>
     session_ok (d_mail_coll D) w \<and> working w = committed w \<and>
     menu_inv (d_name_coll D) (committed w) \<and> comments_ok (committed w) \<and> sanctions_ok (committed w) \<and>
     index_ok (d_redis D) (d_ttl D) (kv w) \<and> like_keys_ok (d_redis D) (kv w) \<and>
     limiter_ok (d_redis D) (d_window D) (kv w)"

lemma comments_ok_same: "comments d' = comments d \<Longrightarrow> comments_ok d' = comments_ok d"
  by (simp add: comments_ok_def)

text \<open>One step, seen by moderation and by Redis, and its effect on the invariants of the tables.\<close>

lemma step_moderation:
  assumes "app_step D (w, ob) (w', ob')" and "session_ok (d_mail_coll D) w" and "working w = committed w"
  shows "moderation (d_mail_coll D) w w'"
proof -
  have ok: "session_ok (d_mail_coll D) w'" "working w' = committed w'"
    using anything.step_kept [OF assms(1) refl refl refl assms(2,3)] by simp_all
  show ?thesis
    by (rule step_tables [OF assms])
      (auto intro: ok moderation.other [OF moderation.start] report_request_moderation assms(3))
qed

lemma step_tables_ok:
  assumes "app_step D (w, ob) (w', ob')" and "session_ok (d_mail_coll D) w" and "working w = committed w"
    and "menu_inv (d_name_coll D) (committed w)" and "comments_ok (committed w)"
  shows "menu_inv (d_name_coll D) (committed w') \<and> comments_ok (committed w')"
  by (rule step_tables [OF assms(1-3)])
    (simp_all add: assms menu_inv_same [of "committed w'" "committed w"] comments_ok_same [of "committed w'" "committed w"]
      menu_request_keeps [OF _ assms(2-4)] comment_request_keeps [OF _ assms(2,3,5)])

lemma moderation_trans: "moderation coll s t \<Longrightarrow> moderation coll r s \<Longrightarrow> moderation coll r t"
  by (induction rule: moderation.induct) (auto intro: moderation.intros)

lemma run_kept:
  assumes "app_run D x y" and "session_ok (d_mail_coll D) (fst x)" and "working (fst x) = committed (fst x)"
    and "menu_inv (d_name_coll D) (committed (fst x))" and "comments_ok (committed (fst x))"
  shows "session_ok (d_mail_coll D) (fst y) \<and> working (fst y) = committed (fst y) \<and>
    menu_inv (d_name_coll D) (committed (fst y)) \<and> comments_ok (committed (fst y)) \<and>
    moderation (d_mail_coll D) (fst x) (fst y) \<and>
    (\<exists>es. list_all (genuine (d_window D)) es \<and> kv (fst y) = run_events (d_redis D) (d_ttl D) es (kv (fst x)))"
  using assms(1)
proof induction
  case start
  show ?case
    using assms by (auto intro!: moderation.start exI [of _ "[]"] simp: run_events_def)
next
  case (step y z)
  obtain w ob w' ob' where yz: "y = (w, ob)" "z = (w', ob')" by (cases y, cases z)
  with step have s: "app_step D (w, ob) (w', ob')" by simp
  note ih = step.IH [unfolded yz fst_conv]
  show ?case
    unfolding yz fst_conv
    using history.step_kept [OF s refl refl refl, of "kv (fst x)"] ih
      step_tables_ok [OF s] step_moderation [OF s] moderation_trans by blast
qed

lemma app_ok_run:
  assumes "redis (d_redis D)" and "0 < d_ttl D" and "app_ok D (fst x)" and "app_run D x y"
  shows "app_ok D (fst y)" and "moderation (d_mail_coll D) (fst x) (fst y)"
    and "\<exists>es. list_all (genuine (d_window D)) es \<and> kv (fst y) = run_events (d_redis D) (d_ttl D) es (kv (fst x))"
proof -
  note i = assms(3) [unfolded app_ok_def]
  from assms(4) i have k: "session_ok (d_mail_coll D) (fst y) \<and> working (fst y) = committed (fst y) \<and>
    menu_inv (d_name_coll D) (committed (fst y)) \<and> comments_ok (committed (fst y)) \<and>
    moderation (d_mail_coll D) (fst x) (fst y) \<and>
    (\<exists>es. list_all (genuine (d_window D)) es \<and> kv (fst y) = run_events (d_redis D) (d_ttl D) es (kv (fst x)))"
    by (intro run_kept) simp_all
  then show m: "moderation (d_mail_coll D) (fst x) (fst y)"
    and h: "\<exists>es. list_all (genuine (d_window D)) es \<and> kv (fst y) = run_events (d_redis D) (d_ttl D) es (kv (fst x))"
    by simp_all
  then obtain es where es: "list_all (genuine (d_window D)) es" "kv (fst y) = run_events (d_redis D) (d_ttl D) es (kv (fst x))"
    by blast
  have "index_ok (d_redis D) (d_ttl D) (kv (fst y))" "like_keys_ok (d_redis D) (kv (fst y))"
    "limiter_ok (d_redis D) (d_window D) (kv (fst y))"
    using i redis.index_ok_run [OF assms(1)] redis.like_keys_run [OF assms(1) es(1)] redis.limiter_run [OF assms(1) es(1)] assms(2) by (simp_all add: es(2))
  with k i moderation_keeps [OF m] show "app_ok D (fst y)"
    by (simp add: app_ok_def)
qed

section \<open>A concrete deployment\<close>

definition demo_deployment :: "(store, (object_name \<times> nat list \<times> string option) list, nat list) deployment" where
  "demo_deployment =
     \<lparr>d_redis = ref_redis, d_pillow = ref_pillow, d_boto = ref_boto,
      d_storage = \<lparr>storage_provider = ''s3'', s3_endpoint_url = None, s3_access_key = None, s3_secret_key = None,
        s3_bucket = None, s3_region = [], r2_account_id = None, r2_access_key_id = None, r2_secret_access_key = None,
        r2_bucket_name = None, r2_region = []\<rparr>,
      d_crypto = demo_crypto, d_auth = demo_auth, d_mail_coll = (\<lambda>e. e), d_name_coll = (\<lambda>n. n),
      d_contains = (\<lambda>_ _. True), d_scan_users = (\<lambda>us. us)\<rparr>"

text \<open>User 7 with a session, two menus, post 5 with a comment and a reply, and an open report about the post.\<close>

definition demo_live :: "store app" where
  "demo_live =
     (let d = empty_db\<lparr>users := [demo_user 7 ''a@x''],
            menus := [demo_menu 1 ''a'' None, demo_menu 2 ''b'' (Some 1)], posts := [demo_post 5 False],
            comments := [demo_comment 1 1 None, demo_comment 2 2 (Some 1)], reports := [demo_report 1 POST (Some 5)]\<rparr>
      in \<lparr>committed = d, working = d, seq = (\<lambda>t. 100), kv = kv demo_world\<rparr>)"

lemma demo_live_ok: "app_ok demo_deployment demo_live"
proof -
  have "menu_inv (\<lambda>n. n) (committed demo_live)"
    using demo_menus_ok(2) menu_inv_same [of "committed demo_live"
        "working (demo_menus [demo_menu 1 ''a'' None, demo_menu 2 ''b'' (Some 1)])" "\<lambda>n. n"]
    by (simp add: demo_live_def demo_menus_def Let_def menu_inv_def)
      (simp add: sibling_names_ok_def menu_active_def demo_menu_def)
  moreover have "like_keys_ok ref_redis (kv demo_world)"
    using redis.like_keys_step [OF ref_redis_ok, of 0 "Ev_save 7 ''x'' (hash_token demo_crypto demo_token)" 1209600 empty_store]
    by (simp add: demo_world_def demo_app_def demo_ttl like_keys_ok_def)
  moreover have "limiter_ok ref_redis 300 (kv demo_world)"
    using redis.limiter_step [OF ref_redis_ok, of 300 "Ev_save 7 ''x'' (hash_token demo_crypto demo_token)" 1209600 empty_store]
    by (simp add: demo_world_def demo_app_def demo_ttl limiter_ok_def)
  moreover have "session_ok (\<lambda>e. e) demo_live" "comments_ok (committed demo_live)" "sanctions_ok (committed demo_live)"
    "working demo_live = committed demo_live"
    by (simp_all add: session_ok_def schema_ok_def demo_live_def empty_db_def ids_ok_def Let_def demo_report_def
        demo_menu_def demo_user_def comments_ok_def sanctions_ok_def)
  ultimately show ?thesis
    using demo_index by (simp add: app_ok_def demo_deployment_def demo_ttl demo_auth_def) (simp add: demo_live_def Let_def)
qed

lemma demo_access:
  "decode_token demo_crypto demo_settings 100 (create_access_token demo_crypto demo_settings 90 ''i'' 7) ACCESS =
    Inr \<lparr>tp_user_id = 7, tp_token_type = ACCESS, tp_jti = ''i'', tp_expires_at = 1890\<rparr>"
  using decode_access [OF demo_crypto_ok, of demo_settings 90 100 "''i''" 7] by (simp add: demo_settings_def)

lemma demo_live_user:
  "get_current_user demo_crypto demo_settings 100 (Some (create_access_token demo_crypto demo_settings 90 ''i'' 7)) demo_live =
    (Inr (demo_user 7 ''a@x''), demo_live)"
proof -
  have "user_get_by_id 7 demo_live = Some (demo_user 7 ''a@x'')" "user_is_active (demo_user 7 ''a@x'')"
    by (simp_all add: user_get_by_id_def sel_pk_def demo_live_def demo_user_def Let_def)
  then show ?thesis by (simp add: get_current_user_def prog_simps demo_access)
qed

section \<open>Properties\<close>

text \<open>
  C1.  The whole application.  From a well-formed state, after any requests of anybody in any order, runs of the like
  job, uploads and waiting: the schema holds and nothing is left uncommitted; live menus are a
  forest with distinct sibling names; replies are one level deep and inside their post; every
  sanction rests on an accepted report; Redis lists every live refresh token in the index of its
  user and its pending likes are readable.  A decided report has not changed, and what happened to Redis is
  a history of store events.
\<close>

theorem application_invariants:
  assumes "redis (d_redis D)" and "0 < d_ttl D" and "app_ok D (fst x)" and "app_run D x y"
  shows "app_ok D (fst y) \<and>
    (\<forall>r\<in>set (reports (committed (fst x))). \<exists>r'\<in>set (reports (committed (fst y))). evolves r r') \<and>
    (\<exists>es. list_all (genuine (d_window D)) es \<and> kv (fst y) = run_events (d_redis D) (d_ttl D) es (kv (fst x)))"
  using app_ok_run [OF assms] assms(3) moderation_keeps [of "d_mail_coll D" "fst x" "fst y"]
  by (simp add: app_ok_def)

theorem application_invariants_witness:
  "let q = \<lparr>rq_status = ACCEPTED, rq_sanction = Some BANNED, rq_expires_at = None\<rparr>;
       tok = create_access_token demo_crypto demo_settings 90 ''i'' 7;
       w = on_kv (s_tick 5) (snd (process_report_route demo_crypto demo_settings 100 (Some tok) 1 q demo_live))
   in app_ok demo_deployment w \<and> map us_reported_user_id (sanctions (committed w)) = [1]"
proof -
  let ?q = "\<lparr>rq_status = ACCEPTED, rq_sanction = Some BANNED, rq_expires_at = None\<rparr>"
  let ?tok = "create_access_token demo_crypto demo_settings 90 ''i'' 7"
  let ?w = "snd (process_report_route demo_crypto demo_settings 100 (Some ?tok) 1 ?q demo_live)"
  have d: "d_redis demo_deployment = ref_redis" "d_crypto demo_deployment = demo_crypto" "d_jwt demo_deployment = demo_settings"
    by (simp_all add: demo_deployment_def demo_ttl)
  have "report_request demo_deployment demo_live ?w"
    using report_request.process_report [of ?q demo_deployment demo_live 100 "Some ?tok" 1]
    by (simp add: d process_request_ok_def)
  then have "app_run demo_deployment (demo_live, []) (on_kv (s_tick 5) ?w, [])"
    using app_step.wait [of demo_deployment ?w "[]" 5]
    by (intro app_run.step [OF app_run.step [OF app_run.start app_step.report]]) (simp_all add: d)
  then have "app_ok demo_deployment (on_kv (s_tick 5) ?w)"
    using application_invariants [of demo_deployment "(demo_live, [])" "(on_kv (s_tick 5) ?w, [])"] ref_redis_ok demo_live_ok
    by (simp add: d demo_ttl)
  moreover have "map us_reported_user_id (sanctions (committed ?w)) = [1]"
    by (simp add: process_report_route_def as_user_def authenticated demo_live_user)
      (simp add: process_report_def prog_simps report_get_by_id_def demo_live_def Let_def demo_report_def empty_db_def
        validate_report_def post_get_any_by_id_def or_rollback_def update_report_def same_reports_def
        hide_reported_content_def hide_if_published_def demo_post_def report_sanction_def add_user_sanction_def)
  ultimately show ?thesis by (simp add: Let_def)
qed

text \<open>
  C4.  "Log out everywhere", end to end.  In every state the application can reach from a well-formed one, a
  logged-in user who asks to be logged out everywhere succeeds; from then on every refresh token
  ever issued to the user is refused with 401, whatever it is and whenever it is presented, and the refused
  attempts open no session either; the tokens of the others are as they were.
\<close>

theorem logged_out_everywhere:
  assumes "redis (d_redis D)" and "0 < d_ttl D" and "app_ok D (fst x)" and "app_run D x (w, ob)"
    and "get_current_user (d_crypto D) (d_jwt D) now cred w = (Inr me, w)"
    and "logout_all_route (d_redis D) (d_crypto D) (d_auth D) now cred w = (res, w')"
    and "decode_token (d_crypto D) (d_jwt D) later tok REFRESH = Inr p" and "tp_user_id p = user_id me"
    and "refresh_route (d_redis D) (d_crypto D) (d_auth D) later i j (Some tok) (on_kv (r_tick (d_redis D) d) w') = (res', w'')"
  shows "(\<exists>n. res = Inr (n, clear_refresh_cookie (d_auth D))) \<and> res' = Inl session_expired \<and>
    (\<forall>k. \<not> live (d_redis D) (kv w'') (user_id me) k) \<and>
    (\<forall>a k. a \<noteq> user_id me \<longrightarrow> r_lookup (d_redis D) (kv w') (token_key a k) = r_lookup (d_redis D) (kv w) (token_key a k))"
proof -
  let ?R = "d_redis D" and ?a = "user_id me" and ?ttl = "d_ttl D"
  let ?v = "on_kv (r_tick ?R d) w'"
  have "index_ok ?R ?ttl (kv w)"
    using app_ok_run(1) [OF assms(1-4)] by (simp add: app_ok_def)
  then have kv: "r_lookup ?R (kv w') (token_key b k) = (if b = ?a then None else r_lookup ?R (kv w) (token_key b k))" for b k
    using assms(1,5,6) redis.revoke_all_token [OF assms(1), of ?ttl "kv w" ?a]
    by (auto simp: logout_all_route_def get_db_def logout_all_def prog_simps split: prod.splits)
  then have dead: "r_lookup ?R (kv ?v) (token_key ?a k) = None" for k
    by (simp add: redis.lookup_tick [OF assms(1)])
  then have "verify ?R (d_crypto D) ?a (tp_jti p) tok (kv ?v) \<in> {TS_REUSED, TS_UNKNOWN}"
    by (simp add: verify_def r_get_def)
  then have "\<exists>w1. refresh ?R (d_crypto D) (d_auth D) later i j tok ?v = (Inl session_expired, w1) \<and>
      kv w1 \<in> {kv ?v, snd (revoke_all ?R ?a (kv ?v))}"
    using refresh_compromised [OF assms(7), of ?R ?v i j] refresh_unknown [OF assms(7), of ?R ?v i j] assms(8) by auto
  then have "res' = Inl session_expired \<and> kv w'' \<in> {kv ?v, snd (revoke_all ?R ?a (kv ?v))}"
    using assms(9) by (auto simp: refresh_route_def get_db_def prog_simps split: if_splits)
  moreover from this have "\<not> live ?R (kv w'') ?a k" for k
    using dead [of k] by (auto simp: live_def r_exists_def redis.lookup_revoke_all [OF assms(1)] split: if_splits)
  moreover have "\<exists>n. res = Inr (n, clear_refresh_cookie (d_auth D))"
    using assms(5,6) by (auto simp: logout_all_route_def get_db_def logout_all_def prog_simps split: prod.splits)
  ultimately show ?thesis using kv by simp
qed

theorem logged_out_everywhere_witness:
  "let cred = Some (create_access_token demo_crypto demo_settings 90 ''i'' 7);
       w' = snd (logout_all_route ref_redis demo_crypto demo_auth 100 cred demo_live)
   in live ref_redis (kv demo_live) 7 ''x'' \<and>
      fst (refresh_route ref_redis demo_crypto demo_auth 160 ''i'' ''j'' (Some demo_token) (on_kv (s_tick 60) w')) = Inl session_expired"
proof -
  let ?cred = "Some (create_access_token demo_crypto demo_settings 90 ''i'' 7)"
  let ?D = "demo_deployment"
  have d: "d_redis ?D = ref_redis" "d_crypto ?D = demo_crypto" "d_auth ?D = demo_auth" "a_jwt demo_auth = demo_settings"
    by (simp_all add: demo_deployment_def demo_ttl)
  have dec: "decode_token demo_crypto demo_settings 160 demo_token REFRESH = Inr demo_payload"
    by (simp add: demo_decode)
  have p: "tp_user_id demo_payload = user_id (demo_user 7 ''a@x'')"
    by (simp add: demo_payload_def demo_user_def)
  have "live ref_redis (kv demo_live) 7 ''x''"
    using redis.lookup_save [OF ref_redis_ok, of 1209600 7 "''x''" "hash_token demo_crypto demo_token" empty_store]
    by (simp add: demo_live_def Let_def live_def r_exists_def demo_world_def demo_app_def demo_ttl)
  then show ?thesis
    using logged_out_everywhere [of ?D "(demo_live, [])" demo_live "[]", unfolded d,
        OF ref_redis_ok _ _ app_run.start demo_live_user prod.collapse [symmetric] dec p prod.collapse [symmetric]]
      demo_live_ok
    by (simp add: demo_ttl Let_def)
qed

lemma first_attempt_allowed:
  assumes "redis R" and "r_lookup R s k = None" and "1 \<le> m"
  shows "allowed (fst (hit R k m w s))"
  using redis.hit_current [OF assms(1), of k s None m w] assms(2,3)
  by (simp add: redis.hit_allowed [OF assms(1)] holds_window_def)

lemma check_login_passes:
  assumes "redis R" and "1 \<le> login_rate_limit_max_attempts A" and "\<And>k. r_lookup R (kv w) (''ratelimit:'' @ k) = None"
  obtains s where "check_login_rate_limit R A email ip w = (Inr (), on_kv (\<lambda>_. s) w)"
proof -
  let ?m = "login_rate_limit_max_attempts A" and ?W = "login_rate_limit_window_seconds A"
  let ?e = "''ratelimit:login:email:'' @ lower email" and ?i = "''ratelimit:login:ip:'' @ ip"
  let ?s = "snd (hit R ?e ?m ?W (kv w))"
  have none: "r_lookup R (kv w) ?e = None" "r_lookup R (kv w) ?i = None"
    using assms(3) [of "''login:email:'' @ lower email"] assms(3) [of "''login:ip:'' @ ip"] by simp_all
  have "r_lookup R ?s ?i = None"
    using none(2) redis.hit_other [OF assms(1), of ?i ?e ?m ?W "kv w"] by simp
  then have a: "allowed (fst (hit R ?e ?m ?W (kv w)))" "allowed (fst (hit R ?i ?m ?W ?s))"
    using none(1) assms(2) by (simp_all add: first_attempt_allowed [OF assms(1)])
  have "on_kv (\<lambda>_. y) (on_kv (\<lambda>_. x) w) = on_kv (\<lambda>_. y) w" for x y by (simp add: on_kv_def)
  with a have "check_login_rate_limit R A email ip w = (Inr (), on_kv (\<lambda>_. snd (hit R ?i ?m ?W ?s)) w)"
    by (simp add: check_login_rate_limit_def rate_limit_keys_def case_prod_unfold Let_def returnP_apply)
  then show ?thesis by (rule that)
qed

text \<open>
  C14.  Nobody stays locked out.  In every state the application can reach, whatever was attempted before,
  an active account is at most one window of the limiter away from a login: once no attempt was made for that
  long, its owner logs in with the right password from any address, and has a live refresh token.
\<close>

theorem nobody_stays_locked_out:
  assumes "redis (d_redis D)" and "0 < d_ttl D" and "1 \<le> login_rate_limit_max_attempts (d_auth D)"
    and "app_ok D (fst x)" and "app_run D x (w, ob)" and "d_window D \<le> d"
    and "me \<in> set (users (committed w))" and "user_is_active me"
    and "d_mail_coll D (user_email me) = d_mail_coll D email"
    and "verify_password (d_crypto D) password (user_password_hash me)"
    and "login_route (d_redis D) (d_crypto D) (d_auth D) (d_mail_coll D) now i j email password host
      (on_kv (r_tick (d_redis D) d) w) = (res, t)"
  shows "(\<exists>ts. res = Inr (token_response_of (d_auth D) ts)) \<and> live (d_redis D) (kv t) (user_id me) j"
proof -
  let ?R = "d_redis D" and ?w = "on_kv (r_tick (d_redis D) d) w"
  have ok: "session_ok (d_mail_coll D) w" "working w = committed w" "limiter_ok ?R (d_window D) (kv w)"
    using app_ok_run(1) [OF assms(1,2,4,5)] by (simp_all add: app_ok_def)
  have "r_lookup ?R (kv ?w) (''ratelimit:'' @ k) = None" for k
    using redis.limiter_expired [OF assms(1) ok(3) assms(6)] by simp
  then obtain s where c: "check_login_rate_limit ?R (d_auth D) email (client_ip host) ?w = (Inr (), on_kv (\<lambda>_. s) ?w)"
    by (rule check_login_passes [OF assms(1,3)])
  have u: "distinct (map (\<lambda>r. d_mail_coll D (user_email r)) (users (working w)))"
    by (rule schema_ok_ids(7) [OF session_ok_working [OF ok(1)]])
  then have "user_get_by_email (d_mail_coll D) email (on_kv (\<lambda>_. s) ?w) = Inr (Some me)"
    using find_unique_Some [OF u, of me "d_mail_coll D email"] assms(7,9) ok(2)
    by (subst get_by_email_unique) simp_all
  with c assms(8,10) have "\<exists>ts v h. res = Inr (token_response_of (d_auth D) ts) \<and> kv t = save ?R (d_ttl D) (user_id me) j h v"
    using assms(11) by (auto simp: login_route_def login_def get_db_def prog_simps Let_def issue_tokens_apply) blast
  then show ?thesis
    by (auto simp: live_def r_exists_def redis.lookup_save [OF assms(1,2)])
qed

text \<open>A locked account: two attempts counted, the window closes in 50 seconds.\<close>

definition demo_owner :: user where
  "demo_owner = (demo_user 7 ''a@x'')\<lparr>user_password_hash := bcrypt_hashpw demo_crypto [112, 119] []\<rparr>"

definition demo_locked :: "store app" where
  "demo_locked = demo_app [demo_owner] (s_update ''ratelimit:login:email:a@x'' (\<lambda>_. Some (RString ''2'', Some 50)) empty_store)"

lemma demo_locked_ok: "app_ok demo_deployment demo_locked"
proof -
  have "menu_inv ncoll (committed demo_locked)" for ncoll
    by (simp add: menu_inv_def menus_ok_def sibling_names_ok_def menu_active_def demo_locked_def demo_app_def empty_db_def
        parent_of_def acyclic_def)
  moreover have "session_ok (\<lambda>e. e) demo_locked" "comments_ok (committed demo_locked)" "sanctions_ok (committed demo_locked)"
    "working demo_locked = committed demo_locked"
    by (simp_all add: session_ok_def schema_ok_def demo_locked_def demo_app_def empty_db_def ids_ok_def demo_owner_def
        demo_user_def comments_ok_def sanctions_ok_def)
  moreover have "index_ok ref_redis ttl (kv demo_locked)" for ttl
    by (rule redis.index_ok_empty [OF ref_redis_ok])
      (auto simp: demo_locked_def demo_app_def token_family_def token_key_def index_key_def used_key_def)
  moreover have "like_keys_ok ref_redis (kv demo_locked)" "limiter_ok ref_redis 300 (kv demo_locked)"
    by (simp_all add: like_keys_ok_def limiter_ok_def demo_locked_def demo_app_def)
  ultimately show ?thesis by (simp add: app_ok_def demo_deployment_def demo_auth_def)
qed

theorem nobody_stays_locked_out_witness:
  "let attempt = (\<lambda>w. fst (login_route ref_redis demo_crypto demo_auth (\<lambda>e. e) 100 ''i'' ''j'' ''a@x'' [112, 119] None w))
   in \<not> allowed (fst (hit ref_redis ''ratelimit:login:email:a@x'' 2 300 (kv demo_locked))) \<and>
      (\<exists>ts. attempt (on_kv (s_tick 300) demo_locked) = Inr (token_response_of demo_auth ts))"
proof -
  let ?D = "demo_deployment"
  have d: "d_redis ?D = ref_redis" "d_crypto ?D = demo_crypto" "d_auth ?D = demo_auth" "d_mail_coll ?D = (\<lambda>e. e)"
    by (simp_all add: demo_deployment_def)
  have "show_int 2 = ''2''" by code_simp
  then have "\<not> allowed (fst (hit ref_redis ''ratelimit:login:email:a@x'' 2 300 (kv demo_locked)))"
    using redis.hit_current [OF ref_redis_ok, of "''ratelimit:login:email:a@x''" "kv demo_locked" "Some (2, 50)" 2 300]
    by (simp add: redis.hit_allowed [OF ref_redis_ok] holds_window_def demo_locked_def demo_app_def)
  moreover have "demo_owner \<in> set (users (committed demo_locked))" "user_is_active demo_owner" "user_email demo_owner = ''a@x''"
    by (simp_all add: demo_locked_def demo_app_def demo_owner_def demo_user_def)
  moreover have "verify_password demo_crypto [112, 119] (user_password_hash demo_owner)"
    unfolding demo_owner_def demo_user_def by code_simp
  ultimately show ?thesis
    using nobody_stays_locked_out [of ?D "(demo_locked, [])" demo_locked "[]" 300 demo_owner "''a@x''" "[112, 119]", unfolded d,
        OF ref_redis_ok _ _ _ app_run.start _ _ _ _ _ prod.collapse [symmetric]] demo_locked_ok
    by (simp add: demo_ttl Let_def) (simp add: demo_auth_def)
qed

end
