(* ===== verification/Typing.thy ===== *)
theory Typing
  imports System
begin

text \<open>
  What the schemas of the requests and the columns guarantee of the rows of users, menus, posts and comments: no text is longer
  than its column, and none is shorter than its schema allows.  The frames of \<open>System\<close> carry it through the
  requests; here is why each operation that writes text keeps it.
\<close>

section \<open>Typed rows\<close>

text \<open>A row is typed if the schemas accept its texts as they are.\<close>

definition user_typed :: "user \<Rightarrow> bool" where
  "user_typed r \<longleftrightarrow> NicknameStr (user_nickname r) = Some (user_nickname r)"

definition menu_typed :: "menu \<Rightarrow> bool" where
  "menu_typed m \<longleftrightarrow> MenuNameStr (menu_name m) = Some (menu_name m)"

definition post_typed :: "post \<Rightarrow> bool" where
  "post_typed p \<longleftrightarrow> TitleStr (post_title p) = Some (post_title p) \<and>
     ContentStr (post_content p) = Some (post_content p) \<and> fits_text (post_content p)"

definition comment_typed :: "comment \<Rightarrow> bool" where
  "comment_typed c \<longleftrightarrow> CommentContentStr (comment_content c) = Some (comment_content c)"

definition typed :: "db \<Rightarrow> bool" where
  "typed d \<longleftrightarrow> list_all user_typed (users d) \<and> list_all menu_typed (menus d) \<and>
     list_all post_typed (posts d) \<and> list_all comment_typed (comments d)"

text \<open>What the schemas let through.\<close>

lemma schema_Some [simp]:
  "MenuNameStr v = Some w \<longleftrightarrow> w = v \<and> 1 \<le> length v \<and> length v \<le> 50"
  "TitleStr v = Some w \<longleftrightarrow> w = v \<and> 1 \<le> length v \<and> length v \<le> 200"
  "ContentStr v = Some w \<longleftrightarrow> w = v \<and> 1 \<le> length v"
  "CommentContentStr v = Some w \<longleftrightarrow> w = v \<and> 1 \<le> length v \<and> length v \<le> 1000"
  by (auto simp: MenuNameStr_def TitleStr_def ContentStr_def CommentContentStr_def)

lemma NicknameStr_idem: "NicknameStr v = Some w \<Longrightarrow> NicknameStr w = Some w"
  by (auto simp: NicknameStr_def Let_def split: if_splits)

lemma UserCreate_typed: "UserCreate norm e p n = Some b \<Longrightarrow> NicknameStr (uc_nickname b) = Some (uc_nickname b)"
  by (auto simp: UserCreate_def NicknameStr_idem split: option.splits)

lemma UserUpdate_typed: "UserUpdate x = Some (Sent n) \<Longrightarrow> NicknameStr n = Some n"
  by (cases x) (auto simp: UserUpdate_def NicknameStr_idem)

lemma PostCreate_Some:
  "PostCreate t c = Some b \<longleftrightarrow> b = \<lparr>pc_title = t, pc_content = c\<rparr> \<and> TitleStr t = Some t \<and> ContentStr c = Some c"
  by (auto simp: PostCreate_def TitleStr_def ContentStr_def)

lemma PostCreate_typed: "PostCreate t c = Some b \<Longrightarrow>
    1 \<le> length (pc_title b) \<and> length (pc_title b) \<le> 200 \<and> 1 \<le> length (pc_content b)"
  by (simp add: PostCreate_Some)

lemma PostUpdate_typed:
  assumes "PostUpdate t c = Some b" and "sent_fits (pu_content b)" and "post_typed p"
  shows "post_typed (post_edit now b p)"
  using assms
  by (cases t; cases c)
    (auto simp: PostUpdate_def TitleStr_def ContentStr_def post_typed_def post_edit_def orm_update_def stamp_post_def
      split: if_splits)

lemma MenuCreate_Some: "MenuCreate n p = Some b \<longleftrightarrow> b = \<lparr>mc_name = n, mc_parent_id = p\<rparr> \<and> MenuNameStr n = Some n"
  by (auto simp: MenuCreate_def)

lemma MenuCreate_typed: "MenuCreate n p = Some b \<Longrightarrow> 1 \<le> length (mc_name b) \<and> length (mc_name b) \<le> 50"
  by (simp add: MenuCreate_Some)

lemma MenuUpdate_typed:
  "MenuUpdate n p = Some b \<Longrightarrow> menu_typed m \<Longrightarrow> sent_or (Some (menu_name m)) (mu_name b) = Some x \<Longrightarrow>
   1 \<le> length x \<and> length x \<le> 50"
  by (cases n) (auto simp: MenuUpdate_def MenuNameStr_def menu_typed_def split: if_splits)

lemma CommentCreate_typed: "CommentCreate c p = Some b \<Longrightarrow> 1 \<le> length (cc_content b) \<and> length (cc_content b) \<le> 1000"
  by (auto simp: CommentCreate_def CommentContentStr_def split: if_splits)

lemma CommentUpdate_typed: "CommentUpdate c = Some x \<Longrightarrow> 1 \<le> length x \<and> length x \<le> 1000"
  by (auto simp: CommentUpdate_def CommentContentStr_def split: if_splits)

text \<open>What a typed row looks like.\<close>

lemma user_typedD:
  assumes "user_typed r"
  shows "UserUpdate (Sent (user_nickname r)) = Some (Sent (user_nickname r)) \<and>
    2 \<le> length (user_nickname r) \<and> length (user_nickname r) \<le> 50 \<and> trim_text (user_nickname r) = user_nickname r"
  using assms by (simp add: UserUpdate_def user_typed_def) (auto simp: NicknameStr_def Let_def split: if_splits)

lemma menu_typedD:
  "menu_typed m \<Longrightarrow> MenuCreate (menu_name m) p = Some \<lparr>mc_name = menu_name m, mc_parent_id = p\<rparr> \<and> length (menu_name m) \<le> 50"
  by (simp add: menu_typed_def MenuCreate_Some)

lemma post_typedD:
  "post_typed q \<Longrightarrow> PostCreate (post_title q) (post_content q) = Some \<lparr>pc_title = post_title q, pc_content = post_content q\<rparr> \<and>
    length (post_title q) \<le> 200 \<and> post_content q \<noteq> [] \<and> fits_text (post_content q)"
  by (auto simp: post_typed_def PostCreate_Some)

lemma comment_typedD:
  "comment_typed c \<Longrightarrow> CommentUpdate (comment_content c) = Some (comment_content c) \<and>
    comment_content c \<noteq> [] \<and> length (comment_content c) \<le> 1000"
  by (auto simp: comment_typed_def CommentUpdate_def)

section \<open>Operations\<close>

abbreviation keeps_typed :: "(string \<Rightarrow> string) \<Rightarrow> ('x \<Rightarrow> bool) \<Rightarrow> ('x session_scheme, exn, 'a) prog \<Rightarrow> bool" where
  "keeps_typed coll g m \<equiv> keeps (framed coll typed True g) m"

lemma typed_blind [simp]:
  "blind typed images_update" "blind typed likes_update" "blind typed reports_update" "blind typed sanctions_update"
  by (simp_all add: blind_def typed_def)

text \<open>One rule per table for INSERT, one for UPDATE.\<close>

lemma typed_append [simp]:
  "user_typed r \<Longrightarrow> typed (users_update (\<lambda>rs. rs @ [r]) d) = typed d"
  "menu_typed m \<Longrightarrow> typed (menus_update (\<lambda>rs. rs @ [m]) d) = typed d"
  "post_typed p \<Longrightarrow> typed (posts_update (\<lambda>rs. rs @ [p]) d) = typed d"
  "comment_typed c \<Longrightarrow> typed (comments_update (\<lambda>rs. rs @ [c]) d) = typed d"
  by (simp_all add: typed_def)

lemma typed_map:
  "(\<And>r. user_typed r \<Longrightarrow> user_typed (h1 r)) \<Longrightarrow> typed d \<Longrightarrow> typed (users_update (map h1) d)"
  "(\<And>r. menu_typed r \<Longrightarrow> menu_typed (h2 r)) \<Longrightarrow> typed d \<Longrightarrow> typed (menus_update (map h2) d)"
  "(\<And>r. post_typed r \<Longrightarrow> post_typed (h3 r)) \<Longrightarrow> typed d \<Longrightarrow> typed (posts_update (map h3) d)"
  "(\<And>r. comment_typed r \<Longrightarrow> comment_typed (h4 r)) \<Longrightarrow> typed d \<Longrightarrow> typed (comments_update (map h4) d)"
  by (auto simp: typed_def list_all_iff)

lemma typed_user_write:
  assumes "\<And>r. user_id (h r) = user_id r" and "\<And>r. user_email (h r) = user_email r" and "\<And>r. user_typed r \<Longrightarrow> user_typed (h r)"
  shows "keeps_typed coll g (modifyP (upd_pk user_id users_update uid h))"
  using assms by (intro framed_upd_if) (auto intro!: session_ok_upd schema_ok_upd_users typed_map)

lemma typed_post_write:
  assumes "\<And>r. post_id (h r) = post_id r" and "\<And>r. post_typed r \<Longrightarrow> post_typed (h r)"
  shows "keeps_typed coll g (modifyP (upd_pk post_id posts_update pid h))"
  using assms by (intro framed_upd_if) (auto intro!: session_ok_upd schema_ok_upd_posts typed_map)

lemma typed_comment_write:
  assumes "\<And>r. comment_id (h r) = comment_id r" and "\<And>r. comment_typed r \<Longrightarrow> comment_typed (h r)"
  shows "keeps_typed coll g (modifyP (upd_pk comment_id comments_update cid h))"
  using assms by (intro framed_upd_if) (auto intro!: session_ok_upd schema_ok_upd_comments typed_map)

lemma typed_menu_flush:
  assumes "\<And>r. menu_id (h r) = menu_id r" and "\<And>r. menu_typed r \<Longrightarrow> menu_typed (h r)"
  shows "keeps_typed coll g (menu_flush ncoll (upd_pk menu_id menus_update mid h))"
proof -
  have "keeps_typed coll g (modifyP (upd_pk menu_id menus_update mid h))"
    using assms by (intro framed_upd_if) (auto intro!: session_ok_upd schema_ok_upd_menus typed_map)
  then show ?thesis by (auto simp: keeps_def menu_flush_def modifyP_apply)
qed

lemma typed_user_add:
  assumes "NicknameStr n = Some n"
  shows "keeps_typed coll g (user_add coll now e h n)"
proof (rule keepsI)
  fix s :: "'a session_scheme"
  assume s: "framed coll typed True g s"
  then have "session_ok coll (snd (user_add coll now e h n s))"
    by (intro keepsD [OF keeps_user_add]) (simp add: framed_def)
  with s show "framed coll typed True g (snd (user_add coll now e h n s))"
    by (simp add: framed_def user_add_cases user_typed_def assms split: if_splits)
qed

lemma typed_user_create:
  assumes "NicknameStr (uc_nickname b) = Some (uc_nickname b)"
  shows "keeps_typed coll g (user_create C coll (\<lambda>s. s) salt now b)"
  unfolding user_create_def
  by (auto intro!: keeps_control typed_user_add [OF assms] framed_commit framed_rollback
      simp: keeps_def [of _ "modifyP (\<lambda>s. s)"] modifyP_apply)

lemma typed_user_update:
  assumes "\<And>n. nick = Sent n \<Longrightarrow> NicknameStr n = Some n"
  shows "keeps_typed coll g (user_update now uid nick)"
  unfolding user_update_def using assms
  by (cases nick) (auto intro!: keeps_control framed_commit typed_user_write
      simp: orm_update_pk user_typed_def orm_update_def stamp_user_def)

lemma typed_user_deactivate: "keeps_typed coll g (user_deactivate now uid)"
  unfolding user_deactivate_def
  by (auto intro!: keeps_control framed_commit typed_user_write
      simp: orm_update_pk user_typed_def orm_update_def stamp_user_def)

lemma typed_post_create:
  assumes "1 \<le> length (pc_title b)" and "length (pc_title b) \<le> 200" and "1 \<le> length (pc_content b)"
  shows "keeps_typed coll g (post_create now me b)"
  unfolding post_create_def post_add_def using assms
  by (auto intro!: keeps_control framed_commit framed_ins_if session_ok_ins schema_ok_ins_posts simp: post_typed_def)

lemma typed_post_detail: "keeps_typed coll g (post_detail R now pid me)"
  unfolding post_detail_def increment_views_def
  by (auto intro!: keeps_control frame_rules typed_post_write split: option.split simp: post_typed_def)

lemma typed_post_update:
  assumes "\<And>p. sent_fits (pu_content b) \<Longrightarrow> post_typed p \<Longrightarrow> post_typed (post_edit now b p)"
  shows "keeps_typed coll g (post_update R now pid me b)"
  unfolding post_update_def
  by (auto intro!: keeps_control framed_get_owned framed_commit typed_post_detail typed_post_write assms)

lemma typed_post_delete: "keeps_typed coll g (post_delete now pid me)"
  unfolding post_delete_def
  by (auto intro!: keeps_control frame_rules typed_post_write simp: post_mark_def orm_update_def stamp_post_def post_typed_def)

lemma typed_process_report: "keeps_typed coll g (process_report now rid rv q)"
proof -
  have hide: "keeps_typed coll g (hide_if_published now pid)" for pid
    unfolding hide_if_published_def
    by (auto intro!: keeps_control typed_post_write split: option.split simp: orm_update_def stamp_post_def post_typed_def)
  show ?thesis
    unfolding process_report_def hide_reported_content_def report_sanction_def add_user_sanction_def
    by (auto intro!: keeps_control hide framed_commit framed_or_rollback framed_update_report framed_validate_report
        framed_ins session_ok_ins schema_ok_ins_sanctions split: option.split report_content_type.split)
qed

lemma typed_comment_create:
  assumes "1 \<le> length (cc_content b)" and "length (cc_content b) \<le> 1000"
  shows "keeps_typed coll g (comment_create contains scan now pid me b)"
  unfolding comment_create_def comment_add_def using assms
  by (auto intro!: keeps_control framed_ensure_post_exists framed_validate_mentions framed_check_parent framed_commit
      framed_ins_if session_ok_ins schema_ok_ins_comments simp: comment_typed_def)

lemma typed_comment_update:
  assumes "1 \<le> length content" and "length content \<le> 1000"
  shows "keeps_typed coll g (comment_update contains scan now cid me content)"
  unfolding comment_update_def using assms
  by (auto intro!: keeps_control frame_rules typed_comment_write
      simp: comment_edit_def orm_update_def stamp_comment_def comment_typed_def)

lemma typed_comment_delete: "keeps_typed coll g (comment_delete now cid me)"
  unfolding comment_delete_def
  by (auto intro!: keeps_control frame_rules typed_comment_write
      simp: comment_mark_def orm_update_def stamp_comment_def comment_typed_def)

lemma typed_menu_create:
  assumes "1 \<le> length (mc_name b)" and "length (mc_name b) \<le> 50"
  shows "keeps_typed coll g (menu_create ncoll (\<lambda>s. s) now b)"
  unfolding menu_create_def using assms
  by (auto intro!: keeps_control framed_ensure_parent_exists framed_ensure_name_available framed_commit framed_ins_if
      session_ok_ins schema_ok_ins_menus simp: menu_typed_def keeps_def [of _ "modifyP (\<lambda>s. s)"] modifyP_apply)

lemma typed_menu_write:
  assumes "\<And>n. name = Some n \<Longrightarrow> 1 \<le> length n \<and> length n \<le> 50"
  shows "keeps_typed coll g (menu_write ncoll now mid name pid)"
  unfolding menu_write_def using assms
  by (auto intro!: keeps_control framed_commit typed_menu_flush split: option.split
      simp: orm_update_def stamp_menu_def menu_typed_def)

lemma typed_menu_update:
  assumes "MenuUpdate n p = Some b" and "framed coll typed True g s" and "Menus.menu_update ncoll now mid b s = Some (r, t)"
  shows "framed coll typed True g t"
  using assms(3)
proof (rule menu_update_end)
  fix m assume m: "m \<in> set (menu_active (working s))" and t: "t = snd (menu_update_rest ncoll now m b s)"
  have "menu_typed m" using assms(2) m by (auto simp: framed_def typed_def list_all_iff menu_active_def)
  then have "keeps_typed coll g (menu_update_rest ncoll now m b)"
    unfolding menu_update_rest_def Let_def
    by (intro keeps_control typed_menu_write framed_menu_get_or_404 MenuUpdate_typed [OF assms(1)])
      (auto intro!: framed_ensure_name_available)
  with assms(2) t show ?thesis by (simp add: keepsD)
qed (use assms(2) in simp)

lemma typed_menu_delete: "keeps_typed coll g (menu_delete ncoll now mid)"
  unfolding menu_delete_def
  by (auto intro!: keeps_control framed_menu_get_or_404 framed_commit typed_menu_flush
      simp: orm_update_def stamp_menu_def menu_typed_def)

section \<open>Steps and runs\<close>

lemma step_typed:
  assumes "app_step D (w, ob) (w', ob')" and "session_ok (d_mail_coll D) w" and "working w = committed w" and "typed (committed w)"
  shows "typed (committed w')"
proof -
  let ?I = "framed (d_mail_coll D) typed True (on_more (\<lambda>_. True))"
  have w: "?I w" using assms(2-4) by (simp add: framed_kv)
  from assms(1) have "?I w' \<and> working w' = committed w'"
  proof cases
    case account
    show ?thesis
      by (rule anything.account_kept [OF account(2) refl refl refl w])
        (auto intro!: typed_user_create typed_user_update typed_user_deactivate dest: UserCreate_typed UserUpdate_typed)
  next
    case posting
    show ?thesis
      by (rule anything.post_kept [OF posting(2) refl _ w])
        (auto intro!: typed_post_detail typed_post_create typed_post_update typed_post_delete
          dest: PostCreate_typed PostUpdate_typed)
  next
    case menu
    show ?thesis
      by (rule anything.menu_kept [OF menu(2) w])
        (auto intro!: typed_menu_create typed_menu_delete intro: typed_menu_update [OF _ w] dest: MenuCreate_typed)
  next
    case comment
    show ?thesis
      by (rule anything.comment_kept [OF comment(2) w])
        (auto intro!: typed_comment_create typed_comment_update typed_comment_delete dest: CommentCreate_typed CommentUpdate_typed)
  next
    case report
    show ?thesis by (rule anything.report_kept [OF report(2) _ w]) (simp_all add: typed_process_report)
  next
    case reading
    then show ?thesis using anything.read_framed [OF reading(2) w] by simp
  next
    case (upload now cred fid pid x r m)
    then show ?thesis using anything.upload_framed [OF upload(3) _ w] by simp
  next
    case wait
    then show ?thesis using w assms(3) by (simp add: framed_kv session_ok_def)
  qed
  then show ?thesis by (simp add: framed_def)
qed

lemma run_typed:
  assumes "app_run D x y" and "session_ok (d_mail_coll D) (fst x)" and "working (fst x) = committed (fst x)"
    and "typed (committed (fst x))"
  shows "session_ok (d_mail_coll D) (fst y) \<and> working (fst y) = committed (fst y) \<and> typed (committed (fst y))"
  using assms(1)
proof induction
  case (step y z)
  obtain w ob w' ob' where yz: "y = (w, ob)" "z = (w', ob')" by (cases y, cases z)
  with step have s: "app_step D (w, ob) (w', ob')" by simp
  show ?case
    using step.IH step_typed [OF s] anything.step_kept [OF s refl refl refl] by (simp add: yz)
qed (simp add: assms)

section \<open>Properties\<close>

text \<open>
  C15.  Rows have the types of their columns.  From a database whose texts fit, whatever requests the schemas let
  through and in whatever order: the schema that guards a text accepts what is stored, unchanged.  So a nickname is
  trimmed (as pydantic trims) and has 2 to 50 characters, a menu name 1 to 50, a title 1 to 200, a comment 1 to 1000, and
  no post is empty or longer than the 65535 bytes of its TEXT column: its schema has no maximum, and the statement that
  would exceed the column is refused by the database with the request undone.
\<close>

theorem rows_typed:
  assumes "session_ok (d_mail_coll D) (fst x)" and "working (fst x) = committed (fst x)" and "typed (committed (fst x))"
    and "app_run D x y" and "d = committed (fst y)"
  shows "(\<forall>r\<in>set (users d). UserUpdate (Sent (user_nickname r)) = Some (Sent (user_nickname r)) \<and>
       2 \<le> length (user_nickname r) \<and> length (user_nickname r) \<le> 50 \<and> trim_text (user_nickname r) = user_nickname r) \<and>
    (\<forall>m\<in>set (menus d). MenuCreate (menu_name m) p = Some \<lparr>mc_name = menu_name m, mc_parent_id = p\<rparr> \<and>
       length (menu_name m) \<le> 50) \<and>
    (\<forall>q\<in>set (posts d). PostCreate (post_title q) (post_content q) =
         Some \<lparr>pc_title = post_title q, pc_content = post_content q\<rparr> \<and>
       length (post_title q) \<le> 200 \<and> post_content q \<noteq> [] \<and> length (utf8 (post_content q)) \<le> 65535) \<and>
    (\<forall>c\<in>set (comments d). CommentUpdate (comment_content c) = Some (comment_content c) \<and>
       comment_content c \<noteq> [] \<and> length (comment_content c) \<le> 1000)"
proof -
  have "typed d" using run_typed [OF assms(4,1-3)] assms(5) by simp
  then have t: "\<And>r. r \<in> set (users d) \<Longrightarrow> user_typed r" "\<And>m. m \<in> set (menus d) \<Longrightarrow> menu_typed m"
    "\<And>q. q \<in> set (posts d) \<Longrightarrow> post_typed q" "\<And>c. c \<in> set (comments d) \<Longrightarrow> comment_typed c"
    by (simp_all add: typed_def list_all_iff)
  have "\<forall>r\<in>set (users d). UserUpdate (Sent (user_nickname r)) = Some (Sent (user_nickname r)) \<and>
       2 \<le> length (user_nickname r) \<and> length (user_nickname r) \<le> 50 \<and> trim_text (user_nickname r) = user_nickname r"
    using user_typedD [OF t(1)] by blast
  with menu_typedD [OF t(2)] post_typedD [OF t(3)] comment_typedD [OF t(4)] show ?thesis
    unfolding fits_text_def text_column_bytes_def by blast
qed

theorem rows_typed_witness:
  "let tok = create_access_token demo_crypto demo_settings 90 ''i'' 7;
       w = snd (update_me demo_crypto demo_settings 100 (Some tok) (Sent (u ''Neo'')) demo_live)
   in length (user_nickname (hd (users (committed w)))) \<le> 50 \<and> user_nickname (hd (users (committed w))) = u ''Neo''"
proof -
  let ?tok = "create_access_token demo_crypto demo_settings 90 ''i'' 7"
  let ?w = "snd (update_me demo_crypto demo_settings 100 (Some ?tok) (Sent (u ''Neo'')) demo_live)"
  have d: "d_crypto demo_deployment = demo_crypto" "d_jwt demo_deployment = demo_settings"
    by (simp_all add: demo_deployment_def demo_ttl)
  have n: "UserUpdate (Sent (u ''Neo'')) = Some (Sent (u ''Neo''))"
    by (simp add: UserUpdate_def NicknameStr_def trim_text_def strip_by_def white_space_def u_def Let_def)
  have "account_request demo_deployment demo_live ?w"
    using account_request.update_me [OF n, of demo_deployment demo_live 100 "Some ?tok"] by (simp add: d)
  then have run: "app_run demo_deployment (demo_live, []) (?w, [])"
    by (rule app_run.step [OF app_run.start app_step.account])
  have t: "typed (committed demo_live)"
    by (simp add: typed_def demo_live_def Let_def empty_db_def user_typed_def demo_user_def menu_typed_def demo_menu_def
        post_typed_def demo_post_def comment_typed_def demo_comment_def u_def NicknameStr_def trim_text_def strip_by_def white_space_def
        fits_text_def text_column_bytes_def utf8_def utf8_char_def)
  have ok: "session_ok (d_mail_coll demo_deployment) demo_live" "working demo_live = committed demo_live"
    using demo_live_ok by (simp_all add: app_ok_def)
  have w: "users (committed ?w) = [(demo_user 7 ''a@x'')\<lparr>user_nickname := u ''Neo'', user_updated_at := 100\<rparr>]"
    by (simp add: update_me_def get_db_def bindP_apply demo_live_user user_update_def prog_simps user_get_def
        split: option.split)
      (simp add: demo_live_def Let_def empty_db_def user_get_by_id_def sel_pk_def demo_user_def orm_update_def stamp_user_def u_def)
  from rows_typed [of demo_deployment "(demo_live, [])" "(?w, [])" "committed ?w"] ok t run show ?thesis
    by (simp add: Let_def w)
qed

end
