(* ===== verification/Threads.thy ===== *)
theory Threads
  imports Prelude
begin

text \<open>
  Requests that overlap.  The server runs its handlers in a pool of threads; what one of them does between two
  round trips to Redis or MySQL is its own, and a round trip takes effect at one moment.  A handler is therefore
  a \<open>thread\<close>: it is \<open>Done\<close> with a result, or makes a trip, which changes the shared state, and goes on with what the
  state answered.  \<open>runs\<close> interleaves the threads of a pool with steps \<open>E\<close> of the rest of the world.

  \<open>alone\<close> relates a thread that nobody interrupts to a sequential program.  For every interleaving, \<open>sat\<close> states an
  invariant, a progress order, what each trip guarantees and a postcondition; the locale \<open>rely_guarantee\<close> has the
  rest of the world's part of the bargain and the rules.
\<close>

section \<open>Threads\<close>

datatype ('s, 'a) thread = Done 'a | Trip "'s \<Rightarrow> 's" "'s \<Rightarrow> ('s, 'a) thread"

text \<open>\<open>Trip f g\<close>: the state \<open>s\<close> becomes \<open>f s\<close> and the thread goes on as \<open>g s\<close>.\<close>

primrec bindT :: "('s, 'e + 'a) thread \<Rightarrow> ('a \<Rightarrow> ('s, 'e + 'b) thread) \<Rightarrow> ('s, 'e + 'b) thread" where
  "bindT (Done r) h = (case r of Inl e \<Rightarrow> Done (Inl e) | Inr a \<Rightarrow> h a)"
| "bindT (Trip f g) h = Trip f (\<lambda>s. bindT (g s) h)"

abbreviation returnT :: "'a \<Rightarrow> ('s, 'e + 'a) thread" where
  "returnT a \<equiv> Done (Inr a)"

abbreviation raiseT :: "'e \<Rightarrow> ('s, 'e + 'a) thread" where
  "raiseT e \<equiv> Done (Inl e)"

text \<open>One trip that reads, one that writes, and one whose answer may be an exception.\<close>

abbreviation readT :: "('s \<Rightarrow> 'a) \<Rightarrow> ('s, 'e + 'a) thread" where
  "readT h \<equiv> Trip (\<lambda>s. s) (\<lambda>s. Done (Inr (h s)))"

abbreviation writeT :: "('s \<Rightarrow> 's) \<Rightarrow> ('s, 'e + unit) thread" where
  "writeT f \<equiv> Trip f (\<lambda>_. Done (Inr ()))"

abbreviation askT :: "('s \<Rightarrow> 'e + 'a) \<Rightarrow> ('s, 'e + 'a) thread" where
  "askT h \<equiv> Trip (\<lambda>s. s) (\<lambda>s. Done (h s))"

section \<open>Without interruption\<close>

primrec alone :: "('s, 'a) thread \<Rightarrow> 's \<Rightarrow> 'a \<times> 's" where
  "alone (Done r) = (\<lambda>s. (r, s))"
| "alone (Trip f g) = (\<lambda>s. alone (g s) (f s))"

lemma alone_bindT:
  "alone (bindT t h) s = (case alone t s of (Inl e, s') \<Rightarrow> (Inl e, s') | (Inr a, s') \<Rightarrow> alone (h a) s')"
  by (induction t arbitrary: s) (simp_all split: sum.split)

section \<open>Interleaving\<close>

type_synonym ('s, 'a) pool = "('s, 'a) thread list \<times> 's"

inductive moves :: "('s \<Rightarrow> 's \<Rightarrow> bool) \<Rightarrow> ('s, 'a) pool \<Rightarrow> ('s, 'a) pool \<Rightarrow> bool" for E where
  trip: "k < length ts \<Longrightarrow> ts ! k = Trip f g \<Longrightarrow> moves E (ts, s) (ts[k := g s], f s)"
| other: "E s s' \<Longrightarrow> moves E (ts, s) (ts, s')"

inductive_cases movesE [consumes 1, case_names trip other]: "moves E (ts, s) (ts', s')"

inductive runs :: "('s \<Rightarrow> 's \<Rightarrow> bool) \<Rightarrow> ('s, 'a) pool \<Rightarrow> ('s, 'a) pool \<Rightarrow> bool" for E c where
  start: "runs E c c"
| more: "runs E c d \<Longrightarrow> moves E d d' \<Longrightarrow> runs E c d'"

lemma runs_trans [trans]: "runs E c d \<Longrightarrow> runs E d d' \<Longrightarrow> runs E c d'"
  by (rotate_tac, induction rule: runs.induct) (auto intro: runs.more)

lemma runs_length: "runs E c d \<Longrightarrow> length (fst d) = length (fst c)"
  by (induction rule: runs.induct) (auto elim: moves.cases)

text \<open>A schedule names the thread that makes the next trip; a finished thread ignores its turn.\<close>

fun advance :: "nat \<Rightarrow> ('s, 'a) pool \<Rightarrow> ('s, 'a) pool" where
  "advance k (ts, s) =
     (if k < length ts then (case ts ! k of Done r \<Rightarrow> (ts, s) | Trip f g \<Rightarrow> (ts[k := g s], f s)) else (ts, s))"

definition play :: "nat list \<Rightarrow> ('s, 'a) pool \<Rightarrow> ('s, 'a) pool" where
  "play ks c = fold advance ks c"

lemma play_simps [simp]: "play [] c = c" "play (k # ks) c = play ks (advance k c)"
  by (simp_all add: play_def)

lemma advance_runs: "runs E c (advance k c)"
  by (cases c) (auto intro: runs.intros moves.trip split: thread.split)

lemma play_runs: "runs E c (play ks c)"
  by (induction ks arbitrary: c) (simp_all only: play_simps runs.start, metis advance_runs runs_trans)

text \<open>Some trips of one thread, the others waiting.\<close>

inductive goes :: "('s, 'a) thread \<Rightarrow> 's \<Rightarrow> ('s, 'a) thread \<Rightarrow> 's \<Rightarrow> bool" where
  stay: "goes t s t s"
| go: "goes (g s) (f s) t s' \<Longrightarrow> goes (Trip f g) s t s'"

lemma goes_alone: "goes t s (Done (fst (alone t s))) (snd (alone t s))"
  by (induction t arbitrary: s) (simp_all add: goes.intros)

lemma goes_runs:
  assumes "goes t s u s'" and "k < length ts" and "ts ! k = t"
  shows "runs E (ts, s) (ts[k := u], s')"
  using assms
proof (induction arbitrary: ts)
  case (stay t s)
  then show ?case by (metis list_update_id runs.start)
next
  case (go g s f t s')
  then have "runs E (ts[k := g s], f s) (ts[k := g s, k := t], s')" by (intro go.IH) simp_all
  moreover have "runs E (ts, s) (ts[k := g s], f s)"
    using go.prems by (intro runs.more [OF runs.start] moves.trip) simp_all
  ultimately show ?case by (metis list_update_overwrite runs_trans)
qed

text \<open>A thread that runs through while the others wait gives its sequential result.\<close>

lemma alone_runs:
  "k < length ts \<Longrightarrow> runs E (ts, s) (ts[k := Done (fst (alone (ts ! k) s))], snd (alone (ts ! k) s))"
  by (rule goes_runs [OF goes_alone]) simp_all

text \<open>Threads that can each get from \<open>ts ! k\<close> to \<open>us ! k\<close> without changing the state can all do so.\<close>

lemma reads_run:
  assumes "length us = length ts" and "\<And>k. k < length ts \<Longrightarrow> goes (ts ! k) s (us ! k) s"
  shows "runs E (ts, s) (us, s)"
proof -
  have "runs E (ts, s) (take n us @ drop n ts, s)" if "n \<le> length ts" for n
    using that
  proof (induction n)
    case 0
    then show ?case by (simp add: runs.start)
  next
    case (Suc n)
    let ?x = "take n us @ drop n ts"
    have n: "?x ! n = ts ! n" "?x[n := us ! n] = take (Suc n) us @ drop (Suc n) ts"
      using Suc.prems assms(1)
      by (simp_all add: nth_append list_update_append take_Suc_conv_app_nth Cons_nth_drop_Suc [symmetric])
    have "runs E (?x, s) (?x[n := us ! n], s)"
      using Suc.prems assms by (intro goes_runs [where t = "ts ! n"]) (simp_all add: n)
    with Suc n show ?case by (auto intro: runs_trans)
  qed
  from this [of "length ts"] show ?thesis by (simp add: assms(1))
qed

section \<open>Rely, guarantee, postcondition\<close>

text \<open>
  \<open>sat J le G Q t v\<close>: the thread \<open>t\<close>, last seen at \<open>v\<close>, makes each trip in a state that satisfies the invariant \<open>J\<close>
  and lies above \<open>v\<close> in the order \<open>le\<close>; the trip keeps \<open>J\<close>, moves up, and guarantees \<open>G s s' t'\<close> of the states
  before and after it and of what is left of the thread; a result \<open>r\<close> satisfies \<open>Q r\<close> from then on.
\<close>

primrec sat ::
  "('s \<Rightarrow> bool) \<Rightarrow> ('s \<Rightarrow> 's \<Rightarrow> bool) \<Rightarrow> ('s \<Rightarrow> 's \<Rightarrow> ('s, 'a) thread \<Rightarrow> bool) \<Rightarrow> ('a \<Rightarrow> 's \<Rightarrow> bool) \<Rightarrow>
   ('s, 'a) thread \<Rightarrow> 's \<Rightarrow> bool" where
  "sat J le G Q (Done r) = (\<lambda>v. \<forall>s. J s \<longrightarrow> le v s \<longrightarrow> Q r s)"
| "sat J le G Q (Trip f g) =
     (\<lambda>v. \<forall>s. J s \<longrightarrow> le v s \<longrightarrow> J (f s) \<and> le s (f s) \<and> G s (f s) (g s) \<and> sat J le G Q (g s) (f s))"

lemma sat_mono:
  assumes "sat J le G Q t v" and "\<And>s s' t. G s s' t \<Longrightarrow> G' s s' t" and "\<And>r s. J s \<Longrightarrow> Q r s \<Longrightarrow> Q' r s"
  shows "sat J le G' Q' t v"
  using assms by (induction t arbitrary: v) auto

locale rely_guarantee =
  fixes E :: "'s \<Rightarrow> 's \<Rightarrow> bool" and J :: "'s \<Rightarrow> bool" and le :: "'s \<Rightarrow> 's \<Rightarrow> bool"
  assumes refl: "le s s"
    and trans: "le s t \<Longrightarrow> le t r \<Longrightarrow> le s r"
    and rely: "J s \<Longrightarrow> E s s' \<Longrightarrow> J s' \<and> le s s'"
begin

lemma sat_later: "sat J le G Q t v \<Longrightarrow> le v v' \<Longrightarrow> sat J le G Q t v'"
  by (cases t) (auto intro: trans)

text \<open>A sequence: what the first thread guarantees is said of it with the rest to come.\<close>

lemma sat_bindT:
  assumes "sat J le (\<lambda>s s' t'. G s s' (bindT t' h)) (\<lambda>r s. \<forall>a. r = Inr a \<longrightarrow> sat J le G Q (h a) s) t v"
    and "\<And>e s. Q (Inl e) s"
  shows "sat J le G Q (bindT t h) v"
  using assms
proof (induction t arbitrary: v)
  case (Done r)
  show ?case
  proof (cases r)
    case (Inl e)
    with assms(2) show ?thesis by simp
  next
    case (Inr a)
    with Done(1) have "\<forall>s. J s \<longrightarrow> le v s \<longrightarrow> sat J le G Q (h a) s" by simp
    then have "sat J le G Q (h a) v"
      by (cases "h a") (auto intro: refl)
    with Inr show ?thesis by simp
  qed
qed auto

text \<open>Each thread of a pool may have its own postcondition.\<close>

lemma sat_runs:
  assumes "runs E (ts, s) (ts', s')" and "J s" and "\<And>k. k < length ts \<Longrightarrow> sat J le G (Q k) (ts ! k) s"
  shows "J s' \<and> le s s' \<and> (\<forall>k<length ts'. sat J le G (Q k) (ts' ! k) s')"
  using assms(1)
proof (induction "(ts', s')" arbitrary: ts' s' rule: runs.induct)
  case start
  with assms(2,3) show ?case by (simp add: refl)
next
  case (more d)
  obtain us u where d: "d = (us, u)" by (cases d)
  with more have u: "J u" "le s u" "\<forall>k<length us. sat J le G (Q k) (us ! k) u" by simp_all
  from more(3) show ?case
    unfolding d
  proof (cases rule: movesE)
    case (trip k f g)
    then have "sat J le G (Q k) (Trip f g) u" using u(3) by metis
    then have "J (f u) \<and> le u (f u) \<and> sat J le G (Q k) (g u) (f u)" using u(1) by (simp add: refl)
    with trip u show ?thesis by (auto simp: nth_list_update intro: trans sat_later)
  next
    case other
    with u rely show ?thesis by (auto intro: trans sat_later)
  qed
qed

lemma sat_done:
  assumes "runs E (ts, s) (ts', s')" and "J s" and "\<And>k. k < length ts \<Longrightarrow> sat J le G (Q k) (ts ! k) s"
    and "k < length ts'" and "ts' ! k = Done r"
  shows "Q k r s'"
proof -
  have "J s'" and "sat J le G (Q k) (ts' ! k) s'"
    using sat_runs [where Q = Q and G = G, OF assms(1-3)] assms(4) by simp_all
  with assms(5) show ?thesis by (simp add: refl)
qed

text \<open>A property of the threads and the state together, kept by every step that meets its guarantee.\<close>

lemma sat_invariant:
  assumes "runs E (ts, s) (ts', s')" and "J s" and "\<And>k. k < length ts \<Longrightarrow> sat J le G (Q k) (ts ! k) s"
    and "P ts s" and "\<And>ts s s'. P ts s \<Longrightarrow> J s \<Longrightarrow> E s s' \<Longrightarrow> P ts s'"
    and "\<And>ts s k f g. P ts s \<Longrightarrow> J s \<Longrightarrow> k < length ts \<Longrightarrow> ts ! k = Trip f g \<Longrightarrow> G s (f s) (g s) \<Longrightarrow>
      P (ts[k := g s]) (f s)"
  shows "P ts' s'"
  using assms(1)
proof (induction "(ts', s')" arbitrary: ts' s' rule: runs.induct)
  case start
  with assms(4) show ?case by simp
next
  case (more d)
  obtain us u where d: "d = (us, u)" by (cases d)
  with more have u: "P us u" by simp
  have sat: "J u" "\<forall>k<length us. sat J le G (Q k) (us ! k) u"
    using sat_runs [where Q = Q and G = G, OF more(1) [unfolded d] assms(2,3)] by simp_all
  from more(3) show ?case
    unfolding d
  proof (cases rule: movesE)
    case (trip k f g)
    then have "sat J le G (Q k) (Trip f g) u" using sat(2) by metis
    with sat(1) have "G u (f u) (g u)" by (simp add: refl)
    with trip u sat(1) show ?thesis by (auto intro: assms(6))
  next
    case other
    with u sat(1) show ?thesis by (auto intro: assms(5))
  qed
qed

end

end
