(* ===== verification/Auth_Threads.thy ===== *)
theory Auth_Threads
  imports Threads Auth
begin

text \<open>
  \<^verbatim>\<open>AuthService\<close> with its round trips.  The endpoints are plain \<^verbatim>\<open>def\<close>s, which the server runs in a thread
  pool, so two requests can overlap anywhere between two trips.  One trip is one pipeline (MULTI/EXEC), one single
  Redis command or one query; everything else a handler does is local to it.  A request has a database session of
  its own, opened with it, and these methods make one query each, so the query sees what is committed at that
  moment (\<open>rollback\<close>).  \<open>now\<close> is the clock when \<open>refresh\<close> decodes the token, \<open>now'\<close> when it rotates and issues.

  The definitions follow the methods trip by trip; \<open>threads_refine_requests\<close> ties them to the sequential ones of
  \<open>Auth\<close>.  The rest is about every interleaving with other requests: which sessions can exist, what "log out
  everywhere" still promises, how many guesses a limit lets through, and which promises do not survive.
\<close>

section \<open>The methods, trip by trip\<close>

text \<open>\<^verbatim>\<open>RateLimiter.hit\<close>: the pipeline, then TTL if the limit is passed.\<close>

definition hitT :: "'r redis_api \<Rightarrow> string \<Rightarrow> int \<Rightarrow> nat \<Rightarrow> ('r app, exn + rate_limit_result) thread" where
  "hitT R key max_attempts window_seconds =
     Trip (on_kv (\<lambda>s. r_expire_nx R key window_seconds (r_incr R key s)))
       (\<lambda>w. let current = r_incr_reply R (kv w) key
            in if current \<le> max_attempts
               then returnT \<lparr>allowed = True, current = current, retry_after = 0\<rparr>
               else bindT (readT (\<lambda>w. r_ttl R (kv w) key)) (\<lambda>ttl.
                    returnT \<lparr>allowed = False, current = current,
                             retry_after = (if ttl > 0 then ttl else int window_seconds)\<rparr>))"

fun check_keysT :: "'r redis_api \<Rightarrow> auth_settings \<Rightarrow> string list \<Rightarrow> ('r app, exn + unit) thread" where
  "check_keysT R A [] = returnT ()"
| "check_keysT R A (k # ks) =
     bindT (hitT R k (login_rate_limit_max_attempts A) (login_rate_limit_window_seconds A)) (\<lambda>result.
       if \<not> allowed result
       then raiseT (AppError (RateLimitedError (Some MsgTooManyLogins) (retry_after result)))
       else check_keysT R A ks)"

fun reset_keysT :: "'r redis_api \<Rightarrow> string list \<Rightarrow> ('r app, exn + unit) thread" where
  "reset_keysT R [] = returnT ()"
| "reset_keysT R (k # ks) = bindT (writeT (on_kv (reset R k))) (\<lambda>_. reset_keysT R ks)"

text \<open>\<^verbatim>\<open>RefreshTokenStore.verify\<close>: GET, and EXISTS if there is no such key.\<close>

definition verifyT ::
  "'r redis_api \<Rightarrow> crypto \<Rightarrow> int \<Rightarrow> string \<Rightarrow> string \<Rightarrow> ('r app, exn + token_state) thread" where
  "verifyT R C uid jti token =
     bindT (readT (\<lambda>w. r_get R (kv w) (token_key uid jti))) (\<lambda>stored.
     case stored of
       Some h \<Rightarrow> returnT (if verify_token_hash C token h then TS_ACTIVE else TS_FORGED)
     | None \<Rightarrow> bindT (readT (\<lambda>w. r_exists R (kv w) (used_key uid jti))) (\<lambda>used.
               returnT (if used then TS_REUSED else TS_UNKNOWN)))"

text \<open>\<^verbatim>\<open>RefreshTokenStore.revoke_all\<close>: SMEMBERS, then the pipeline of deletions.\<close>

definition revoke_allT :: "'r redis_api \<Rightarrow> int \<Rightarrow> ('r app, exn + nat) thread" where
  "revoke_allT R uid =
     bindT (readT (\<lambda>w. revoke_all_read R uid (kv w))) (\<lambda>jtis.
     bindT (writeT (on_kv (revoke_all_delete R uid jtis))) (\<lambda>_. returnT (fcard jtis)))"

definition issue_tokensT ::
  "'r redis_api \<Rightarrow> crypto \<Rightarrow> auth_settings \<Rightarrow> time \<Rightarrow> string \<Rightarrow> string \<Rightarrow> int \<Rightarrow>
   ('r app, exn + issued_tokens) thread" where
  "issue_tokensT R C A now i j uid =
     (let access = create_access_token C (a_jwt A) now i uid;
          (refresh, jti) = create_refresh_token C (a_jwt A) now j uid
      in bindT (writeT (on_kv (save R (ttl_seconds (a_jwt A)) uid jti (hash_token C refresh)))) (\<lambda>_.
         returnT \<lparr>access_token = access, refresh_token = refresh,
                  expires_in = int (access_token_expire_minutes (a_jwt A) * 60)\<rparr>))"

definition loginT ::
  "'r redis_api \<Rightarrow> crypto \<Rightarrow> auth_settings \<Rightarrow> (string \<Rightarrow> string) \<Rightarrow> time \<Rightarrow> string \<Rightarrow> string \<Rightarrow>
   string \<Rightarrow> utext \<Rightarrow> string \<Rightarrow> ('r app, exn + issued_tokens) thread" where
  "loginT R C A coll now i j email password ip =
     bindT (check_keysT R A (rate_limit_keys email ip)) (\<lambda>_.
     bindT (askT (\<lambda>w. user_get_by_email coll email (rollback w))) (\<lambda>r.
     let password_ok = verify_password C password
           (case r of Some x \<Rightarrow> user_password_hash x | None \<Rightarrow> DUMMY_PASSWORD_HASH)
     in case r of
          None \<Rightarrow> raiseT login_failed
        | Some x \<Rightarrow>
            if \<not> password_ok then raiseT login_failed
            else if \<not> user_is_active x then raiseT login_failed
            else bindT (reset_keysT R (rate_limit_keys email ip)) (\<lambda>_.
                 issue_tokensT R C A now i j (user_id x))))"

text \<open>\<open>refresh\<close> up to the point where it decides to rotate, and from there.\<close>

definition refresh_checkT ::
  "'r redis_api \<Rightarrow> crypto \<Rightarrow> auth_settings \<Rightarrow> time \<Rightarrow> string \<Rightarrow> ('r app, exn + token_payload \<times> user) thread" where
  "refresh_checkT R C A now tok =
     bindT (Done (decode_token C (a_jwt A) now tok REFRESH)) (\<lambda>payload.
     bindT (verifyT R C (tp_user_id payload) (tp_jti payload) tok) (\<lambda>state.
     if state = TS_REUSED \<or> state = TS_FORGED then
       bindT (revoke_allT R (tp_user_id payload)) (\<lambda>_. raiseT session_expired)
     else if state = TS_UNKNOWN then raiseT session_expired
     else bindT (readT (\<lambda>w. user_get_by_id (tp_user_id payload) (rollback w))) (\<lambda>r.
       case r of
         None \<Rightarrow> bindT (revoke_allT R (tp_user_id payload)) (\<lambda>_. raiseT session_expired)
       | Some x \<Rightarrow>
           if \<not> user_is_active x
           then bindT (revoke_allT R (tp_user_id payload)) (\<lambda>_. raiseT session_expired)
           else returnT (payload, x))))"

definition refresh_rotateT ::
  "'r redis_api \<Rightarrow> crypto \<Rightarrow> auth_settings \<Rightarrow> time \<Rightarrow> string \<Rightarrow> string \<Rightarrow> token_payload \<times> user \<Rightarrow>
   ('r app, exn + issued_tokens) thread" where
  "refresh_rotateT R C A now i j = (\<lambda>(payload, x).
     let remaining = int (tp_expires_at payload) - int now
     in bindT (writeT (on_kv (rotate R (tp_user_id payload) (tp_jti payload) remaining))) (\<lambda>_.
        issue_tokensT R C A now i j (user_id x)))"

definition refreshT ::
  "'r redis_api \<Rightarrow> crypto \<Rightarrow> auth_settings \<Rightarrow> time \<Rightarrow> time \<Rightarrow> string \<Rightarrow> string \<Rightarrow> string \<Rightarrow>
   ('r app, exn + issued_tokens) thread" where
  "refreshT R C A now now' i j tok = bindT (refresh_checkT R C A now tok) (refresh_rotateT R C A now' i j)"

definition logoutT ::
  "'r redis_api \<Rightarrow> crypto \<Rightarrow> auth_settings \<Rightarrow> time \<Rightarrow> string option \<Rightarrow> ('r app, exn + unit) thread" where
  "logoutT R C A now tok =
     (case tok of
        None \<Rightarrow> returnT ()
      | Some t \<Rightarrow>
          if t = [] then returnT ()
          else (case decode_token C (a_jwt A) now t REFRESH of
                  Inl _ \<Rightarrow> returnT ()
                | Inr payload \<Rightarrow> writeT (on_kv (revoke R (tp_user_id payload) (tp_jti payload)))))"

text \<open>The calls of the service, with everything a client and the random source contribute.\<close>

datatype auth_request =
    Login time string string string utext string
  | Refresh time time string string string
  | Logout time "string option"
  | Logout_all int

datatype auth_reply = Tokens issued_tokens | Logged_out | Revoked nat

fun auth_thread ::
  "'r redis_api \<Rightarrow> crypto \<Rightarrow> auth_settings \<Rightarrow> (string \<Rightarrow> string) \<Rightarrow> auth_request \<Rightarrow> ('r app, exn + auth_reply) thread" where
  "auth_thread R C A coll (Login now i j email password ip) =
     bindT (loginT R C A coll now i j email password ip) (\<lambda>ts. returnT (Tokens ts))"
| "auth_thread R C A coll (Refresh now now' i j tok) =
     bindT (refreshT R C A now now' i j tok) (\<lambda>ts. returnT (Tokens ts))"
| "auth_thread R C A coll (Logout now tok) = bindT (logoutT R C A now tok) (\<lambda>_. returnT Logged_out)"
| "auth_thread R C A coll (Logout_all uid) = bindT (revoke_allT R uid) (\<lambda>n. returnT (Revoked n))"

text \<open>The UUID a request draws for a new refresh token.\<close>

fun new_jti :: "auth_request \<Rightarrow> string option" where
  "new_jti (Login now i j email password ip) = Some j"
| "new_jti (Refresh now now' i j tok) = Some j"
| "new_jti q = None"

text \<open>The same calls as the sequential programs of \<open>Auth\<close>.\<close>

fun auth_call ::
  "'r redis_api \<Rightarrow> crypto \<Rightarrow> auth_settings \<Rightarrow> (string \<Rightarrow> string) \<Rightarrow> auth_request \<Rightarrow> ('r app, exn, auth_reply) prog" where
  "auth_call R C A coll (Login now i j email password ip) =
     bindP (login R C A coll now i j email password ip) (\<lambda>ts. returnP (Tokens ts))"
| "auth_call R C A coll (Refresh now now' i j tok) =
     bindP (bindP (refresh_check R C A now tok) (refresh_rotate R C A now' i j)) (\<lambda>ts. returnP (Tokens ts))"
| "auth_call R C A coll (Logout now tok) = bindP (logout R C A now tok) (\<lambda>_. returnP Logged_out)"
| "auth_call R C A coll (Logout_all uid) = bindP (logout_all R uid) (\<lambda>n. returnP (Revoked n))"

section \<open>The rest of the world\<close>

text \<open>
  What happens between two trips of these threads: any other request commits to the database, a command of the
  limiter or of the likes reaches Redis, or time passes.
\<close>

inductive other_step :: "'r redis_api \<Rightarrow> nat \<Rightarrow> 'r app \<Rightarrow> 'r app \<Rightarrow> bool" for R ttl where
  database: "other_step R ttl w (w\<lparr>committed := d, working := d, seq := q\<rparr>)"
| command: "foreign e \<Longrightarrow> other_step R ttl w (on_kv (store_step R ttl e) w)"
| wait: "other_step R ttl w (on_kv (r_tick R d) w)"

section \<open>Without interruption\<close>

named_theorems alone_simps \<open>threads that nobody interrupts\<close>

declare alone_bindT [alone_simps]

lemma on_kv_on_kv [simp]: "on_kv f (on_kv g w) = on_kv (\<lambda>s. f (g s)) w"
  by (simp add: on_kv_def)

lemma on_kv_const: "on_kv (\<lambda>_. f (kv w)) w = on_kv f w"
  by (simp add: on_kv_def)

lemma on_kv_same [simp]: "on_kv (\<lambda>s. s) w = w" "on_kv (\<lambda>_. kv w) w = w"
  by (simp_all add: on_kv_def)

lemma rollback_clean: "working w = committed w \<Longrightarrow> rollback w = w"
  by (simp add: rollback_def)

lemma alone_hitT [alone_simps]:
  "alone (hitT R key m W) w = (let (r, s) = hit R key m W (kv w) in (Inr r, on_kv (\<lambda>_. s) w))"
  by (simp add: hitT_def hit_def Let_def on_kv_def)

lemma alone_check_keysT [alone_simps]: "alone (check_keysT R A ks) w = check_keys R A ks w"
  by (induction ks arbitrary: w) (simp_all add: alone_simps returnP_def Let_def case_prod_unfold)

lemma alone_reset_keysT [alone_simps]: "alone (reset_keysT R ks) w = (Inr (), on_kv (fold (reset R) ks) w)"
  by (induction ks arbitrary: w) (simp_all add: on_kv_def)

lemma alone_verifyT [alone_simps]: "alone (verifyT R C a i tok) w = (Inr (verify R C a i tok (kv w)), w)"
  by (simp add: verifyT_def verify_def split: option.split)

lemma alone_revoke_allT [alone_simps]:
  "alone (revoke_allT R a) w = (Inr (fst (revoke_all R a (kv w))), on_kv (\<lambda>s. snd (revoke_all R a s)) w)"
  by (simp add: revoke_allT_def revoke_all_def Let_def on_kv_def)

lemma alone_issue_tokensT [alone_simps]: "alone (issue_tokensT R C A now i j uid) w = issue_tokens R C A now i j uid w"
  by (simp add: issue_tokensT_def issue_tokens_def Let_def case_prod_unfold)

lemma alone_loginT [alone_simps]:
  assumes "working w = committed w"
  shows "alone (loginT R C A coll now i j email password ip) w = login R C A coll now i j email password ip w"
proof -
  let ?c = "check_keys R A (rate_limit_keys email ip) w"
  have "working (snd ?c) = committed (snd ?c)"
    using check_keys_db [of R A "rate_limit_keys email ip" w] assms by simp
  then show ?thesis
    by (cases ?c) (simp add: loginT_def login_def alone_simps check_login_rate_limit_def prog_simps Let_def
        rollback_clean reset_login_rate_limit_def [abs_def] split: sum.split option.split)
qed

lemma alone_refresh_checkT [alone_simps]:
  "working w = committed w \<Longrightarrow> alone (refresh_checkT R C A now tok) w = refresh_check R C A now tok w"
  by (simp add: refresh_checkT_def refresh_check_def alone_simps prog_simps rollback_clean
      split: sum.split option.split)

lemma alone_refresh_rotateT [alone_simps]: "alone (refresh_rotateT R C A now i j z) w = refresh_rotate R C A now i j z w"
  by (cases z) (simp add: refresh_rotateT_def refresh_rotate_def alone_simps prog_simps Let_def)

lemma alone_auth_thread:
  assumes "working w = committed w"
  shows "alone (auth_thread R C A coll q) w = auth_call R C A coll q w"
proof (cases q)
  case Login
  then show ?thesis using assms by (simp add: alone_simps prog_simps split: prod.split sum.split)
next
  case Refresh
  then show ?thesis using assms by (simp add: refreshT_def alone_simps prog_simps split: prod.split sum.split)
next
  case Logout
  then show ?thesis by (simp add: logoutT_def logout_def alone_simps prog_simps split: option.split sum.split)
next
  case Logout_all
  then show ?thesis by (simp add: logout_all_def alone_simps prog_simps on_kv_def case_prod_unfold Let_def)
qed

section \<open>Trips of every request\<close>

text \<open>
  All trips but the one of \<open>save\<close>: commands of the limiter, \<open>rotate\<close>, \<open>revoke\<close>, and the second trip of \<open>revoke_all\<close>,
  which deletes what SMEMBERS answered in some earlier state \<open>v\<close>.  Whoever shows that these keep an
  invariant \<open>J\<close> and a relation \<open>K\<close> has it for every thread until it saves a token.
\<close>

fun request_event :: "store_event \<Rightarrow> bool" where
  "request_event (Ev_rotate a i n) \<longleftrightarrow> True"
| "request_event (Ev_revoke a i) \<longleftrightarrow> True"
| "request_event e \<longleftrightarrow> foreign e"

locale service_trips = rely_guarantee E J le for E :: "'r app \<Rightarrow> 'r app \<Rightarrow> bool" and J le +
  fixes R :: "'r redis_api" and ttl :: nat and K :: "'r app \<Rightarrow> 'r app \<Rightarrow> bool"
  assumes K_le: "K w w' \<Longrightarrow> le w w'"
    and K_refl: "K w w"
    and command: "request_event e \<Longrightarrow> J w \<Longrightarrow> J (on_kv (store_step R ttl e) w) \<and> K w (on_kv (store_step R ttl e) w)"
    and deletion: "J v \<Longrightarrow> J w \<Longrightarrow> le v w \<Longrightarrow>
      J (on_kv (revoke_all_delete R a (revoke_all_read R a (kv v))) w) \<and>
      K w (on_kv (revoke_all_delete R a (revoke_all_read R a (kv v))) w)"
begin

abbreviation kept :: "('r app, 'a) thread \<Rightarrow> 'r app \<Rightarrow> bool" where
  "kept \<equiv> sat J le (\<lambda>w w' _. K w w') (\<lambda>_ _. True)"

lemma sat_then:
  assumes "kept t v" and "\<And>w w' t. K w w' \<Longrightarrow> G w w' t" and "\<And>a v. sat J le G (\<lambda>_ _. True) (h a) v"
  shows "sat J le G (\<lambda>_ _. True) (bindT t h) v"
  by (rule sat_bindT) (auto intro!: sat_mono [OF assms(1)] assms(2,3))

lemma kept_bindT: "kept t v \<Longrightarrow> (\<And>a v. kept (h a) v) \<Longrightarrow> kept (bindT t h) v"
  by (rule sat_then)

lemma kept_write: "request_event e \<Longrightarrow> f = store_step R ttl e \<Longrightarrow> kept (writeT (on_kv f)) v"
  using command [of e] by (auto intro: K_le)

lemma kept_hitT: "kept (hitT R (''ratelimit:'' @ k) m n) v"
proof -
  have "(\<lambda>s. r_expire_nx R (''ratelimit:'' @ k) n (r_incr R (''ratelimit:'' @ k) s)) = store_step R ttl (Ev_ratelimit_hit k n)"
    by (simp add: fun_eq_iff)
  then show ?thesis
    using command [of "Ev_ratelimit_hit k n"] by (auto simp: hitT_def Let_def K_refl refl intro: K_le)
qed

lemma kept_check_keysT: "(\<And>k. k \<in> set ks \<Longrightarrow> \<exists>k'. k = ''ratelimit:'' @ k') \<Longrightarrow> kept (check_keysT R A ks) v"
proof (induction ks arbitrary: v)
  case (Cons k ks)
  from Cons.prems obtain k' where "k = ''ratelimit:'' @ k'" by auto
  with kept_hitT [of k'] have "kept (hitT R k m n) v" for m n v by simp
  moreover have "kept (check_keysT R A ks) v" for v
    using Cons.prems by (intro Cons.IH) auto
  ultimately show ?case
    unfolding check_keysT.simps by (intro kept_bindT) simp_all
qed simp

lemma kept_reset_keysT: "(\<And>k. k \<in> set ks \<Longrightarrow> \<exists>k'. k = ''ratelimit:'' @ k') \<Longrightarrow> kept (reset_keysT R ks) v"
proof (induction ks arbitrary: v)
  case (Cons k ks)
  from Cons.prems obtain k' where k: "k = ''ratelimit:'' @ k'" by auto
  have "kept (writeT (on_kv (reset R k))) v" for v
    by (rule kept_write [of "Ev_ratelimit_reset k'"]) (simp_all add: k reset_def fun_eq_iff)
  then show ?case
    unfolding reset_keysT.simps using Cons.prems by (intro kept_bindT Cons.IH) auto
qed simp

lemma rate_limit_keys_prefix: "k \<in> set (rate_limit_keys email ip) \<Longrightarrow> \<exists>k'. k = ''ratelimit:'' @ k'"
  by (auto simp: rate_limit_keys_def)

lemma kept_verifyT: "kept (verifyT R C a i tok) v"
  by (simp add: verifyT_def K_refl refl split: option.split)

lemma kept_revoke_allT: "kept (revoke_allT R a) v"
  using deletion by (simp add: revoke_allT_def K_refl refl K_le)

lemma kept_refresh_checkT: "kept (refresh_checkT R C A now tok) v"
  unfolding refresh_checkT_def
  by (intro kept_bindT) (auto intro!: kept_bindT kept_verifyT kept_revoke_allT simp: K_refl refl split: option.split)

lemma kept_logoutT: "kept (logoutT R C A now tok) v"
proof -
  have "kept (writeT (on_kv (revoke R a i))) v" for a i
    by (rule kept_write [of "Ev_revoke a i"]) (simp_all add: fun_eq_iff)
  then show ?thesis unfolding logoutT_def by (auto simp del: sat.simps(2) split: option.split sum.split)
qed

text \<open>Whole requests.  \<open>issue\<close> is what the caller has to show of the one trip that saves a token.\<close>

lemma sat_loginT:
  assumes "\<And>w w' t. K w w' \<Longrightarrow> G w w' t"
    and issue: "\<And>uid v. sat J le G (\<lambda>_ _. True) (issue_tokensT R C A now i j uid) v"
  shows "sat J le G (\<lambda>_ _. True) (loginT R C A coll now i j email password ip) v"
proof -
  have "sat J le G (\<lambda>_ _. True) (bindT (reset_keysT R (rate_limit_keys email ip)) (\<lambda>_. issue_tokensT R C A now i j uid)) v"
    for uid v
    by (intro sat_then kept_reset_keysT assms) (erule rate_limit_keys_prefix)
  then show ?thesis
    unfolding loginT_def
    by (intro sat_then kept_check_keysT assms(1) rate_limit_keys_prefix)
      (auto simp: K_refl refl Let_def split: option.split sum.split)
qed

lemma sat_refreshT:
  assumes "\<And>w w' t. K w w' \<Longrightarrow> G w w' t"
    and issue: "\<And>uid v. sat J le G (\<lambda>_ _. True) (issue_tokensT R C A now' i j uid) v"
  shows "sat J le G (\<lambda>_ _. True) (refreshT R C A now now' i j tok) v"
proof -
  have "kept (writeT (on_kv (rotate R a k n))) v" for a k n v
    by (rule kept_write [of "Ev_rotate a k n"]) (simp_all add: fun_eq_iff)
  then have "sat J le G (\<lambda>_ _. True) (refresh_rotateT R C A now' i j z) v" for z v
    unfolding refresh_rotateT_def Let_def case_prod_unfold by (intro sat_then assms)
  then show ?thesis
    unfolding refreshT_def by (intro sat_then kept_refresh_checkT assms(1))
qed

lemma sat_auth_thread:
  assumes "\<And>w w' t. K w w' \<Longrightarrow> G w w' t"
    and save: "\<And>w uid now i j. J w \<Longrightarrow> new_jti q = Some j \<Longrightarrow>
      (let w' = on_kv (save R (ttl_seconds (a_jwt A)) uid j (hash_token C (fst (create_refresh_token C (a_jwt A) now j uid)))) w
       in J w' \<and> le w w' \<and> (\<forall>ts. refresh_token ts = fst (create_refresh_token C (a_jwt A) now j uid) \<longrightarrow>
         G w w' (Done (Inr (Tokens ts)))))"
  shows "sat J le G (\<lambda>_ _. True) (auth_thread R C A coll q) v"
proof -
  let ?ret = "\<lambda>ts. returnT (Tokens ts) :: ('r app, exn + auth_reply) thread"
  have issue: "sat J le (\<lambda>w w' t'. G w w' (bindT t' ?ret)) (\<lambda>_ _. True) (issue_tokensT R C A now i j uid) v"
    if "new_jti q = Some j" for now i j uid v
    using save [OF _ that] by (auto simp: issue_tokensT_def Let_def case_prod_unfold)
  show ?thesis
  proof (cases q)
    case Login
    then show ?thesis
      by (auto intro!: sat_bindT sat_mono [OF sat_loginT [where G = "\<lambda>w w' t'. G w w' (bindT t' ?ret)"]] assms(1) issue)
  next
    case Refresh
    then show ?thesis
      by (auto intro!: sat_bindT sat_mono [OF sat_refreshT [where G = "\<lambda>w w' t'. G w w' (bindT t' ?ret)"]] assms(1) issue)
  next
    case Logout
    then show ?thesis by (auto intro!: sat_then kept_logoutT assms(1))
  next
    case Logout_all
    then show ?thesis by (auto intro!: sat_then kept_revoke_allT assms(1))
  qed
qed

end

end
