(* ===== verification/Auth_Overlap.thy ===== *)
theory Auth_Overlap
  imports Auth_Threads
begin

text \<open>
  What holds of the auth service when its requests overlap in any way (\<open>runs (other_step R ttl)\<close>), and what does not.
  Each positive property instantiates \<open>service_trips\<close> or \<open>rely_guarantee\<close>; each race is a schedule that the interleavings allow.
\<close>

section \<open>Frames of single trips\<close>

lemma foreign_request: "foreign e \<Longrightarrow> request_event e"
  by (cases e) simp_all

lemma other_step_kv:
  assumes "other_step R ttl w w'"
  shows "kv w' = kv w \<or> (\<exists>e. foreign e \<and> kv w' = store_step R ttl e (kv w)) \<or> (\<exists>d. kv w' = r_tick R d (kv w))"
  using assms by cases auto

context redis
begin

lemma get_tick: "r_get R (r_tick R d s) k = Some h \<Longrightarrow> r_get R s k = Some h"
proof -
  assume "r_get R (r_tick R d s) k = Some h"
  then obtain t where "age_entry d (r_lookup R s k) = Some (RString h, t)"
    by (auto simp: r_get_def lookup_tick split: option.splits rvalue.splits)
  then show ?thesis
    by (cases "(d, r_lookup R s k)" rule: age_entry.cases) (auto simp: r_get_def split: if_splits)
qed

text \<open>No trip but a \<open>save\<close> makes a token, or changes one.\<close>

lemma request_event_token:
  assumes "request_event e" and "r_lookup R (store_step R ttl e s) (token_key a i) = Some x"
  shows "r_lookup R s (token_key a i) = Some x"
proof (cases "foreign e")
  case True
  with assms(2) show ?thesis by (simp add: foreign_step)
next
  case False
  with assms show ?thesis
    by (cases e) (auto simp: lookup_rotate lookup_revoke split: if_splits)
qed

lemma deletion_token:
  "r_lookup R (revoke_all_delete R b m s) (token_key a i) = Some x \<Longrightarrow> r_lookup R s (token_key a i) = Some x"
  by (simp add: lookup_revoke_all_delete split: if_splits)

lemma other_step_token:
  assumes "other_step R ttl w w'" and "r_get R (kv w') (token_key a i) = Some h"
  shows "r_get R (kv w) (token_key a i) = Some h"
proof -
  consider "kv w' = kv w" | e where "foreign e" "kv w' = store_step R ttl e (kv w)" | d where "kv w' = r_tick R d (kv w)"
    using other_step_kv [OF assms(1)] by blast
  then show ?thesis
  proof cases
    case 1
    with assms(2) show ?thesis by simp
  next
    case 2
    with assms(2) show ?thesis by (simp add: r_get_def foreign_step)
  next
    case 3
    with assms(2) have "r_get R (r_tick R d (kv w)) (token_key a i) = Some h" by simp
    then show ?thesis by (rule get_tick)
  qed
qed

end

section \<open>Where sessions come from\<close>

definition no_new_tokens :: "'r redis_api \<Rightarrow> 'r app \<Rightarrow> 'r app \<Rightarrow> bool" where
  "no_new_tokens R w w' \<longleftrightarrow>
     (\<forall>a i h. r_get R (kv w') (token_key a i) = Some h \<longrightarrow> r_get R (kv w) (token_key a i) = Some h)"

text \<open>The stored hash is that of a token that was made for this user and handed to a client.\<close>

definition handed_out :: "crypto \<Rightarrow> auth_settings \<Rightarrow> (exn + auth_reply) \<Rightarrow> int \<Rightarrow> string \<Rightarrow> string \<Rightarrow> bool" where
  "handed_out C A r a i h \<longleftrightarrow>
     (\<exists>ts now. r = Inr (Tokens ts) \<and> refresh_token ts = fst (create_refresh_token C (a_jwt A) now i a) \<and>
        h = hash_token C (refresh_token ts))"

text \<open>What a trip guarantees: a token it stores is handed out at once.\<close>

definition stores_handed_out ::
  "'r redis_api \<Rightarrow> crypto \<Rightarrow> auth_settings \<Rightarrow> 'r app \<Rightarrow> 'r app \<Rightarrow> ('r app, exn + auth_reply) thread \<Rightarrow> bool" where
  "stores_handed_out R C A w w' t \<longleftrightarrow>
     (\<forall>a i h. r_get R (kv w') (token_key a i) = Some h \<longrightarrow>
        r_get R (kv w) (token_key a i) = Some h \<or> (\<exists>r. t = Done r \<and> handed_out C A r a i h))"

definition all_handed_out ::
  "'r redis_api \<Rightarrow> crypto \<Rightarrow> auth_settings \<Rightarrow> 'r app \<Rightarrow> ('r app, exn + auth_reply) thread list \<Rightarrow> 'r app \<Rightarrow> bool" where
  "all_handed_out R C A w ts w' \<longleftrightarrow>
     (\<forall>a i h. r_get R (kv w') (token_key a i) = Some h \<longrightarrow>
        r_get R (kv w) (token_key a i) = Some h \<or> (\<exists>k<length ts. \<exists>r. ts ! k = Done r \<and> handed_out C A r a i h))"

lemma origin_trips:
  assumes "redis R"
  shows "service_trips E (\<lambda>_. True) (\<lambda>_ _. True) R ttl (no_new_tokens R)"
proof -
  have k: "(\<And>a i x. r_lookup R s' (token_key a i) = Some x \<Longrightarrow> r_lookup R s (token_key a i) = Some x) \<Longrightarrow>
      r_get R s' (token_key a i) = Some h \<Longrightarrow> r_get R s (token_key a i) = Some h" for s s' a i h
    by (cases "r_lookup R s' (token_key a i)") (auto simp: r_get_def split: option.splits)
  show ?thesis
    using assms
    by unfold_locales (auto simp: no_new_tokens_def intro: k redis.request_event_token redis.deletion_token)
qed

lemma all_handed_out_trip:
  assumes "all_handed_out R C A w0 ts w" and "ts ! k = Trip f g" and "k < length ts"
    and "stores_handed_out R C A w (f w) (g w)"
  shows "all_handed_out R C A w0 (ts[k := g w]) (f w)"
  unfolding all_handed_out_def
proof (intro allI impI)
  fix a i h
  assume "r_get R (kv (f w)) (token_key a i) = Some h"
  then consider "r_get R (kv w) (token_key a i) = Some h" | r where "g w = Done r" "handed_out C A r a i h"
    using assms(4) unfolding stores_handed_out_def by blast
  then show "r_get R (kv w0) (token_key a i) = Some h \<or>
      (\<exists>n<length (ts[k := g w]). \<exists>r. ts[k := g w] ! n = Done r \<and> handed_out C A r a i h)"
  proof cases
    case 1
    with assms(1) consider "r_get R (kv w0) (token_key a i) = Some h"
      | n r where "n < length ts" "ts ! n = Done r" "handed_out C A r a i h"
      unfolding all_handed_out_def by blast
    then show ?thesis
    proof cases
      case 2
      with assms(2) have "ts[k := g w] ! n = Done r" by (cases "n = k") simp_all
      with 2 show ?thesis by auto
    qed simp
  next
    case 2
    with assms(3) show ?thesis by (auto intro!: exI [of _ k])
  qed
qed

text \<open>Trips of the auth service leave the database alone.\<close>

definition same_db :: "'r app \<Rightarrow> 'r app \<Rightarrow> bool" where
  "same_db w w' \<longleftrightarrow> committed w' = committed w \<and> working w' = working w"

interpretation db: service_trips "\<lambda>_ _. False" "\<lambda>_. True" same_db R ttl same_db
  by unfold_locales (auto simp: same_db_def)

lemma auth_call_db:
  assumes "working w = committed w"
  shows "same_db w (snd (auth_call R C A coll q w))"
proof -
  have "runs (\<lambda>_ _. False) ([auth_thread R C A coll q], w)
      ([auth_thread R C A coll q][0 := Done (fst (auth_call R C A coll q w))], snd (auth_call R C A coll q w))"
    using alone_runs [of 0 "[auth_thread R C A coll q]" "\<lambda>_ _. False" w] by (simp add: alone_auth_thread [OF assms])
  moreover have "sat (\<lambda>_. True) same_db (\<lambda>_ _ _. True) (\<lambda>_ _. True) (auth_thread R C A coll q) w"
    by (rule db.sat_auth_thread) (simp_all add: Let_def same_db_def)
  ultimately show ?thesis
    by (auto dest!: db.sat_runs [where G = "\<lambda>_ _ _. True" and Q = "\<lambda>_ _ _. True"])
qed

section \<open>One after the other\<close>

fun in_turn ::
  "'r redis_api \<Rightarrow> crypto \<Rightarrow> auth_settings \<Rightarrow> (string \<Rightarrow> string) \<Rightarrow> auth_request list \<Rightarrow> 'r app \<Rightarrow>
   (exn + auth_reply) list \<times> 'r app" where
  "in_turn R C A coll [] w = ([], w)"
| "in_turn R C A coll (q # qs) w =
     (let (r, w1) = auth_call R C A coll q w; (rs, w2) = in_turn R C A coll qs w1 in (r # rs, w2))"

lemma serve_runs:
  assumes "working w = committed w"
  shows "runs E (us @ map (auth_thread R C A coll) qs, w)
    (us @ map Done (fst (in_turn R C A coll qs w)), snd (in_turn R C A coll qs w))"
  using assms
proof (induction qs arbitrary: us w)
  case Nil
  then show ?case by (simp add: runs.start)
next
  case (Cons q qs)
  let ?r = "auth_call R C A coll q w"
  have "runs E (us @ map (auth_thread R C A coll) (q # qs), w)
      ((us @ [Done (fst ?r)]) @ map (auth_thread R C A coll) qs, snd ?r)"
    using alone_runs [of "length us" "us @ map (auth_thread R C A coll) (q # qs)" E w]
    by (simp add: alone_auth_thread [OF Cons.prems] nth_append)
  also have "working (snd ?r) = committed (snd ?r)"
    using auth_call_db [OF Cons.prems, of R C A coll q] Cons.prems by (simp add: same_db_def)
  note Cons.IH [OF this, of "us @ [Done (fst ?r)]"]
  finally show ?case by (simp add: case_prod_unfold Let_def)
qed

text \<open>Sequentially a refresh token is good for one refresh.\<close>

lemma second_refresh:
  assumes "redis R" and "0 < ttl_seconds (a_jwt A)" and "j \<noteq> tp_jti p"
    and "refresh_check R C A now tok w = (Inr (p, x), w)"
  shows "\<exists>ts w'. in_turn R C A coll [Refresh now now i j tok, Refresh now now i' j' tok] w =
    ([Inr (Tokens ts), Inl session_expired], w')"
proof -
  have p: "decode_token C (a_jwt A) now tok REFRESH = Inr p" "user_id x = tp_user_id p"
    using assms(4) by (auto simp: refresh_check_Inr intro: user_get_by_id_pk)
  define w1 where "w1 = snd (refresh R C A now i j tok w)"
  have "kv w1 = save R (ttl_seconds (a_jwt A)) (tp_user_id p) j
      (hash_token C (fst (create_refresh_token C (a_jwt A) now j (tp_user_id p))))
      (rotate R (tp_user_id p) (tp_jti p) (int (tp_expires_at p) - int now) (kv w))"
    using refresh_active [OF assms(4), of i j] p(2) by (simp add: w1_def)
  then have "verify R C (tp_user_id p) (tp_jti p) tok (kv w1) = TS_REUSED"
    using assms(1-3) by (simp add: verify_def r_get_def r_exists_def rotated_lookup)
  then have "fst (refresh R C A now i' j' tok w1) = Inl session_expired"
    using refresh_compromised [OF p(1), of R w1 i' j'] by simp
  then show ?thesis
    using refresh_active [OF assms(4), of i j]
    by (auto simp: refresh_def [symmetric] prog_simps Let_def w1_def case_prod_unfold split: prod.splits sum.splits)
qed

section \<open>A refresh that has passed its checks\<close>

text \<open>What is left to do: rotate, save, answer.\<close>

definition new_tokens :: "crypto \<Rightarrow> auth_settings \<Rightarrow> time \<Rightarrow> string \<Rightarrow> string \<Rightarrow> int \<Rightarrow> issued_tokens" where
  "new_tokens C A now i j uid =
     \<lparr>access_token = create_access_token C (a_jwt A) now i uid,
      refresh_token = fst (create_refresh_token C (a_jwt A) now j uid),
      expires_in = int (access_token_expire_minutes (a_jwt A) * 60)\<rparr>"

definition saving :: "'r redis_api \<Rightarrow> crypto \<Rightarrow> auth_settings \<Rightarrow> time \<Rightarrow> string \<Rightarrow> string \<Rightarrow> int \<Rightarrow>
   ('r app, exn + auth_reply) thread" where
  "saving R C A now i j uid =
     Trip (on_kv (save R (ttl_seconds (a_jwt A)) uid j (hash_token C (refresh_token (new_tokens C A now i j uid)))))
       (\<lambda>_. Done (Inr (Tokens (new_tokens C A now i j uid))))"

definition rotating :: "'r redis_api \<Rightarrow> crypto \<Rightarrow> auth_settings \<Rightarrow> time \<Rightarrow> string \<Rightarrow> string \<Rightarrow> token_payload \<Rightarrow>
   ('r app, exn + auth_reply) thread" where
  "rotating R C A now i j p =
     Trip (on_kv (rotate R (tp_user_id p) (tp_jti p) (int (tp_expires_at p) - int now)))
       (\<lambda>_. saving R C A now i j (tp_user_id p))"

lemma refresh_passes:
  assumes "working w = committed w" and "refresh_check R C A now tok w = (Inr (p, x), w)"
  obtains g h where "auth_thread R C A coll (Refresh now now' i j tok) = Trip (\<lambda>w. w) g"
    and "g w = Trip (\<lambda>w. w) h" and "h w = rotating R C A now' i j p"
proof -
  have c: "decode_token C (a_jwt A) now tok REFRESH = Inr p"
    "verify R C (tp_user_id p) (tp_jti p) tok (kv w) = TS_ACTIVE"
    "user_get_by_id (tp_user_id p) w = Some x" "user_is_active x" "user_id x = tp_user_id p"
    using assms(2) by (auto simp: refresh_check_Inr intro: user_get_by_id_pk)
  obtain v where v: "r_get R (kv w) (token_key (tp_user_id p) (tp_jti p)) = Some v" "verify_token_hash C tok v"
    using c(2) by (auto simp: verify_def split: option.splits if_splits)
  have "bindT (refresh_rotateT R C A now' i j (p, x)) (\<lambda>ts. returnT (Tokens ts)) = rotating R C A now' i j p"
    by (simp add: refresh_rotateT_def issue_tokensT_def rotating_def saving_def new_tokens_def Let_def case_prod_unfold c(5))
  then have "\<exists>g. auth_thread R C A coll (Refresh now now' i j tok) = Trip (\<lambda>w. w) g \<and>
      (\<exists>h. g w = Trip (\<lambda>w. w) h \<and> h w = rotating R C A now' i j p)"
    using c(1,3,4) v by (simp add: refreshT_def refresh_checkT_def verifyT_def rollback_clean [OF assms(1)])
  then show ?thesis using that by blast
qed

lemma refresh_goes:
  assumes "working w = committed w" and "refresh_check R C A now tok w = (Inr (p, x), w)"
  shows "goes (auth_thread R C A coll (Refresh now now' i j tok)) w (rotating R C A now' i j p) w"
  using refresh_passes [OF assms, of coll now' i j] by (metis goes.intros)

lemma verify_new_tokens:
  assumes "r_get R s (token_key a j) = Some (hash_token C (refresh_token (new_tokens C A now i j a)))"
  shows "verify R C a j (refresh_token (new_tokens C A now i j a)) s = TS_ACTIVE"
  using assms by (simp add: verify_def verify_token_hash_def)

lemma demo_clean: "working demo_world = committed demo_world"
  by (simp add: demo_world_def demo_app_def)

lemma demo_check_100: "refresh_check ref_redis demo_crypto demo_auth 100 demo_token demo_world =
    (Inr (demo_payload, demo_user 7 ''a@x''), demo_world)"
  by (rule demo_check) simp_all

lemma demo_refreshed:
  "\<exists>ts w'. play [0, 0, 0, 0] ([auth_thread ref_redis demo_crypto demo_auth lower (Refresh 100 100 ''i'' ''j'' demo_token)], demo_world)
     = ([Done (Inr (Tokens ts))], w') \<and> r_get ref_redis (kv w') (token_key 7 ''j'') \<noteq> None"
proof -
  obtain g h where "auth_thread ref_redis demo_crypto demo_auth lower (Refresh 100 100 ''i'' ''j'' demo_token) = Trip (\<lambda>w. w) g"
    "g demo_world = Trip (\<lambda>w. w) h" "h demo_world = rotating ref_redis demo_crypto demo_auth 100 ''i'' ''j'' demo_payload"
    by (rule refresh_passes [OF demo_clean demo_check_100])
  then show ?thesis
    using redis.lookup_save [OF ref_redis_ok]
    by (simp add: rotating_def saving_def r_get_def demo_ttl demo_payload_def)
qed

section \<open>The sessions a user had\<close>

text \<open>
  \<open>old\<close> are the tokens user \<open>a\<close> had at some moment.  Whatever of them is left is listed in the index of \<open>a\<close>, which lives
  at least as long: the part of \<open>index_ok\<close> that overlapping requests cannot break, because the one thing that
  breaks \<open>index_ok\<close>, a deletion that misses a token just saved, misses no old one.
\<close>

definition old_listed :: "'r redis_api \<Rightarrow> nat \<Rightarrow> int \<Rightarrow> string set \<Rightarrow> 'r \<Rightarrow> bool" where
  "old_listed R ttl a old s \<longleftrightarrow>
     (\<forall>i\<in>old. \<forall>e t. r_lookup R s (token_key a i) = Some (e, t) \<longrightarrow>
        (\<exists>n m k. t = Some n \<and> n \<le> ttl \<and> r_lookup R s (index_key a) = Some (RSet m, Some k) \<and> i |\<in>| m \<and> n \<le> k)) \<and>
     (r_lookup R s (index_key a) = None \<or> (\<exists>m k. r_lookup R s (index_key a) = Some (RSet m, Some k)))"

definition old_fewer :: "'r redis_api \<Rightarrow> int \<Rightarrow> string set \<Rightarrow> 'r \<Rightarrow> 'r \<Rightarrow> bool" where
  "old_fewer R a old s s' \<longleftrightarrow> (\<forall>i\<in>old. live R s' a i \<longrightarrow> live R s a i)"

lemma old_listedD:
  assumes "old_listed R ttl a old s" and "i \<in> old" and "r_lookup R s (token_key a i) = Some (e, t)"
  obtains n m k where "t = Some n" "n \<le> ttl" "r_lookup R s (index_key a) = Some (RSet m, Some k)" "i |\<in>| m" "n \<le> k"
  using assms unfolding old_listed_def by blast

lemma old_listed_index:
  assumes "old_listed R ttl a old s"
  obtains "r_lookup R s (index_key a) = None" | m k where "r_lookup R s (index_key a) = Some (RSet m, Some k)"
  using assms by (auto simp: old_listed_def)

lemma old_listed_frame:
  assumes "old_listed R ttl a old s"
    and "\<And>i. r_lookup R s' (token_key a i) = r_lookup R s (token_key a i)"
    and "r_lookup R s' (index_key a) = r_lookup R s (index_key a)"
  shows "old_listed R ttl a old s' \<and> old_fewer R a old s s'"
  using assms by (simp add: old_listed_def old_fewer_def live_def r_exists_def)

lemma index_ok_old: "index_ok R ttl s \<Longrightarrow> old_listed R ttl a old s"
  unfolding old_listed_def
  by (intro conjI ballI allI impI) (metis index_ok_tokenD, metis index_ok_indexD)

context redis
begin

lemma old_removed:
  assumes old: "old_listed R ttl a old s"
    and tok: "r_lookup R s' = (r_lookup R s)(token_key b i := None, index_key b := srem_entry i (r_lookup R s (index_key b)))"
  shows "old_listed R ttl a old s' \<and> old_fewer R a old s s'"
proof (cases "b = a")
  case False
  then show ?thesis using old by (intro old_listed_frame) (simp_all add: tok)
next
  case True
  have "old_listed R ttl a old s'"
    unfolding old_listed_def
  proof (intro conjI ballI allI impI)
    fix j e t
    assume j: "j \<in> old" "r_lookup R s' (token_key a j) = Some (e, t)"
    then have "j \<noteq> i" "r_lookup R s (token_key a j) = Some (e, t)" by (auto simp: tok True split: if_splits)
    then obtain n m k where "t = Some n" "n \<le> ttl" "r_lookup R s (index_key a) = Some (RSet m, Some k)" "j |\<in>| m" "n \<le> k"
      using old_listedD [OF old j(1)] by blast
    with \<open>j \<noteq> i\<close> show "\<exists>n m k. t = Some n \<and> n \<le> ttl \<and> r_lookup R s' (index_key a) = Some (RSet m, Some k) \<and> j |\<in>| m \<and> n \<le> k"
      by (auto simp: tok True)
  next
    show "r_lookup R s' (index_key a) = None \<or> (\<exists>m k. r_lookup R s' (index_key a) = Some (RSet m, Some k))"
      using old by (cases rule: old_listed_index) (auto simp: tok True)
  qed
  then show ?thesis by (auto simp: old_fewer_def live_def r_exists_def tok)
qed

lemma old_command:
  assumes old: "old_listed R ttl a old s" and "request_event e"
  shows "old_listed R ttl a old (store_step R ttl' e s) \<and> old_fewer R a old s (store_step R ttl' e s)"
proof (cases "foreign e")
  case True
  then show ?thesis by (intro old_listed_frame [OF old] foreign_step) simp_all
next
  case False
  from False assms(2) show ?thesis
  proof (cases e)
    case (Ev_rotate b i n)
    have "old_listed R ttl a old (rotate R b i n s) \<and> old_fewer R a old (revoke R b i s) (rotate R b i n s)"
      using old_removed [OF old lookup_revoke [of b i s]]
      by (intro old_listed_frame) (simp_all add: lookup_rotate lookup_revoke)
    then show ?thesis
      using old_removed [OF old lookup_revoke [of b i s]] by (simp add: Ev_rotate old_fewer_def)
  next
    case (Ev_revoke b i)
    then show ?thesis using old_removed [OF old lookup_revoke] by simp
  qed simp_all
qed

lemma old_deletion:
  assumes v: "old_listed R ttl a old v" and w: "old_listed R ttl a old w" and "old_fewer R a old v w"
  defines "d \<equiv> \<lambda>b. revoke_all_delete R b (revoke_all_read R b v) w"
  shows "old_listed R ttl a old (d b) \<and> old_fewer R a old w (d b)"
    and "i \<in> old \<Longrightarrow> \<not> live R (d a) a i"
proof -
  show gone: "\<not> live R (d a) a i" if "i \<in> old" for i
  proof (cases "r_lookup R v (token_key a i)")
    case None
    with assms(3) that show ?thesis by (auto simp: d_def live_def r_exists_def old_fewer_def lookup_revoke_all_delete)
  next
    case (Some x)
    then have "i |\<in>| revoke_all_read R a v"
      by (cases x) (auto elim: old_listedD [OF v that] simp: revoke_all_read_def r_smembers_def)
    then show ?thesis by (auto simp: d_def live_def r_exists_def lookup_revoke_all_delete)
  qed
  show "old_listed R ttl a old (d b) \<and> old_fewer R a old w (d b)"
  proof (cases "b = a")
    case True
    then show ?thesis
      using gone by (auto simp: old_listed_def old_fewer_def live_def r_exists_def d_def lookup_revoke_all_delete)
  next
    case False
    then show ?thesis using w by (intro old_listed_frame) (simp_all add: d_def lookup_revoke_all_delete)
  qed
qed

lemma old_save:
  assumes old: "old_listed R ttl a old s" and "0 < ttl" and "b = a \<Longrightarrow> j \<notin> old"
  shows "old_listed R ttl a old (save R ttl b j h s) \<and> old_fewer R a old s (save R ttl b j h s)"
proof (cases "b = a")
  case False
  then show ?thesis using old assms(2) by (intro old_listed_frame) (simp_all add: lookup_save)
next
  case True
  have tok: "r_lookup R (save R ttl b j h s) (token_key a i) = r_lookup R s (token_key a i)" if "i \<in> old" for i
    using that assms(2,3) True by (auto simp: lookup_save)
  have idx: "\<exists>m. r_lookup R (save R ttl b j h s) (index_key a) = Some (RSet m, Some ttl) \<and>
      (\<forall>m' k. r_lookup R s (index_key a) = Some (RSet m', k) \<longrightarrow> m' |\<subseteq>| m)"
    using old assms(2) True by (cases rule: old_listed_index) (auto simp: lookup_save)
  have "old_listed R ttl a old (save R ttl b j h s)"
    unfolding old_listed_def
  proof (intro conjI ballI allI impI)
    fix i e t
    assume i: "i \<in> old" "r_lookup R (save R ttl b j h s) (token_key a i) = Some (e, t)"
    then obtain n m k where o: "t = Some n" "n \<le> ttl" "r_lookup R s (index_key a) = Some (RSet m, Some k)" "i |\<in>| m"
      using old_listedD [OF old i(1)] tok [OF i(1)] by metis
    with idx show "\<exists>n m k. t = Some n \<and> n \<le> ttl \<and>
        r_lookup R (save R ttl b j h s) (index_key a) = Some (RSet m, Some k) \<and> i |\<in>| m \<and> n \<le> k"
      by blast
  qed (use idx in \<open>blast\<close>)
  then show ?thesis using tok by (simp add: old_fewer_def live_def r_exists_def)
qed

lemma old_tick:
  assumes old: "old_listed R ttl a old s"
  shows "old_listed R ttl a old (r_tick R d s) \<and> old_fewer R a old s (r_tick R d s)"
proof -
  have younger: "\<exists>t'. r_lookup R s k = Some (e, t') \<and> t = map_option (\<lambda>n. n - d) t' \<and> (\<forall>n. t' = Some n \<longrightarrow> d < n)"
    if "r_lookup R (r_tick R d s) k = Some (e, t)" for k e t
    using that by (cases "(d, r_lookup R s k)" rule: age_entry.cases) (auto simp: lookup_tick split: if_splits)
  have "old_listed R ttl a old (r_tick R d s)"
    unfolding old_listed_def
  proof (intro conjI ballI allI impI)
    fix i e t
    assume i: "i \<in> old" "r_lookup R (r_tick R d s) (token_key a i) = Some (e, t)"
    obtain t' where t': "r_lookup R s (token_key a i) = Some (e, t')" "t = map_option (\<lambda>n. n - d) t'"
      "\<forall>n. t' = Some n \<longrightarrow> d < n"
      using younger [OF i(2)] by blast
    then obtain n m k where "t' = Some n" "n \<le> ttl" "r_lookup R s (index_key a) = Some (RSet m, Some k)" "i |\<in>| m" "n \<le> k"
      using old_listedD [OF old i(1)] by blast
    with t' show "\<exists>n m k. t = Some n \<and> n \<le> ttl \<and>
        r_lookup R (r_tick R d s) (index_key a) = Some (RSet m, Some k) \<and> i |\<in>| m \<and> n \<le> k"
      by (auto simp: lookup_tick)
  next
    show "r_lookup R (r_tick R d s) (index_key a) = None \<or> (\<exists>m k. r_lookup R (r_tick R d s) (index_key a) = Some (RSet m, Some k))"
      using old by (cases rule: old_listed_index) (auto simp: lookup_tick)
  qed
  moreover have "old_fewer R a old s (r_tick R d s)"
    using younger by (fastforce simp: old_fewer_def live_def r_exists_def)
  ultimately show ?thesis by blast
qed

lemma old_trips:
  "service_trips (other_step R ttl') (\<lambda>w. old_listed R ttl a old (kv w)) (\<lambda>w w'. old_fewer R a old (kv w) (kv w'))
     R ttl' (\<lambda>w w'. old_fewer R a old (kv w) (kv w'))"
proof
  fix w w' :: "'r app"
  assume "old_listed R ttl a old (kv w)" and "other_step R ttl' w w'"
  then show "old_listed R ttl a old (kv w') \<and> old_fewer R a old (kv w) (kv w')"
    using other_step_kv [of R ttl' w w'] old_command old_tick
    by (auto simp: old_fewer_def dest: foreign_request)
next
  fix e and w :: "'r app"
  assume "request_event e" and "old_listed R ttl a old (kv w)"
  then show "old_listed R ttl a old (kv (on_kv (store_step R ttl' e) w)) \<and>
      old_fewer R a old (kv w) (kv (on_kv (store_step R ttl' e) w))"
    by (simp add: old_command)
next
  fix b and v w :: "'r app"
  assume "old_listed R ttl a old (kv v)" and "old_listed R ttl a old (kv w)" and "old_fewer R a old (kv v) (kv w)"
  then show "old_listed R ttl a old (kv (on_kv (revoke_all_delete R b (revoke_all_read R b (kv v))) w)) \<and>
      old_fewer R a old (kv w) (kv (on_kv (revoke_all_delete R b (revoke_all_read R b (kv v))) w))"
    by (simp add: old_deletion(1))
qed (auto simp: old_fewer_def)

end

lemma refresh_refused:
  assumes "decode_token C (a_jwt A) now tok REFRESH = Inr p"
    and "verify R C (tp_user_id p) (tp_jti p) tok (kv w) \<noteq> TS_ACTIVE"
  shows "fst (refresh R C A now i j tok w) = Inl session_expired"
  using assms(2) refresh_compromised [OF assms(1), of R w i j] refresh_unknown [OF assms(1), of R w i j]
  by (cases "verify R C (tp_user_id p) (tp_jti p) tok (kv w)") simp_all

lemma sat_logout_all:
  assumes "redis R" and "old_listed R ttl a old (kv v)"
  shows "sat (\<lambda>w. old_listed R ttl a old (kv w)) (\<lambda>w w'. old_fewer R a old (kv w) (kv w')) (\<lambda>_ _ _. True)
    (\<lambda>r w. (\<exists>n. r = Inr (Revoked n)) \<and> (\<forall>i\<in>old. \<not> live R (kv w) a i)) (auth_thread R C A coll (Logout_all a)) v"
proof -
  let ?d = "\<lambda>s t. revoke_all_delete R a (revoke_all_read R a (kv s)) (kv t)"
  note d = redis.old_deletion [OF assms(1)]
  show ?thesis
    unfolding auth_thread.simps revoke_allT_def bindT.simps sum.case sat.simps on_kv_sel
  proof (intro allI impI conjI ballI)
    fix s t z i
    assume J: "old_listed R ttl a old (kv s)" "old_listed R ttl a old (kv t)" "old_fewer R a old (kv s) (kv t)"
    show "old_listed R ttl a old (?d s t)" "old_fewer R a old (kv t) (?d s t)"
      using d(1) [OF J] by simp_all
    show "\<not> live R (kv z) a i" if "old_fewer R a old (?d s t) (kv z)" "i \<in> old"
      using d(2) [OF J that(2)] that by (auto simp: old_fewer_def)
  qed (simp_all add: old_fewer_def)
qed

lemma demo_life: "0 < ttl_seconds (a_jwt demo_auth)"
  by (simp add: demo_ttl)

lemma demo_listed: "index_ok ref_redis (ttl_seconds (a_jwt demo_auth)) (kv demo_world)"
  using demo_index by (simp add: demo_ttl)

lemma demo_fresh: "''j'' \<noteq> tp_jti demo_payload"
  by (simp add: demo_payload_def)

lemma demo_tokens:
  "live ref_redis (kv demo_world) 7 ''x''" "\<not> live ref_redis (kv demo_world) 7 ''j''"
  using redis.lookup_save [OF ref_redis_ok, of 1209600 7 "''x''" "hash_token demo_crypto demo_token" empty_store]
  by (simp_all add: live_def r_exists_def demo_world_def demo_app_def demo_ttl)

section \<open>Guesses in parallel\<close>

text \<open>A thread that cannot end with the result \<open>r\<close>.\<close>

primrec never :: "'a \<Rightarrow> ('s, 'a) thread \<Rightarrow> bool" where
  "never r (Done x) \<longleftrightarrow> x \<noteq> r"
| "never r (Trip f g) \<longleftrightarrow> (\<forall>s. never r (g s))"

text \<open>Attempts to log in at one e-mail address that cannot succeed, with whatever password and from wherever.\<close>

fun wrong_guess :: "crypto \<Rightarrow> (string \<Rightarrow> string) \<Rightarrow> user list \<Rightarrow> string \<Rightarrow> auth_request \<Rightarrow> bool" where
  "wrong_guess C coll us e (Login now i j email password ip) \<longleftrightarrow>
     lower email = e \<and> (\<forall>x\<in>set us. coll (user_email x) = coll email \<longrightarrow>
       \<not> verify_password C password (user_password_hash x) \<or> \<not> user_is_active x)"
| "wrong_guess C coll us e q \<longleftrightarrow> False"

definition email_key :: "string \<Rightarrow> string" where
  "email_key e = ''ratelimit:login:email:'' @ e"

text \<open>The limiter has counted \<open>n\<close> attempts, and goes on counting: the window of the address does not close.\<close>

definition counted :: "'r redis_api \<Rightarrow> string \<Rightarrow> nat \<Rightarrow> 'r app \<Rightarrow> bool" where
  "counted R e n w \<longleftrightarrow> (\<exists>v. holds_window R (email_key e) (kv w) v \<and> window_count v = n)"

definition counts_on :: "'r redis_api \<Rightarrow> string \<Rightarrow> 'r app \<Rightarrow> 'r app \<Rightarrow> bool" where
  "counts_on R e w w' \<longleftrightarrow> (\<forall>n. counted R e n w \<longrightarrow> (\<exists>n'\<ge>n. counted R e n' w'))"

definition open_window :: "'r redis_api \<Rightarrow> nat \<Rightarrow> string \<Rightarrow> 'r app \<Rightarrow> 'r app \<Rightarrow> bool" where
  "open_window R ttl e w w' \<longleftrightarrow>
     other_step R ttl w w' \<and> users (committed w') = users (committed w) \<and> counts_on R e w w'"

lemma user_by_email_row:
  "user_get_by_email coll email w = Inr (Some x) \<Longrightarrow> x \<in> set (users (working w)) \<and> coll (user_email x) = coll email"
  unfolding user_get_by_email_def by (drule one_or_none_Some) simp

lemma counts_on_other: "r_lookup R (kv w') (email_key e) = r_lookup R (kv w) (email_key e) \<Longrightarrow> counts_on R e w w'"
  unfolding counts_on_def counted_def holds_window_def by auto

abbreviation hit_trip :: "'r redis_api \<Rightarrow> string \<Rightarrow> nat \<Rightarrow> 'r app \<Rightarrow> 'r app" where
  "hit_trip R k W \<equiv> on_kv (\<lambda>s. r_expire_nx R k W (r_incr R k s))"

context redis
begin

lemma snd_hit: "snd (hit R k m W s) = r_expire_nx R k W (r_incr R k s)"
  by (simp add: hit_def Let_def)

lemma hit_trip_counted:
  assumes "counted R e n w" and "0 < W"
  shows "counted R e (Suc n) (hit_trip R (email_key e) W w)" and "r_incr_reply R (kv w) (email_key e) = int (Suc n)"
proof -
  obtain v where v: "holds_window R (email_key e) (kv w) v" "window_count v = n"
    using assms(1) by (auto simp: counted_def)
  have "holds_window R (email_key e) (kv (hit_trip R (email_key e) W w)) (abs_hit W v)"
    using hit_refines [OF v(1) assms(2)] by (simp add: snd_hit)
  moreover have "window_count (abs_hit W v) = Suc n"
    using v(2) by (cases v rule: window_entry.cases) auto
  ultimately show "counted R e (Suc n) (hit_trip R (email_key e) W w)" unfolding counted_def by blast
  show "r_incr_reply R (kv w) (email_key e) = int (Suc n)"
    using hit_current [OF v(1), of 0 W] v(2) by (simp add: hit_def Let_def split: if_splits)
qed

lemma hit_trip_counts_on:
  assumes "0 < W" shows "counts_on R e w (hit_trip R k W w)"
proof (cases "k = email_key e")
  case True
  then show ?thesis using hit_trip_counted(1) [OF _ assms] unfolding counts_on_def by (metis le_SucI order_refl)
next
  case False
  then show ?thesis by (intro counts_on_other) (simp add: hit_other [of _ _ 0, unfolded snd_hit])
qed

end

text \<open>What holds of the shared state as long as the window is open, and of every trip of a guess.\<close>

definition guessing :: "'r redis_api \<Rightarrow> string \<Rightarrow> user list \<Rightarrow> 'r app \<Rightarrow> bool" where
  "guessing R e us w \<longleftrightarrow> users (committed w) = us \<and> (\<exists>n. counted R e n w)"

lemma guessing_on: "guessing R e us w \<Longrightarrow> counts_on R e w w' \<Longrightarrow> committed w' = committed w \<Longrightarrow> guessing R e us w'"
  by (auto simp: guessing_def counts_on_def)

interpretation window: rely_guarantee "open_window R ttl e" "guessing R e us" "\<lambda>_ _. True"
  by unfold_locales (auto simp: open_window_def guessing_def counts_on_def)

lemma counts_on_refl [simp]: "counts_on R e w w"
  by (auto simp: counts_on_def)

lemma sat_guess:
  assumes "redis R" and "0 < login_rate_limit_window_seconds A" and "wrong_guess C coll us e q"
  shows "sat (guessing R e us) (\<lambda>_ _. True) (\<lambda>w w' _. counts_on R e w w') (\<lambda>r _. \<forall>x. r \<noteq> Inr x) (auth_thread R C A coll q) v"
proof -
  let ?sat = "\<lambda>Q. sat (guessing R e us) (\<lambda>_ _. True) (\<lambda>w w' _. counts_on R e w w') Q"
  note bind = window.sat_bindT [of R e us]
  obtain now i j email password ip where q: "q = Login now i j email password ip"
    using assms(3) by (cases q) auto
  have hit: "?sat (\<lambda>_ _. True) (hitT R k m (login_rate_limit_window_seconds A)) v" for k m v
    using redis.hit_trip_counts_on [OF assms(1,2)] by (auto simp: hitT_def Let_def intro: guessing_on)
  have check: "?sat (\<lambda>_ _. True) (check_keysT R A ks) v" for ks v
    by (induction ks arbitrary: v) (auto intro!: bind sat_mono [OF hit])
  let ?rest = "bindT (askT (\<lambda>w. user_get_by_email coll email (rollback w))) (\<lambda>r.
      let ok = verify_password C password (case r of None \<Rightarrow> DUMMY_PASSWORD_HASH | Some x \<Rightarrow> user_password_hash x)
      in case r of None \<Rightarrow> raiseT login_failed
         | Some x \<Rightarrow> if \<not> ok then raiseT login_failed else if \<not> user_is_active x then raiseT login_failed
             else bindT (reset_keysT R (rate_limit_keys email ip)) (\<lambda>_. issue_tokensT R C A now i j (user_id x)))"
  have rest: "?sat (\<lambda>r _. \<forall>x. r \<noteq> Inr x) ?rest s" for s
    using assms(3) by (auto dest!: user_by_email_row simp: q guessing_def Let_def split: sum.split option.split)
  have "?sat (\<lambda>r _. \<forall>x. r \<noteq> Inr x) (loginT R C A coll now i j email password ip) v" for v
    unfolding loginT_def
  proof (rule bind)
    show "?sat (\<lambda>r s. \<forall>a. r = Inr a \<longrightarrow> ?sat (\<lambda>r _. \<forall>x. r \<noteq> Inr x) ?rest s) (check_keysT R A (rate_limit_keys email ip)) v"
      by (rule sat_mono [OF check]) (assumption | intro allI impI rest)+
  qed simp
  from sat_mono [OF this] show ?thesis
    unfolding q auth_thread.simps by (intro bind) auto
qed

text \<open>The first trip of a guess counts it; past the limit nothing but a refusal can follow.\<close>

lemma guess_first_trip:
  assumes "redis R" and "0 < login_rate_limit_window_seconds A" and "wrong_guess C coll us e q" and "counted R e n w"
  obtains f g where "auth_thread R C A coll q = Trip f g" and "counted R e (Suc n) (f w)"
    and "login_rate_limit_max_attempts A < int (Suc n) \<Longrightarrow> never (Inl login_failed) (g w)"
proof -
  obtain now i j email password ip where q: "q = Login now i j email password ip" "lower email = e"
    using assms(3) by (cases q) auto
  have k: "rate_limit_keys email ip = [email_key e, ''ratelimit:login:ip:'' @ ip]"
    by (simp add: rate_limit_keys_def email_key_def q(2))
  note h = redis.hit_trip_counted [OF assms(1,4,2)]
  have "\<exists>f g. auth_thread R C A coll q = Trip f g \<and> counted R e (Suc n) (f w) \<and>
      (login_rate_limit_max_attempts A < int (Suc n) \<longrightarrow> never (Inl login_failed) (g w))"
    using h(1) by (simp add: q(1) loginT_def k hitT_def h(2) Let_def)
  then show ?thesis using that by blast
qed

text \<open>The guesses whose thread has been counted and was not refused.\<close>

definition let_through :: "('r app, exn + auth_reply) thread list \<Rightarrow> ('r app, exn + auth_reply) thread list \<Rightarrow> nat set" where
  "let_through ts0 ts = {k. k < length ts \<and> ts ! k \<noteq> ts0 ! k \<and> \<not> never (Inl login_failed) (ts ! k)}"

definition within_limit ::
  "'r redis_api \<Rightarrow> int \<Rightarrow> string \<Rightarrow> nat \<Rightarrow> ('r app, exn + auth_reply) thread list \<Rightarrow>
   ('r app, exn + auth_reply) thread list \<Rightarrow> 'r app \<Rightarrow> bool" where
  "within_limit R m e n0 ts0 ts w \<longleftrightarrow> length ts = length ts0 \<and>
     (\<exists>n. counted R e n w \<and> n0 + card (let_through ts0 ts) \<le> n) \<and>
     (let_through ts0 ts = {} \<or> int (n0 + card (let_through ts0 ts)) \<le> m)"

lemma finite_let_through [simp]: "finite (let_through ts0 ts)"
  by (simp add: let_through_def)

lemma within_limit_mono:
  assumes "within_limit R m e n0 ts0 ts w" and "counts_on R e w w'" and "let_through ts0 ts' \<subseteq> let_through ts0 ts"
    and "length ts' = length ts"
  shows "within_limit R m e n0 ts0 ts' w'"
proof -
  have c: "card (let_through ts0 ts') \<le> card (let_through ts0 ts)"
    by (rule card_mono) (simp_all add: assms(3))
  moreover obtain n n' where "n0 + card (let_through ts0 ts) \<le> n" "n \<le> n'" "counted R e n' w'"
    using assms(1,2) unfolding within_limit_def counts_on_def by blast
  ultimately show ?thesis
    using assms(1,3,4) unfolding within_limit_def by fastforce
qed

lemma within_limit_trip:
  assumes "redis R" and "0 < login_rate_limit_window_seconds A"
    and "ts0 = map (auth_thread R C A coll) qs" and "\<And>q. q \<in> set qs \<Longrightarrow> wrong_guess C coll us e q"
    and "within_limit R (login_rate_limit_max_attempts A) e n0 ts0 ts w"
    and "k < length ts" and "ts ! k = Trip f g" and "counts_on R e w (f w)"
  shows "within_limit R (login_rate_limit_max_attempts A) e n0 ts0 (ts[k := g w]) (f w)"
proof (cases "ts ! k = ts0 ! k \<and> \<not> never (Inl login_failed) (g w)")
  case False
  then have "let_through ts0 (ts[k := g w]) \<subseteq> let_through ts0 ts"
    using assms(6,7) by (auto simp: let_through_def nth_list_update split: if_splits)
  then show ?thesis by (rule within_limit_mono [OF assms(5,8)]) simp
next
  case True
  let ?m = "login_rate_limit_max_attempts A" and ?ts = "ts[k := g w]"
  have len: "length ts = length qs"
    using assms(3,5) by (simp add: within_limit_def)
  obtain n where n: "counted R e n w" "n0 + card (let_through ts0 ts) \<le> n"
    using assms(5) by (auto simp: within_limit_def)
  have "wrong_guess C coll us e (qs ! k)" and t: "auth_thread R C A coll (qs ! k) = Trip f g"
    using True assms(3,4,6,7) len by simp_all
  then have c: "counted R e (Suc n) (f w)" and "int (Suc n) \<le> ?m"
    using True by (auto elim!: guess_first_trip [OF assms(1,2) _ n(1)] simp: not_less [symmetric])
  moreover have "card (let_through ts0 ?ts) \<le> Suc (card (let_through ts0 ts))"
  proof -
    have "let_through ts0 ?ts \<subseteq> insert k (let_through ts0 ts)"
      by (auto simp: let_through_def nth_list_update split: if_splits)
    then have "card (let_through ts0 ?ts) \<le> card (insert k (let_through ts0 ts))"
      by (intro card_mono) simp_all
    then show ?thesis by (simp add: card_insert_if split: if_splits)
  qed
  ultimately show ?thesis
    using n(2) len assms(3) by (auto simp: within_limit_def intro!: exI [of _ "Suc n"])
qed

text \<open>Any number of refreshes past their checks, one after the other: each rotates, saves and answers.\<close>

lemma rotating_all:
  fixes C :: crypto and now :: time
  assumes "redis R" and "0 < ttl_seconds (a_jwt A)" and "distinct (map snd ids)" and "tp_jti p \<notin> snd ` set ids"
    and "n \<le> length ids"
  defines "rot \<equiv> map (\<lambda>(i, j). rotating R C A now i j p) ids"
    and "fin \<equiv> map (\<lambda>(i, j). Done (Inr (Tokens (new_tokens C A now i j (tp_user_id p))))) ids"
  shows "\<exists>w'. runs E (rot, w) (take n fin @ drop n rot, w') \<and>
      (\<forall>k<n. r_get R (kv w') (token_key (tp_user_id p) (snd (ids ! k))) =
        Some (hash_token C (refresh_token (new_tokens C A now (fst (ids ! k)) (snd (ids ! k)) (tp_user_id p)))))"
  using assms(5)
proof (induction n)
  case 0
  then show ?case by (auto intro: runs.start)
next
  case (Suc n)
  then obtain v where v: "runs E (rot, w) (take n fin @ drop n rot, v)"
    "\<forall>k<n. r_get R (kv v) (token_key (tp_user_id p) (snd (ids ! k))) =
      Some (hash_token C (refresh_token (new_tokens C A now (fst (ids ! k)) (snd (ids ! k)) (tp_user_id p))))"
    by auto
  obtain i j where ij: "ids ! n = (i, j)" by (cases "ids ! n")
  have other: "snd (ids ! k) \<noteq> j" if "k < n" for k
    using that Suc.prems ij nth_eq_iff_index_eq [OF assms(3), of k n] by simp
  have old: "snd (ids ! k) \<noteq> tp_jti p" if "k < length ids" for k
    using that assms(4) by (metis image_eqI nth_mem)
  let ?x = "take n fin @ drop n rot"
  have at: "?x ! n = rotating R C A now i j p" "?x[n := Done (Inr (Tokens (new_tokens C A now i j (tp_user_id p))))]
      = take (Suc n) fin @ drop (Suc n) rot"
    using Suc.prems ij
    by (simp_all add: rot_def fin_def nth_append list_update_append take_Suc_conv_app_nth Cons_nth_drop_Suc [symmetric])
  define v' where "v' = snd (alone (rotating R C A now i j p) v)"
  have "length rot = length ids" "length fin = length ids" by (simp_all add: rot_def fin_def)
  then have "runs E (?x, v) (take (Suc n) fin @ drop (Suc n) rot, v')"
    using alone_runs [of n ?x E v] Suc.prems at by (simp add: v'_def rotating_def saving_def)
  moreover have "\<forall>k<Suc n. r_get R (kv v') (token_key (tp_user_id p) (snd (ids ! k))) =
      Some (hash_token C (refresh_token (new_tokens C A now (fst (ids ! k)) (snd (ids ! k)) (tp_user_id p))))"
    using v(2) other old assms(1,2) ij Suc.prems
    by (auto simp: v'_def rotating_def saving_def r_get_def redis.lookup_save redis.lookup_rotate less_Suc_eq)
  ultimately show ?case using v(1) by (blast intro: runs_trans)
qed

section \<open>Properties\<close>

text \<open>
  Requests that do not overlap.  A login, refresh, log-out or "log out everywhere" whose trips nobody interrupts is the
  sequential method of \<open>Auth\<close>, in result and in state; and serving a list of requests one after the
  other is one of the interleavings of their threads, whatever else the world could have done.
\<close>

theorem threads_refine_requests:
  assumes "working w = committed w"
  shows "alone (auth_thread R C A coll q) w = auth_call R C A coll q w \<and>
    runs E (map (auth_thread R C A coll) qs, w)
      (map Done (fst (in_turn R C A coll qs w)), snd (in_turn R C A coll qs w))"
  using alone_auth_thread [OF assms] serve_runs [OF assms, of E "[]"] by simp

theorem threads_refine_requests_witness:
  "let q1 = Refresh 100 100 ''i'' ''j'' demo_token; q2 = Refresh 100 100 ''k'' ''l'' demo_token;
       th = auth_thread ref_redis demo_crypto demo_auth lower
   in \<exists>ts w'. runs (other_step ref_redis 1) ([th q1, th q2], demo_world)
        ([Done (Inr (Tokens ts)), Done (Inl session_expired)], w')"
proof -
  have c: "refresh_check ref_redis demo_crypto demo_auth 100 demo_token demo_world =
      (Inr (demo_payload, demo_user 7 ''a@x''), demo_world)"
    by (rule demo_check) simp_all
  have "working demo_world = committed demo_world" by (simp add: demo_world_def demo_app_def)
  note threads_refine_requests [OF this, of ref_redis demo_crypto demo_auth lower "Logout_all 7" "other_step ref_redis 1"
      "[Refresh 100 100 ''i'' ''j'' demo_token, Refresh 100 100 ''k'' ''l'' demo_token]"]
  moreover obtain ts w' where "in_turn ref_redis demo_crypto demo_auth lower
      [Refresh 100 100 ''i'' ''j'' demo_token, Refresh 100 100 ''k'' ''l'' demo_token] demo_world =
      ([Inr (Tokens ts), Inl session_expired], w')"
    using second_refresh [OF ref_redis_ok _ _ c, of "''j''" lower "''i''" "''k''" "''l''"]
    by (auto simp: demo_ttl demo_payload_def)
  ultimately show ?thesis by (auto simp: Let_def)
qed

text \<open>
  C9.  No session without a login.  However logins, refreshes and log-outs overlap, with each other and with
  the rest of the application: every token Redis holds was there at the start, unchanged, or it was made for its user by one of these
  requests, which has already returned it, and what is stored is its hash.
\<close>

theorem sessions_were_handed_out:
  assumes "redis R" and "0 < ttl_seconds (a_jwt A)"
    and "runs (other_step R ttl) (map (auth_thread R C A coll) qs, w) (ts, w')"
    and "r_get R (kv w') (token_key a i) = Some h"
  shows "r_get R (kv w) (token_key a i) = Some h \<or>
    (\<exists>k<length qs. \<exists>x now. ts ! k = Done (Inr (Tokens x)) \<and>
       refresh_token x = fst (create_refresh_token C (a_jwt A) now i a) \<and> h = hash_token C (refresh_token x))"
proof -
  have g: "sat (\<lambda>_. True) (\<lambda>_ _. True) (stores_handed_out R C A) (\<lambda>_ _. True) (auth_thread R C A coll q) w" for q
  proof (rule service_trips.sat_auth_thread [OF origin_trips [OF assms(1), of "other_step R ttl"]])
    show "no_new_tokens R w w' \<Longrightarrow> stores_handed_out R C A w w' t" for w w' t
      by (simp add: no_new_tokens_def stores_handed_out_def)
  next
    fix w uid now i j
    show "let w' = on_kv (save R (ttl_seconds (a_jwt A)) uid j (hash_token C (fst (create_refresh_token C (a_jwt A) now j uid)))) w
      in True \<and> True \<and> (\<forall>ts. refresh_token ts = fst (create_refresh_token C (a_jwt A) now j uid) \<longrightarrow>
        stores_handed_out R C A w w' (Done (Inr (Tokens ts))))"
      using assms(1,2)
      by (auto simp: Let_def stores_handed_out_def handed_out_def r_get_def redis.lookup_save split: if_splits)
  qed
  have "length ts = length qs"
    using runs_length [OF assms(3)] by simp
  moreover have "all_handed_out R C A w ts w'"
  proof (rule rely_guarantee.sat_invariant [OF _ assms(3), where J = "\<lambda>_. True" and le = "\<lambda>_ _. True"
        and G = "stores_handed_out R C A" and Q = "\<lambda>_ _ _. True"])
    show "rely_guarantee (other_step R ttl) (\<lambda>_. True) (\<lambda>_ _. True)"
      by unfold_locales simp_all
    show "all_handed_out R C A w (map (auth_thread R C A coll) qs) w"
      by (simp add: all_handed_out_def)
    show "all_handed_out R C A w us v'" if "all_handed_out R C A w us v" "other_step R ttl v v'" for us v v'
      using that redis.other_step_token [OF assms(1)] unfolding all_handed_out_def by metis
  qed (simp_all add: g all_handed_out_trip)
  ultimately show ?thesis
    using assms(4) unfolding all_handed_out_def handed_out_def by metis
qed

theorem sessions_were_handed_out_witness:
  "let c = play [0, 0, 0, 0] ([auth_thread ref_redis demo_crypto demo_auth lower (Refresh 100 100 ''i'' ''j'' demo_token)], demo_world)
   in \<exists>h x now. r_get ref_redis (kv demo_world) (token_key 7 ''j'') = None \<and>
        r_get ref_redis (kv (snd c)) (token_key 7 ''j'') = Some h \<and> fst c = [Done (Inr (Tokens x))] \<and>
        refresh_token x = fst (create_refresh_token demo_crypto demo_settings now ''j'' 7) \<and> h = hash_token demo_crypto (refresh_token x)"
proof -
  let ?q = "Refresh 100 100 ''i'' ''j'' demo_token"
  obtain ts w' h where p: "play [0, 0, 0, 0] ([auth_thread ref_redis demo_crypto demo_auth lower ?q], demo_world)
      = ([Done (Inr (Tokens ts))], w')" "r_get ref_redis (kv w') (token_key 7 ''j'') = Some h"
    using demo_refreshed by auto
  have n: "r_get ref_redis (kv demo_world) (token_key 7 ''j'') = None"
    using redis.lookup_save [OF ref_redis_ok, of 1209600 7 "''x''" "hash_token demo_crypto demo_token" empty_store]
    by (simp add: r_get_def demo_world_def demo_app_def demo_ttl)
  have "runs (other_step ref_redis 1) (map (auth_thread ref_redis demo_crypto demo_auth lower) [?q], demo_world)
      ([Done (Inr (Tokens ts))], w')"
    using play_runs [of "other_step ref_redis 1" "([auth_thread ref_redis demo_crypto demo_auth lower ?q], demo_world)" "[0, 0, 0, 0]"] p(1)
    by simp
  from sessions_were_handed_out [OF ref_redis_ok _ this p(2)] n p show ?thesis
    by (simp add: demo_ttl Let_def)
qed

text \<open>
  C8.  What "log out everywhere" promises when requests overlap.  Take the sessions a user has when the requests start.
  Once \<open>logout_all\<close> has answered, none of them is alive, whatever logins, refreshes, log-outs, other runs of
  \<open>logout_all\<close>, and other requests came between its two round trips; and it never fails.
\<close>

theorem logout_all_ends_old_sessions:
  assumes "redis R" and "0 < ttl_seconds (a_jwt A)" and "index_ok R (ttl_seconds (a_jwt A)) (kv w)"
    and "\<And>q j. q \<in> set qs \<Longrightarrow> new_jti q = Some j \<Longrightarrow> \<not> live R (kv w) a j"
    and "runs (other_step R ttl) (map (auth_thread R C A coll) qs, w) (ts, w')"
    and "k < length qs" and "qs ! k = Logout_all a" and "ts ! k = Done r"
  shows "(\<exists>n. r = Inr (Revoked n)) \<and> (\<forall>i. live R (kv w) a i \<longrightarrow> \<not> live R (kv w') a i)"
proof -
  let ?ttl = "ttl_seconds (a_jwt A)"
  define old where "old = {i. live R (kv w) a i}"
  let ?J = "\<lambda>w. old_listed R ?ttl a old (kv w)" and ?le = "\<lambda>w w'. old_fewer R a old (kv w) (kv w')"
  let ?Q = "\<lambda>k r w. qs ! k = Logout_all a \<longrightarrow> (\<exists>n. r = Inr (Revoked n)) \<and> (\<forall>i\<in>old. \<not> live R (kv w) a i)"
  have trips: "service_trips (other_step R ttl) ?J ?le R ttl ?le"
    by (rule redis.old_trips [OF assms(1)])
  have J: "?J w" using assms(3) by (rule index_ok_old)
  have any: "sat ?J ?le (\<lambda>_ _ _. True) (\<lambda>_ _. True) (auth_thread R C A coll q) w" if "q \<in> set qs" for q
    using redis.old_save [OF assms(1) _ assms(2)] assms(4) [OF that]
    by (intro service_trips.sat_auth_thread [OF trips]) (auto simp: Let_def old_def)
  have sat: "sat ?J ?le (\<lambda>_ _ _. True) (?Q n) (map (auth_thread R C A coll) qs ! n) w"
    if "n < length (map (auth_thread R C A coll) qs)" for n
    using sat_mono [OF any] sat_mono [OF sat_logout_all [OF assms(1) J]] that
    by (cases "qs ! n = Logout_all a") simp_all
  have "length ts = length qs"
    using runs_length [OF assms(5)] by simp
  then have "?Q k r w'"
    using assms(6,8)
    by (intro rely_guarantee.sat_done [OF service_trips.axioms(1) [OF trips] assms(5) J sat]) simp_all
  with assms(7) show ?thesis by (simp add: old_def)
qed

text \<open>A refresh saves its token between SMEMBERS and the deletion; the token it came from is gone all the same.\<close>

theorem logout_all_ends_old_sessions_witness:
  "let th = auth_thread ref_redis demo_crypto demo_auth lower;
       c = play [0, 1, 1, 1, 1, 0] ([th (Logout_all 7), th (Refresh 100 100 ''i'' ''j'' demo_token)], demo_world)
   in (\<exists>n ts. fst c = [Done (Inr (Revoked n)), Done (Inr (Tokens ts))]) \<and>
      live ref_redis (kv demo_world) 7 ''x'' \<and> \<not> live ref_redis (kv (snd c)) 7 ''x''"
proof -
  let ?th = "auth_thread ref_redis demo_crypto demo_auth lower"
  let ?qs = "[Logout_all 7, Refresh 100 100 ''i'' ''j'' demo_token]"
  obtain g h where q: "?th (Refresh 100 100 ''i'' ''j'' demo_token) = Trip (\<lambda>w. w) g"
    "g demo_world = Trip (\<lambda>w. w) h" "h demo_world = rotating ref_redis demo_crypto demo_auth 100 ''i'' ''j'' demo_payload"
    by (rule refresh_passes [OF demo_clean demo_check_100])
  have "\<exists>n ts w'. play [0, 1, 1, 1, 1, 0] ([?th (Logout_all 7), ?th (Refresh 100 100 ''i'' ''j'' demo_token)], demo_world) =
      ([Done (Inr (Revoked n)), Done (Inr (Tokens ts))], w')"
    unfolding q(1) using q(2,3) by (simp add: revoke_allT_def rotating_def saving_def)
  then obtain n ts w' where c: "play [0, 1, 1, 1, 1, 0] ([?th (Logout_all 7), ?th (Refresh 100 100 ''i'' ''j'' demo_token)], demo_world) =
      ([Done (Inr (Revoked n)), Done (Inr (Tokens ts))], w')"
    by blast
  have r: "runs (other_step ref_redis 1) (map ?th ?qs, demo_world) ([Done (Inr (Revoked n)), Done (Inr (Tokens ts))], w')"
    using play_runs [of "other_step ref_redis 1" "(map ?th ?qs, demo_world)" "[0, 1, 1, 1, 1, 0]"] by (simp only: list.map c)
  have fresh: "\<not> live ref_redis (kv demo_world) 7 j" if "q \<in> set ?qs" "new_jti q = Some j" for q j
    using that demo_tokens(2) by auto
  have "\<not> live ref_redis (kv w') 7 ''x''"
    using logout_all_ends_old_sessions [OF ref_redis_ok _ _ fresh r, where k = 0 and r = "Inr (Revoked n)"] demo_index demo_tokens(1)
    by (simp add: demo_ttl)
  then show ?thesis
    unfolding Let_def c using demo_tokens(1) by simp
qed

text \<open>
  C21.  What it does not promise.  A refresh that has passed its checks when \<open>logout_all\<close> runs rotates
  and saves afterwards: both requests succeed and the user is left with a live session.  Neither order of the two,
  one after the other, ends like that: either the refresh is refused, or its session is revoked.
\<close>

theorem refresh_outlives_logout_all:
  assumes "redis R" and "0 < ttl_seconds (a_jwt A)" and "j \<noteq> tp_jti p" and "working w = committed w"
    and "index_ok R (ttl_seconds (a_jwt A)) (kv w)" and "refresh_check R C A now tok w = (Inr (p, x), w)"
    and "q = Refresh now now i j tok" and "l = Logout_all (tp_user_id p)"
  shows "(\<exists>ts n w'. play [0, 0, 1, 1, 0, 0] ([auth_thread R C A coll q, auth_thread R C A coll l], w) =
        ([Done (Inr (Tokens ts)), Done (Inr (Revoked n))], w') \<and>
        verify R C (tp_user_id p) j (refresh_token ts) (kv w') = TS_ACTIVE) \<and>
    (\<forall>k. \<not> live R (kv (snd (in_turn R C A coll [q, l] w))) (tp_user_id p) k) \<and>
    fst (in_turn R C A coll [l, q] w) ! 1 = Inl session_expired"
proof (intro conjI)
  obtain g h where q: "auth_thread R C A coll q = Trip (\<lambda>w. w) g" "g w = Trip (\<lambda>w. w) h"
    "h w = rotating R C A now i j p"
    unfolding assms(7) by (rule refresh_passes [OF assms(4,6)])
  show "\<exists>ts n w'. play [0, 0, 1, 1, 0, 0] ([auth_thread R C A coll q, auth_thread R C A coll l], w) =
        ([Done (Inr (Tokens ts)), Done (Inr (Revoked n))], w') \<and>
        verify R C (tp_user_id p) j (refresh_token ts) (kv w') = TS_ACTIVE"
    unfolding q(1) using assms(1,2)
    by (simp add: q(2,3) assms(8) revoke_allT_def rotating_def saving_def verify_new_tokens r_get_def redis.lookup_save)
  have c: "decode_token C (a_jwt A) now tok REFRESH = Inr p" "user_id x = tp_user_id p"
    using assms(6) by (auto simp: refresh_check_Inr intro: user_get_by_id_pk)
  show "\<forall>k. \<not> live R (kv (snd (in_turn R C A coll [q, l] w))) (tp_user_id p) k"
  proof
    fix k
    define s where "s = kv (snd (refresh R C A now i j tok w))"
    have "index_ok R (ttl_seconds (a_jwt A)) s"
      using assms(1,2,5) unfolding s_def refresh_active [OF assms(6), of i j]
      by (simp add: redis.index_ok_save redis.index_ok_rotate)
    moreover have "kv (snd (in_turn R C A coll [q, l] w)) = snd (revoke_all R (tp_user_id p) s)"
      using refresh_active [OF assms(6), of i j]
      by (simp add: assms(7,8) refresh_def [symmetric] prog_simps Let_def s_def logout_all_def case_prod_unfold)
    ultimately show "\<not> live R (kv (snd (in_turn R C A coll [q, l] w))) (tp_user_id p) k"
      using assms(1) by (simp add: live_def r_exists_def redis.revoke_all_token)
  qed
  have "fst (refresh R C A now i j tok (on_kv (\<lambda>s. snd (revoke_all R (tp_user_id p) s)) w)) = Inl session_expired"
    by (rule refresh_refused [OF c(1)]) (simp add: redis.verify_revoke_all [OF assms(1,5)])
  then show "fst (in_turn R C A coll [l, q] w) ! 1 = Inl session_expired"
    by (simp add: assms(7,8) refresh_def [symmetric] prog_simps Let_def logout_all_def case_prod_unfold on_kv_def
        split: prod.splits sum.splits)
qed

theorem refresh_outlives_logout_all_witness:
  "let th = auth_thread ref_redis demo_crypto demo_auth lower;
       c = play [0, 0, 1, 1, 0, 0] ([th (Refresh 100 100 ''i'' ''j'' demo_token), th (Logout_all 7)], demo_world)
   in \<exists>ts n. fst c = [Done (Inr (Tokens ts)), Done (Inr (Revoked n))] \<and>
        verify ref_redis demo_crypto 7 ''j'' (refresh_token ts) (kv (snd c)) = TS_ACTIVE"
proof -
  let ?th = "auth_thread ref_redis demo_crypto demo_auth lower"
  have p: "tp_user_id demo_payload = 7" "tp_jti demo_payload = ''x''" by (simp_all add: demo_payload_def)
  note refresh_outlives_logout_all [OF ref_redis_ok demo_life demo_fresh demo_clean demo_listed demo_check_100 refl refl,
      of lower "''i''", THEN conjunct1, unfolded p]
  then obtain ts n w' where c: "play [0, 0, 1, 1, 0, 0] ([?th (Refresh 100 100 ''i'' ''j'' demo_token), ?th (Logout_all 7)], demo_world) =
      ([Done (Inr (Tokens ts)), Done (Inr (Revoked n))], w')"
    "verify ref_redis demo_crypto 7 ''j'' (refresh_token ts) (kv w') = TS_ACTIVE"
    by blast
  show ?thesis unfolding Let_def c(1) using c(2) by simp
qed

text \<open>
  C20.  One token, many sessions.  Any number of requests that present the same live token at the same time
  can all pass the check before the first of them rotates; then every one of them succeeds, and each has a live
  session of its own.  One after the other, the second is already refused.
\<close>

theorem refresh_storm:
  assumes "redis R" and "0 < ttl_seconds (a_jwt A)" and "working w = committed w"
    and "refresh_check R C A now tok w = (Inr (p, x), w)"
    and "distinct (map snd ids)" and "tp_jti p \<notin> snd ` set ids"
  shows "\<exists>ts w'. runs E (map (\<lambda>(i, j). auth_thread R C A coll (Refresh now now' i j tok)) ids, w) (ts, w') \<and>
    (\<forall>k<length ids. \<exists>x. ts ! k = Done (Inr (Tokens x)) \<and>
       verify R C (tp_user_id p) (snd (ids ! k)) (refresh_token x) (kv w') = TS_ACTIVE)"
proof -
  let ?a = "tp_user_id p"
  let ?rot = "map (\<lambda>(i, j). rotating R C A now' i j p) ids"
  let ?done = "map (\<lambda>(i, j). Done (Inr (Tokens (new_tokens C A now' i j ?a)))) ids"
  have checked: "runs E (map (\<lambda>(i, j). auth_thread R C A coll (Refresh now now' i j tok)) ids, w) (?rot, w)"
    by (rule reads_run) (simp_all add: case_prod_unfold refresh_goes [OF assms(3,4)] del: auth_thread.simps)
  note all = rotating_all [OF assms(1,2,5,6), where C = C and now = now' and E = E and w = w]
  from all [of "length ids"] obtain w' where w': "runs E (?rot, w) (?done, w')"
    "\<forall>k<length ids. r_get R (kv w') (token_key ?a (snd (ids ! k))) =
      Some (hash_token C (refresh_token (new_tokens C A now' (fst (ids ! k)) (snd (ids ! k)) ?a)))"
    by auto
  have "\<exists>x. ?done ! k = Done (Inr (Tokens x)) \<and> verify R C ?a (snd (ids ! k)) (refresh_token x) (kv w') = TS_ACTIVE"
    if "k < length ids" for k
    using that w'(2) verify_new_tokens [of R "kv w'" ?a "snd (ids ! k)" C A now' "fst (ids ! k)"]
    by (simp add: case_prod_unfold)
  then show ?thesis using runs_trans [OF checked w'(1)] by blast
qed

theorem refresh_storm_witness:
  "let th = (\<lambda>j. auth_thread ref_redis demo_crypto demo_auth lower (Refresh 100 100 ''i'' j demo_token))
   in \<exists>x y z w'. runs (other_step ref_redis 1) ([th ''j'', th ''k'', th ''l''], demo_world)
        ([Done (Inr (Tokens x)), Done (Inr (Tokens y)), Done (Inr (Tokens z))], w') \<and>
        verify ref_redis demo_crypto 7 ''j'' (refresh_token x) (kv w') = TS_ACTIVE \<and>
        verify ref_redis demo_crypto 7 ''k'' (refresh_token y) (kv w') = TS_ACTIVE \<and>
        verify ref_redis demo_crypto 7 ''l'' (refresh_token z) (kv w') = TS_ACTIVE"
proof -
  let ?ids = "[(''i'', ''j''), (''i'', ''k''), (''i'', ''l'')]"
  have "distinct (map snd ?ids)" "tp_jti demo_payload \<notin> snd ` set ?ids"
    by (simp_all add: demo_payload_def)
  note refresh_storm [OF ref_redis_ok demo_life demo_clean demo_check_100 this, of "other_step ref_redis 1" lower 100]
  then obtain ts w' where r: "runs (other_step ref_redis 1) (map (\<lambda>(i, j). auth_thread ref_redis demo_crypto demo_auth lower
      (Refresh 100 100 i j demo_token)) ?ids, demo_world) (ts, w')"
    "\<And>k. k < 3 \<Longrightarrow> \<exists>x. ts ! k = Done (Inr (Tokens x)) \<and>
       verify ref_redis demo_crypto 7 (snd (?ids ! k)) (refresh_token x) (kv w') = TS_ACTIVE"
    by (auto simp: demo_payload_def)
  have "length ts = 3"
    using runs_length [OF r(1)] by simp
  then have "ts = [ts ! 0, ts ! 1, ts ! 2]"
    by (intro nth_equalityI) (auto simp: less_Suc_eq numeral_3_eq_3 numeral_2_eq_2)
  then show ?thesis
    using r(1) r(2) [of 0] r(2) [of 1] r(2) [of 2] unfolding Let_def by force
qed

text \<open>
  C13.  Guessing in parallel does not help.  Any number of logins at one e-mail address with wrong passwords (or at an
  inactive or missing account), from any addresses and interleaved in any way with each other and with other requests, as long as the
  window stays open: no more of them are told "wrong credentials" than the limiter had attempts left; the others
  are refused unseen, and none gets in.
\<close>

theorem parallel_guesses_bounded:
  assumes "redis R" and "0 < login_rate_limit_window_seconds A"
    and "\<And>q. q \<in> set qs \<Longrightarrow> wrong_guess C coll (users (committed w)) e q" and "counted R e n w"
    and "runs (open_window R ttl e) (map (auth_thread R C A coll) qs, w) (ts, w')"
  shows "int (card {k. k < length qs \<and> ts ! k = Done (Inl login_failed)}) \<le> max 0 (login_rate_limit_max_attempts A - int n) \<and>
    (\<forall>k<length qs. \<forall>x. ts ! k \<noteq> Done (Inr x))"
proof -
  let ?m = "login_rate_limit_max_attempts A" and ?ts0 = "map (auth_thread R C A coll) qs" and ?us = "users (committed w)"
  let ?J = "guessing R e ?us" and ?le = "\<lambda>_ _. True" and ?G = "\<lambda>w w' _. counts_on R e w w'" and ?Q = "\<lambda>r _. \<forall>x. r \<noteq> Inr x"
  have J: "?J w" using assms(4) by (auto simp: guessing_def)
  have sat: "sat ?J ?le ?G ?Q (?ts0 ! k) w" if "k < length ?ts0" for k
    using that sat_guess [OF assms(1,2) assms(3)] by simp
  have len: "length ts = length qs"
    using runs_length [OF assms(5)] by simp
  have "within_limit R ?m e n ?ts0 ts w'"
  proof (rule window.sat_invariant [OF assms(5) J, where Q = "\<lambda>_. ?Q" and G = ?G])
    show "within_limit R ?m e n ?ts0 ?ts0 w"
      using assms(4) by (auto simp: within_limit_def let_through_def)
    show "within_limit R ?m e n ?ts0 us v'" if "within_limit R ?m e n ?ts0 us v" "open_window R ttl e v v'" for us v v'
      using that(2) by (intro within_limit_mono [OF that(1)]) (simp_all add: open_window_def)
    show "within_limit R ?m e n ?ts0 (us[k := g v]) (f v)"
      if "within_limit R ?m e n ?ts0 us v" "k < length us" "us ! k = Trip f g" "counts_on R e v (f v)" for us v k f g
      using that by (intro within_limit_trip [OF assms(1,2) refl assms(3)])
  qed (rule sat)
  then have b: "let_through ?ts0 ts = {} \<or> int (n + card (let_through ?ts0 ts)) \<le> ?m"
    by (simp add: within_limit_def)
  have "auth_thread R C A coll q \<noteq> Done r" if "q \<in> set qs" for q r
    by (rule guess_first_trip [OF assms(1,2) assms(3) [OF that] assms(4)]) simp
  then have "{k. k < length qs \<and> ts ! k = Done (Inl login_failed)} \<subseteq> let_through ?ts0 ts"
    using len by (auto simp: let_through_def)
  then have "card {k. k < length qs \<and> ts ! k = Done (Inl login_failed)} \<le> card (let_through ?ts0 ts)"
    by (intro card_mono) simp_all
  moreover have "int (card (let_through ?ts0 ts)) \<le> max 0 (?m - int n)"
    using b by auto
  ultimately have "int (card {k. k < length qs \<and> ts ! k = Done (Inl login_failed)}) \<le> max 0 (?m - int n)"
    by linarith
  moreover have "ts ! k \<noteq> Done (Inr x)" if "k < length qs" for k x
    using window.sat_done [OF assms(5) J sat, of k "Inr x"] that len by auto
  ultimately show ?thesis by blast
qed

theorem parallel_guesses_bounded_witness:
  "let th = (\<lambda>ip. auth_thread ref_redis demo_crypto demo_auth lower (Login 100 ''i'' ''j'' ''a@x'' (u ''password'') ip));
       c = play [0, 1, 2, 0, 1, 2, 0, 1] ([th ''1'', th ''2'', th ''3''], demo_app [demo_user 7 ''a@x''] empty_store)
   in int (card {k. k < 3 \<and> fst c ! k = Done (Inl login_failed)}) \<le> 2"
proof -
  let ?w = "demo_app [demo_user 7 ''a@x''] empty_store"
  let ?qs = "map (\<lambda>ip. Login 100 ''i'' ''j'' ''a@x'' (u ''password'') ip) [''1'', ''2'', ''3'']"
  let ?c = "play [0, 1, 2, 0, 1, 2, 0, 1] (map (auth_thread ref_redis demo_crypto demo_auth lower) ?qs, ?w)"
  have e: "lower ''a@x'' = ''a@x''" by code_simp
  have g: "wrong_guess demo_crypto lower (users (committed ?w)) ''a@x'' q" if "q \<in> set ?qs" for q
    using that by (auto simp: e demo_app_def empty_db_def demo_user_def verify_password_def Let_def
        demo_crypto_def u_def utf8_def utf8_char_def bcrypt_max_password_bytes_def show_nat.simps)
  have n: "counted ref_redis ''a@x'' 0 ?w"
    by (auto simp: counted_def holds_window_def demo_app_def email_key_def intro!: exI [of _ None])
  obtain ts w' where c: "?c = (ts, w')" by (rule prod.exhaust)
  have r: "runs (open_window ref_redis 1 ''a@x'') (map (auth_thread ref_redis demo_crypto demo_auth lower) ?qs, ?w) (ts, w')"
    using play_runs [of "open_window ref_redis 1 ''a@x''" "(map (auth_thread ref_redis demo_crypto demo_auth lower) ?qs, ?w)"] by (metis c)
  have "int (card {k. k < length ?qs \<and> ts ! k = Done (Inl login_failed)}) \<le> 2"
    using parallel_guesses_bounded [OF ref_redis_ok _ g n r, THEN conjunct1] by (simp add: demo_auth_def)
  then show ?thesis
    unfolding Let_def c [unfolded list.map] by (simp add: numeral_3_eq_3)
qed

end
