(* ===== verification/Menu_Overlap.thy ===== *)
theory Menu_Overlap
  imports Threads Menus
begin

text \<open>
  \<^verbatim>\<open>modules/menus/menu_service.py\<close> when its requests overlap.  Each request is one database transaction: InnoDB's
  REPEATABLE READ, the default nobody changes, lets it read the database as it was committed at its first
  query, and nothing in the service locks a row it read.  The flush sends the columns that differ from
  the row that was read, to the row as it is now, and the commit follows at once.  So a request is two trips: read and
  check on a snapshot, then write.  \<open>None\<close> is a request that never returns.
\<close>

section \<open>The methods, trip by trip\<close>

text \<open>An UPDATE of the unit of work sets the columns in which \<open>new\<close> differs from \<open>old\<close>.\<close>

definition changed_columns :: "menu \<Rightarrow> menu \<Rightarrow> menu \<Rightarrow> menu" where
  "changed_columns old new m = m\<lparr>
     menu_name := (if menu_name new = menu_name old then menu_name m else menu_name new),
     menu_parent_id := (if menu_parent_id new = menu_parent_id old then menu_parent_id m else menu_parent_id new),
     menu_deleted_at := (if menu_deleted_at new = menu_deleted_at old then menu_deleted_at m else menu_deleted_at new),
     menu_updated_at := (if menu_updated_at new = menu_updated_at old then menu_updated_at m else menu_updated_at new)\<rparr>"

definition send_changes :: "menu \<Rightarrow> menu \<Rightarrow> db \<Rightarrow> db" where
  "send_changes old new = menus_update (map (\<lambda>m. if menu_id m = menu_id old then changed_columns old new m else m))"

definition menu_row :: "int \<Rightarrow> db \<Rightarrow> menu option" where
  "menu_row mid d = find (\<lambda>m. menu_id m = mid) (menus d)"

text \<open>Flush and commit; the UNIQUE index is that of the database as it is now.\<close>

definition menu_sendT ::
  "(utext \<Rightarrow> utext) \<Rightarrow> menu \<Rightarrow> menu \<Rightarrow> 'a \<Rightarrow> ('x session_scheme, (exn + 'a) option) thread" where
  "menu_sendT ncoll old new r =
     (let ok = (\<lambda>s. uq_menus_parent_name ncoll (menus (send_changes old new (committed s))))
      in Trip (\<lambda>s. if ok s then commit (on_db (send_changes old new) (rollback s)) else s)
           (\<lambda>s. Done (Some (if ok s then Inr r else Inl (SQLAlchemyError IntegrityError)))))"

definition menu_updateT ::
  "(utext \<Rightarrow> utext) \<Rightarrow> time \<Rightarrow> int \<Rightarrow> menu_update_body \<Rightarrow> ('x session_scheme, (exn + menu option) option) thread" where
  "menu_updateT ncoll now mid b =
     Trip (\<lambda>s. s) (\<lambda>s.
       case menu_update ncoll now mid b (rollback s) of
         None \<Rightarrow> Done None
       | Some (Inl e, _) \<Rightarrow> Done (Some (Inl e))
       | Some (Inr new, _) \<Rightarrow>
           (case menu_row mid (committed s) of
              None \<Rightarrow> Done (Some (Inr (Some new)))
            | Some old \<Rightarrow> menu_sendT ncoll old new (Some new)))"

definition menu_deleteT ::
  "(utext \<Rightarrow> utext) \<Rightarrow> time \<Rightarrow> int \<Rightarrow> ('x session_scheme, (exn + menu option) option) thread" where
  "menu_deleteT ncoll now mid =
     Trip (\<lambda>s. s) (\<lambda>s.
       case menu_delete ncoll now mid (rollback s) of
         (Inl e, _) \<Rightarrow> Done (Some (Inl e))
       | (Inr _, t) \<Rightarrow>
           (case (menu_row mid (committed s), menu_row mid (committed t)) of
              (Some old, Some new) \<Rightarrow> menu_sendT ncoll old new None
            | _ \<Rightarrow> Done (Some (Inr None))))"

definition menu_createT ::
  "(utext \<Rightarrow> utext) \<Rightarrow> time \<Rightarrow> menu_create_body \<Rightarrow> ('x session_scheme, (exn + menu option) option) thread" where
  "menu_createT ncoll now b =
     Trip (\<lambda>s. s) (\<lambda>s.
       case bindP (ensure_parent_exists (mc_parent_id b))
              (\<lambda>_. ensure_name_available ncoll (mc_parent_id b) (Some (mc_name b))) (rollback s) of
         (Inl e, _) \<Rightarrow> Done (Some (Inl e))
       | (Inr _, _) \<Rightarrow>
           (let ins = ins_row T_menus menus_update (\<lambda>i. \<lparr>menu_id = i, menu_name = mc_name b,
              menu_parent_id = mc_parent_id b, menu_deleted_at = None, menu_created_at = now, menu_updated_at = now\<rparr>)
            in Trip (\<lambda>s. commit (snd (ins (rollback s))))
                 (\<lambda>s. Done (Some (map_sum (\<lambda>e. e) Some (fst (ins (rollback s))))))))"

section \<open>A request that nobody interrupts\<close>

lemma menu_row_live:
  assumes "session_ok coll s" and "m \<in> set (menu_active (committed s))"
  shows "menu_row (menu_id m) (committed s) = Some m"
  using assms unfolding menu_row_def menu_active_def
  by (intro find_unique_Some) (auto simp: session_ok_def dest: schema_ok_ids(2))

lemma menu_get_or_404_row:
  "session_ok coll s \<Longrightarrow> menu_get_or_404 mid s = (Inr m, t) \<Longrightarrow> x \<in> set (menu_active (working s)) \<Longrightarrow> menu_id x = mid \<Longrightarrow> x = m"
  by (metis menu_active_unique menu_get_or_404_Inr)

lemma menus_update_cong: "(\<And>x. x \<in> set (menus d) \<Longrightarrow> f x = g x) \<Longrightarrow> menus_update (map f) d = menus_update (map g) d"
  by (cases d) simp

text \<open>An update that succeeds: the row it returns is the row it wrote.\<close>

lemma menu_update_rest_success:
  assumes "session_ok coll s" and "m \<in> set (menu_active (working s))" and "menu_update_rest ncoll now m b s = (Inr m', t)"
  shows "\<exists>n. m' = menu_edit now n (sent_or (menu_parent_id m) (mu_parent_id b)) m \<and>
    working t = menus_update (map (\<lambda>x. if menu_id x = menu_id m then m' else x)) (working s) \<and>
    committed t = working t \<and> uq_menus_parent_name ncoll (menus (working t))"
proof -
  define p where "p = sent_or (menu_parent_id m) (mu_parent_id b)"
  let ?p = p
  have "\<exists>n. uq_menus_parent_name ncoll (map (\<lambda>x. if menu_id x = menu_id m then menu_edit now n ?p x else x) (menus (working s))) \<and>
      menu_get_or_404 (menu_id m) (commit (upd_pk menu_id menus_update (menu_id m) (menu_edit now n ?p) s)) = (Inr m', t)"
    using assms(3) by (auto simp: menu_update_rest_def p_def [symmetric] Let_def prog_simps ensure_name_available_cases menu_write_def menu_flush_def
        menu_edit_def [symmetric] split: option.splits if_splits)
  then obtain n where
    uq: "uq_menus_parent_name ncoll (map (\<lambda>x. if menu_id x = menu_id m then menu_edit now n ?p x else x) (menus (working s)))"
    and g: "menu_get_or_404 (menu_id m) (commit (upd_pk menu_id menus_update (menu_id m) (menu_edit now n ?p) s)) = (Inr m', t)"
    by blast
  let ?edit = "\<lambda>x. if menu_id x = menu_id m then menu_edit now n ?p x else x"
  have t: "t = commit (upd_pk menu_id menus_update (menu_id m) (menu_edit now n ?p) s)"
    using menu_get_or_404_Inr [OF g] by simp
  have act: "menu_active (working t) = map ?edit (menu_active (working s))"
    using menu_active_map [of "menu_edit now n ?p" "menu_id m" "working s"] by (simp add: t)
  from menu_get_or_404_Inr [OF g] have "m' \<in> set (menu_active (working t))" "menu_id m' = menu_id m"
    by (simp_all add: t)
  then obtain x where x: "x \<in> set (menu_active (working s))" "menu_id x = menu_id m" "m' = menu_edit now n ?p x"
    unfolding act by auto
  then have m': "m' = menu_edit now n ?p m"
    using menu_active_unique [OF assms(1) x(1) assms(2)] by simp
  have "distinct (map menu_id (menus (working s)))"
    using session_ok_working [OF assms(1)] by (rule schema_ok_ids(2))
  then have "x = m" if "x \<in> set (menus (working s))" "menu_id x = menu_id m" for x
    using that assms(2) by (auto simp: menu_active_def distinct_map dest: inj_onD)
  then have e: "menus_update (map ?edit) (working s) = menus_update (map (\<lambda>x. if menu_id x = menu_id m then m' else x)) (working s)"
    by (intro menus_update_cong) (auto simp: m')
  have wt: "working t = menus_update (map ?edit) (working s)" by (simp add: t)
  then have "uq_menus_parent_name ncoll (menus (working t))" using uq by simp
  moreover have "committed t = working t" by (simp add: t)
  ultimately show ?thesis using wt [unfolded e] m' unfolding p_def by blast
qed

lemma menu_update_success:
  assumes "session_ok coll s" and "menu_update ncoll now mid b s = Some (Inr m', t)"
  obtains m n where "m \<in> set (menu_active (working s))" "menu_id m = mid"
    "m' = menu_edit now n (sent_or (menu_parent_id m) (mu_parent_id b)) m"
    "working t = menus_update (map (\<lambda>x. if menu_id x = mid then m' else x)) (working s)"
    "committed t = working t" "uq_menus_parent_name ncoll (menus (working t))"
proof -
  obtain r where g: "menu_get_or_404 mid s = (r, s)"
    by (metis menu_get_or_404_state prod.collapse)
  with assms(2) obtain m where m: "r = Inr m" "menu_update_rest ncoll now m b s = (Inr m', t)"
    by (auto simp: menu_update_def ensure_parent_exists_cases split: sum.splits sent.splits option.splits if_splits)
  have "m \<in> set (menu_active (working s))" "menu_id m = mid"
    using menu_get_or_404_Inr g m(1) by auto
  with menu_update_rest_success [OF assms(1) _ m(2)] that show ?thesis by blast
qed

lemma changed_columns_same: "menu_id new = menu_id old \<Longrightarrow> menu_created_at new = menu_created_at old \<Longrightarrow> changed_columns old new old = new"
  by (cases old; cases new) (simp add: changed_columns_def)

lemma alone_menu_updateT:
  assumes "session_ok coll s" and "working s = committed s"
  shows "alone (menu_updateT ncoll now mid b) s =
    (case menu_update ncoll now mid b s of
       None \<Rightarrow> (None, s)
     | Some (Inl e, t) \<Rightarrow> (Some (Inl e), s)
     | Some (Inr m, t) \<Rightarrow> (Some (Inr (Some m)), s\<lparr>committed := committed t, working := committed t\<rparr>))"
proof -
  have r: "rollback s = s" using assms(2) by (simp add: rollback_def)
  show ?thesis
  proof (cases "menu_update ncoll now mid b s")
    case None
    then show ?thesis by (simp add: menu_updateT_def r)
  next
    case (Some q)
    obtain z t where q: "q = (z, t)" by (cases q)
    show ?thesis
    proof (cases z)
      case (Inl e)
      with Some q show ?thesis by (simp add: menu_updateT_def r)
    next
      case (Inr m')
      with Some q have "menu_update ncoll now mid b s = Some (Inr m', t)" by simp
      then obtain m n where m: "m \<in> set (menu_active (working s))" "menu_id m = mid"
        "m' = menu_edit now n (sent_or (menu_parent_id m) (mu_parent_id b)) m"
        "working t = menus_update (map (\<lambda>x. if menu_id x = mid then m' else x)) (working s)"
        "committed t = working t" "uq_menus_parent_name ncoll (menus (working t))"
        by (rule menu_update_success [OF assms(1)])
      have row: "menu_row mid (committed s) = Some m"
        using menu_row_live [OF assms(1), of m] m(1,2) assms(2) by simp
      have "distinct (map menu_id (menus (committed s)))"
        using session_ok_working [OF assms(1)] assms(2) by (auto dest: schema_ok_ids(2))
      then have "x = m" if "x \<in> set (menus (committed s))" "menu_id x = mid" for x
        using that m(1,2) assms(2) by (auto simp: menu_active_def distinct_map dest: inj_onD)
      moreover have "changed_columns m m' m = m'"
        by (rule changed_columns_same) (cases m; simp add: m(3) menu_edit_def orm_update_def stamp_menu_def)+
      ultimately have "send_changes m m' (committed s) = committed t"
        unfolding send_changes_def m(2,4,5) assms(2) by (intro menus_update_cong) auto
      then show ?thesis
        using Some q Inr row m(5,6)
        by (simp add: menu_updateT_def r menu_sendT_def Let_def) (simp add: commit_def on_db_def assms(2))
    qed
  qed
qed

section \<open>Two moves that cross\<close>

lemma live_menu_get:
  assumes d: "distinct (map menu_id (menus (working s)))" and "m \<in> set (menu_active (working s))"
  shows "menu_get_or_404 (menu_id m) s = (Inr m, s)"
proof -
  have "find (\<lambda>r. menu_id r = menu_id m) (menus (working s)) = Some m"
    using d assms(2) by (intro find_unique_Some) (auto simp: menu_active_def)
  then have "menu_get_by_id (menu_id m) s = Inr (Some m)"
    using one_or_none_unique [OF d, of _ "menu_id m" "\<lambda>x. menu_deleted_at x = None"] assms(2)
    by (simp add: menu_get_by_id_def menu_active_def conj_commute)
  then show ?thesis by (simp add: menu_get_or_404_def prog_simps)
qed

abbreviation move_to :: "int \<Rightarrow> menu_update_body" where
  "move_to p \<equiv> \<lparr>mu_name = Unset, mu_parent_id = Sent p\<rparr>"

lemma move_target:
  assumes "menu_update ncoll now mid (move_to p) s = Some (Inr m', t)"
  shows "p \<in> menu_id ` set (menu_active (working s)) \<and> mid \<noteq> p"
proof -
  obtain r where g: "menu_get_or_404 mid s = (r, s)"
    by (metis menu_get_or_404_state prod.collapse)
  have "p \<in> menu_id ` set (menu_active (working s))"
  proof (rule ccontr)
    assume "p \<notin> menu_id ` set (menu_active (working s))"
    with assms g show False by (cases r) (simp_all add: menu_update_def ensure_parent_exists_cases)
  qed
  moreover have "mid \<noteq> p"
  proof
    assume "mid = p"
    with assms g calculation show False
      by (cases r) (simp_all add: menu_update_def ensure_parent_exists_cases ensure_not_own_descendant_def)
  qed
  ultimately show ?thesis by simp
qed

text \<open>The UNIQUE index does not see live rows.\<close>

lemma uq_live:
  assumes "\<And>x. x \<in> set ms \<Longrightarrow> g x \<noteq> x \<Longrightarrow> menu_deleted_at x = None \<and> menu_deleted_at (g x) = None"
  shows "uq_menus_parent_name ncoll (map g ms) = uq_menus_parent_name ncoll ms"
proof -
  have "filter (\<lambda>m. menu_parent_id m \<noteq> None \<and> menu_deleted_at m \<noteq> None) (map g ms) =
      filter (\<lambda>m. menu_parent_id m \<noteq> None \<and> menu_deleted_at m \<noteq> None) ms"
    using assms
  proof (induction ms)
    case (Cons x ms)
    have "filter (\<lambda>m. menu_parent_id m \<noteq> None \<and> menu_deleted_at m \<noteq> None) (map g ms) =
        filter (\<lambda>m. menu_parent_id m \<noteq> None \<and> menu_deleted_at m \<noteq> None) ms"
      using Cons.prems by (intro Cons.IH) simp_all
    with Cons.prems [of x] show ?case by (cases "g x = x") simp_all
  qed simp
  then show ?thesis by (simp add: uq_menus_parent_name_def)
qed

text \<open>The walk goes round a cycle for ever.\<close>

lemma walk_up_cycle:
  assumes "distinct (map menu_id ms)" and "ma \<in> set ms" and "mb \<in> set ms"
    and "menu_id ma = a" and "menu_id mb = b" and "menu_parent_id ma = Some b" and "menu_parent_id mb = Some a"
    and "c \<notin> {a, b}"
  shows "walk_up ms c (Some a) = None"
proof -
  have f: "find (\<lambda>m. menu_id m = a) ms = Some ma" "find (\<lambda>m. menu_id m = b) ms = Some mb"
    using assms(1-5) by (auto intro: find_unique_Some)
  have "walk_up ms' c' cursor = Some y \<Longrightarrow> ms' = ms \<longrightarrow> c' = c \<longrightarrow> cursor \<noteq> Some a \<and> cursor \<noteq> Some b" for ms' c' cursor y
  proof (rule walk_up.raw_induct [where P = "\<lambda>ms' c' cursor _. ms' = ms \<longrightarrow> c' = c \<longrightarrow> cursor \<noteq> Some a \<and> cursor \<noteq> Some b"])
    fix walk ms' mid y and cursor :: "int option"
    assume ih: "\<And>ms' mid cursor y. walk ms' mid cursor = Some y \<Longrightarrow> ms' = ms \<longrightarrow> mid = c \<longrightarrow> cursor \<noteq> Some a \<and> cursor \<noteq> Some b"
      and "(case cursor of None \<Rightarrow> Some False
          | Some c \<Rightarrow> if c = mid then Some True
              else case find (\<lambda>m. menu_id m = c) ms' of None \<Rightarrow> Some False | Some x \<Rightarrow> walk ms' mid (menu_parent_id x)) = Some y"
    then show "ms' = ms \<longrightarrow> mid = c \<longrightarrow> cursor \<noteq> Some a \<and> cursor \<noteq> Some b"
      using ih [of ms c "Some a" y] ih [of ms c "Some b" y] f assms(6-8) by auto
  qed
  then show ?thesis by (cases "walk_up ms c (Some a)") auto
qed

text \<open>What hangs on a cycle is not in the tree.\<close>

lemma tree_of_avoids:
  assumes "\<And>(m :: menu) c. c \<in> set (ch (menu_id m)) \<Longrightarrow> menu_id m \<notin> X \<Longrightarrow> menu_id c \<notin> X" and "menu_id m \<notin> X"
  shows "X \<inter> mr_menu_id ` set (tree_nodes (tree_of n ch m)) = {}"
  using assms(2)
proof (induction n arbitrary: m)
  case 0
  then show ?case by (auto simp: menu_response_of_def)
next
  case (Suc n)
  have "X \<inter> mr_menu_id ` set (tree_nodes (tree_of n ch c)) = {}" if "c \<in> set (ch (menu_id m))" for c
    by (rule Suc.IH) (rule assms(1) [OF that Suc.prems])
  moreover have "mr_menu_id ` set (tree_nodes (tree_of (Suc n) ch m)) =
      insert (menu_id m) (\<Union>c\<in>set (ch (menu_id m)). mr_menu_id ` set (tree_nodes (tree_of n ch c)))"
    by (simp add: menu_response_of_def image_UN)
  ultimately show ?case
    using Suc.prems by (simp del: tree_of.simps tree_nodes.simps add: Int_UN_distrib)
qed

lemma get_tree_avoids:
  assumes "\<And>m. m \<in> set (menu_active (working s)) \<Longrightarrow> menu_id m \<in> X \<Longrightarrow> \<exists>p\<in>X. menu_parent_id m = Some p"
    and "X \<subseteq> menu_id ` set (menu_active (working s))" and "t \<in> set (get_tree s)"
  shows "X \<inter> mr_menu_id ` set (tree_nodes t) = {}"
proof -
  define ms where "ms = menu_list_all s"
  have "mset ms = mset (menu_active (working s))" by (simp add: ms_def mset_list_all)
  then have sets: "set ms = set (menu_active (working s))" by (metis set_mset_mset)
  obtain m where m: "t = tree_of (length ms) (fst (link_menus ms)) m" "m \<in> set (snd (link_menus ms))"
    using assms(3) by (auto simp: get_tree_def ms_def Let_def case_prod_unfold)
  have "m \<in> set (menu_active (working s))" "\<And>p. menu_parent_id m = Some p \<Longrightarrow> p \<notin> menu_id ` set (menu_active (working s))"
    using m(2) sets by (auto simp: link_menus_roots)
  then have "menu_id m \<notin> X"
    using assms(1,2) by blast
  moreover have "menu_id c \<notin> X" if "c \<in> set (fst (link_menus ms) (menu_id x))" "menu_id x \<notin> X" for c x
  proof -
    have "fst (link_menus ms) (menu_id x) = (if menu_id x \<in> menu_id ` set ms then filter (\<lambda>c. menu_parent_id c = Some (menu_id x)) ms else [])"
      by (simp add: link_menus_def link_menus_fold)
    with that(1) sets have "c \<in> set (menu_active (working s))" "menu_parent_id c = Some (menu_id x)"
      by (auto split: if_splits)
    with that(2) assms(1) [of c] show ?thesis by auto
  qed
  ultimately show ?thesis unfolding m(1) by (intro tree_of_avoids) auto
qed

text \<open>The row a move writes, and sending it to a database in which the row is as it was.\<close>

lemma move_row:
  assumes "session_ok coll s" and "working s = committed s" and "menu_update ncoll now a (move_to b) s = Some (Inr ma, ta)"
  obtains m where "m \<in> set (menu_active (committed s))" "menu_id m = a" "menu_row a (committed s) = Some m"
    "menu_id ma = a" "menu_parent_id ma = Some b" "menu_deleted_at ma = None" "changed_columns m ma m = ma"
    "committed ta = menus_update (map (\<lambda>x. if menu_id x = a then ma else x)) (committed s)" "working ta = committed ta"
    "uq_menus_parent_name ncoll (menus (committed ta))"
proof -
  obtain m n where m: "m \<in> set (menu_active (working s))" "menu_id m = a"
    "ma = menu_edit now n (sent_or (menu_parent_id m) (mu_parent_id (move_to b))) m"
    "working ta = menus_update (map (\<lambda>x. if menu_id x = a then ma else x)) (working s)"
    "committed ta = working ta" "uq_menus_parent_name ncoll (menus (working ta))"
    by (rule menu_update_success [OF assms(1,3)])
  have "changed_columns m ma m = ma"
    by (rule changed_columns_same) (cases m; simp add: m(3) menu_edit_def orm_update_def stamp_menu_def)+
  with m menu_row_live [OF assms(1), of m] assms(2) show ?thesis
    by (intro that [of m]) (auto simp: menu_active_def)
qed

lemma live_row_unique:
  assumes "session_ok coll s" and "m \<in> set (menu_active (committed s))" and "x \<in> set (menus (committed s))" and "menu_id x = menu_id m"
  shows "x = m"
proof -
  have "distinct (map menu_id (menus (committed s)))"
    using assms(1) by (auto simp: session_ok_def dest: schema_ok_ids(2))
  with assms(2-4) show ?thesis by (auto simp: menu_active_def distinct_map dest: inj_onD)
qed

lemma send_succeeds:
  assumes "uq_menus_parent_name ncoll (menus (send_changes old new (committed s)))"
  shows "\<exists>f g. menu_sendT ncoll old new r = Trip f g \<and> g s = Done (Some (Inr r)) \<and>
    f s = s\<lparr>committed := send_changes old new (committed s), working := send_changes old new (committed s)\<rparr>"
  using assms by (simp add: menu_sendT_def Let_def commit_def on_db_def rollback_def)

text \<open>The database two crossing moves leave.\<close>

definition crossed :: "menu \<Rightarrow> menu \<Rightarrow> db \<Rightarrow> db" where
  "crossed ma mb = menus_update (map (\<lambda>x. if menu_id x = menu_id ma then ma else if menu_id x = menu_id mb then mb else x))"

lemma crossing_run:
  assumes "session_ok coll s" and "working s = committed s"
    and "menu_update ncoll now a (move_to b) s = Some (Inr ma, ta)"
    and "menu_update ncoll now' b (move_to a) s = Some (Inr mb, tb)"
  shows "play [0, 1, 0, 1] ([menu_updateT ncoll now a (move_to b), menu_updateT ncoll now' b (move_to a)], s) =
    ([Done (Some (Inr (Some ma))), Done (Some (Inr (Some mb)))],
     s\<lparr>committed := crossed ma mb (committed s), working := crossed ma mb (committed s)\<rparr>)"
proof -
  let ?d = "committed s"
  obtain m where m: "m \<in> set (menu_active ?d)" "menu_id m = a" "menu_row a ?d = Some m"
    "menu_id ma = a" "menu_parent_id ma = Some b" "menu_deleted_at ma = None" "changed_columns m ma m = ma"
    "committed ta = menus_update (map (\<lambda>x. if menu_id x = a then ma else x)) ?d" "working ta = committed ta"
    "uq_menus_parent_name ncoll (menus (committed ta))"
    by (rule move_row [OF assms(1-3)])
  obtain n where n: "n \<in> set (menu_active ?d)" "menu_id n = b" "menu_row b ?d = Some n"
    "menu_id mb = b" "menu_parent_id mb = Some a" "menu_deleted_at mb = None" "changed_columns n mb n = mb"
    by (rule move_row [OF assms(1,2,4)])
  have ab: "a \<noteq> b" using move_target [OF assms(3)] by simp
  have first: "send_changes m ma ?d = committed ta"
    unfolding send_changes_def m(2,8)
    using live_row_unique [OF assms(1) m(1)] m(2,7) by (intro menus_update_cong) auto
  have "menus_update (map (\<lambda>x. if menu_id x = b then changed_columns n mb x else x)) (menus_update (map (\<lambda>x. if menu_id x = a then ma else x)) ?d) =
      menus_update (map (\<lambda>x. if menu_id x = a then ma else if menu_id x = b then changed_columns n mb x else x)) ?d"
    using ab m(4) by (cases ?d) (auto simp: comp_def)
  also have "\<dots> = crossed ma mb ?d"
    unfolding crossed_def m(4) n(4)
    using live_row_unique [OF assms(1) n(1)] n(2,7) by (intro menus_update_cong) auto
  finally have second: "send_changes n mb (committed ta) = crossed ma mb ?d"
    unfolding send_changes_def n(2) m(8) .
  have am: "menu_deleted_at x = None" if "x \<in> set (menus ?d)" "menu_id x = a" for x
    using live_row_unique [OF assms(1) m(1) that(1)] that(2) m(1,2) by (simp add: menu_active_def)
  have bn: "menu_deleted_at x = None" if "x \<in> set (menus ?d)" "menu_id x = b" for x
    using live_row_unique [OF assms(1) n(1) that(1)] that(2) n(1,2) by (simp add: menu_active_def)
  have "uq_menus_parent_name ncoll (map (\<lambda>x. if menu_id x = a then ma else if menu_id x = b then mb else x) (menus ?d)) =
      uq_menus_parent_name ncoll (menus ?d)"
    by (rule uq_live) (use am bn m(6) n(6) in \<open>simp split: if_splits\<close>)
  moreover have "uq_menus_parent_name ncoll (map (\<lambda>x. if menu_id x = a then ma else x) (menus ?d)) =
      uq_menus_parent_name ncoll (menus ?d)"
    by (rule uq_live) (use am m(6) in \<open>simp split: if_splits\<close>)
  ultimately have uq: "uq_menus_parent_name ncoll (menus (crossed ma mb ?d))"
    unfolding crossed_def m(4) n(4) using m(8,10) by simp
  have r: "rollback s = s" using assms(2) by (simp add: rollback_def)
  let ?s1 = "s\<lparr>committed := committed ta, working := committed ta\<rparr>"
  obtain g1 where g1: "menu_updateT ncoll now a (move_to b) = Trip (\<lambda>s. s) g1" "g1 s = menu_sendT ncoll m ma (Some ma)"
    using m(3) assms(3) by (simp add: menu_updateT_def r)
  obtain g2 where g2: "menu_updateT ncoll now' b (move_to a) = Trip (\<lambda>s. s) g2" "g2 s = menu_sendT ncoll n mb (Some mb)"
    using n(3) assms(4) by (simp add: menu_updateT_def r)
  obtain f1 h1 where h1: "menu_sendT ncoll m ma (Some ma) = Trip f1 h1" "f1 s = ?s1" "h1 s = Done (Some (Inr (Some ma)))"
    using send_succeeds [of ncoll m ma s "Some ma"] m(10) unfolding first by blast
  obtain f2 h2 where h2: "menu_sendT ncoll n mb (Some mb) = Trip f2 h2" "h2 ?s1 = Done (Some (Inr (Some mb)))"
    "f2 ?s1 = ?s1\<lparr>committed := crossed ma mb ?d, working := crossed ma mb ?d\<rparr>"
    using send_succeeds [of ncoll n mb ?s1 "Some mb"] uq second by auto
  show ?thesis
    unfolding g1(1) g2(1) by (simp add: g1(2) g2(2) h1 h2)
qed

lemma crossed_active:
  assumes "session_ok coll s" and "working s = committed s"
    and "menu_update ncoll now a (move_to b) s = Some (Inr ma, ta)"
    and "menu_update ncoll now' b (move_to a) s = Some (Inr mb, tb)"
  shows "menu_id ma = a" and "menu_id mb = b" and "menu_parent_id ma = Some b" and "menu_parent_id mb = Some a"
    and "menu_active (crossed ma mb (committed s)) =
      map (\<lambda>x. if menu_id x = a then ma else if menu_id x = b then mb else x) (menu_active (committed s))"
    and "{a, b} \<subseteq> menu_id ` set (menu_active (committed s))"
    and "session_ok coll (s\<lparr>committed := crossed ma mb (committed s), working := crossed ma mb (committed s)\<rparr>)"
proof -
  let ?d = "committed s" and ?g = "\<lambda>x. if menu_id x = a then ma else if menu_id x = b then mb else x"
  obtain m where m: "m \<in> set (menu_active ?d)" "menu_id m = a" "menu_id ma = a" "menu_parent_id ma = Some b" "menu_deleted_at ma = None"
    by (rule move_row [OF assms(1-3)])
  obtain n where n: "n \<in> set (menu_active ?d)" "menu_id n = b" "menu_id mb = b" "menu_parent_id mb = Some a" "menu_deleted_at mb = None"
    by (rule move_row [OF assms(1,2,4)])
  show "menu_id ma = a" "menu_id mb = b" "menu_parent_id ma = Some b" "menu_parent_id mb = Some a" by (fact m n)+
  show "{a, b} \<subseteq> menu_id ` set (menu_active ?d)" using m(1,2) n(1,2) by auto
  have am: "menu_deleted_at x = None" if "x \<in> set (menus ?d)" "menu_id x = a" for x
    using live_row_unique [OF assms(1) m(1) that(1)] that(2) m(1,2) by (simp add: menu_active_def)
  have bn: "menu_deleted_at x = None" if "x \<in> set (menus ?d)" "menu_id x = b" for x
    using live_row_unique [OF assms(1) n(1) that(1)] that(2) n(1,2) by (simp add: menu_active_def)
  have "filter (\<lambda>m. menu_deleted_at m = None) (map ?g ms) = map ?g (filter (\<lambda>m. menu_deleted_at m = None) ms)"
    if "set ms \<subseteq> set (menus ?d)" for ms
    using that am bn m(5) n(5) by (induction ms) simp_all
  then show "menu_active (crossed ma mb ?d) = map ?g (menu_active ?d)"
    unfolding crossed_def m(3) n(3) by (simp add: menu_active_def)
  have "schema_ok coll (seq s) ?d" using session_ok_working [OF assms(1)] assms(2) by simp
  then have "schema_ok coll (seq s) (crossed ma mb ?d)"
    unfolding crossed_def m(3) n(3) by (rule schema_ok_upd_menus) (simp add: m(3) n(3))
  then show "session_ok coll (s\<lparr>committed := crossed ma mb ?d, working := crossed ma mb ?d\<rparr>)"
    by (simp add: session_ok_def)
qed

lemma move_walks:
  assumes "distinct (map menu_id (menus (working s)))" and "c \<in> menu_id ` set (menu_active (working s))"
    and "p \<in> menu_id ` set (menu_active (working s))" and "c \<noteq> p"
  shows "walk_up (menu_active (working s)) c (Some p) = None \<Longrightarrow> menu_update ncoll now c (move_to p) s = None"
    and "walk_up (menu_active (working s)) c (Some p) = Some True \<Longrightarrow>
      menu_update ncoll now c (move_to p) s = Some (Inl (AppError (BadRequestError (Some MsgMenuDescendant))), s)"
  using assms live_menu_get [OF assms(1)]
  by (auto simp: menu_update_def ensure_parent_exists_cases ensure_not_own_descendant_def)

lemma second_move_refused:
  assumes "session_ok coll s" and "working s = committed s"
    and "menu_update ncoll now a (move_to b) s = Some (Inr ma, ta)"
  shows "menu_update ncoll now' b (move_to a) ta = Some (Inl (AppError (BadRequestError (Some MsgMenuDescendant))), ta)"
proof -
  obtain m where m: "m \<in> set (menu_active (committed s))" "menu_id m = a" "menu_id ma = a" "menu_parent_id ma = Some b"
    "menu_deleted_at ma = None" "working ta = committed ta"
    "committed ta = menus_update (map (\<lambda>x. if menu_id x = a then ma else x)) (committed s)"
    by (rule move_row [OF assms])
  have b: "b \<in> menu_id ` set (menu_active (committed s))" "a \<noteq> b"
    using move_target [OF assms(3)] assms(2) by simp_all
  have "distinct (map menu_id (menus (committed s)))"
    using session_ok_working [OF assms(1)] assms(2) by (auto dest: schema_ok_ids(2))
  moreover have "map menu_id (menus (working ta)) = map menu_id (menus (committed s))"
    by (simp add: m(3,6,7))
  ultimately have d: "distinct (map menu_id (menus (working ta)))" by simp
  have ma: "ma \<in> set (menu_active (working ta))"
    using m by (force simp: menu_active_def)
  have n: "b \<in> menu_id ` set (menu_active (working ta))"
    using b m(6,7) by (force simp: menu_active_def)
  have "walk_up (menu_active (working ta)) b (Some (menu_id ma)) = Some True"
    using b(2) m(3,4) walk_up_found [OF menu_active_ids [OF d] ma, of b] by (simp add: walk_up_self)
  then show ?thesis
    using move_walks(2) [OF d n, of a] b(2) ma m(3) by auto
qed

section \<open>A child for a menu that is being deleted\<close>

definition new_menu :: "time \<Rightarrow> menu_create_body \<Rightarrow> int \<Rightarrow> menu" where
  "new_menu now b i = \<lparr>menu_id = i, menu_name = mc_name b, menu_parent_id = mc_parent_id b, menu_deleted_at = None,
     menu_created_at = now, menu_updated_at = now\<rparr>"

lemma create_trips:
  assumes "working s = committed s" and "fst (menu_create ncoll (\<lambda>s. s) now b s) = Inr m0"
  obtains g f h where "menu_createT ncoll now b = Trip (\<lambda>s. s) g" "g s = Trip f h"
    "f s = (take_pk T_menus s)\<lparr>committed := menus_update (\<lambda>ms. ms @ [new_menu now b (seq s T_menus)]) (committed s),
       working := menus_update (\<lambda>ms. ms @ [new_menu now b (seq s T_menus)]) (committed s)\<rparr>"
    "h s = Done (Some (Inr (Some (new_menu now b (seq s T_menus)))))"
proof -
  have r: "rollback s = s" using assms(1) by (simp add: rollback_def)
  have "ensure_parent_exists (mc_parent_id b) s = (Inr (), s)"
    "ensure_name_available ncoll (mc_parent_id b) (Some (mc_name b)) s = (Inr (), s)"
    using assms(2)
    by (auto simp: menu_create_def prog_simps ensure_parent_exists_cases ensure_name_available_cases split: if_splits)
  then show ?thesis
    by (intro that) (rule refl | simp add: menu_createT_def r prog_simps ins_row_apply new_menu_def commit_def on_db_def
      take_pk_def assms(1) Let_def)+
qed

lemma delete_trips:
  assumes "session_ok coll s" and "working s = committed s" and "menu_delete ncoll now p s = (Inr (), t)"
  obtains m g where "m \<in> set (menu_active (committed s))" "menu_id m = p" "menu_deleteT ncoll now p = Trip (\<lambda>s. s) g"
    "g s = menu_sendT ncoll m (menu_mark now m) None" "changed_columns m (menu_mark now m) m = menu_mark now m"
    "committed t = menus_update (map (\<lambda>x. if menu_id x = p then menu_mark now x else x)) (committed s)"
    "working t = committed t" "uq_menus_parent_name ncoll (menus (committed t))"
proof -
  have r: "rollback s = s" using assms(2) by (simp add: rollback_def)
  obtain m where m: "m \<in> set (menu_active (committed s))" "menu_id m = p"
    using assms(2,3) menu_get_or_404_Inr [of p s]
    by (cases "menu_get_or_404 p s") (auto simp: menu_delete_def prog_simps split: sum.splits)
  have "t = commit (upd_pk menu_id menus_update p (menu_mark now) s)"
    and uq: "uq_menus_parent_name ncoll (map (\<lambda>x. if menu_id x = p then menu_mark now x else x) (menus (working s)))"
    using menu_delete_run [OF assms(1), of m ncoll now] m assms(2,3) by (auto split: if_splits)
  then have t: "committed t = menus_update (map (\<lambda>x. if menu_id x = p then menu_mark now x else x)) (committed s)" "working t = committed t"
    by (simp_all add: assms(2))
  have "distinct (map menu_id (menus (committed s)))"
    using session_ok_working [OF assms(1)] assms(2) by (auto dest: schema_ok_ids(2))
  then have "menu_row p (committed t) = Some (menu_mark now m)"
    unfolding menu_row_def t(1)
    using m by (intro find_unique_Some [where k = menu_id]) (force simp: menu_active_def comp_def if_distrib cong: if_cong)+
  moreover have "menu_row p (committed s) = Some m"
    using menu_row_live [OF assms(1) m(1)] m(2) by simp
  moreover have "changed_columns m (menu_mark now m) m = menu_mark now m"
    by (rule changed_columns_same) (cases m; simp add: menu_mark_def orm_update_def stamp_menu_def)+
  ultimately show ?thesis
    using that [OF m _ _ _ t] uq assms(2,3) t(1) by (simp add: menu_deleteT_def r)
qed

text \<open>Without interruption both are the sequential methods.\<close>

lemma alone_menu_createT:
  assumes "working s = committed s"
  shows "alone (menu_createT ncoll now b) s =
    (Some (map_sum (\<lambda>e. e) Some (fst (menu_create ncoll (\<lambda>s. s) now b s))), snd (menu_create ncoll (\<lambda>s. s) now b s))"
proof -
  have "rollback s = s" using assms by (simp add: rollback_def)
  then show ?thesis
    by (auto simp: menu_createT_def menu_create_def prog_simps ensure_parent_exists_cases ensure_name_available_cases
        Let_def assms)
qed

lemma alone_menu_deleteT:
  assumes "session_ok coll s" and "working s = committed s"
  shows "alone (menu_deleteT ncoll now p) s =
    (case menu_delete ncoll now p s of
       (Inl e, t) \<Rightarrow> (Some (Inl e), s)
     | (Inr _, t) \<Rightarrow> (Some (Inr None), s\<lparr>committed := committed t, working := committed t\<rparr>))"
proof (cases "menu_delete ncoll now p s")
  case (Pair r t)
  show ?thesis
  proof (cases r)
    case (Inl e)
    have "rollback s = s" using assms(2) by (simp add: rollback_def)
    with Pair Inl show ?thesis by (simp add: menu_deleteT_def)
  next
    case (Inr z)
    with Pair have "menu_delete ncoll now p s = (Inr (), t)" by simp
    from delete_trips [OF assms this] obtain m g where
      m: "m \<in> set (menu_active (committed s))" "menu_id m = p" "menu_deleteT ncoll now p = Trip (\<lambda>s. s) g"
        "g s = menu_sendT ncoll m (menu_mark now m) None" "changed_columns m (menu_mark now m) m = menu_mark now m"
        "committed t = menus_update (map (\<lambda>x. if menu_id x = p then menu_mark now x else x)) (committed s)"
        "uq_menus_parent_name ncoll (menus (committed t))"
      by blast
    have "changed_columns m (menu_mark now m) x = menu_mark now x" if "x \<in> set (menus (committed s))" "menu_id x = p" for x
      using live_row_unique [OF assms(1) m(1) that(1)] that(2) m(2,5) by simp
    then have "send_changes m (menu_mark now m) (committed s) = committed t"
      unfolding send_changes_def m(2,6) by (intro menus_update_cong) simp
    then show ?thesis
      using Pair Inr m(3,4,7) by (simp add: menu_sendT_def Let_def commit_def on_db_def rollback_def)
  qed
qed

lemma deletion_after_insert:
  assumes "session_ok coll s" and "m \<in> set (menu_active (committed s))"
    and "changed_columns m (menu_mark now m) m = menu_mark now m" and "menu_id n \<noteq> menu_id m"
  shows "menus (send_changes m (menu_mark now m) (menus_update (\<lambda>ms. ms @ [n]) (committed s))) =
    map (\<lambda>x. if menu_id x = menu_id m then menu_mark now x else x) (menus (committed s)) @ [n]"
proof -
  have "changed_columns m (menu_mark now m) x = menu_mark now x" if "x \<in> set (menus (committed s))" "menu_id x = menu_id m" for x
    using live_row_unique [OF assms(1,2) that] assms(3) by simp
  then show ?thesis using assms(4) by (simp add: send_changes_def)
qed

section \<open>Properties\<close>

text \<open>
  C18.  Two moves that cross break the tree.  Menu \<open>a\<close> is moved under \<open>b\<close> while \<open>b\<close> is moved under \<open>a\<close>, each a move that
  is allowed when the requests start.  Both requests can succeed, and then each of the two menus is the other's
  parent: both are gone from the tree together with everything below them, and every later request that moves
  another menu under one of them never returns.  One after the other, the second move is refused.
\<close>

theorem crossing_moves_make_a_cycle:
  assumes "session_ok coll s" and "working s = committed s"
    and "menu_update ncoll now a (move_to b) s = Some (Inr ma, ta)"
    and "menu_update ncoll now' b (move_to a) s = Some (Inr mb, tb)"
  shows "(\<exists>s'. play [0, 1, 0, 1] ([menu_updateT ncoll now a (move_to b), menu_updateT ncoll now' b (move_to a)], s) =
        ([Done (Some (Inr (Some ma))), Done (Some (Inr (Some mb)))], s') \<and>
        {(a, b), (b, a)} \<subseteq> parent_of (menu_active (committed s')) \<and>
        (\<forall>t\<in>set (get_tree s'). {a, b} \<inter> mr_menu_id ` set (tree_nodes t) = {}) \<and>
        (\<forall>c\<in>menu_id ` set (menu_active (committed s')) - {a, b}. menu_update ncoll now c (move_to a) s' = None)) \<and>
    menu_update ncoll now' b (move_to a) ta = Some (Inl (AppError (BadRequestError (Some MsgMenuDescendant))), ta)"
proof (intro conjI)
  let ?d = "crossed ma mb (committed s)" and ?g = "\<lambda>x. if menu_id x = a then ma else if menu_id x = b then mb else x"
  let ?s' = "s\<lparr>committed := ?d, working := ?d\<rparr>"
  note c = crossed_active [OF assms]
  have ab: "a \<noteq> b" using move_target [OF assms(3)] by simp
  have ids: "distinct (map menu_id (menus (working ?s')))"
    using session_ok_working [OF c(7)] by (rule schema_ok_ids(2))
  have rows: "ma \<in> set (menu_active ?d)" "mb \<in> set (menu_active ?d)"
    using c(6) ab unfolding c(5) by force+
  have own: "x = ma \<or> x = mb" if "x \<in> set (menu_active ?d)" "menu_id x \<in> {a, b}" for x
    using that c(1,2) unfolding c(5) by auto
  have tree: "{a, b} \<inter> mr_menu_id ` set (tree_nodes t) = {}" if "t \<in> set (get_tree ?s')" for t
  proof (rule get_tree_avoids [OF _ _ that])
    show "\<exists>p\<in>{a, b}. menu_parent_id x = Some p" if "x \<in> set (menu_active (working ?s'))" "menu_id x \<in> {a, b}" for x
      using own [of x] that c(3,4) by auto
    show "{a, b} \<subseteq> menu_id ` set (menu_active (working ?s'))"
      using rows c(1,2) by force
  qed
  have hang: "menu_update ncoll now k (move_to a) ?s' = None" if "k \<in> menu_id ` set (menu_active ?d) - {a, b}" for k
  proof (rule move_walks(1) [OF ids])
    show "walk_up (menu_active (working ?s')) k (Some a) = None"
      using that rows c(1-4) menu_active_ids [OF ids] by (intro walk_up_cycle [of _ ma mb a b]) auto
  qed (use that rows c(1) in force)+
  have "{(a, b), (b, a)} \<subseteq> parent_of (menu_active ?d)"
    using rows c(1-4) by (force simp: parent_of_def)
  then show "\<exists>s'. play [0, 1, 0, 1] ([menu_updateT ncoll now a (move_to b), menu_updateT ncoll now' b (move_to a)], s) =
        ([Done (Some (Inr (Some ma))), Done (Some (Inr (Some mb)))], s') \<and>
        {(a, b), (b, a)} \<subseteq> parent_of (menu_active (committed s')) \<and>
        (\<forall>t\<in>set (get_tree s'). {a, b} \<inter> mr_menu_id ` set (tree_nodes t) = {}) \<and>
        (\<forall>c\<in>menu_id ` set (menu_active (committed s')) - {a, b}. menu_update ncoll now c (move_to a) s' = None)"
    using tree hang by (intro exI [of _ ?s'] conjI crossing_run [OF assms]) simp_all
  show "menu_update ncoll now' b (move_to a) ta = Some (Inl (AppError (BadRequestError (Some MsgMenuDescendant))), ta)"
    by (rule second_move_refused [OF assms(1-3)])
qed

text \<open>Three top-level menus; 1 and 2 move under each other, and 3 can then no longer be moved under 1.\<close>

definition demo_three :: session where
  "demo_three = demo_menus [demo_menu 1 ''a'' None, demo_menu 2 ''b'' None, demo_menu 3 ''c'' None]"

lemma demo_menu_sel [simp]:
  "menu_id (demo_menu i n p) = i" "menu_name (demo_menu i n p) = u n" "menu_parent_id (demo_menu i n p) = p"
  "menu_deleted_at (demo_menu i n p) = None"
  by (simp_all add: demo_menu_def)

lemma demo_three_menus: "menus (working demo_three) = [demo_menu 1 ''a'' None, demo_menu 2 ''b'' None, demo_menu 3 ''c'' None]"
  by (simp add: demo_three_def demo_menus_def)

lemma demo_three_ok: "session_ok coll demo_three" "working demo_three = committed demo_three"
  by (simp_all add: session_ok_def schema_ok_def demo_three_def demo_menus_def empty_db_def ids_ok_def)

lemma demo_three_active:
  "menu_active (working demo_three) = [demo_menu 1 ''a'' None, demo_menu 2 ''b'' None, demo_menu 3 ''c'' None]"
  by (simp add: menu_active_def demo_three_menus)

lemma demo_move:
  assumes "a \<in> {1, 2}" and "b = 3 - a"
  shows "\<exists>m t. menu_update (\<lambda>n. n) 9 a (move_to b) demo_three = Some (Inr m, t)"
proof -
  let ?A = "menu_active (working demo_three)"
  have "walk_up ?A a None = Some False" by (subst walk_up.simps) simp
  then have w: "walk_up ?A a (Some b) = Some False"
    using assms walk_up_found [of ?A "demo_menu 1 ''a'' None" a] walk_up_found [of ?A "demo_menu 2 ''b'' None" a]
    by (auto simp: demo_three_active)
  have d: "distinct (map menu_id (menus (working demo_three)))"
    by (simp add: demo_three_menus)
  define m where "m = demo_menu a (if a = 1 then ''a'' else ''b'') None"
  have m: "m \<in> set ?A" "menu_id m = a" "menu_parent_id m = None"
    using assms(1) by (auto simp: demo_three_active m_def)
  have b: "b \<in> menu_id ` set ?A" "a \<noteq> b"
    using assms by (auto simp: demo_three_active)
  then have "menu_update (\<lambda>n. n) 9 a (move_to b) demo_three = Some (menu_update_rest (\<lambda>n. n) 9 m (move_to b) demo_three)"
    using live_menu_get [OF d m(1)] m(2) w
    by (simp add: menu_update_def ensure_parent_exists_cases ensure_not_own_descendant_def)
  moreover
  let ?t = "commit (upd_pk menu_id menus_update a (menu_edit 9 (menu_name m) (Some b)) demo_three)"
  have "uq_menus_parent_name (\<lambda>n. n) (menus (working ?t))"
    by (simp add: uq_menus_parent_name_def demo_three_menus)
  moreover have "menu_get_or_404 a ?t = (Inr (menu_edit 9 (menu_name m) (Some b) m), ?t)"
    using live_menu_get [of ?t "menu_edit 9 (menu_name m) (Some b) m"] m(1,2)
    by (auto simp: demo_three_menus menu_active_def)
  ultimately show ?thesis
    using m(2,3) b(2)
    by (simp add: menu_update_rest_def Let_def prog_simps ensure_name_available_cases demo_three_active menu_write_def
        menu_flush_def menu_edit_def [symmetric])
qed

theorem crossing_moves_make_a_cycle_witness:
  "\<exists>x y s'. play [0, 1, 0, 1] ([menu_updateT (\<lambda>n. n) 9 1 (move_to 2), menu_updateT (\<lambda>n. n) 9 2 (move_to 1)], demo_three) =
     ([Done (Some (Inr x)), Done (Some (Inr y))], s') \<and> menu_update (\<lambda>n. n) 9 3 (move_to 1) s' = None"
proof -
  have "(1 :: int) \<in> {1, 2}" "(2 :: int) = 3 - 1" "(2 :: int) \<in> {1, 2}" "(1 :: int) = 3 - 2" by simp_all
  from demo_move [OF this(1,2)] demo_move [OF this(3,4)] obtain ma ta mb tb where
    u: "menu_update (\<lambda>n. n) 9 1 (move_to 2) demo_three = Some (Inr ma, ta)"
      "menu_update (\<lambda>n. n) 9 2 (move_to 1) demo_three = Some (Inr mb, tb)"
    by (elim exE)
  have "3 \<in> menu_id ` set (menu_active (crossed ma mb (committed demo_three)))"
    unfolding crossed_active(5) [OF demo_three_ok u]
    unfolding demo_three_ok(2) [symmetric] demo_three_active by simp
  moreover obtain s' where s': "play [0, 1, 0, 1] ([menu_updateT (\<lambda>n. n) 9 1 (move_to 2), menu_updateT (\<lambda>n. n) 9 2 (move_to 1)], demo_three) =
      ([Done (Some (Inr (Some ma))), Done (Some (Inr (Some mb)))], s')"
    "\<forall>c\<in>menu_id ` set (menu_active (committed s')) - {1, 2}. menu_update (\<lambda>n. n) 9 c (move_to 1) s' = None"
    using crossing_moves_make_a_cycle [OF demo_three_ok u, THEN conjunct1] by blast
  moreover have "committed s' = crossed ma mb (committed demo_three)"
    using crossing_run [OF demo_three_ok u] unfolding s'(1) by auto
  ultimately have "menu_update (\<lambda>n. n) 9 3 (move_to 1) s' = None" by auto
  with s'(1) show ?thesis by blast
qed

text \<open>
  A menu can be deleted while a child is being added to it.  Both requests check first, both succeed, and a live menu names a
  parent that is deleted, which the service means to exclude; after the deletion alone, the creation is refused.
\<close>

theorem child_of_a_deleted_menu:
  assumes "session_ok coll s" and "working s = committed s" and "mc_parent_id cb = Some p"
    and "fst (menu_create ncoll (\<lambda>s. s) now cb s) = Inr m0" and "menu_delete ncoll now' p s = (Inr (), t)"
  shows "(\<exists>m s'. play [0, 1, 0, 1] ([menu_createT ncoll now cb, menu_deleteT ncoll now' p], s) =
        ([Done (Some (Inr (Some m))), Done (Some (Inr None))], s') \<and>
        m \<in> set (menu_active (committed s')) \<and> menu_parent_id m = Some p \<and> p \<notin> menu_id ` set (menu_active (committed s'))) \<and>
    fst (menu_create ncoll (\<lambda>s. s) now cb t) = Inl (AppError (NotFoundError (Some MsgMenuParentNotFound)))"
proof (intro conjI)
  let ?n = "new_menu now cb (seq s T_menus)"
  obtain g f h where c: "menu_createT ncoll now cb = Trip (\<lambda>s. s) g" "g s = Trip f h"
    "f s = (take_pk T_menus s)\<lparr>committed := menus_update (\<lambda>ms. ms @ [?n]) (committed s),
       working := menus_update (\<lambda>ms. ms @ [?n]) (committed s)\<rparr>" "h s = Done (Some (Inr (Some ?n)))"
    by (rule create_trips [OF assms(2,4)])
  obtain m k where d: "m \<in> set (menu_active (committed s))" "menu_id m = p" "menu_deleteT ncoll now' p = Trip (\<lambda>s. s) k"
    "k s = menu_sendT ncoll m (menu_mark now' m) None" "changed_columns m (menu_mark now' m) m = menu_mark now' m"
    "committed t = menus_update (map (\<lambda>x. if menu_id x = p then menu_mark now' x else x)) (committed s)"
    "working t = committed t" "uq_menus_parent_name ncoll (menus (committed t))"
    by (rule delete_trips [OF assms(1,2,5)])
  have new: "menu_id ?n \<noteq> p" "menu_parent_id ?n = Some p" "menu_deleted_at ?n = None"
    using session_menu_fresh [OF assms(1)] d(1,2) assms(2,3) by (auto simp: new_menu_def)
  have e: "menus (send_changes m (menu_mark now' m) (committed (f s))) = menus (committed t) @ [?n]"
    using deletion_after_insert [OF assms(1) d(1,5)] new(1) by (simp add: c(3) d(2,6))
  have "uq_menus_parent_name ncoll (menus (committed t) @ [?n]) = uq_menus_parent_name ncoll (menus (committed t))"
    by (simp add: uq_menus_parent_name_def new(3))
  with d(8) have "uq_menus_parent_name ncoll (menus (send_changes m (menu_mark now' m) (committed (f s))))"
    unfolding e by simp
  from send_succeeds [OF this, of "None :: menu option"] obtain f2 g2 where k: "menu_sendT ncoll m (menu_mark now' m) (None :: menu option) = Trip f2 g2"
    "g2 (f s) = Done (Some (Inr None))"
    "f2 (f s) = (f s)\<lparr>committed := send_changes m (menu_mark now' m) (committed (f s)),
       working := send_changes m (menu_mark now' m) (committed (f s))\<rparr>"
    by blast
  have run: "play [0, 1, 0, 1] ([menu_createT ncoll now cb, menu_deleteT ncoll now' p], s) =
      ([Done (Some (Inr (Some ?n))), Done (Some (Inr None))], f2 (f s))"
    unfolding c(1) d(3) by (simp add: c(2,4) d(4) k(1,2))
  have "menu_active (committed (f2 (f s))) = menu_active (committed t) @ [?n]"
    by (simp add: k(3) menu_active_def e new(3))
  moreover have gone: "p \<notin> menu_id ` set (menu_active (committed t))"
    unfolding d(6) by (subst menu_active_delete) auto
  ultimately show "\<exists>m s'. play [0, 1, 0, 1] ([menu_createT ncoll now cb, menu_deleteT ncoll now' p], s) =
        ([Done (Some (Inr (Some m))), Done (Some (Inr None))], s') \<and>
        m \<in> set (menu_active (committed s')) \<and> menu_parent_id m = Some p \<and> p \<notin> menu_id ` set (menu_active (committed s'))"
    using run new(1,2) by (intro exI [of _ ?n] exI [of _ "f2 (f s)"]) (simp del: play_simps)
  show "fst (menu_create ncoll (\<lambda>s. s) now cb t) = Inl (AppError (NotFoundError (Some MsgMenuParentNotFound)))"
    using gone by (simp add: menu_create_def prog_simps ensure_parent_exists_cases assms(3) d(7))
qed

theorem child_of_a_deleted_menu_witness:
  "\<exists>m s'. play [0, 1, 0, 1] ([menu_createT (\<lambda>n. n) 9 \<lparr>mc_name = u ''x'', mc_parent_id = Some 3\<rparr>, menu_deleteT (\<lambda>n. n) 9 3], demo_three) =
     ([Done (Some (Inr (Some m))), Done (Some (Inr None))], s') \<and> menu_parent_id m = Some 3 \<and>
     3 \<notin> menu_id ` set (menu_active (committed s'))"
proof -
  let ?b = "\<lparr>mc_name = u ''x'', mc_parent_id = Some 3\<rparr>"
  obtain m where c: "fst (menu_create (\<lambda>n. n) (\<lambda>s. s) 9 ?b demo_three) = Inr m"
    by (simp add: menu_create_def prog_simps ensure_parent_exists_cases ensure_name_available_cases demo_three_active)
  have "demo_menu 3 ''c'' None \<in> set (menu_active (working demo_three))" by (simp add: demo_three_active)
  from menu_delete_run [OF demo_three_ok(1) this, of "\<lambda>n. n" 9]
  obtain t where d: "menu_delete (\<lambda>n. n) 9 3 demo_three = (Inr (), t)"
    by (simp add: menu_list_children_def demo_three_active uq_menus_parent_name_def demo_three_menus)
  show ?thesis
    using child_of_a_deleted_menu [OF demo_three_ok _ c d] by auto
qed

end
