(* ===== verification/Report_Overlap.thy ===== *)
theory Report_Overlap
  imports Threads Reports
begin

text \<open>
  \<^verbatim>\<open>ReportService.process_report\<close> when two moderators decide at the same time.  As in \<open>Menu_Overlap\<close> a request is one
  transaction under REPEATABLE READ and has two trips: it reads and checks on a snapshot, without locking a row,
  then it sends its changes and commits.  The UPDATE of a report or a post names the row by its primary key alone and
  sets the columns that differ from the row that was read, so it overwrites what others committed meanwhile.
\<close>

section \<open>The method, trip by trip\<close>

text \<open>What an UPDATE that makes \<open>new\<close> of \<open>old\<close> makes of the row as it is now.\<close>

definition changed_report :: "report \<Rightarrow> report \<Rightarrow> report \<Rightarrow> report" where
  "changed_report old new r = r\<lparr>
     report_status := (if report_status new = report_status old then report_status r else report_status new),
     rp_user_sanction_type := (if rp_user_sanction_type new = rp_user_sanction_type old
       then rp_user_sanction_type r else rp_user_sanction_type new),
     reviewer_user_id := (if reviewer_user_id new = reviewer_user_id old then reviewer_user_id r else reviewer_user_id new),
     processed_at := (if processed_at new = processed_at old then processed_at r else processed_at new),
     rp_updated_at := (if rp_updated_at new = rp_updated_at old then rp_updated_at r else rp_updated_at new)\<rparr>"

definition changed_post :: "post \<Rightarrow> post \<Rightarrow> post \<Rightarrow> post" where
  "changed_post old new p = p\<lparr>
     post_status := (if post_status new = post_status old then post_status p else post_status new),
     post_updated_at := (if post_updated_at new = post_updated_at old then post_updated_at p else post_updated_at new)\<rparr>"

text \<open>The rows that were read, as the transaction left them, are sent to the rows of the table as it is now.\<close>

definition send_rows :: "('row \<Rightarrow> int) \<Rightarrow> ('row \<Rightarrow> 'row \<Rightarrow> 'row \<Rightarrow> 'row) \<Rightarrow> 'row list \<Rightarrow> 'row list \<Rightarrow> 'row list \<Rightarrow> 'row list" where
  "send_rows pk change olds news = map (\<lambda>r.
     case (find (\<lambda>x. pk x = pk r) olds, find (\<lambda>x. pk x = pk r) news) of
       (Some old, Some new) \<Rightarrow> change old new r
     | _ \<Rightarrow> r)"

definition send_decision :: "db \<Rightarrow> db \<Rightarrow> db \<Rightarrow> db" where
  "send_decision old new d = d\<lparr>
     reports := send_rows report_id changed_report (reports old) (reports new) (reports d),
     posts := send_rows post_id changed_post (posts old) (posts new) (posts d)\<rparr>"

definition process_reportT ::
  "time \<Rightarrow> int \<Rightarrow> int \<Rightarrow> report_process_request \<Rightarrow> ('x session_scheme, exn + unit) thread" where
  "process_reportT now rid reviewer q =
     Trip (\<lambda>s. s) (\<lambda>s.
       case process_report now rid reviewer q (rollback s) of
         (Inl e, _) \<Rightarrow> Done (Inl e)
       | (Inr _, t) \<Rightarrow>
           (case report_get_by_id rid (rollback s) of
              Inr (Some r) \<Rightarrow>
                Trip (\<lambda>s'. commit (snd (sanction_part now r q (on_db (send_decision (committed s) (committed t)) (rollback s')))))
                  (\<lambda>_. Done (Inr ()))
            | _ \<Rightarrow> Done (Inr ())))"

section \<open>Trips of a decision\<close>

lemma find_map: "find P (map f xs) = map_option f (find (\<lambda>x. P (f x)) xs)"
  by (induction xs) simp_all

text \<open>Rows that were read and rows as they are now, both seen from the rows of the snapshot.\<close>

lemma send_rows_map:
  assumes "distinct (map pk xs)" and "\<And>x. pk (f x) = pk x" and "\<And>x. pk (g x) = pk x"
  shows "send_rows pk change xs (map f xs) (map g xs) = map (\<lambda>x. change x (f x) (g x)) xs"
  using find_unique_Some [OF assms(1)] assms(2,3) by (simp add: send_rows_def find_map comp_def)

lemma send_rows_once:
  assumes "distinct (map pk xs)" and "\<And>x. pk (f x) = pk x" and "\<And>x. change x (f x) x = f x"
  shows "send_rows pk change xs (map f xs) xs = map f xs"
  using send_rows_map [OF assms(1,2), of "\<lambda>x. x" change] assms(3) by simp

lemma changed_report_decide: "changed_report x (decide_all now same q rv x) x = decide_all now same q rv x"
  by (cases x) (simp add: changed_report_def decide_all_def decide_def orm_update_def stamp_report_def)

lemma changed_post_hide: "changed_post x (hide_post now pid x) x = hide_post now pid x"
  by (cases x) (simp add: changed_post_def hide_post_def stamp_post_def)

lemma changed_report_id [simp]: "report_id (changed_report old new r) = report_id r"
  by (simp add: changed_report_def)

text \<open>The decision that is sent last has the last word on every report it found open.\<close>

lemma changed_report_status:
  "report_status x = PENDING \<Longrightarrow> same x \<Longrightarrow> process_request_ok q \<Longrightarrow>
   report_status (changed_report x (decide_all now same q rv x) r) = rq_status q"
  by (simp add: changed_report_def decide_all_def process_request_ok_def)

definition sanction_rows :: "time \<Rightarrow> int \<Rightarrow> report \<Rightarrow> report_process_request \<Rightarrow> user_sanction list" where
  "sanction_rows now i r q = (case rq_sanction q of None \<Rightarrow> [] | Some ty \<Rightarrow> [sanction_row now i r ty (rq_expires_at q)])"

lemma sanction_part_working:
  assumes "rq_sanction q \<noteq> None \<Longrightarrow> rq_status q = ACCEPTED" and "expiry_fits q"
  shows "working (snd (sanction_part now r q s)) =
    sanctions_update (\<lambda>zs. zs @ sanction_rows now (seq s T_sanctions) r q) (working s)"
  using assms
  by (cases "working s"; cases "rq_sanction q") (auto simp: sanction_part_def report_sanction_def expiry_fits_def prog_simps
      add_user_sanction_def sanction_rows_def sanction_row_def)

lemma report_get_by_id_live:
  assumes "session_ok coll s" and "x \<in> set (reports (working s))"
  shows "report_get_by_id (report_id x) s = Inr (Some x)"
  using one_or_none_unique [OF session_report_ids [OF assms(1)], of _ "report_id x" "\<lambda>_. True"]
    find_unique_Some [OF session_report_ids [OF assms(1)] assms(2) refl]
  by (simp add: report_get_by_id_def)

lemma decision_trips:
  fixes s :: "'x session_scheme"
  assumes "session_ok coll s" and "working s = committed s" and "process_request_ok q"
    and "process_report now rid rv q s = (Inr (), t)"
  obtains f g x same where "process_reportT now rid rv q = Trip (\<lambda>s. s) g" and "g s = Trip f (\<lambda>_. Done (Inr ()))"
    and "accepted_now now rid rv q s t x same"
    and "\<And>s'. committed (f s') = send_decision (committed s) (committed t) (committed s')
      \<lparr>sanctions := sanctions (committed s') @ sanction_rows now (seq s' T_sanctions) x q\<rparr>"
    and "\<And>s'. working (f s') = committed (f s')"
proof -
  obtain x same where a: "accepted_now now rid rv q s t x same"
    using process_report_run [OF assms(1,3,4)] by auto
  have x: "report_get_by_id rid s = Inr (Some x)"
    using report_get_by_id_live [OF assms(1), of x] a by (auto simp: accepted_now_def)
  have w: "working (snd (sanction_part now x q v)) =
      sanctions_update (\<lambda>zs. zs @ sanction_rows now (seq v T_sanctions) x q) (working v)" for v :: "'a session_scheme"
    using a by (intro sanction_part_working) (auto simp: accepted_now_def)
  define f where "f = (\<lambda>s' :: 'x session_scheme. commit (snd (sanction_part now x q (on_db (send_decision (committed s) (committed t)) (rollback s')))))"
  define g where "g = (\<lambda>s :: 'x session_scheme. case process_report now rid rv q (rollback s) of
         (Inl e, _) \<Rightarrow> Done (Inl e)
       | (Inr _, t) \<Rightarrow>
           (case report_get_by_id rid (rollback s) of
              Inr (Some r) \<Rightarrow>
                Trip (\<lambda>s' :: 'x session_scheme. commit (snd (sanction_part now r q (on_db (send_decision (committed s) (committed t)) (rollback s')))))
                  (\<lambda>_. Done (Inr ()))
            | _ \<Rightarrow> Done (Inr ())))"
  have "rollback s = s" using assms(2) by (simp add: rollback_def)
  then have "g s = Trip f (\<lambda>_. Done (Inr ()))" by (simp add: g_def f_def assms(4) x)
  moreover have "committed (f s') = send_decision (committed s) (committed t) (committed s')
      \<lparr>sanctions := sanctions (committed s') @ sanction_rows now (seq s' T_sanctions) x q\<rparr>" for s'
    by (cases "committed s'") (simp add: f_def w commit_def on_db_def rollback_def send_decision_def)
  moreover have "working (f s') = committed (f s')" for s' by (simp add: f_def)
  ultimately show ?thesis using that [of g f x same] a by (simp add: process_reportT_def g_def)
qed

lemma accepted_rows:
  assumes "accepted_now now rid rv q s t x same" and "working s = committed s"
  obtains h where "reports (committed t) = map (decide_all now same q rv) (reports (committed s))"
    and "posts (committed t) = map h (posts (committed s))" and "\<And>p. post_id (h p) = post_id p"
    and "\<And>p. changed_post p (h p) p = h p"
proof (rule that [of "if hides q then hide_post now (the (rp_post_id x)) else (\<lambda>p. p)"])
  show "post_id ((if hides q then hide_post now (the (rp_post_id x)) else (\<lambda>p. p)) p) = post_id p" for p
    by (simp add: hide_post_def stamp_post_def)
  show "changed_post p ((if hides q then hide_post now (the (rp_post_id x)) else (\<lambda>p. p)) p) p =
      (if hides q then hide_post now (the (rp_post_id x)) else (\<lambda>p. p)) p" for p
    by (simp add: changed_post_hide) (simp add: changed_post_def)
qed (use assms in \<open>simp_all add: accepted_now_def decided_db_def\<close>)

lemma clean_ids:
  assumes "session_ok coll s" and "working s = committed s"
  shows "distinct (map report_id (reports (committed s)))" and "distinct (map post_id (posts (committed s)))"
  using session_report_ids [OF assms(1)] session_post_ids [OF assms(1)] assms(2) by simp_all

lemma send_decision_once:
  assumes "session_ok coll s" and "working s = committed s" and "accepted_now now rid rv q s t x same"
  shows "send_decision (committed s) (committed t) (committed s) =
    (committed s)\<lparr>reports := reports (committed t), posts := posts (committed t)\<rparr>"
proof -
  obtain h where "reports (committed t) = map (decide_all now same q rv) (reports (committed s))"
    "posts (committed t) = map h (posts (committed s))" "\<And>p. post_id (h p) = post_id p"
    "\<And>p. changed_post p (h p) p = h p"
    using accepted_rows [OF assms(3,2)] by blast
  then show ?thesis
    using clean_ids [OF assms(1,2)]
    by (simp add: send_decision_def send_rows_once changed_report_decide)
qed

text \<open>A decision that nobody interrupts is the sequential one.\<close>

lemma alone_process_reportT:
  assumes "session_ok coll s" and "working s = committed s" and "process_request_ok q"
  shows "fst (alone (process_reportT now rid rv q) s) = fst (process_report now rid rv q s) \<and>
    committed (snd (alone (process_reportT now rid rv q) s)) = committed (snd (process_report now rid rv q s))"
proof (cases "process_report now rid rv q s")
  case (Pair r t)
  show ?thesis
  proof (cases r)
    case (Inl e)
    moreover have "rollback s = s" using assms(2) by (simp add: rollback_def)
    ultimately show ?thesis
      using Pair process_report_run [OF assms(1,3) Pair] by (auto simp: process_reportT_def)
  next
    case (Inr z)
    with Pair have "process_report now rid rv q s = (Inr (), t)" by simp
    then obtain f g x same where "process_reportT now rid rv q = Trip (\<lambda>s. s) g" "g s = Trip f (\<lambda>_. Done (Inr ()))"
      and a: "accepted_now now rid rv q s t x same"
      and "committed (f s) = send_decision (committed s) (committed t) (committed s)
        \<lparr>sanctions := sanctions (committed s) @ sanction_rows now (seq s T_sanctions) x q\<rparr>"
      by (rule decision_trips [OF assms]) blast
    moreover have "committed t = (committed s)\<lparr>reports := reports (committed t), posts := posts (committed t),
        sanctions := sanctions (committed s) @ sanction_rows now (seq s T_sanctions) x q\<rparr>"
      using a assms(2) by (auto simp: accepted_now_def decided_db_def sanction_rows_def split: option.split)
    ultimately show ?thesis
      using Pair Inr send_decision_once [OF assms(1,2) a] by simp
  qed
qed

text \<open>A report that was decided is not decided again by the next request.\<close>

lemma decided_refused:
  assumes "session_ok coll t" and "y \<in> set (reports (working t))" and "report_id y = rid" and "report_status y \<noteq> PENDING"
  shows "fst (process_report now rid rv q t) = Inl (ValueError MsgReportDone)"
  using find_unique_Some [OF session_report_ids [OF assms(1)] assms(2,3)] assms(4)
  by (simp add: process_report_cases [OF assms(1)] validate_report_def raiseP_def)

lemma decided_twice:
  assumes "session_ok coll s" and "process_request_ok q" and "process_request_ok q'"
    and "process_report now rid rv q s = (Inr (), t)"
  shows "fst (process_report now' rid rv' q' t) = Inl (ValueError MsgReportDone)"
proof -
  from process_report_run [OF assms(1,2,4)] obtain x same where t: "session_ok coll t" "accepted_now now rid rv q s t x same"
    by auto
  then have "decide_all now same q rv x \<in> set (reports (working t))"
    by (simp add: accepted_now_def decided_db_def)
  moreover have "report_id (decide_all now same q rv x) = rid" "report_status (decide_all now same q rv x) \<noteq> PENDING"
    using t(2) assms(2) by (auto simp: accepted_now_def decide_all_def process_request_ok_def)
  ultimately show ?thesis by (intro decided_refused [OF t(1)])
qed

text \<open>Two decisions that both checked before the first was sent: the second overwrites the first, both sanctions stay.\<close>

lemma second_overwrites:
  fixes s :: "'x session_scheme"
  assumes "session_ok coll s" and "working s = committed s" and "process_request_ok q1" and "process_request_ok q2"
    and "process_report now rid rv1 q1 s = (Inr (), t1)" and "process_report now' rid rv2 q2 s = (Inr (), t2)"
  obtains s' x1 same1 x2 same2 i where
    "play [0, 1, 0, 1] ([process_reportT now rid rv1 q1, process_reportT now' rid rv2 q2], s) = ([Done (Inr ()), Done (Inr ())], s')"
    and "accepted_now now rid rv1 q1 s t1 x1 same1" and "accepted_now now' rid rv2 q2 s t2 x2 same2"
    and "reports (committed s') = map (\<lambda>y. changed_report y (decide_all now' same2 q2 rv2 y) (decide_all now same1 q1 rv1 y))
      (reports (committed s))"
    and "sanctions (committed s') = sanctions (committed s) @
      sanction_rows now (seq s T_sanctions) x1 q1 @ sanction_rows now' i x2 q2"
proof -
  obtain f1 g1 x1 same1 where p1: "process_reportT now rid rv1 q1 = Trip (\<lambda>s. s) g1" "g1 s = Trip f1 (\<lambda>_. Done (Inr ()))"
    and a1: "accepted_now now rid rv1 q1 s t1 x1 same1"
    and c1: "committed (f1 s) = send_decision (committed s) (committed t1) (committed s)
      \<lparr>sanctions := sanctions (committed s) @ sanction_rows now (seq s T_sanctions) x1 q1\<rparr>"
    by (rule decision_trips [OF assms(1-3,5)]) blast
  obtain f2 g2 x2 same2 where p2: "process_reportT now' rid rv2 q2 = Trip (\<lambda>s. s) g2" "g2 s = Trip f2 (\<lambda>_. Done (Inr ()))"
    and a2: "accepted_now now' rid rv2 q2 s t2 x2 same2"
    and c2: "committed (f2 (f1 s)) = send_decision (committed s) (committed t2) (committed (f1 s))
      \<lparr>sanctions := sanctions (committed (f1 s)) @ sanction_rows now' (seq (f1 s) T_sanctions) x2 q2\<rparr>"
    by (rule decision_trips [OF assms(1,2,4,6)]) blast
  have r: "reports (committed t1) = map (decide_all now same1 q1 rv1) (reports (committed s))"
    "reports (committed t2) = map (decide_all now' same2 q2 rv2) (reports (committed s))"
    using a1 a2 assms(2) by (simp_all add: accepted_now_def decided_db_def)
  have "reports (committed (f1 s)) = map (decide_all now same1 q1 rv1) (reports (committed s))"
    by (simp add: c1 r send_decision_once [OF assms(1,2) a1])
  then have "reports (committed (f2 (f1 s))) =
      map (\<lambda>y. changed_report y (decide_all now' same2 q2 rv2 y) (decide_all now same1 q1 rv1 y)) (reports (committed s))"
    by (simp add: c2 send_decision_def r send_rows_map [OF clean_ids(1) [OF assms(1,2)]])
  moreover have "sanctions (committed (f2 (f1 s))) = sanctions (committed s) @
      sanction_rows now (seq s T_sanctions) x1 q1 @ sanction_rows now' (seq (f1 s) T_sanctions) x2 q2"
    by (simp add: c1 c2 send_decision_def)
  moreover have "play [0, 1, 0, 1] ([process_reportT now rid rv1 q1, process_reportT now' rid rv2 q2], s) =
      ([Done (Inr ()), Done (Inr ())], f2 (f1 s))"
    unfolding p1(1) p2(1) by (simp add: p1(2) p2(2))
  ultimately show ?thesis using that a1 a2 by blast
qed

section \<open>Properties\<close>

text \<open>
  C19.  Two moderators decide the same report at the same time.  Each request that would succeed alone does, the one that
  commits last overwrites the decided report, and the sanction of the first stays: a user is left with a sanction
  whose report is rejected, or with two sanctions for one report.  One after the other, the second
  moderator is told that the report is done.
\<close>

theorem two_verdicts:
  fixes s :: "'x session_scheme"
  assumes "session_ok coll s" and "working s = committed s" and "process_request_ok q1" and "process_request_ok q2"
    and "process_report now rid rv1 q1 s = (Inr (), t1)" and "process_report now' rid rv2 q2 s = (Inr (), t2)"
    and "rq_sanction q1 \<noteq> None" and "rq_status q2 = REJECTED \<or> rq_sanction q2 \<noteq> None"
  shows "(\<exists>s'. play [0, 1, 0, 1] ([process_reportT now rid rv1 q1, process_reportT now' rid rv2 q2], s) =
        ([Done (Inr ()), Done (Inr ())], s') \<and>
        (\<exists>y\<in>set (reports (committed s')). report_id y = rid \<and> report_status y = rq_status q2) \<and>
        rid \<in> us_report_id ` set (sanctions (committed s')) \<and> \<not> sanctions_ok (committed s')) \<and>
    fst (process_report now' rid rv2 q2 t1) = Inl (ValueError MsgReportDone) \<and>
    fst (process_report now rid rv1 q1 t2) = Inl (ValueError MsgReportDone)"
proof (intro conjI)
  from second_overwrites [OF assms(1-6)] obtain s' x1 same1 x2 same2 i where
    run: "play [0, 1, 0, 1] ([process_reportT now rid rv1 q1, process_reportT now' rid rv2 q2], s) = ([Done (Inr ()), Done (Inr ())], s')"
    and a: "accepted_now now rid rv1 q1 s t1 x1 same1" "accepted_now now' rid rv2 q2 s t2 x2 same2"
    and rows: "reports (committed s') = map (\<lambda>y. changed_report y (decide_all now' same2 q2 rv2 y) (decide_all now same1 q1 rv1 y))
      (reports (committed s))"
    and sanctions: "sanctions (committed s') = sanctions (committed s) @
      sanction_rows now (seq s T_sanctions) x1 q1 @ sanction_rows now' i x2 q2"
    by blast
  let ?row = "\<lambda>y. changed_report y (decide_all now' same2 q2 rv2 y) (decide_all now same1 q1 rv1 y)"
  have x1: "report_id x1 = rid"
    and x2: "x2 \<in> set (reports (committed s))" "report_id x2 = rid" "report_status x2 = PENDING" "same2 x2"
    using a assms(2) by (auto simp: accepted_now_def)
  have same_id: "report_id y = rid \<Longrightarrow> y \<in> set (reports (committed s)) \<Longrightarrow> y = x2" for y
    using clean_ids(1) [OF assms(1,2)] x2(1,2) unfolding distinct_map by (blast dest: inj_onD)
  have last: "report_status (?row x2) = rq_status q2"
    using changed_report_status [of x2 same2 q2 now' rv2] x2(3,4) assms(4) by simp
  obtain z where z: "sanction_rows now (seq s T_sanctions) x1 q1 = [z]" "us_report_id z = rid"
    using assms(7) x1 by (auto simp: sanction_rows_def sanction_row_def)
  have "\<not> sanctions_ok (committed s')"
  proof (cases "rq_sanction q2")
    case None
    with assms(8) last have "\<not> grounded (reports (committed s')) z"
      using same_id z(2) by (auto simp: grounded_def rows)
    then show ?thesis by (simp add: sanctions_ok_def sanctions z(1))
  next
    case (Some ty)
    then have "us_report_id ` set (sanction_rows now' i x2 q2) = {rid}"
      using x2(2) by (simp add: sanction_rows_def sanction_row_def)
    then show ?thesis by (simp add: sanctions_ok_def sanctions z)
  qed
  moreover have "?row x2 \<in> set (reports (committed s'))" using x2(1) by (simp add: rows)
  ultimately show "\<exists>s'. play [0, 1, 0, 1] ([process_reportT now rid rv1 q1, process_reportT now' rid rv2 q2], s) =
        ([Done (Inr ()), Done (Inr ())], s') \<and>
        (\<exists>y\<in>set (reports (committed s')). report_id y = rid \<and> report_status y = rq_status q2) \<and>
        rid \<in> us_report_id ` set (sanctions (committed s')) \<and> \<not> sanctions_ok (committed s')"
    using run last x2(2) z
    by (intro exI [of _ s'] conjI bexI [of _ "?row x2"]) (simp_all add: sanctions del: play_simps)
qed (rule decided_twice [OF assms(1,3,4,5)] decided_twice [OF assms(1,4,3,6)])+

theorem two_verdicts_witness:
  "let ban = \<lparr>rq_status = ACCEPTED, rq_sanction = Some BANNED, rq_expires_at = None\<rparr>;
       reject = \<lparr>rq_status = REJECTED, rq_sanction = None, rq_expires_at = None\<rparr>
   in \<exists>s'. play [0, 1, 0, 1] ([process_reportT 9 1 7 ban, process_reportT 9 1 8 reject], demo_reports) =
        ([Done (Inr ()), Done (Inr ())], s') \<and>
        (\<exists>y\<in>set (reports (committed s')). report_id y = 1 \<and> report_status y = REJECTED) \<and>
        1 \<in> us_report_id ` set (sanctions (committed s'))"
proof -
  let ?ban = "\<lparr>rq_status = ACCEPTED, rq_sanction = Some BANNED, rq_expires_at = None\<rparr>"
  let ?reject = "\<lparr>rq_status = REJECTED, rq_sanction = None, rq_expires_at = None\<rparr>"
  have q: "process_request_ok ?ban" "process_request_ok ?reject" by (simp_all add: process_request_ok_def)
  have "fst (process_report 9 1 7 ?ban demo_reports) = Inr ()" "fst (process_report 9 1 8 ?reject demo_reports) = Inr ()"
    by (simp_all add: process_report_def prog_simps report_get_by_id_def demo_reports_def Let_def demo_report_def empty_db_def
        validate_report_def post_get_any_by_id_def or_rollback_def update_report_def same_reports_def
        hide_reported_content_def hide_if_published_def demo_post_def report_sanction_def add_user_sanction_def)
  then obtain t1 t2 where "process_report 9 1 7 ?ban demo_reports = (Inr (), t1)" "process_report 9 1 8 ?reject demo_reports = (Inr (), t2)"
    by (metis prod.collapse)
  from two_verdicts [OF demo_reports_ok(1,2) q this] show ?thesis by (simp add: Let_def) blast
qed

end
