(* ===== verification/Like_Overlap.thy ===== *)
theory Like_Overlap
  imports Threads Posts
begin

text \<open>
  The like job of \<^verbatim>\<open>post_like_sync.py\<close> while users go on: it runs every five minutes in every worker process, so any number
  of jobs overlap with each other and with the requests.  The SET of a like or an unlike is one step of the environment;
  a request that reads a like does so in several trips, \<open>like_thread\<close>.
\<close>

section \<open>The job, trip by trip\<close>

text \<open>
  A job reads the table on the snapshot of its first query (REPEATABLE READ) and sees its own changes on top of it:
  \<open>(base, view)\<close> are the rows of the snapshot and the rows it sees, \<open>None\<close> before the first query.  SCAN answers in batches
  while the loop runs, so under concurrency \<open>ks\<close> is some list of keys with the prefix, an argument.  An INSERT draws its id at once;
  the DELETE is that of the row the ORM has loaded.
\<close>

fun sync_keysT ::
  "'r redis_api \<Rightarrow> time \<Rightarrow> string list \<Rightarrow> (post_like list \<times> post_like list) option \<Rightarrow>
   ('r app, exn + (post_like list \<times> post_like list) option) thread" where
  "sync_keysT R now [] z = returnT z"
| "sync_keysT R now (key # ks) z =
     (case split_on CHR '':'' key of
        [_, p, a] \<Rightarrow>
          (case (py_int p, py_int a) of
             (Some pid, Some uid) \<Rightarrow>
               bindT (readT (\<lambda>w. r_get R (kv w) key)) (\<lambda>status.
               bindT (askT (\<lambda>w.
                 let (base, view) = (case z of None \<Rightarrow> (likes (committed w), likes (committed w)) | Some y \<Rightarrow> y)
                 in map_sum id (\<lambda>l. (base, view, l)) (one_or_none (SQLAlchemyError MultipleResultsFound)
                      (filter (\<lambda>l. lk_post_id l = pid \<and> lk_user_id l = uid) view)))) (\<lambda>(base, view, existing).
               if status = Some ''1'' \<and> existing = None then
                 bindT (Trip (take_pk T_likes) (\<lambda>w. returnT (seq w T_likes))) (\<lambda>i.
                 sync_keysT R now ks (Some (base, view @ [\<lparr>like_id = i, lk_post_id = pid, lk_user_id = uid,
                   lk_created_at = now, lk_updated_at = now\<rparr>])))
               else (case existing of
                   Some l \<Rightarrow> sync_keysT R now ks (Some (base, if status = Some ''0'' then filter (\<lambda>r. r \<noteq> l) view else view))
                 | None \<Rightarrow> sync_keysT R now ks (Some (base, view)))))
           | _ \<Rightarrow> raiseT (ValueError (MsgText ''invalid literal for int()'')))
      | _ \<Rightarrow> raiseT (ValueError (MsgText ''unpack'')))"

text \<open>The commit: the rows that were deleted and inserted, in the table as it is now, if its UNIQUE index admits them.\<close>

definition like_changes :: "post_like list \<Rightarrow> post_like list \<Rightarrow> post_like list \<Rightarrow> post_like list" where
  "like_changes base view ls =
     filter (\<lambda>l. l \<notin> set base \<or> l \<in> set view) ls @ filter (\<lambda>l. l \<notin> set base) view"

definition commit_likesT :: "(post_like list \<times> post_like list) option \<Rightarrow> ('r app, exn + unit) thread" where
  "commit_likesT z =
     (case z of
        None \<Rightarrow> returnT ()
      | Some (base, view) \<Rightarrow>
          (let ok = (\<lambda>w. distinct (map like_key (like_changes base view (likes (committed w)))))
           in Trip (\<lambda>w. if ok w then commit (on_db (likes_update (like_changes base view)) (rollback w)) else w)
                (\<lambda>w. if ok w then returnT () else raiseT (SQLAlchemyError IntegrityError))))"

definition post_like_syncT :: "'r redis_api \<Rightarrow> time \<Rightarrow> string list \<Rightarrow> ('r app, exn + unit) thread" where
  "post_like_syncT R now ks =
     bindT (sync_keysT R now ks None) (\<lambda>z.
     bindT (commit_likesT z) (\<lambda>_.
     if ks = [] then returnT () else writeT (on_kv (fold (r_delete R) ks))))"

section \<open>Requests, trip by trip\<close>

text \<open>
  \<open>get_like\<close> on the snapshot \<open>snap\<close> of its request: GET, and without a pending value the SELECT.  The snapshot is that of
  the first query of the transaction (\<open>get_current_user\<close>; after the commit of a view, the count of the likes).
\<close>

definition get_likeT :: "'r redis_api \<Rightarrow> int \<Rightarrow> int \<Rightarrow> post_like list \<Rightarrow> ('r app, exn + bool) thread" where
  "get_likeT R pid uid snap =
     bindT (readT (\<lambda>w. r_get R (kv w) (post_like_key pid uid))) (\<lambda>redis_status.
     case redis_status of
       Some v \<Rightarrow> returnT (v = ''1'')
     | None \<Rightarrow> askT (\<lambda>_. map_sum id (\<lambda>l. l \<noteq> None) (one_or_none (SQLAlchemyError MultipleResultsFound)
                 (filter (\<lambda>l. lk_post_id l = pid \<and> lk_user_id l = uid) snap))))"

datatype like_call = Job time "string list" | Show | Unlike
datatype like_reply = Synced | Shown bool | Unliked

text \<open>The job, the like a detail page shows, and \<open>unlike_post\<close>, of user \<open>a\<close> on post \<open>p\<close>.\<close>

fun like_thread :: "'r redis_api \<Rightarrow> int \<Rightarrow> int \<Rightarrow> like_call \<Rightarrow> ('r app, exn + like_reply) thread" where
  "like_thread R p a (Job now ks) = bindT (post_like_syncT R now ks) (\<lambda>_. returnT Synced)"
| "like_thread R p a Show =
     bindT (readT (\<lambda>w. likes (committed w))) (\<lambda>snap.
     bindT (get_likeT R p a snap) (\<lambda>liked. returnT (Shown liked)))"
| "like_thread R p a Unlike =
     bindT (readT (\<lambda>w. likes (committed w))) (\<lambda>snap.
     bindT (get_likeT R p a snap) (\<lambda>liked.
     if \<not> liked then returnT Unliked
     else bindT (writeT (delete_like R p a)) (\<lambda>_. returnT Unliked)))"

section \<open>The like that counts\<close>

text \<open>The pending value, if there is one, and the committed table otherwise: what a request reads that begins now and is
  not interrupted.\<close>

definition seen_like :: "'r redis_api \<Rightarrow> int \<Rightarrow> int \<Rightarrow> 'r app \<Rightarrow> bool" where
  "seen_like R p a w \<longleftrightarrow> effective_like R (rollback w) p a"

text \<open>
  Everything but a like or an unlike of user \<open>a\<close> on post \<open>p\<close>: likes and unlikes of others, commits to other tables, other
  commands, and time.
\<close>

inductive quiet_step :: "'r redis_api \<Rightarrow> int \<Rightarrow> int \<Rightarrow> 'r app \<Rightarrow> 'r app \<Rightarrow> bool" for R p a where
  toggle: "(p', a') \<noteq> (p, a) \<Longrightarrow> quiet_step R p a w (on_kv (r_set R (post_like_key p' a') v) w)"
| database: "likes d = likes (committed w) \<Longrightarrow> quiet_step R p a w (w\<lparr>committed := d, working := d', seq := q\<rparr>)"
| command: "(\<And>k. take 10 k = ''post_like:'' \<Longrightarrow> r_lookup R s k = r_lookup R (kv w) k) \<Longrightarrow> quiet_step R p a w (w\<lparr>kv := s\<rparr>)"
| wait: "quiet_step R p a w (on_kv (r_tick R d) w)"

definition pending_ok :: "'r redis_api \<Rightarrow> int \<Rightarrow> int \<Rightarrow> 'r app \<Rightarrow> bool" where
  "pending_ok R p a w \<longleftrightarrow>
     r_lookup R (kv w) (post_like_key p a) \<in> {None, Some (RString ''1'', None), Some (RString ''0'', None)}"

definition pair_rows :: "int \<Rightarrow> int \<Rightarrow> post_like list \<Rightarrow> post_like list" where
  "pair_rows p a ls = filter (\<lambda>l. like_key l = (p, a)) ls"

text \<open>The invariant of every interleaving, and what time does to the rows of the pair: nothing, or they say \<open>b\<close>.\<close>

definition displays :: "'r redis_api \<Rightarrow> int \<Rightarrow> int \<Rightarrow> bool \<Rightarrow> 'r app \<Rightarrow> bool" where
  "displays R p a b w \<longleftrightarrow> pending_ok R p a w \<and> seen_like R p a w = b \<and> length (pair_rows p a (likes (committed w))) \<le> 1"

definition rows_settle :: "int \<Rightarrow> int \<Rightarrow> bool \<Rightarrow> 'r app \<Rightarrow> 'r app \<Rightarrow> bool" where
  "rows_settle p a b w w' \<longleftrightarrow>
     pair_rows p a (likes (committed w')) = pair_rows p a (likes (committed w)) \<or> has_like (committed w') p a = b"

section \<open>Steps that keep it\<close>

lemma like_key_prefixed: "take 10 (post_like_key p a) = ''post_like:''"
  by (simp add: post_like_key_def like_prefix_def)

lemma has_like_rows: "has_like d p a \<longleftrightarrow> pair_rows p a (likes d) \<noteq> []"
  by (force simp: has_like_def pair_rows_def filter_empty_conv)

lemma seen_like_cases:
  assumes "pending_ok R p a w"
  obtains "r_get R (kv w) (post_like_key p a) = None" and "seen_like R p a w = has_like (committed w) p a"
  | "r_get R (kv w) (post_like_key p a) = Some ''1''" and "seen_like R p a w"
  | "r_get R (kv w) (post_like_key p a) = Some ''0''" and "\<not> seen_like R p a w"
  using assms by (auto simp: pending_ok_def seen_like_def effective_like_def r_get_def rollback_def)

lemma seen_like_eq:
  "seen_like R p a w \<longleftrightarrow> (case r_get R (kv w) (post_like_key p a) of Some v \<Rightarrow> v = ''1'' | None \<Rightarrow> has_like (committed w) p a)"
  by (simp add: seen_like_def effective_like_def rollback_def split: option.split)

lemma displays_single: "displays R p a b w \<Longrightarrow> length (pair_rows p a (likes (committed w))) \<le> 1"
  by (simp add: displays_def)

lemma displays_cong:
  assumes "displays R p a b w" and "r_lookup R (kv w') (post_like_key p a) = r_lookup R (kv w) (post_like_key p a)"
    and "has_like (committed w') p a = has_like (committed w) p a"
    and "length (pair_rows p a (likes (committed w'))) \<le> 1"
  shows "displays R p a b w'"
  using assms
  by (auto simp: displays_def pending_ok_def seen_like_def effective_like_def r_get_def rollback_def split: option.splits rvalue.splits)

lemma quiet_rely:
  assumes "redis R"
  shows "rely_guarantee (quiet_step R p a) (displays R p a b) (rows_settle p a b)"
proof
  show "rows_settle p a b w w" for w :: "'a app" by (simp add: rows_settle_def)
  show "rows_settle p a b w w''" if "rows_settle p a b w w'" "rows_settle p a b w' w''" for w w' w'' :: "'a app"
    using that by (auto simp: rows_settle_def has_like_rows)
  show "displays R p a b w' \<and> rows_settle p a b w w'" if "displays R p a b w" "quiet_step R p a w w'" for w w'
    using that(2)
  proof cases
    case (wait d)
    have "r_lookup R (r_tick R d (kv w)) (post_like_key p a) = r_lookup R (kv w) (post_like_key p a)"
      using that(1) by (auto simp: displays_def pending_ok_def redis.lookup_tick [OF assms])
    with wait displays_single [OF that(1)] show ?thesis
      by (auto simp: rows_settle_def intro: displays_cong [OF that(1)])
  qed (use displays_single [OF that(1)] redis.lookup_set [OF assms] like_key_prefixed in
      \<open>auto simp: rows_settle_def has_like_def intro!: displays_cong [OF that(1)]\<close>)
qed

text \<open>What a job knows: of the snapshot, of the rows it sees, and of a pair it has visited (\<open>vis\<close>).\<close>

definition view_ok ::
  "int \<Rightarrow> int \<Rightarrow> bool \<Rightarrow> bool \<Rightarrow> (post_like list \<times> post_like list) option \<Rightarrow> 'r app \<Rightarrow> bool" where
  "view_ok p a b vis z w \<longleftrightarrow>
     (case z of
        None \<Rightarrow> \<not> vis
      | Some (base, view) \<Rightarrow>
          length (pair_rows p a base) \<le> 1 \<and>
          (pair_rows p a base = pair_rows p a (likes (committed w)) \<or> has_like (committed w) p a = b) \<and>
          ((pair_rows p a view \<noteq> []) = b \<or> pair_rows p a view = pair_rows p a base) \<and>
          (vis \<longrightarrow> (pair_rows p a view \<noteq> []) = b \<or> has_like (committed w) p a = b))"

lemma view_ok_later: "view_ok p a b vis z w \<Longrightarrow> rows_settle p a b w w' \<Longrightarrow> view_ok p a b vis z w'"
  by (auto simp: view_ok_def rows_settle_def has_like_rows split: option.splits)

definition next_view :: "string option \<Rightarrow> post_like option \<Rightarrow> post_like \<Rightarrow> post_like list \<Rightarrow> post_like list" where
  "next_view status existing new view =
     (if status = Some ''1'' \<and> existing = None then view @ [new]
      else case existing of Some l \<Rightarrow> if status = Some ''0'' then filter (\<lambda>r. r \<noteq> l) view else view | None \<Rightarrow> view)"

lemma one_or_none_Inr: "one_or_none e xs = Inr x \<Longrightarrow> (x = None \<and> xs = []) \<or> (\<exists>l. x = Some l \<and> xs = [l])"
  by (cases "(e, xs)" rule: one_or_none.cases) auto

lemma next_view_rows:
  assumes "one_or_none e (filter (\<lambda>l. lk_post_id l = pid \<and> lk_user_id l = uid) view) = Inr existing" and "like_key new = (pid, uid)"
  shows "pair_rows p a (next_view status existing new view) =
    (if (p, a) \<noteq> (pid, uid) then pair_rows p a view
     else if status = Some ''1'' \<and> existing = None then pair_rows p a view @ [new]
     else if status = Some ''0'' then [] else pair_rows p a view)"
proof -
  have f: "filter (\<lambda>l. lk_post_id l = pid \<and> lk_user_id l = uid) view = pair_rows pid uid view"
    by (simp add: pair_rows_def like_key_def)
  from one_or_none_Inr [OF assms(1) [unfolded f]] show ?thesis
  proof (elim disjE exE conjE)
    fix l
    assume l: "existing = Some l" "pair_rows pid uid view = [l]"
    then have "like_key l = (pid, uid)" by (auto simp: pair_rows_def filter_eq_Cons_iff)
    moreover have "pair_rows pid uid (filter (\<lambda>r. r \<noteq> l) view) = filter (\<lambda>r. r \<noteq> l) (pair_rows pid uid view)"
      by (simp add: pair_rows_def conj_commute)
    ultimately show ?thesis
      using l by (auto simp: next_view_def) (auto simp: pair_rows_def intro!: filter_cong)
  qed (use assms(2) in \<open>auto simp: next_view_def pair_rows_def\<close>)
qed

lemma visit:
  assumes "view_ok p a b vis z v" and "displays R p a b s" and "displays R p a b w" and "rows_settle p a b v s" and "rows_settle p a b s w"
    and "(base, view) = (case z of None \<Rightarrow> (likes (committed w), likes (committed w)) | Some y \<Rightarrow> y)"
    and "one_or_none e (filter (\<lambda>l. lk_post_id l = pid \<and> lk_user_id l = uid) view) = Inr existing" and "like_key new = (pid, uid)"
  shows "view_ok p a b (vis \<or> (p, a) = (pid, uid))
    (Some (base, next_view (r_get R (kv s) (post_like_key pid uid)) existing new view)) w"
proof -
  have z: "view_ok p a b vis z s" "view_ok p a b vis z w"
    using view_ok_later assms(1,4,5) by blast+
  have base: "view_ok p a b vis (Some (base, view)) w"
    using z(2) assms(3,6) by (cases z) (auto simp: view_ok_def displays_def)
  note rows = next_view_rows [OF assms(7,8), of p a]
  show ?thesis
  proof (cases "(p, a) = (pid, uid)")
    case False
    then show ?thesis using base rows by (auto simp: view_ok_def)
  next
    case True
    then have pa: "pid = p" "uid = a" by simp_all
    from assms(2) have "pending_ok R p a s" and b: "seen_like R p a s = b" by (simp_all add: displays_def)
    then show ?thesis
    proof (cases rule: seen_like_cases)
      case 1
      then have "has_like (committed w) p a = b"
        using b assms(5) by (auto simp: rows_settle_def has_like_rows)
      with base 1 show ?thesis by (simp add: view_ok_def pa rows [unfolded pa])
    next
      case 2
      then have "pair_rows p a (next_view (Some ''1'') existing new view) \<noteq> []"
        using one_or_none_Inr [OF assms(7)] by (auto simp: rows pa) (auto simp: pair_rows_def like_key_def pa)
      with base 2 b show ?thesis by (simp add: view_ok_def pa)
    next
      case 3
      with base b show ?thesis by (simp add: view_ok_def pa rows [unfolded pa])
    qed
  qed
qed

text \<open>The loop over the keys reads, and draws ids.\<close>

lemma sync_keysT_Cons:
  "sync_keysT R now (post_like_key pid uid # ks) z =
     Trip (\<lambda>w. w) (\<lambda>v. Trip (\<lambda>w. w) (\<lambda>w.
       let (base, view) = (case z of None \<Rightarrow> (likes (committed w), likes (committed w)) | Some y \<Rightarrow> y);
           status = r_get R (kv v) (post_like_key pid uid);
           new = (\<lambda>i. \<lparr>like_id = i, lk_post_id = pid, lk_user_id = uid, lk_created_at = now, lk_updated_at = now\<rparr>)
       in case one_or_none (SQLAlchemyError MultipleResultsFound) (filter (\<lambda>l. lk_post_id l = pid \<and> lk_user_id l = uid) view) of
            Inl e \<Rightarrow> raiseT e
          | Inr existing \<Rightarrow>
              if status = Some ''1'' \<and> existing = None
              then Trip (take_pk T_likes) (\<lambda>w. sync_keysT R now ks (Some (base, next_view status existing (new (seq w T_likes)) view)))
              else sync_keysT R now ks (Some (base, next_view status existing (new 0) view))))"
  by (auto simp: split_post_like_key fun_eq_iff Let_def next_view_def split: sum.split option.split prod.split)

lemma displays_take_pk [simp]: "displays R p a b (take_pk t w) = displays R p a b w"
  by (auto simp: displays_def pending_ok_def seen_like_def rollback_def effective_like_def split: option.splits)

lemma rows_settle_simps [simp]: "rows_settle p a b w w" "rows_settle p a b w (take_pk t w') = rows_settle p a b w w'"
  by (simp_all add: rows_settle_def)

lemma sat_sync_keysT:
  assumes "\<And>k. k \<in> set ks \<Longrightarrow> \<exists>p a. k = post_like_key p a" and "view_ok p a b vis z v"
  shows "sat (displays R p a b) (rows_settle p a b) (\<lambda>_ _ _. True)
    (\<lambda>r s. \<forall>z. r = Inr z \<longrightarrow> view_ok p a b (vis \<or> post_like_key p a \<in> set ks) z s) (sync_keysT R now ks z) v"
  using assms
proof (induction ks arbitrary: z v vis)
  case Nil
  then show ?case by (auto intro: view_ok_later)
next
  case (Cons k ks)
  obtain pid uid where k: "k = post_like_key pid uid" using Cons.prems(1) [of k] by auto
  have vis: "vis \<or> post_like_key p a \<in> set (k # ks) \<longleftrightarrow> (vis \<or> (p, a) = (pid, uid)) \<or> post_like_key p a \<in> set ks"
    by (auto simp: k)
  define Q where "Q = (\<lambda>(r :: exn + _) s. \<forall>z. r = Inr z \<longrightarrow> view_ok p a b (vis \<or> post_like_key p a \<in> set (k # ks)) z (s :: 'a app))"
  have go_on: "sat (displays R p a b) (rows_settle p a b) (\<lambda>_ _ _. True) Q (sync_keysT R now ks
      (Some (base, next_view status existing new view))) w'"
    if "(case z of None \<Rightarrow> (likes (committed w), likes (committed w)) | Some y \<Rightarrow> y) = (base, view)"
      "displays R p a b s" "displays R p a b w" "rows_settle p a b v s" "rows_settle p a b s w" "rows_settle p a b w w'"
      "one_or_none (SQLAlchemyError MultipleResultsFound) (filter (\<lambda>l. lk_post_id l = pid \<and> lk_user_id l = uid) view) = Inr existing"
      "like_key new = (pid, uid)" "r_get R (kv s) (post_like_key pid uid) = status" for s w w' base view existing new status
  proof -
    have "view_ok p a b (vis \<or> (p, a) = (pid, uid))
        (Some (base, next_view status existing new view)) w'"
      unfolding that(9) [symmetric]
      by (rule view_ok_later [OF visit [OF Cons.prems(2) that(2-5) that(1) [symmetric] that(7,8)] that(6)])
    then show ?thesis
      unfolding Q_def vis using Cons.prems(1) by (intro Cons.IH) auto
  qed
  have Q_Inl: "Q (Inl e) s" for e s by (simp add: Q_def)
  have "sat (displays R p a b) (rows_settle p a b) (\<lambda>_ _ _. True) Q (sync_keysT R now (post_like_key pid uid # ks) z) v"
    unfolding sync_keysT_Cons [of R now pid uid]
    by (auto simp: Let_def like_key_def Q_Inl simp del: sync_keysT.simps
        split: sum.split prod.split intro!: go_on)
  then show ?case unfolding Q_def k .
qed

text \<open>The commit: the rows of the pair stay as they are, or say \<open>b\<close>.\<close>

lemma pair_rows_changes:
  "pair_rows p a (like_changes base view ls) =
     filter (\<lambda>l. l \<notin> set (pair_rows p a base) \<or> l \<in> set (pair_rows p a view)) (pair_rows p a ls) @
     filter (\<lambda>l. l \<notin> set (pair_rows p a base)) (pair_rows p a view)"
  by (auto simp: like_changes_def pair_rows_def intro!: filter_cong arg_cong2 [where f = append])

lemma committed_pair:
  fixes w :: "'r app"
  assumes "view_ok p a b vis (Some (base, view)) w"
  defines "r \<equiv> pair_rows p a (like_changes base view (likes (committed w)))"
  shows "(r = pair_rows p a (likes (committed w)) \<or> (r \<noteq> []) = b) \<and> (vis \<longrightarrow> (r \<noteq> []) = b)"
proof -
  define B L V where d: "B = pair_rows p a base" "L = pair_rows p a (likes (committed w))" "V = pair_rows p a view"
  have r: "r = filter (\<lambda>l. l \<notin> set B \<or> l \<in> set V) L @ filter (\<lambda>l. l \<notin> set B) V"
    by (simp add: r_def pair_rows_changes d)
  have h: "length B \<le> 1" "B = L \<or> (L \<noteq> []) = b" "(V \<noteq> []) = b \<or> V = B" "vis \<longrightarrow> (V \<noteq> []) = b \<or> (L \<noteq> []) = b"
    using assms(1) by (simp_all add: view_ok_def d has_like_rows)
  show ?thesis
  proof (cases "V = B")
    case True
    then have "r = L" unfolding r by (auto intro!: filter_True simp: filter_empty_conv)
    with h True show ?thesis by (auto simp: d(2))
  next
    case False
    then have V: "(V \<noteq> []) = b" using h(3) by simp
    have "(r \<noteq> []) = b"
    proof (cases b)
      case True
      then obtain l where l: "l \<in> set V" using V by (cases V) auto
      show ?thesis
      proof (cases "l \<in> set B")
        case True
        then have "B = [l]" using h(1) by (cases B) auto
        moreover from this obtain x where "x \<in> set L" using h(2) \<open>b\<close> by (cases L) auto
        ultimately have "x \<in> set r" using l unfolding r by auto
        then show ?thesis using \<open>b\<close> by auto
      next
        case False
        with l have "l \<in> set r" unfolding r by auto
        then show ?thesis using \<open>b\<close> by auto
      qed
    next
      case False
      then show ?thesis using V h(2) by (auto simp: r filter_empty_conv)
    qed
    then show ?thesis by simp
  qed
qed

lemma distinct_pair_rows: "distinct (map like_key ls) \<Longrightarrow> length (pair_rows p a ls) \<le> 1"
proof -
  assume "distinct (map like_key ls)"
  then have "distinct (map like_key (pair_rows p a ls))" unfolding pair_rows_def by (rule distinct_map_filter)
  moreover have "set (map like_key (pair_rows p a ls)) \<subseteq> {(p, a)}" by (auto simp: pair_rows_def)
  ultimately have "length (map like_key (pair_rows p a ls)) \<le> card {(p, a)}"
    by (metis card_mono distinct_card finite.emptyI finite.insertI)
  then show ?thesis by simp
qed

lemma displays_commit:
  fixes w :: "'r app"
  assumes "view_ok p a b vis (Some (base, view)) w" and "displays R p a b w"
    and "distinct (map like_key (like_changes base view (likes (committed w))))"
  defines "w' \<equiv> commit (on_db (likes_update (like_changes base view)) (rollback w))"
  shows "displays R p a b w' \<and> rows_settle p a b w w' \<and> (vis \<longrightarrow> has_like (committed w') p a = b)"
proof -
  have w': "likes (committed w') = like_changes base view (likes (committed w))" "kv w' = kv w"
    by (simp_all add: w'_def rollback_def)
  note c = committed_pair [OF assms(1), folded w'(1)]
  have pend: "pending_ok R p a w'" using assms(2) by (simp add: displays_def pending_ok_def w'(2))
  have "seen_like R p a w = b" using assms(2) by (simp add: displays_def)
  then have "seen_like R p a w' = b"
    using c by (auto simp: seen_like_eq w'(2) has_like_rows split: option.splits)
  then show ?thesis
    using c pend distinct_pair_rows [OF assms(3)] by (simp add: displays_def rows_settle_def has_like_rows w'(1))
qed

section \<open>The job\<close>

lemma sat_commit_likesT:
  assumes "view_ok p a b vis z v"
  shows "sat (displays R p a b) (rows_settle p a b) (\<lambda>_ _ _. True)
    (\<lambda>r s. \<forall>y. r = Inr y \<longrightarrow> vis \<longrightarrow> has_like (committed s) p a = b) (commit_likesT z) v"
proof (cases z)
  case None
  with assms show ?thesis by (simp add: commit_likesT_def view_ok_def)
next
  case (Some y)
  obtain base view where z: "z = Some (base, view)" using Some by (cases y) simp
  define new where "new s = commit (on_db (likes_update (like_changes base view)) (rollback s))" for s :: "'a app"
  have later: "rows_settle p a b s t \<Longrightarrow> has_like (committed s) p a = b \<Longrightarrow> has_like (committed t) p a = b" for s t :: "'a app"
    by (auto simp: rows_settle_def has_like_rows)
  define ok where "ok s = distinct (map like_key (like_changes base view (likes (committed s))))" for s :: "'a app"
  have step: "displays R p a b (new s) \<and> rows_settle p a b s (new s) \<and> (vis \<longrightarrow> has_like (committed (new s)) p a = b)"
    if "displays R p a b s" "rows_settle p a b v s" "ok s" for s
    using displays_commit [OF view_ok_later [OF assms [unfolded z] that(2)] that(1) that(3) [unfolded ok_def]]
    by (simp add: new_def)
  show ?thesis
    unfolding commit_likesT_def z option.case prod.case Let_def new_def [symmetric] ok_def [symmetric] sat.simps
  proof (intro allI impI conjI)
    fix s :: "'a app"
    assume s: "displays R p a b s" "rows_settle p a b v s"
    show "displays R p a b (if ok s then new s else s)" using s step by simp
    show "rows_settle p a b s (if ok s then new s else s)" using s step by simp
    show "sat (displays R p a b) (rows_settle p a b) (\<lambda>_ _ _. True)
        (\<lambda>r s. \<forall>y. r = Inr y \<longrightarrow> vis \<longrightarrow> has_like (committed s) p a = b)
        (if ok s then returnT () else raiseT (SQLAlchemyError IntegrityError)) (if ok s then new s else s)"
      using step [OF s] later [of "new s"] by simp
  qed simp
qed

lemma sat_delete:
  assumes "redis R" and "post_like_key p a \<in> set ks \<Longrightarrow> has_like (committed v) p a = b"
  shows "sat (displays R p a b) (rows_settle p a b) (\<lambda>_ _ _. True)
    (\<lambda>r s. post_like_key p a \<in> set ks \<longrightarrow> has_like (committed s) p a = b) (writeT (on_kv (fold (r_delete R) ks))) v"
proof -
  have later: "rows_settle p a b v s \<Longrightarrow> post_like_key p a \<in> set ks \<Longrightarrow> has_like (committed s) p a = b" for s
    using assms(2) by (auto simp: rows_settle_def has_like_rows)
  have "displays R p a b (on_kv (fold (r_delete R) ks) s)" if "displays R p a b s" "rows_settle p a b v s" for s
  proof (cases "post_like_key p a \<in> set ks")
    case True
    with later [OF that(2)] that(1) show ?thesis
      by (simp add: displays_def pending_ok_def seen_like_eq r_get_def redis.fold_delete_lookup [OF assms(1)])
  next
    case False
    with displays_single [OF that(1)] show ?thesis
      by (intro displays_cong [OF that(1)]) (simp_all add: redis.fold_delete_lookup [OF assms(1)])
  qed
  then show ?thesis
    using later by (auto simp: rows_settle_def has_like_rows)
qed

lemma sat_post_like_syncT:
  assumes "redis R" and "\<And>k. k \<in> set ks \<Longrightarrow> \<exists>p a. k = post_like_key p a"
  shows "sat (displays R p a b) (rows_settle p a b) (\<lambda>_ _ _. True)
    (\<lambda>r s. r = Inr () \<longrightarrow> post_like_key p a \<in> set ks \<longrightarrow> has_like (committed s) p a = b) (post_like_syncT R now ks) v"
proof -
  let ?sat = "\<lambda>Q. sat (displays R p a b) (rows_settle p a b) (\<lambda>_ _ _. True) Q"
  let ?Q = "\<lambda>r s. r = Inr () \<longrightarrow> post_like_key p a \<in> set ks \<longrightarrow> has_like (committed s) p a = b"
  define del :: "('a app, exn + unit) thread" where
    "del = (if ks = [] then returnT () else writeT (on_kv (fold (r_delete R) ks)))"
  note bind = rely_guarantee.sat_bindT [OF quiet_rely [OF assms(1)]]
  have del: "?sat ?Q del v" if "post_like_key p a \<in> set ks \<longrightarrow> has_like (committed v) p a = b" for v
  proof -
    have "?sat ?Q (writeT (on_kv (fold (r_delete R) ks))) v"
      by (rule sat_mono [OF sat_delete [OF assms(1), of p a ks v b]]) (use that in auto)
    then show ?thesis by (cases "ks = []") (simp_all add: del_def)
  qed
  have com: "?sat ?Q (bindT (commit_likesT z) (\<lambda>_. del)) v"
    if "view_ok p a b (False \<or> post_like_key p a \<in> set ks) z v" for z v
    by (rule bind [OF sat_mono [OF sat_commit_likesT [OF that]]]) (auto intro!: del)
  have "view_ok p a b False None v" by (simp add: view_ok_def)
  then show ?thesis
    unfolding post_like_syncT_def del_def [symmetric]
    by (intro bind [OF sat_mono [OF sat_sync_keysT [OF assms(2)]]]) (auto intro!: com)
qed

section \<open>A job that nobody interrupts\<close>

text \<open>The session of the sequential job, whose transaction sees \<open>view\<close>.\<close>

definition with_view :: "'r app \<Rightarrow> post_like list \<Rightarrow> 'r app" where
  "with_view x view = x\<lparr>working := (working x)\<lparr>likes := view\<rparr>\<rparr>"

lemma with_view_sel [simp]:
  "kv (with_view x view) = kv x" "committed (with_view x view) = committed x" "seq (with_view x view) = seq x"
  "likes (working (with_view x view)) = view"
  by (simp_all add: with_view_def)

lemma sync_key_view:
  fixes x :: "'r app" and now :: time
  assumes "session_ok coll (with_view x view)" and "r_get R (kv x) (post_like_key p a) = Some v" and "v \<in> {''1'', ''0''}"
  defines "e \<equiv> find (\<lambda>l. like_key l = (p, a)) view"
    and "new \<equiv> \<lparr>like_id = seq x T_likes, lk_post_id = p, lk_user_id = a, lk_created_at = now, lk_updated_at = now\<rparr>"
  shows "sync_key R now (post_like_key p a) (with_view x view) =
      (Inr (), with_view (if v = ''1'' \<and> e = None then take_pk T_likes x else x) (next_view (Some v) e new view))"
    and "one_or_none (SQLAlchemyError MultipleResultsFound) (filter (\<lambda>l. lk_post_id l = p \<and> lk_user_id l = a) view) = Inr e"
proof -
  have sel: "select_like p a (with_view x view) = Inr e"
    unfolding e_def by (simp add: select_like_find [OF assms(1)])
  then show "one_or_none (SQLAlchemyError MultipleResultsFound) (filter (\<lambda>l. lk_post_id l = p \<and> lk_user_id l = a) view) = Inr e"
    by (simp add: select_like_def like_rows_def)
  have ids: "distinct (map like_id view)"
    using session_ok_working [OF assms(1)] by (simp add: schema_ok_def ids_ok_def)
  have "filter (\<lambda>r. like_id r \<noteq> like_id l) view = filter (\<lambda>r. r \<noteq> l) view" if "e = Some l" for l
  proof (rule filter_cong [OF refl])
    have "l \<in> set view" using that find_SomeD(1) unfolding e_def by fast
    then show "like_id r \<noteq> like_id l \<longleftrightarrow> r \<noteq> l" if "r \<in> set view" for r
      using that ids unfolding distinct_map by (blast dest: inj_onD)
  qed
  then show "sync_key R now (post_like_key p a) (with_view x view) =
      (Inr (), with_view (if v = ''1'' \<and> e = None then take_pk T_likes x else x) (next_view (Some v) e new view))"
    using assms(2,3) by (cases e) (auto simp: sync_key_def split_post_like_key prog_simps sel [unfolded with_view_def]
        new_def next_view_def with_view_def take_pk_def on_db_def)
qed

lemma alone_sync_keysT:
  fixes x :: "'r app"
  assumes "session_ok coll (with_view x view)"
    and "\<And>k. k \<in> set ks \<Longrightarrow> \<exists>p a v. k = post_like_key p a \<and> r_get R (kv x) k = Some v \<and> v \<in> {''1'', ''0''}"
    and "like_changes base view base = view" and "\<forall>l\<in>set base. like_id l < seq x T_likes"
  shows "\<exists>us x' view'. alone (sync_keysT R now ks (Some (base, view))) x = (Inr (Some (base, view')), x') \<and>
    mapP (sync_key R now) ks (with_view x view) = (Inr us, with_view x' view') \<and>
    kv x' = kv x \<and> committed x' = committed x \<and> working x' = working x \<and> session_ok coll (with_view x' view') \<and>
    like_changes base view' base = view'"
  using assms
proof (induction ks arbitrary: x view)
  case Nil
  then show ?case by (auto simp: returnP_def)
next
  case (Cons k ks)
  obtain p a v where k: "k = post_like_key p a" "r_get R (kv x) (post_like_key p a) = Some v" "v \<in> {''1'', ''0''}"
    using Cons.prems(2) [of k] by auto
  define e where "e = find (\<lambda>l. like_key l = (p, a)) view"
  define new where "new i = \<lparr>like_id = i, lk_post_id = p, lk_user_id = a, lk_created_at = now, lk_updated_at = now\<rparr>" for i
  define x1 where "x1 = (if v = ''1'' \<and> e = None then take_pk T_likes x else x)"
  define view1 where "view1 = next_view (Some v) e (new (seq x T_likes)) view"
  note key = sync_key_view(1) [OF Cons.prems(1) k(2,3), where now = now, folded e_def, folded new_def, folded x1_def view1_def]
    sync_key_view(2) [OF Cons.prems(1) k(2,3), folded e_def]
  have x1: "kv x1 = kv x" "committed x1 = committed x" "working x1 = working x" "seq x T_likes \<le> seq x1 T_likes"
    by (auto simp: x1_def)
  have "session_ok coll (with_view x1 view1)"
    using sync_key_step [OF Cons.prems(1), of R p a v now] k(2,3) key(1) by auto
  moreover have "like_changes base view1 base = view1"
  proof -
    have "new (seq x T_likes) \<notin> set base" using Cons.prems(4) by (auto simp: new_def)
    moreover have "like_changes base (filter (\<lambda>r. r \<noteq> l) view) base = filter (\<lambda>r. r \<noteq> l) (like_changes base view base)" for l
      by (auto simp: like_changes_def intro!: arg_cong2 [where f = append] filter_cong)
    moreover have "new (seq x T_likes) \<notin> set base \<Longrightarrow>
        like_changes base (view @ [new (seq x T_likes)]) base = like_changes base view base @ [new (seq x T_likes)]"
      by (auto simp: like_changes_def intro!: filter_cong)
    ultimately show ?thesis
      using Cons.prems(3) by (auto simp: view1_def next_view_def split: option.split)
  qed
  moreover have "\<forall>l\<in>set base. like_id l < seq x1 T_likes" using Cons.prems(4) x1(4) by auto
  ultimately obtain us x' view' where IH: "alone (sync_keysT R now ks (Some (base, view1))) x1 = (Inr (Some (base, view')), x')"
    "mapP (sync_key R now) ks (with_view x1 view1) = (Inr us, with_view x' view')"
    "kv x' = kv x" "committed x' = committed x" "working x' = working x" "session_ok coll (with_view x' view')"
    "like_changes base view' base = view'"
    using Cons.IH [of x1 view1] Cons.prems(2) x1 by auto
  have "alone (sync_keysT R now (k # ks) (Some (base, view))) x = alone (sync_keysT R now ks (Some (base, view1))) x1"
    unfolding k(1) sync_keysT_Cons
    by (auto simp: key(2) k(2) Let_def x1_def view1_def new_def next_view_def split: option.split)
  with IH key(1) show ?case by (auto simp: k(1) prog_simps simp del: sync_keysT.simps)
qed

lemma alone_sync_keysT_None:
  fixes x :: "'r app"
  assumes "ks \<noteq> []" and "\<And>k. k \<in> set ks \<Longrightarrow> \<exists>p a. k = post_like_key p a"
  shows "alone (sync_keysT R now ks None) x = alone (sync_keysT R now ks (Some (likes (committed x), likes (committed x)))) x"
proof (cases ks)
  case (Cons k ks')
  then obtain p a where "k = post_like_key p a" using assms(2) [of k] by auto
  with Cons show ?thesis unfolding Cons by (simp add: sync_keysT_Cons del: sync_keysT.simps)
qed (use assms(1) in simp)

lemma alone_post_like_syncT:
  fixes w :: "'r app"
  assumes "redis R" and "session_ok coll w" and "working w = committed w" and "like_keys_ok R (kv w)"
  shows "alone (post_like_syncT R now (scan_prefix R ''post_like:'' (kv w))) w = post_like_sync R (\<lambda>w. w) now w"
proof -
  let ?ks = "scan_prefix R ''post_like:'' (kv w)" and ?L = "likes (committed w)"
  have w: "with_view w ?L = w" using assms(3) by (simp add: with_view_def)
  have keys: "\<And>k. k \<in> set ?ks \<Longrightarrow> \<exists>p a v. k = post_like_key p a \<and> r_get R (kv w) k = Some v \<and> v \<in> {''1'', ''0''}"
    using like_key_scanned [OF assms(1,4)] by auto
  have base: "like_changes ?L ?L ?L = ?L" "\<forall>l\<in>set ?L. like_id l < seq w T_likes"
    using assms(2) by (auto simp: like_changes_def session_ok_def schema_ok_def ids_ok_def)
  have "session_ok coll (with_view w ?L)" using assms(2) w by simp
  then obtain us x' view' where r: "alone (sync_keysT R now ?ks (Some (?L, ?L))) w = (Inr (Some (?L, view')), x')"
    "mapP (sync_key R now) ?ks w = (Inr us, with_view x' view')"
    "kv x' = kv w" "committed x' = committed w" "working x' = working w" "session_ok coll (with_view x' view')"
    "like_changes ?L view' ?L = view'"
    using alone_sync_keysT [OF _ keys base] w by metis
  show ?thesis
  proof (cases "?ks = []")
    case True
    then show ?thesis
      using assms(3) by (simp add: post_like_syncT_def commit_likesT_def post_like_sync_def scan_like_to_db_def get_db_def
          prog_simps commit_def rollback_def on_kv_def)
  next
    case False
    have "distinct (map like_key view')"
      using session_like_keys [OF r(6)] by simp
    then have c: "alone (commit_likesT (Some (?L, view'))) x' = (Inr (), commit (with_view x' view'))"
      using r(4,5,7) assms(3) by (simp add: commit_likesT_def Let_def with_view_def commit_def on_db_def rollback_def)
    have "alone (sync_keysT R now ?ks None) w = (Inr (Some (?L, view')), x')"
      using alone_sync_keysT_None [OF False, of R now w] keys r(1) by metis
    then show ?thesis
      using False c by (simp add: post_like_syncT_def alone_bindT post_like_sync_def scan_like_to_db_def get_db_def prog_simps r(2))
  qed
qed

section \<open>Requests that read\<close>

lemma one_or_none_rows:
  "one_or_none e (filter (\<lambda>l. lk_post_id l = p \<and> lk_user_id l = a) snap) = one_or_none e (pair_rows p a snap)"
  by (simp add: pair_rows_def like_key_def)

lemma one_or_none_short:
  "length xs \<le> 1 \<Longrightarrow> map_sum id (\<lambda>l. l \<noteq> None) (one_or_none e xs) = Inr (xs \<noteq> [])"
  by (cases "(e, xs)" rule: one_or_none.cases) auto

text \<open>If the table says what counts when the snapshot is taken, the reader is right, whatever happens in between.\<close>

lemma sat_show:
  assumes "redis R" and "has_like (committed v) p a = b"
  shows "sat (displays R p a b) (rows_settle p a b) (\<lambda>_ _ _. True) (\<lambda>r s. r = Inr (Shown b)) (like_thread R p a Show) v"
proof -
  have snap: "map_sum id (\<lambda>l. l \<noteq> None) (one_or_none e (pair_rows p a (likes (committed s)))) = Inr b"
    if "displays R p a b s" "rows_settle p a b v s" for e and s :: "'a app"
    using that assms(2) by (auto simp: one_or_none_short [OF displays_single [OF that(1)]] rows_settle_def has_like_rows
        simp del: not_None_eq)
  have pending: "(x = ''1'') = b" if "displays R p a b s" "r_get R (kv s) (post_like_key p a) = Some x" for s x
    using that by (auto simp: displays_def seen_like_eq)
  show ?thesis
    by (auto simp: get_likeT_def one_or_none_rows snap pending simp del: not_None_eq split: option.split)
qed

lemma sat_like_thread:
  assumes "redis R" and "call \<noteq> Unlike" and "\<And>now ks k. call = Job now ks \<Longrightarrow> k \<in> set ks \<Longrightarrow> \<exists>p a. k = post_like_key p a"
  shows "sat (displays R p a b) (rows_settle p a b) (\<lambda>_ _ _. True)
    (\<lambda>r s. (\<forall>now ks. call = Job now ks \<and> r = Inr Synced \<and> post_like_key p a \<in> set ks \<longrightarrow> has_like (committed s) p a = b) \<and>
      (has_like (committed v) p a = b \<longrightarrow> call = Show \<longrightarrow> r = Inr (Shown b))) (like_thread R p a call) v"
proof (cases call)
  case (Job now ks)
  let ?later = "\<lambda>r s. r = Inr Synced \<longrightarrow> post_like_key p a \<in> set ks \<longrightarrow> has_like (committed s) p a = b"
  have "sat (displays R p a b) (rows_settle p a b) (\<lambda>_ _ _. True) ?later (like_thread R p a (Job now ks)) v"
    unfolding like_thread.simps
    by (rule rely_guarantee.sat_bindT [OF quiet_rely [OF assms(1)] sat_mono [OF sat_post_like_syncT [OF assms(1)]]])
      (auto simp: rows_settle_def has_like_rows dest: assms(3) [OF Job])
  then show ?thesis unfolding Job by (rule sat_mono) auto
next
  case Show
  show ?thesis
  proof (cases "has_like (committed v) p a = b")
    case True
    then show ?thesis unfolding Show by (intro sat_mono [OF sat_show [OF assms(1)]]) auto
  next
    case False
    then show ?thesis
      unfolding Show by (auto simp: get_likeT_def split: option.split sum.split)
  qed
qed (use assms(2) in simp)

text \<open>The endpoints' sequential model is the thread nobody interrupts.\<close>

lemma alone_unlike:
  assumes "working w = committed w"
  shows "alone (like_thread R p (user_id me) Unlike) w = (map_sum id (\<lambda>_. Unliked) (fst (unlike_post R p me w)),
    snd (unlike_post R p me w))"
  using assms
  by (simp add: get_likeT_def unlike_post_def get_like_def select_like_def like_rows_def alone_bindT prog_simps
      split: option.split sum.split)

text \<open>A job that finds a pending like the table does not have, trip by trip.\<close>

definition job_done :: "'r redis_api \<Rightarrow> time \<Rightarrow> int \<Rightarrow> int \<Rightarrow> 'r app \<Rightarrow> 'r app" where
  "job_done R now p a w =
     (let new = \<lparr>like_id = seq w T_likes, lk_post_id = p, lk_user_id = a, lk_created_at = now, lk_updated_at = now\<rparr>
      in on_kv (r_delete R (post_like_key p a))
           (commit (on_db (likes_update (\<lambda>ls. ls @ [new])) (rollback (take_pk T_likes w)))))"

lemma goes_job:
  fixes w :: "'r app"
  assumes "session_ok coll w" and "working w = committed w"
    and "r_get R (kv w) (post_like_key p a) = Some ''1''" and "\<not> has_like (committed w) p a"
  shows "play [0, 0, 0, 0, 0] ([like_thread R p a (Job now [post_like_key p a]), t], w) =
    ([Done (Inr Synced), t], job_done R now p a w)"
proof -
  let ?L = "likes (committed w)"
  define new where "new = \<lparr>like_id = seq w T_likes, lk_post_id = p, lk_user_id = a, lk_created_at = now, lk_updated_at = now\<rparr>"
  have none: "pair_rows p a ?L = []" using assms(4) by (simp add: has_like_rows)
  then have new: "new \<notin> set ?L" by (auto simp: new_def pair_rows_def like_key_def filter_empty_conv)
  then have ch: "like_changes ?L (?L @ [new]) ?L = ?L @ [new]" by (auto simp: like_changes_def)
  have "distinct (map like_key ?L)" using session_like_keys [OF assms(1)] assms(2) by simp
  moreover have "like_key new \<notin> like_key ` set ?L"
    using none by (auto simp: new_def pair_rows_def like_key_def filter_empty_conv)
  ultimately have "distinct (map like_key (?L @ [new]))" by simp
  with ch show ?thesis
    by (simp add: post_like_syncT_def sync_keysT_Cons commit_likesT_def next_view_def one_or_none_rows none assms(3) Let_def
        job_done_def on_db_def commit_def rollback_def flip: new_def del: sync_keysT.simps(2))
qed

text \<open>What the job leaves: the like is in the table, and no value is pending.\<close>

lemma job_done_sel:
  assumes "redis R"
  shows "r_get R (kv (job_done R now p a w)) (post_like_key p a) = None" and "has_like (committed (job_done R now p a w)) p a"
    and "working (job_done R now p a w) = committed (job_done R now p a w)"
    and "pair_rows p a (likes (committed w)) = [] \<Longrightarrow> length (pair_rows p a (likes (committed (job_done R now p a w)))) \<le> 1"
  by (simp_all add: job_done_def Let_def rollback_def r_get_def redis.lookup_delete [OF assms] has_like_def on_db_def commit_def
      pair_rows_def like_key_def)

lemma unlike_liked:
  assumes "working w = committed w" and "length (pair_rows p (user_id me) (likes (committed w))) \<le> 1"
    and "seen_like R p (user_id me) w"
  shows "unlike_post R p me w = (Inr (), delete_like R p (user_id me) w)"
  using assms(1,3)
  by (auto simp: unlike_post_def get_like_def select_like_def like_rows_def one_or_none_rows one_or_none_short [OF assms(2)]
      prog_simps seen_like_eq has_like_rows simp del: not_None_eq split: option.splits)

text \<open>A job that finds the pending value of an unlike and no row.\<close>

lemma alone_job_unliked:
  fixes w :: "'r app"
  assumes "redis R" and "distinct (map like_key (likes (committed w)))"
    and "r_get R (kv w) (post_like_key p a) = Some ''0''" and "\<not> has_like (committed w) p a"
  shows "\<not> seen_like R p a (snd (alone (like_thread R p a (Job now [post_like_key p a])) w))"
proof -
  let ?L = "likes (committed w)"
  have none: "pair_rows p a ?L = []" using assms(4) by (simp add: has_like_rows)
  have ch: "like_changes ?L ?L ?L = ?L" by (auto simp: like_changes_def)
  have del: "r_get R (r_delete R k s) k = None" for k s by (simp add: r_get_def redis.lookup_delete [OF assms(1)])
  show ?thesis
    using assms(2,4)
    by (simp add: alone_bindT post_like_syncT_def sync_keysT_Cons commit_likesT_def next_view_def one_or_none_rows none ch
        assms(3) Let_def seen_like_eq del on_db_def commit_def rollback_def
        has_like_def del: sync_keysT.simps(2))
qed

text \<open>A request whose snapshot is older than the job and whose GET is later.\<close>

lemma stale_reply:
  fixes w :: "'r app"
  assumes "redis R" and "session_ok coll w" and "working w = committed w"
    and "r_get R (kv w) (post_like_key p a) = Some ''1''" and "\<not> has_like (committed w) p a"
    and "call \<in> {Show, Unlike}"
  shows "play [1, 0, 0, 0, 0, 0, 1, 1] (map (like_thread R p a) [Job now [post_like_key p a], call], w) =
    ([Done (Inr Synced), Done (Inr (if call = Show then Shown False else Unliked))], job_done R now p a w)"
proof -
  let ?job = "like_thread R p a (Job now [post_like_key p a])"
  have none: "pair_rows p a (likes (committed w)) = []" using assms(5) by (simp add: has_like_rows)
  define t where "t = (case like_thread R p a call of Trip f g \<Rightarrow> g w | Done r \<Rightarrow> Done r)"
  have "play [1] ([?job, like_thread R p a call], w) = ([?job, t], w)"
    using assms(6) by (auto simp: t_def)
  moreover have "play [0, 0, 0, 0, 0] ([?job, t], w) = ([Done (Inr Synced), t], job_done R now p a w)"
    by (rule goes_job [OF assms(2-5)])
  moreover have "play [1, 1] ([Done (Inr Synced), t], job_done R now p a w) =
      ([Done (Inr Synced), Done (Inr (if call = Show then Shown False else Unliked))], job_done R now p a w)"
    using assms(6) by (auto simp: t_def get_likeT_def job_done_sel [OF assms(1)] one_or_none_rows none)
  ultimately have "play ([1] @ [0, 0, 0, 0, 0] @ [1, 1]) ([?job, like_thread R p a call], w) =
      ([Done (Inr Synced), Done (Inr (if call = Show then Shown False else Unliked))], job_done R now p a w)"
    by (simp only: play_def fold_append o_apply)
  then show ?thesis by (simp only: append_Cons append_Nil list.map)
qed

section \<open>Properties\<close>

text \<open>
  C16.  Likes and overlapping jobs.  However many jobs run at the same time, whatever keys each of them finds, and whatever
  else happens (likes and unlikes of others, other requests, time): as long as a user does not touch the like of a post,
  the like that counts (the pending value, and without one the committed table) stays the same, and when a job that
  visited the pair succeeds, the table says it.  If the table says it from the beginning, every detail page shows it too,
  whatever runs between the trips of its request; for the other case see the next property.
\<close>

theorem overlapping_jobs_keep_likes:
  fixes w :: "'r app"
  assumes "redis R" and "session_ok coll w" and "working w = committed w" and "like_keys_ok R (kv w)"
    and "Unlike \<notin> set calls" and "\<And>now ks k. Job now ks \<in> set calls \<Longrightarrow> k \<in> set ks \<Longrightarrow> \<exists>p a. k = post_like_key p a"
    and "runs (quiet_step R p a) (map (like_thread R p a) calls, w) (ts, w')"
  shows "seen_like R p a w' = seen_like R p a w \<and>
    (\<forall>k<length calls. \<forall>now ks. calls ! k = Job now ks \<and> ts ! k = Done (Inr Synced) \<and> post_like_key p a \<in> set ks \<longrightarrow>
       has_like (committed w') p a = seen_like R p a w) \<and>
    (\<forall>k<length calls. \<forall>r. has_like (committed w) p a = seen_like R p a w \<and> calls ! k = Show \<and> ts ! k = Done r \<longrightarrow>
       r = Inr (Shown (seen_like R p a w)))"
proof -
  let ?b = "seen_like R p a w" and ?ts = "map (like_thread R p a) calls"
  let ?Q = "\<lambda>k r s. (\<forall>now ks. calls ! k = Job now ks \<and> r = Inr Synced \<and> post_like_key p a \<in> set ks \<longrightarrow>
      has_like (committed s) p a = ?b) \<and> (has_like (committed w) p a = ?b \<longrightarrow> calls ! k = Show \<longrightarrow> r = Inr (Shown ?b))"
  note rg = quiet_rely [OF assms(1), of p a ?b]
  have "distinct (map like_key (likes (committed w)))"
    using session_like_keys [OF assms(2)] assms(3) by simp
  then have J: "displays R p a ?b w"
    using assms(4) like_key_prefixed [of p a] distinct_pair_rows [of "likes (committed w)" p a]
    by (cases "r_lookup R (kv w) (post_like_key p a)") (auto simp: displays_def pending_ok_def like_keys_ok_def)
  have sat: "sat (displays R p a ?b) (rows_settle p a ?b) (\<lambda>_ _ _. True) (?Q k) (?ts ! k) w" if "k < length ?ts" for k
  proof -
    have "calls ! k \<in> set calls" using that by simp
    then have "calls ! k \<noteq> Unlike"
      and "\<And>now ks x. calls ! k = Job now ks \<Longrightarrow> x \<in> set ks \<Longrightarrow> \<exists>p a. x = post_like_key p a"
      using assms(5,6) by metis+
    from sat_like_thread [OF assms(1) this] show ?thesis using that by simp
  qed
  have len: "length ts = length calls" using runs_length [OF assms(7)] by simp
  have "seen_like R p a w' = ?b"
    using rely_guarantee.sat_runs [OF rg assms(7) J sat] by (simp add: displays_def)
  moreover have "?Q k r w'" if "k < length calls" "ts ! k = Done r" for k r
    using rely_guarantee.sat_done [OF rg assms(7) J sat, of k r] that len by simp
  ultimately show ?thesis by blast
qed

theorem overlapping_jobs_keep_likes_witness:
  "let job = Job 9 [post_like_key 5 7];
       c = play [0, 1, 0, 1, 0, 1, 0, 1, 0, 1] (map (like_thread ref_redis 5 7) [job, job], demo_like_world)
   in seen_like ref_redis 5 7 (snd c)"
proof -
  let ?job = "Job 9 [post_like_key 5 7]"
  let ?c = "play [0, 1, 0, 1, 0, 1, 0, 1, 0, 1] (map (like_thread ref_redis 5 7) [?job, ?job], demo_like_world)"
  obtain ts w' where c: "?c = (ts, w')" by (rule prod.exhaust)
  have r: "runs (quiet_step ref_redis 5 7) (map (like_thread ref_redis 5 7) [?job, ?job], demo_like_world) (ts, w')"
    unfolding c [symmetric] by (rule play_runs)
  have w: "working demo_like_world = committed demo_like_world"
    by (simp add: demo_like_world_def Let_def)
  have "seen_like ref_redis 5 7 w' = seen_like ref_redis 5 7 demo_like_world"
    by (rule overlapping_jobs_keep_likes [OF ref_redis_ok demo_like_world_ok(1) w demo_like_world_ok(2) _ _ r,
        THEN conjunct1]) auto
  moreover have "seen_like ref_redis 5 7 demo_like_world"
    by (simp add: seen_like_eq demo_like_world_ok(3))
  ultimately show ?thesis unfolding Let_def c by simp
qed

text \<open>
  C17.  A request loses sight of a like while the job stores it.  The user likes the post, the value is still pending.
  The request's transaction takes its snapshot at \<open>get_current_user\<close>; the job writes the row, commits and deletes the key;
  then the request finds no pending value and falls back to its old snapshot, which does not have the row.  The
  detail page shows the post as not liked, although the like counts before and after.  And \<open>unlike_post\<close> returns without
  doing anything: the user is told that the like is gone, and it is in the table.  One after the other, in either
  order, the same two requests leave the post not liked.
\<close>

theorem stale_snapshot_loses_unlike:
  fixes w :: "'r app" and now :: time
  assumes "redis R" and "session_ok coll w" and "working w = committed w"
    and "r_get R (kv w) (post_like_key p (user_id me)) = Some ''1''" and "\<not> has_like (committed w) p (user_id me)"
  defines "job \<equiv> Job now [post_like_key p (user_id me)]" and "go \<equiv> like_thread R p (user_id me)"
    and "late \<equiv> [1, 0, 0, 0, 0, 0, 1, 1]"
  shows "seen_like R p (user_id me) w \<and>
    (\<exists>w'. play late ([go job, go Show], w) = ([Done (Inr Synced), Done (Inr (Shown False))], w') \<and>
          play late ([go job, go Unlike], w) = ([Done (Inr Synced), Done (Inr Unliked)], w') \<and>
          seen_like R p (user_id me) w' \<and> has_like (committed w') p (user_id me) \<and>
          \<not> seen_like R p (user_id me) (snd (unlike_post R p me w'))) \<and>
    (let w1 = snd (unlike_post R p me w); w2 = snd (alone (go job) w1)
     in \<not> seen_like R p (user_id me) w1 \<and> \<not> seen_like R p (user_id me) w2)"
proof -
  let ?a = "user_id me" and ?w' = "job_done R now p (user_id me) w"
  note stored = job_done_sel [OF assms(1), where now = now and p = p and a = ?a and w = w]
  have late: "play late ([go job, go Show], w) = ([Done (Inr Synced), Done (Inr (Shown False))], ?w')"
    "play late ([go job, go Unlike], w) = ([Done (Inr Synced), Done (Inr Unliked)], ?w')"
    using stale_reply [OF assms(1-5), where call = Show and now = now] stale_reply [OF assms(1-5), where call = Unlike and now = now]
    by (simp_all add: late_def go_def job_def del: play_simps like_thread.simps)
  have w: "seen_like R p ?a w" using assms(4) by (simp add: seen_like_eq)
  then have u: "unlike_post R p me w = (Inr (), delete_like R p ?a w)"
    using unlike_liked [OF assms(3)] assms(5) by (simp add: has_like_rows)
  have zero: "r_get R (kv (delete_like R p ?a v)) (post_like_key p ?a) = Some ''0''" for v
    by (simp add: delete_like_def r_get_def redis.lookup_set [OF assms(1)])
  have w': "seen_like R p ?a ?w'" using stored(1,2) by (simp add: seen_like_eq)
  have "snd (unlike_post R p me ?w') = delete_like R p ?a ?w'"
    using unlike_liked [OF stored(3) stored(4) w'] assms(5) by (simp add: has_like_rows)
  then have again: "\<not> seen_like R p ?a (snd (unlike_post R p me ?w'))" using zero by (simp add: seen_like_eq)
  have "\<not> seen_like R p ?a (snd (alone (go job) (delete_like R p ?a w)))"
    unfolding go_def job_def using session_like_keys [OF assms(2)] assms(3,5) zero
    by (intro alone_job_unliked [OF assms(1)]) (simp_all add: delete_like_def)
  with w u w' late stored(2) again zero show ?thesis by (auto simp: Let_def seen_like_eq)
qed

theorem stale_snapshot_loses_unlike_witness:
  "fst (play [1, 0, 0, 0, 0, 0, 1, 1]
     (map (like_thread ref_redis 5 7) [Job 9 [post_like_key 5 7], Show], demo_like_world)) =
   [Done (Inr Synced), Done (Inr (Shown False))]"
proof -
  have w: "working demo_like_world = committed demo_like_world" "\<not> has_like (committed demo_like_world) 5 7"
    by (simp_all add: demo_like_world_def Let_def has_like_def like_key_def)
  have a: "user_id (demo_user 7 ''a@x'') = 7" by (simp add: demo_user_def)
  from stale_snapshot_loses_unlike [OF ref_redis_ok demo_like_world_ok(1) w(1), of 5 "demo_user 7 ''a@x''" 9]
  show ?thesis by (auto simp: a w(2) demo_like_world_ok(3) simp del: play_simps like_thread.simps)
qed

end
