(* ===== verification/Sync.thy ===== *)
theory Sync
  imports PyString
begin

text \<open>
  \<^verbatim>\<open>infrastructure/database/synchronize.py\<close>: at start the differences between models and database are flattened
  into one list of operations and applied one by one.  Alembic's autogenerate (what differs) and its
  executor are parameters.
\<close>

text \<open>
  An operation of autogenerate is a bundle with an attribute \<^verbatim>\<open>ops\<close>, or a single one, of which
  the code reads the class name and five optional names.
\<close>

record op_info =
  op_class :: string
  op_table_name :: "string option"
  op_column_object_name :: "string option"
  op_column_name :: "string option"
  op_index_name :: "string option"
  op_constraint_name :: "string option"

datatype migrate_op = Single op_info | Bundle "migrate_op list"

definition ALEMBIC_VERSION_TABLE :: string where
  "ALEMBIC_VERSION_TABLE = ''alembic_version''"

definition include_object :: "string option \<Rightarrow> string \<Rightarrow> bool" where
  "include_object name ty \<longleftrightarrow> \<not> (ty = ''table'' \<and> name = Some ALEMBIC_VERSION_TABLE)"

text \<open>The number of constructors, the measure of the loop below.\<close>

fun weight :: "migrate_op \<Rightarrow> nat" where
  "weight (Single i) = 1"
| "weight (Bundle cs) = Suc (sum_list (map weight cs))"

text \<open>The loop over \<^verbatim>\<open>pending\<close>: the children of a bundle take its place at the front.\<close>

function collect_loop :: "migrate_op list \<Rightarrow> op_info list \<Rightarrow> op_info list" where
  "collect_loop [] operations = operations"
| "collect_loop (Bundle children # pending) operations = collect_loop (children @ pending) operations"
| "collect_loop (Single i # pending) operations = collect_loop pending (operations @ [i])"
  by pat_completeness auto

termination by (relation "measure (\<lambda>(ps, _). sum_list (map weight ps))") auto

definition collect_operations :: "migrate_op list option \<Rightarrow> op_info list" where
  "collect_operations upgrade_ops = (case upgrade_ops of None \<Rightarrow> [] | Some ops \<Rightarrow> collect_loop ops [])"

text \<open>Python's truth of an optional name: neither missing nor empty.\<close>

definition truthy :: "string option \<Rightarrow> bool" where
  "truthy x \<longleftrightarrow> x \<noteq> None \<and> x \<noteq> Some []"

definition part :: "string \<Rightarrow> string option \<Rightarrow> string list" where
  "part label x = (if truthy x then [label @ ''='' @ the x] else [])"

definition describe :: "op_info \<Rightarrow> string" where
  "describe i =
     join '' '' ([op_class i] @ part ''table'' (op_table_name i)
       @ part ''column'' (if truthy (op_column_object_name i) then op_column_object_name i else op_column_name i)
       @ part ''index'' (op_index_name i) @ part ''constraint'' (op_constraint_name i))"

text \<open>
  \<open>produce\<close> is \<^verbatim>\<open>produce_migrations(context, Base.metadata).upgrade_ops\<close>: what differs on a schema, given
  the filter the context was configured with.
\<close>

type_synonym 'd autogenerate = "(string option \<Rightarrow> string \<Rightarrow> bool) \<Rightarrow> 'd \<Rightarrow> migrate_op list option"

definition preview_synchronize :: "'d autogenerate \<Rightarrow> 'd \<Rightarrow> string list" where
  "preview_synchronize produce d = map describe (collect_operations (produce include_object d))"

text \<open>
  \<open>synchronize_database\<close>: \<open>invoke\<close> executes one operation on the schema and may fail; the log gets one line
  per operation before it is executed, and one at the end.  MySQL commits every DDL statement, so what was executed stays.
\<close>

datatype sync_event = Up_to_date | Apply string | Completed int

record 'd sync_world =
  schema :: 'd
  sync_log :: "sync_event list"

definition log_sync :: "sync_event \<Rightarrow> (('d, 'x) sync_world_scheme, string, unit) prog" where
  "log_sync e = modifyP (\<lambda>w. w\<lparr>sync_log := sync_log w @ [e]\<rparr>)"

fun apply_all :: "(op_info \<Rightarrow> 'd \<Rightarrow> string + 'd) \<Rightarrow> op_info list \<Rightarrow> (('d, 'x) sync_world_scheme, string, unit) prog" where
  "apply_all invoke [] = returnP ()"
| "apply_all invoke (i # is) =
     bindP (log_sync (Apply (describe i))) (\<lambda>_.
     bindP (\<lambda>w. case invoke i (schema w) of Inl e \<Rightarrow> (Inl e, w) | Inr d \<Rightarrow> (Inr (), w\<lparr>schema := d\<rparr>)) (\<lambda>_.
     apply_all invoke is))"

definition synchronize_database ::
  "'d autogenerate \<Rightarrow> (op_info \<Rightarrow> 'd \<Rightarrow> string + 'd) \<Rightarrow> (('d, 'x) sync_world_scheme, string, int) prog" where
  "synchronize_database produce invoke =
     bindP (getsP (\<lambda>w. collect_operations (produce include_object (schema w)))) (\<lambda>operations.
     if operations = [] then bindP (log_sync Up_to_date) (\<lambda>_. returnP 0)
     else bindP (apply_all invoke operations) (\<lambda>_.
          bindP (log_sync (Completed (int (length operations)))) (\<lambda>_.
          returnP (int (length operations)))))"

section \<open>Lemmas\<close>

text \<open>The reference: the single operations of the forest, in order.\<close>

fun leaves :: "migrate_op \<Rightarrow> op_info list" where
  "leaves (Single i) = [i]"
| "leaves (Bundle cs) = concat (map leaves cs)"

lemma collect_loop_leaves: "collect_loop ps acc = acc @ concat (map leaves ps)"
  by (induction ps acc rule: collect_loop.induct) simp_all

text \<open>Running a list of operations: each on the schema the one before left.\<close>

fun run_ops :: "(op_info \<Rightarrow> 'd \<Rightarrow> string + 'd) \<Rightarrow> op_info list \<Rightarrow> 'd \<Rightarrow> 'd option" where
  "run_ops invoke [] d = Some d"
| "run_ops invoke (i # is) d = (case invoke i d of Inl _ \<Rightarrow> None | Inr d' \<Rightarrow> run_ops invoke is d')"

lemma apply_all_run:
  "case apply_all invoke ops w of
     (Inr _, w') \<Rightarrow> run_ops invoke ops (schema w) = Some (schema w') \<and> sync_log w' = sync_log w @ map (Apply \<circ> describe) ops
   | (Inl e, w') \<Rightarrow> \<exists>k<length ops. run_ops invoke (take k ops) (schema w) = Some (schema w') \<and>
       invoke (ops ! k) (schema w') = Inl e \<and> sync_log w' = sync_log w @ map (Apply \<circ> describe) (take (Suc k) ops)"
proof (induction ops arbitrary: w)
  case Nil
  then show ?case by (simp add: prog_simps log_sync_def)
next
  case (Cons i ops)
  let ?w = "w\<lparr>sync_log := sync_log w @ [Apply (describe i)]\<rparr>"
  show ?case
  proof (cases "invoke i (schema w)")
    case (Inl e)
    then show ?thesis by (auto simp: prog_simps log_sync_def intro!: exI [of _ 0])
  next
    case (Inr d)
    obtain r w' where a: "apply_all invoke ops (?w\<lparr>schema := d\<rparr>) = (r, w')" by (rule prod.exhaust)
    then have run: "apply_all invoke (i # ops) w = (r, w')" using Inr by (simp add: prog_simps log_sync_def)
    show ?thesis
    proof (cases r)
      case (Inl e)
      then obtain k where "k < length ops" "run_ops invoke (take k ops) d = Some (schema w')"
        "invoke (ops ! k) (schema w') = Inl e" "sync_log w' = sync_log w @ [Apply (describe i)] @ map (Apply \<circ> describe) (take (Suc k) ops)"
        using Cons.IH [of "?w\<lparr>schema := d\<rparr>"] a by auto
      then show ?thesis
        using run Inl Inr by (auto intro!: exI [of _ "Suc k"])
    next
      case (Inr u)
      then show ?thesis
        using Cons.IH [of "?w\<lparr>schema := d\<rparr>"] a run \<open>invoke i (schema w) = Inr d\<close> by auto
    qed
  qed
qed

text \<open>How a start ends, from the outcome of applying the list.\<close>

fun sync_end :: "op_info list \<Rightarrow> ('d, 'x) sync_world_scheme \<Rightarrow> (string + unit) \<times> ('d, 'x) sync_world_scheme \<Rightarrow>
   (string + int) \<times> ('d, 'x) sync_world_scheme" where
  "sync_end is w (Inl e, w1) = (Inl e, w1)"
| "sync_end is w (Inr _, w1) =
     (if is = [] then (Inr 0, w\<lparr>sync_log := sync_log w @ [Up_to_date]\<rparr>)
      else (Inr (int (length is)), w1\<lparr>sync_log := sync_log w1 @ [Completed (int (length is))]\<rparr>))"

lemma synchronize_run:
  "synchronize_database produce invoke w =
     (let is = collect_operations (produce include_object (schema w)) in sync_end is w (apply_all invoke is w))"
  by (cases "apply_all invoke (collect_operations (produce include_object (schema w))) w"; cases "fst (apply_all invoke (collect_operations (produce include_object (schema w))) w)")
    (auto simp: synchronize_database_def log_sync_def prog_simps Let_def)

lemma sync_end_cases:
  assumes "sync_end ops w (apply_all invoke ops w) = (r, w')"
  shows "(\<exists>e. r = Inl e \<and> (\<exists>k<length ops. run_ops invoke (take k ops) (schema w) = Some (schema w') \<and>
       invoke (ops ! k) (schema w') = Inl e \<and> sync_log w' = sync_log w @ map (Apply \<circ> describe) (take (Suc k) ops))) \<or>
     r = Inr (int (length ops)) \<and> run_ops invoke ops (schema w) = Some (schema w') \<and>
       sync_log w' = sync_log w @ map (Apply \<circ> describe) ops @ [if ops = [] then Up_to_date else Completed (int (length ops))]"
proof -
  obtain r1 w1 where a: "apply_all invoke ops w = (r1, w1)" by (rule prod.exhaust)
  show ?thesis
  proof (cases r1)
    case (Inl e)
    then show ?thesis using assms apply_all_run [where invoke = invoke and ops = ops and w = w] a by auto
  next
    case (Inr u)
    then show ?thesis using assms apply_all_run [where invoke = invoke and ops = ops and w = w] a by (cases ops) auto
  qed
qed

section \<open>Properties\<close>

text \<open>
  C37.  Synchronisation.  The worklist loop ends and lists exactly the single operations, in the order
  the bundles nest them; what the preview shows is what a start would log and apply.  A
  start that succeeds has applied all of them in that order and returns their number; one that fails
  has applied a proper prefix, and the log names the operation that failed last.
\<close>

theorem synchronize_in_order:
  assumes "synchronize_database produce invoke w = (r, w')" and "produce include_object (schema w) = Some ops"
  shows "collect_operations (Some ops) = concat (map leaves ops) \<and>
    (\<forall>n. r = Inr n \<longrightarrow> n = int (length (concat (map leaves ops))) \<and>
       run_ops invoke (concat (map leaves ops)) (schema w) = Some (schema w') \<and>
       sync_log w' = sync_log w @ map Apply (preview_synchronize produce (schema w)) @
         [if n = 0 then Up_to_date else Completed n]) \<and>
    (\<forall>e. r = Inl e \<longrightarrow> (\<exists>k<length (concat (map leaves ops)).
       run_ops invoke (take k (concat (map leaves ops))) (schema w) = Some (schema w') \<and>
       invoke (concat (map leaves ops) ! k) (schema w') = Inl e \<and>
       sync_log w' = sync_log w @ map Apply (take (Suc k) (preview_synchronize produce (schema w)))))"
proof -
  let ?is = "concat (map leaves ops)"
  have c: "collect_operations (Some ops) = ?is" by (simp add: collect_operations_def collect_loop_leaves)
  have p: "preview_synchronize produce (schema w) = map describe ?is"
    by (simp add: preview_synchronize_def assms(2) c)
  have run: "sync_end ?is w (apply_all invoke ?is w) = (r, w')"
    using assms(1) by (simp add: synchronize_run assms(2) c Let_def)
  have n: "int (length ?is) = 0 \<longleftrightarrow> ?is = []" by simp
  from sync_end_cases [OF run] show ?thesis
  proof (elim disjE)
    assume "\<exists>e. r = Inl e \<and> (\<exists>k<length ?is. run_ops invoke (take k ?is) (schema w) = Some (schema w') \<and>
       invoke (?is ! k) (schema w') = Inl e \<and> sync_log w' = sync_log w @ map (Apply \<circ> describe) (take (Suc k) ?is))"
    then show ?thesis by (auto simp only: c p take_map map_map sum.simps)
  next
    assume "r = Inr (int (length ?is)) \<and> run_ops invoke ?is (schema w) = Some (schema w') \<and>
       sync_log w' = sync_log w @ map (Apply \<circ> describe) ?is @ [if ?is = [] then Up_to_date else Completed (int (length ?is))]"
    then show ?thesis by (auto simp only: c p map_map sum.simps n append_assoc)
  qed
qed

theorem synchronize_in_order_witness:
  "let i = \<lparr>op_class = ''AddColumnOp'', op_table_name = Some ''posts'', op_column_object_name = Some ''x'',
            op_column_name = None, op_index_name = None, op_constraint_name = None\<rparr>
   in collect_operations (Some [Bundle [Single i, Bundle []], Single i]) = [i, i] \<and>
      fst (synchronize_database (\<lambda>_ _. Some [Bundle [Single i, Bundle []], Single i]) (\<lambda>_ d. Inr (Suc d))
        \<lparr>schema = 0, sync_log = []\<rparr>) = Inr 2"
proof -
  define i where "i = \<lparr>op_class = ''AddColumnOp'', op_table_name = Some ''posts'', op_column_object_name = Some ''x'',
            op_column_name = None, op_index_name = None, op_constraint_name = None\<rparr>"
  let ?ops = "[Bundle [Single i, Bundle []], Single i]"
  obtain r w' where r: "synchronize_database (\<lambda>_ _. Some ?ops) (\<lambda>_ d. Inr (Suc d)) \<lparr>schema = 0, sync_log = []\<rparr> = (r, w')"
    by (rule prod.exhaust)
  from synchronize_in_order [OF this refl] have "collect_operations (Some ?ops) = [i, i]" "r = Inr 2"
    by (cases r; force)+
  with r show ?thesis by (simp add: i_def [symmetric])
qed

end
