(* ===== verification/Config.thy ===== *)
theory Config
  imports Auth Storage
begin

text \<open>
  \<^verbatim>\<open>core/config.py\<close>: the settings, their normalisation and validation at start, and the values derived
  from them.  Values are texts of code points; pydantic's conversion of the environment's text to
  integers and booleans happens before this model starts.  The last section reads the settings the
  other components take (\<open>jwt_settings\<close>, \<open>auth_settings\<close>, \<open>storage_settings\<close>) off the whole.
\<close>

section \<open>Fields\<close>

definition insecure_secret_key :: utext where
  "insecure_secret_key = u ''change-me-in-production-this-is-not-a-secret''"

definition MIN_SECRET_KEY_BYTES :: nat where
  "MIN_SECRET_KEY_BYTES = 32"

definition DB_SYNCHRONIZE_ALLOWED_ENVIRONMENTS :: "string set" where
  "DB_SYNCHRONIZE_ALLOWED_ENVIRONMENTS = {''local'', ''dev''}"

text \<open>
  \<open>R2_REGION\<close> is declared \<^verbatim>\<open>str\<close> in the source; it is an option here because normalisation
  can make it \<^verbatim>\<open>None\<close>, which the type check then refuses.
\<close>

record settings =
  ENVIRONMENT :: string
  PROJECT_NAME :: utext
  API_V1_PREFIX :: utext
  SECRET_KEY :: utext
  JWT_ALGORITHM :: utext
  ACCESS_TOKEN_EXPIRE_MINUTES :: int
  REFRESH_TOKEN_EXPIRE_DAYS :: int
  CORS_ORIGINS :: utext
  COOKIE_SECURE :: bool
  COOKIE_SAMESITE :: string
  LOGIN_RATE_LIMIT_MAX_ATTEMPTS :: int
  LOGIN_RATE_LIMIT_WINDOW_SECONDS :: int
  MYSQL_HOST :: utext
  MYSQL_PORT :: int
  MYSQL_USER :: utext
  MYSQL_PASSWORD :: utext
  MYSQL_DB :: utext
  DB_POOL_SIZE :: int
  DB_MAX_OVERFLOW :: int
  DB_POOL_TIMEOUT :: int
  DB_ECHO :: bool
  DB_SYNCHRONIZE :: bool
  THREADPOOL_MAX_WORKERS :: int
  REDIS_HOST :: utext
  REDIS_PORT :: int
  REDIS_PASSWORD :: "utext option"
  REDIS_DB :: int
  STORAGE_PROVIDER :: string
  S3_ENDPOINT_URL :: "utext option"
  S3_ACCESS_KEY :: "utext option"
  S3_SECRET_KEY :: "utext option"
  S3_BUCKET :: "utext option"
  S3_REGION :: utext
  R2_ACCOUNT_ID :: "utext option"
  R2_ACCESS_KEY_ID :: "utext option"
  R2_SECRET_ACCESS_KEY :: "utext option"
  R2_BUCKET_NAME :: "utext option"
  R2_PUBLIC_URL :: "utext option"
  R2_REGION :: "utext option"

text \<open>The values of an empty environment.\<close>

definition default_settings :: settings where
  "default_settings = \<lparr>
     ENVIRONMENT = ''local'', PROJECT_NAME = u ''community-backend'', API_V1_PREFIX = u ''/api/v1'',
     SECRET_KEY = insecure_secret_key, JWT_ALGORITHM = u ''HS256'',
     ACCESS_TOKEN_EXPIRE_MINUTES = 30, REFRESH_TOKEN_EXPIRE_DAYS = 14,
     CORS_ORIGINS = u ''http://localhost:3000'', COOKIE_SECURE = False, COOKIE_SAMESITE = ''lax'',
     LOGIN_RATE_LIMIT_MAX_ATTEMPTS = 5, LOGIN_RATE_LIMIT_WINDOW_SECONDS = 300,
     MYSQL_HOST = u ''localhost'', MYSQL_PORT = 3306, MYSQL_USER = u ''app'', MYSQL_PASSWORD = u ''app'',
     MYSQL_DB = u ''community'', DB_POOL_SIZE = 20, DB_MAX_OVERFLOW = 30, DB_POOL_TIMEOUT = 30,
     DB_ECHO = False, DB_SYNCHRONIZE = False, THREADPOOL_MAX_WORKERS = 40,
     REDIS_HOST = u ''localhost'', REDIS_PORT = 6379, REDIS_PASSWORD = None, REDIS_DB = 0,
     STORAGE_PROVIDER = ''s3'', S3_ENDPOINT_URL = None, S3_ACCESS_KEY = None, S3_SECRET_KEY = None,
     S3_BUCKET = None, S3_REGION = u ''ap-northeast-2'', R2_ACCOUNT_ID = None, R2_ACCESS_KEY_ID = None,
     R2_SECRET_ACCESS_KEY = None, R2_BUCKET_NAME = None, R2_PUBLIC_URL = None, R2_REGION = Some (u ''auto'')\<rparr>"

section \<open>Normalisation and field checks\<close>

definition empty_str_to_none :: "utext option \<Rightarrow> utext option" where
  "empty_str_to_none v = (case v of Some t \<Rightarrow> if strip_text t = [] then None else Some t | None \<Rightarrow> None)"

definition normalise :: "settings \<Rightarrow> settings" where
  "normalise s = s\<lparr>
     REDIS_PASSWORD := empty_str_to_none (REDIS_PASSWORD s),
     S3_ENDPOINT_URL := empty_str_to_none (S3_ENDPOINT_URL s),
     S3_ACCESS_KEY := empty_str_to_none (S3_ACCESS_KEY s),
     S3_SECRET_KEY := empty_str_to_none (S3_SECRET_KEY s),
     S3_BUCKET := empty_str_to_none (S3_BUCKET s),
     R2_ACCOUNT_ID := empty_str_to_none (R2_ACCOUNT_ID s),
     R2_ACCESS_KEY_ID := empty_str_to_none (R2_ACCESS_KEY_ID s),
     R2_SECRET_ACCESS_KEY := empty_str_to_none (R2_SECRET_ACCESS_KEY s),
     R2_BUCKET_NAME := empty_str_to_none (R2_BUCKET_NAME s),
     R2_PUBLIC_URL := empty_str_to_none (R2_PUBLIC_URL s),
     R2_REGION := empty_str_to_none (R2_REGION s)\<rparr>"

text \<open>The names of the fields whose declared type (\<^verbatim>\<open>Literal\<close>, \<^verbatim>\<open>str\<close>) or bound (\<^verbatim>\<open>ge\<close>) is violated.\<close>

definition field_errors :: "settings \<Rightarrow> string list" where
  "field_errors s = map snd (filter fst [
     (ENVIRONMENT s \<notin> {''local'', ''dev'', ''staging'', ''production''}, ''ENVIRONMENT''),
     (ACCESS_TOKEN_EXPIRE_MINUTES s < 1, ''ACCESS_TOKEN_EXPIRE_MINUTES''),
     (REFRESH_TOKEN_EXPIRE_DAYS s < 1, ''REFRESH_TOKEN_EXPIRE_DAYS''),
     (COOKIE_SAMESITE s \<notin> {''lax'', ''strict'', ''none''}, ''COOKIE_SAMESITE''),
     (LOGIN_RATE_LIMIT_MAX_ATTEMPTS s < 1, ''LOGIN_RATE_LIMIT_MAX_ATTEMPTS''),
     (LOGIN_RATE_LIMIT_WINDOW_SECONDS s < 1, ''LOGIN_RATE_LIMIT_WINDOW_SECONDS''),
     (DB_POOL_SIZE s < 1, ''DB_POOL_SIZE''),
     (DB_MAX_OVERFLOW s < 0, ''DB_MAX_OVERFLOW''),
     (DB_POOL_TIMEOUT s < 1, ''DB_POOL_TIMEOUT''),
     (THREADPOOL_MAX_WORKERS s < 1, ''THREADPOOL_MAX_WORKERS''),
     (STORAGE_PROVIDER s \<notin> {''r2'', ''s3''}, ''STORAGE_PROVIDER''),
     (R2_REGION s = None, ''R2_REGION'')])"

section \<open>Validators\<close>

datatype config_error =
    FieldErrors "string list"
  | InsecureSecretKey
  | ShortSecretKey nat
  | PoolCapacity int int
  | SynchronizeEnvironment string
  | CookiePolicy

definition is_production :: "settings \<Rightarrow> bool" where
  "is_production s \<longleftrightarrow> ENVIRONMENT s = ''production''"

definition validate_secret_key :: "settings \<Rightarrow> config_error + settings" where
  "validate_secret_key s =
     (if is_production s \<and> SECRET_KEY s = insecure_secret_key then Inl InsecureSecretKey
      else if length (utf8 (SECRET_KEY s)) < MIN_SECRET_KEY_BYTES
      then Inl (ShortSecretKey (length (utf8 (SECRET_KEY s))))
      else Inr s)"

definition validate_pool_capacity :: "settings \<Rightarrow> config_error + settings" where
  "validate_pool_capacity s =
     (let capacity = DB_POOL_SIZE s + DB_MAX_OVERFLOW s in
      if THREADPOOL_MAX_WORKERS s > capacity then Inl (PoolCapacity (THREADPOOL_MAX_WORKERS s) capacity)
      else Inr s)"

definition validate_db_synchronize :: "settings \<Rightarrow> config_error + settings" where
  "validate_db_synchronize s =
     (if DB_SYNCHRONIZE s \<and> ENVIRONMENT s \<notin> DB_SYNCHRONIZE_ALLOWED_ENVIRONMENTS
      then Inl (SynchronizeEnvironment (ENVIRONMENT s)) else Inr s)"

definition validate_cookie_policy :: "settings \<Rightarrow> config_error + settings" where
  "validate_cookie_policy s =
     (if COOKIE_SAMESITE s = ''none'' \<and> \<not> COOKIE_SECURE s then Inl CookiePolicy else Inr s)"

text \<open>\<^verbatim>\<open>Settings()\<close>: normalise, check the fields, then the validators in the order they are declared.\<close>

definition Settings :: "settings \<Rightarrow> config_error + settings" where
  "Settings raw =
     (let s = normalise raw in
      if field_errors s \<noteq> [] then Inl (FieldErrors (field_errors s))
      else case validate_secret_key s of Inl e \<Rightarrow> Inl e | Inr s \<Rightarrow>
           case validate_pool_capacity s of Inl e \<Rightarrow> Inl e | Inr s \<Rightarrow>
           case validate_db_synchronize s of Inl e \<Rightarrow> Inl e | Inr s \<Rightarrow>
           validate_cookie_policy s)"

section \<open>Derived values\<close>

definition cors_origins :: "settings \<Rightarrow> utext list" where
  "cors_origins s =
     map strip_text (filter (\<lambda>origin. strip_text origin \<noteq> []) (split_on (of_char CHR '','') (CORS_ORIGINS s)))"

text \<open>\<^verbatim>\<open>urllib.parse.quote\<close> with its \<^verbatim>\<open>safe\<close> argument, and \<^verbatim>\<open>quote_plus\<close>.\<close>

definition hex_digit :: "nat \<Rightarrow> char" where
  "hex_digit d = char_of (if d < 10 then 48 + d else 55 + d)"

definition always_safe :: "nat \<Rightarrow> bool" where
  "always_safe b \<longleftrightarrow> 65 \<le> b \<and> b \<le> 90 \<or> 97 \<le> b \<and> b \<le> 122 \<or> 48 \<le> b \<and> b \<le> 57 \<or> b \<in> {95, 46, 45, 126}"

definition quote_byte :: "nat set \<Rightarrow> nat \<Rightarrow> string" where
  "quote_byte safe b =
     (if always_safe b \<or> b \<in> safe then [char_of b] else [CHR ''%'', hex_digit (b div 16), hex_digit (b mod 16)])"

definition quote :: "nat set \<Rightarrow> utext \<Rightarrow> string" where
  "quote safe s = concat (map (quote_byte safe) (utf8 s))"

definition quote_plus :: "utext \<Rightarrow> string" where
  "quote_plus s =
     (if 32 \<notin> set s then quote {} s
      else map (\<lambda>c. if c = CHR '' '' then CHR ''+'' else c) (quote {32} s))"

text \<open>A text inside an ASCII string, as its UTF-8 bytes.\<close>

definition bytes :: "utext \<Rightarrow> string" where
  "bytes t = map char_of (utf8 t)"

definition database_url :: "settings \<Rightarrow> string" where
  "database_url s =
     ''mysql+pymysql://'' @ quote_plus (MYSQL_USER s) @ '':'' @ quote_plus (MYSQL_PASSWORD s) @
     ''@'' @ bytes (MYSQL_HOST s) @ '':'' @ show_int (MYSQL_PORT s) @ ''/'' @ bytes (MYSQL_DB s) @
     ''?charset=utf8mb4''"

definition redis_url :: "settings \<Rightarrow> string" where
  "redis_url s =
     ''redis://'' @ (case REDIS_PASSWORD s of Some p \<Rightarrow> '':'' @ quote_plus p @ ''@'' | None \<Rightarrow> []) @
     bytes (REDIS_HOST s) @ '':'' @ show_int (REDIS_PORT s) @ ''/'' @ show_int (REDIS_DB s)"

section \<open>The settings of the other components\<close>

definition jwt_of :: "settings \<Rightarrow> jwt_settings" where
  "jwt_of s = \<lparr>secret_key = bytes (SECRET_KEY s), jwt_algorithm = bytes (JWT_ALGORITHM s),
     access_token_expire_minutes = nat (ACCESS_TOKEN_EXPIRE_MINUTES s),
     refresh_token_expire_days = nat (REFRESH_TOKEN_EXPIRE_DAYS s)\<rparr>"

definition auth_of :: "settings \<Rightarrow> auth_settings" where
  "auth_of s = \<lparr>a_jwt = jwt_of s, login_rate_limit_max_attempts = LOGIN_RATE_LIMIT_MAX_ATTEMPTS s,
     login_rate_limit_window_seconds = nat (LOGIN_RATE_LIMIT_WINDOW_SECONDS s),
     api_v1_prefix = bytes (API_V1_PREFIX s), cookie_secure = COOKIE_SECURE s,
     cookie_samesite = COOKIE_SAMESITE s\<rparr>"

definition storage_of :: "settings \<Rightarrow> storage_settings" where
  "storage_of s = \<lparr>storage_provider = STORAGE_PROVIDER s,
     s3_endpoint_url = map_option bytes (S3_ENDPOINT_URL s), s3_access_key = map_option bytes (S3_ACCESS_KEY s),
     s3_secret_key = map_option bytes (S3_SECRET_KEY s), s3_bucket = map_option bytes (S3_BUCKET s),
     s3_region = bytes (S3_REGION s), r2_account_id = map_option bytes (R2_ACCOUNT_ID s),
     r2_access_key_id = map_option bytes (R2_ACCESS_KEY_ID s),
     r2_secret_access_key = map_option bytes (R2_SECRET_ACCESS_KEY s),
     r2_bucket_name = map_option bytes (R2_BUCKET_NAME s), r2_region = bytes (the (R2_REGION s))\<rparr>"

section \<open>URL encoding\<close>

text \<open>Python's \<^verbatim>\<open>unquote\<close>, with which SQLAlchemy and redis-py read the credentials of a URL, to bytes.\<close>

definition hex_val :: "char \<Rightarrow> nat option" where
  "hex_val c = (let n = of_char c in
     if 48 \<le> n \<and> n \<le> 57 then Some (n - 48) else if 65 \<le> n \<and> n \<le> 70 then Some (n - 55)
     else if 97 \<le> n \<and> n \<le> 102 then Some (n - 87) else None)"

fun unquote :: "string \<Rightarrow> nat list" where
  "unquote [] = []"
| "unquote (c # cs) =
     (case cs of
        a # b # rest \<Rightarrow>
          (case (c = CHR ''%'', hex_val a, hex_val b) of
             (True, Some x, Some y) \<Rightarrow> (16 * x + y) # unquote rest
           | _ \<Rightarrow> of_char c # unquote cs)
      | _ \<Rightarrow> of_char c # unquote cs)"

declare unquote.simps [simp del]

lemma unquote_Nil [simp]: "unquote [] = []"
  by (simp add: unquote.simps)

lemma unquote_plain: "c \<noteq> CHR ''%'' \<Longrightarrow> unquote (c # cs) = of_char c # unquote cs"
  by (subst unquote.simps) (simp split: list.splits)

lemma hex_val_digit: "d < 16 \<Longrightarrow> hex_val (hex_digit d) = Some d"
  by (simp add: hex_val_def hex_digit_def Let_def)

lemma unquote_hex: "b < 256 \<Longrightarrow> unquote (CHR ''%'' # hex_digit (b div 16) # hex_digit (b mod 16) # r) = b # unquote r"
  by (subst unquote.simps) (simp add: hex_val_digit)

text \<open>What \<open>quote_plus\<close> makes of one byte.\<close>

definition plus_byte :: "nat \<Rightarrow> string" where
  "plus_byte b = (if b = 32 then [CHR ''+''] else quote_byte {} b)"

lemma char_of_space: "char_of (32 :: nat) = CHR '' ''"
  by (simp add: char_of_eq_iff)

lemma div_16_bound: "b < 256 \<Longrightarrow> b div 16 < (16 :: nat)"
  by simp

lemma always_safe_char:
  assumes "always_safe b"
  shows "b < 256" and "char_of b \<notin> {CHR ''%'', CHR '' '', CHR '':'', CHR ''@'', CHR ''/'', CHR ''?'', CHR ''#''}"
proof -
  show "b < 256" using assms by (auto simp: always_safe_def)
  with assms show "char_of b \<notin> {CHR ''%'', CHR '' '', CHR '':'', CHR ''@'', CHR ''/'', CHR ''?'', CHR ''#''}"
    by (auto simp: always_safe_def dest!: arg_cong [where f = "of_char :: char \<Rightarrow> nat"])
qed

lemma hex_digit_char:
  assumes "d < 16"
  shows "hex_digit d \<notin> {CHR ''%'', CHR '' '', CHR '':'', CHR ''@'', CHR ''/'', CHR ''?'', CHR ''#''}"
  using assms by (auto simp: hex_digit_def dest!: arg_cong [where f = "of_char :: char \<Rightarrow> nat"] split: if_splits)

lemma utf8_char_bound: "c < 1114112 \<Longrightarrow> b \<in> set (utf8_char c) \<Longrightarrow> b < 256"
  by (auto simp: utf8_char_def split: if_splits)

lemma utf8_char_space: "32 \<in> set (utf8_char c) \<longleftrightarrow> c = 32"
  by (auto simp: utf8_char_def)

definition unicode :: "utext \<Rightarrow> bool" where
  "unicode t \<longleftrightarrow> (\<forall>c\<in>set t. c < 1114112)"

lemma utf8_bound: "unicode t \<Longrightarrow> b \<in> set (utf8 t) \<Longrightarrow> b < 256"
  by (auto simp: utf8_def unicode_def dest: utf8_char_bound)

lemma utf8_space: "32 \<in> set (utf8 t) \<longleftrightarrow> 32 \<in> set t"
  by (auto simp: utf8_def utf8_char_space)

lemma plus_of_quote_byte:
  assumes "b < 256"
  shows "map (\<lambda>c. if c = CHR '' '' then CHR ''+'' else c) (quote_byte {32} b) = plus_byte b"
  using assms hex_digit_char [OF div_16_bound [OF assms]] hex_digit_char [of "b mod 16"] always_safe_char [of b]
  by (cases "b = 32") (auto simp: quote_byte_def plus_byte_def char_of_space)

lemma quote_plus_bytes:
  assumes "unicode t" shows "quote_plus t = concat (map plus_byte (utf8 t))"
proof (cases "32 \<in> set t")
  case True
  then show ?thesis using utf8_bound [OF assms]
    by (auto simp: quote_plus_def quote_def map_concat plus_of_quote_byte intro!: arg_cong [where f = concat])
next
  case False
  then have "b \<noteq> 32" if "b \<in> set (utf8 t)" for b using that utf8_space by blast
  then show ?thesis using False
    by (auto simp: quote_plus_def quote_def plus_byte_def intro!: arg_cong [where f = concat])
qed

lemma unquote_plus_byte:
  assumes "b < 256" shows "unquote (plus_byte b @ r) = (if b = 32 then 43 else b) # unquote r"
  using assms always_safe_char [of b]
  by (auto simp: plus_byte_def quote_byte_def unquote_hex unquote_plain)

lemma unquote_quote_plus:
  assumes "unicode t"
  shows "unquote (quote_plus t) = map (\<lambda>b. if b = 32 then 43 else b) (utf8 t)"
proof -
  have "unquote (concat (map plus_byte bs)) = map (\<lambda>b. if b = 32 then 43 else b) bs"
    if "\<forall>b\<in>set bs. b < 256" for bs
    using that by (induction bs) (simp_all add: unquote_plus_byte)
  then show ?thesis using utf8_bound [OF assms] by (simp add: quote_plus_bytes [OF assms])
qed

lemma quote_plus_chars:
  assumes "unicode t" and "c \<in> set (quote_plus t)"
  shows "c \<notin> {CHR '':'', CHR ''@'', CHR ''/'', CHR ''?'', CHR ''#''}"
proof -
  obtain b where b: "b \<in> set (utf8 t)" "c \<in> set (plus_byte b)"
    using assms by (auto simp: quote_plus_bytes)
  then have "b < 256" using utf8_bound [OF assms(1)] by simp
  then show ?thesis
    using b(2) always_safe_char [of b] hex_digit_char [OF div_16_bound [OF \<open>b < 256\<close>]] hex_digit_char [of "b mod 16"]
    by (auto simp: plus_byte_def quote_byte_def split: if_splits)
qed

section \<open>Which settings are accepted\<close>

lemma field_errors_empty:
  "field_errors s = [] \<longleftrightarrow>
     ENVIRONMENT s \<in> {''local'', ''dev'', ''staging'', ''production''} \<and> 1 \<le> ACCESS_TOKEN_EXPIRE_MINUTES s \<and>
     1 \<le> REFRESH_TOKEN_EXPIRE_DAYS s \<and> COOKIE_SAMESITE s \<in> {''lax'', ''strict'', ''none''} \<and>
     1 \<le> LOGIN_RATE_LIMIT_MAX_ATTEMPTS s \<and> 1 \<le> LOGIN_RATE_LIMIT_WINDOW_SECONDS s \<and> 1 \<le> DB_POOL_SIZE s \<and>
     0 \<le> DB_MAX_OVERFLOW s \<and> 1 \<le> DB_POOL_TIMEOUT s \<and> 1 \<le> THREADPOOL_MAX_WORKERS s \<and>
     STORAGE_PROVIDER s \<in> {''r2'', ''s3''} \<and> R2_REGION s \<noteq> None"
  unfolding field_errors_def by (simp add: filter_empty_conv not_less del: insert_iff)

lemma Settings_accepts:
  "Settings raw = Inr S \<longleftrightarrow>
     S = normalise raw \<and> field_errors S = [] \<and>
     \<not> (is_production S \<and> SECRET_KEY S = insecure_secret_key) \<and>
     MIN_SECRET_KEY_BYTES \<le> length (utf8 (SECRET_KEY S)) \<and>
     THREADPOOL_MAX_WORKERS S \<le> DB_POOL_SIZE S + DB_MAX_OVERFLOW S \<and>
     (DB_SYNCHRONIZE S \<longrightarrow> ENVIRONMENT S \<in> DB_SYNCHRONIZE_ALLOWED_ENVIRONMENTS) \<and>
     (COOKIE_SAMESITE S = ''none'' \<longrightarrow> COOKIE_SECURE S)"
  unfolding Settings_def validate_secret_key_def validate_pool_capacity_def validate_db_synchronize_def
    validate_cookie_policy_def Let_def
  by (auto simp: not_less)

lemma empty_str_to_none_nonblank: "empty_str_to_none v = Some t \<Longrightarrow> strip_text t \<noteq> []"
  by (auto simp: empty_str_to_none_def split: option.splits if_splits)

definition optional_values :: "settings \<Rightarrow> utext option list" where
  "optional_values s =
     [REDIS_PASSWORD s, S3_ENDPOINT_URL s, S3_ACCESS_KEY s, S3_SECRET_KEY s, S3_BUCKET s, R2_ACCOUNT_ID s,
      R2_ACCESS_KEY_ID s, R2_SECRET_ACCESS_KEY s, R2_BUCKET_NAME s, R2_PUBLIC_URL s, R2_REGION s]"

lemma normalise_nonblank: "Some t \<in> set (optional_values (normalise s)) \<Longrightarrow> strip_text t \<noteq> []"
  by (auto simp: optional_values_def normalise_def dest: sym [THEN empty_str_to_none_nonblank])

lemma default_accepted: "Settings default_settings = Inr default_settings"
proof -
  have n: "normalise default_settings = default_settings"
    by (simp add: normalise_def default_settings_def empty_str_to_none_def u_def strip_text_def strip_by_def uspace_def)
  have "MIN_SECRET_KEY_BYTES \<le> length (utf8 (SECRET_KEY default_settings))"
    using length_utf8_ge [of "SECRET_KEY default_settings"]
    by (simp add: default_settings_def insecure_secret_key_def u_def MIN_SECRET_KEY_BYTES_def)
  then show ?thesis
    unfolding Settings_accepts n
    by (simp add: field_errors_empty default_settings_def is_production_def)
qed

text \<open>No check reads the algorithm, and the life time is only bounded below.\<close>

lemma accepted_any_jwt:
  assumes "Settings raw = Inr S" and "1 \<le> minutes"
  shows "Settings (raw\<lparr>JWT_ALGORITHM := alg, ACCESS_TOKEN_EXPIRE_MINUTES := minutes\<rparr>) =
    Inr (S\<lparr>JWT_ALGORITHM := alg, ACCESS_TOKEN_EXPIRE_MINUTES := minutes\<rparr>)"
proof -
  let ?j = "\<lambda>s. s\<lparr>JWT_ALGORITHM := alg, ACCESS_TOKEN_EXPIRE_MINUTES := minutes\<rparr>"
  have j: "normalise (?j raw) = ?j (normalise raw)" by (simp add: normalise_def)
  note ok = assms(1) [unfolded Settings_accepts field_errors_empty]
  have S: "S = normalise raw" using ok by blast
  show ?thesis
    unfolding Settings_accepts field_errors_empty j S using conjunct2 [OF ok] assms(2)
    by (simp add: S is_production_def)
qed

section \<open>Properties\<close>

text \<open>
  C32.  Settings that start are safe.  Whatever the environment holds: no optional value is
  blank; the signing key has at least 32 bytes and in production is not the published default; no
  thread of the pool can lack a connection; synchronisation, which drops columns, runs in local
  and dev only; a refresh cookie sent with SameSite=None is Secure; the login limiter has a window and
  lets at least one attempt through.  With an HMAC algorithm and a life time that \<^verbatim>\<open>datetime\<close> can
  represent, an access token lives for at least a minute.  But nothing checks those two: whatever
  algorithm and whatever positive number of minutes the environment asks for, the same settings start.
\<close>

theorem accepted_settings_safe:
  assumes "Settings raw = Inr S" and "crypto_ok C" and "now \<le> t" and "t < now + 60"
  shows "(\<forall>x. Some x \<in> set (optional_values S) \<longrightarrow> strip_text x \<noteq> []) \<and>
    32 \<le> length (utf8 (SECRET_KEY S)) \<and> (is_production S \<longrightarrow> SECRET_KEY S \<noteq> insecure_secret_key) \<and>
    1 \<le> THREADPOOL_MAX_WORKERS S \<and> THREADPOOL_MAX_WORKERS S \<le> DB_POOL_SIZE S + DB_MAX_OVERFLOW S \<and>
    (DB_SYNCHRONIZE S \<longrightarrow> ENVIRONMENT S \<in> {''local'', ''dev''}) \<and>
    (ck_samesite (set_refresh_cookie (auth_of S) tok) = ''none'' \<longrightarrow> ck_secure (set_refresh_cookie (auth_of S) tok)) \<and>
    1 \<le> login_rate_limit_max_attempts (auth_of S) \<and> 0 < login_rate_limit_window_seconds (auth_of S) \<and>
    (issuable (jwt_of S) now (nat (ACCESS_TOKEN_EXPIRE_MINUTES S) * 60) \<longrightarrow>
       decode_token C (jwt_of S) t (create_access_token C (jwt_of S) now i uid) ACCESS =
         Inr \<lparr>tp_user_id = uid, tp_token_type = ACCESS, tp_jti = i,
              tp_expires_at = now + nat (ACCESS_TOKEN_EXPIRE_MINUTES S) * 60\<rparr>) \<and>
    (\<forall>alg minutes. 1 \<le> minutes \<longrightarrow>
       Settings (raw\<lparr>JWT_ALGORITHM := alg, ACCESS_TOKEN_EXPIRE_MINUTES := minutes\<rparr>) =
         Inr (S\<lparr>JWT_ALGORITHM := alg, ACCESS_TOKEN_EXPIRE_MINUTES := minutes\<rparr>))"
proof -
  note ok = assms(1) [unfolded Settings_accepts field_errors_empty]
  from conjunct2 [OF ok] have "1 \<le> ACCESS_TOKEN_EXPIRE_MINUTES S" by blast
  then have m: "1 \<le> nat (ACCESS_TOKEN_EXPIRE_MINUTES S)" by linarith
  then have "t < now + access_token_expire_minutes (jwt_of S) * 60" using assms(4) by (simp add: jwt_of_def)
  from decode_access [OF assms(2) _ assms(3) this]
  have "issuable (jwt_of S) now (nat (ACCESS_TOKEN_EXPIRE_MINUTES S) * 60) \<longrightarrow>
      decode_token C (jwt_of S) t (create_access_token C (jwt_of S) now i uid) ACCESS =
      Inr \<lparr>tp_user_id = uid, tp_token_type = ACCESS, tp_jti = i,
           tp_expires_at = now + nat (ACCESS_TOKEN_EXPIRE_MINUTES S) * 60\<rparr>"
    by (simp add: jwt_of_def)
  moreover have "Settings (raw\<lparr>JWT_ALGORITHM := alg, ACCESS_TOKEN_EXPIRE_MINUTES := minutes\<rparr>) =
      Inr (S\<lparr>JWT_ALGORITHM := alg, ACCESS_TOKEN_EXPIRE_MINUTES := minutes\<rparr>)" if "1 \<le> minutes" for alg minutes
    using accepted_any_jwt [OF assms(1) that] .
  moreover have "\<forall>x. Some x \<in> set (optional_values S) \<longrightarrow> strip_text x \<noteq> []"
    using ok normalise_nonblank by blast
  ultimately show ?thesis
    using conjunct2 [OF ok] by (simp add: MIN_SECRET_KEY_BYTES_def DB_SYNCHRONIZE_ALLOWED_ENVIRONMENTS_def
      set_refresh_cookie_def auth_of_def)
qed

theorem accepted_settings_safe_witness:
  "Settings default_settings = Inr default_settings \<and> 32 \<le> length (utf8 (SECRET_KEY default_settings)) \<and>
   decode_token demo_crypto (jwt_of default_settings) 100
     (create_access_token demo_crypto (jwt_of default_settings) 90 ''i'' 7) ACCESS =
   Inr \<lparr>tp_user_id = 7, tp_token_type = ACCESS, tp_jti = ''i'', tp_expires_at = 1890\<rparr>"
proof -
  have "nat (ACCESS_TOKEN_EXPIRE_MINUTES default_settings) = 30" by (simp add: default_settings_def)
  moreover have "(90 :: nat) \<le> 100" and "100 < 90 + (60 :: nat)" by simp_all
  moreover have "bytes (u ''HS256'') = ''HS256''" by code_simp
  then have "jwt_algorithm (jwt_of default_settings) = ''HS256''" by (simp add: jwt_of_def default_settings_def)
  ultimately show ?thesis
    using accepted_settings_safe [OF default_accepted demo_crypto_ok, of 90 100 "[]" "''i''" 7] default_accepted
    by simp
qed

lemma unquote_same: "map (\<lambda>b. if b = 32 then 43 else b) (utf8 t) = utf8 t \<longleftrightarrow> 32 \<notin> set t"
  using utf8_space [of t] by (auto simp: map_idI list_eq_iff_nth_eq in_set_conv_nth)

lemma takeWhile_until: "d \<notin> set xs \<Longrightarrow> takeWhile (\<lambda>c. c \<noteq> d) (xs @ d # ys) = xs"
  by (induction xs) auto

lemma database_credentials:
  assumes "unicode (MYSQL_USER s)" and "unicode (MYSQL_PASSWORD s)"
  shows "let authority = takeWhile (\<lambda>c. c \<noteq> CHR ''@'') (drop 16 (database_url s));
       user = takeWhile (\<lambda>c. c \<noteq> CHR '':'') authority; password = drop (Suc (length user)) authority in
     unquote user = map (\<lambda>b. if b = 32 then 43 else b) (utf8 (MYSQL_USER s)) \<and>
     unquote password = map (\<lambda>b. if b = 32 then 43 else b) (utf8 (MYSQL_PASSWORD s))"
proof -
  note chars = quote_plus_chars [OF assms(1)] quote_plus_chars [OF assms(2)]
  let ?a = "quote_plus (MYSQL_USER s) @ '':'' @ quote_plus (MYSQL_PASSWORD s)"
  have "takeWhile (\<lambda>c. c \<noteq> CHR ''@'') (drop 16 (database_url s)) = ?a"
    using takeWhile_until [of "CHR ''@''" ?a] chars by (auto simp: database_url_def)
  moreover have "takeWhile (\<lambda>c. c \<noteq> CHR '':'') ?a = quote_plus (MYSQL_USER s)"
    using takeWhile_until [of "CHR '':''" "quote_plus (MYSQL_USER s)"] chars by auto
  ultimately show ?thesis by (simp add: Let_def unquote_quote_plus assms)
qed

lemma redis_credentials:
  assumes "REDIS_PASSWORD s = Some p" and "unicode p"
  shows "take 9 (redis_url s) = ''redis://:'' \<and>
    unquote (takeWhile (\<lambda>c. c \<noteq> CHR ''@'') (drop 9 (redis_url s))) = map (\<lambda>b. if b = 32 then 43 else b) (utf8 p)"
proof -
  have "CHR ''@'' \<notin> set (quote_plus p)" using quote_plus_chars [OF assms(2)] by auto
  then show ?thesis using assms by (simp add: redis_url_def takeWhile_until unquote_quote_plus)
qed

lemma unicode_u [simp]: "unicode (u x)"
proof -
  have "of_char c < (1114112 :: nat)" for c :: char using nat_of_char_less_256 [of c] by linarith
  then show ?thesis by (simp add: unicode_def u_def)
qed

text \<open>
  Credentials in URLs.  Whatever characters user and password have, the URLs come apart at the
  first colon and at-sign exactly where they were put together, and the clients, which decode with
  \<^verbatim>\<open>unquote\<close>, read the original bytes, except that a space is read as a plus sign: a password
  with a space never authenticates.
\<close>

theorem url_credentials:
  assumes "unicode (MYSQL_USER s)" and "unicode (MYSQL_PASSWORD s)"
    and "\<forall>p. REDIS_PASSWORD s = Some p \<longrightarrow> unicode p"
  shows "(let authority = takeWhile (\<lambda>c. c \<noteq> CHR ''@'') (drop 16 (database_url s));
       user = takeWhile (\<lambda>c. c \<noteq> CHR '':'') authority; password = drop (Suc (length user)) authority in
     map (\<lambda>b. if b = 32 then 43 else b) (utf8 (MYSQL_USER s)) = unquote user \<and>
     map (\<lambda>b. if b = 32 then 43 else b) (utf8 (MYSQL_PASSWORD s)) = unquote password \<and>
     (unquote password = utf8 (MYSQL_PASSWORD s) \<longleftrightarrow> 32 \<notin> set (MYSQL_PASSWORD s))) \<and>
    (\<forall>p. REDIS_PASSWORD s = Some p \<longrightarrow>
      (let password = takeWhile (\<lambda>c. c \<noteq> CHR ''@'') (drop 9 (redis_url s)) in
       take 9 (redis_url s) = ''redis://:'' \<and>
       unquote password = map (\<lambda>b. if b = 32 then 43 else b) (utf8 p) \<and>
       (unquote password = utf8 p \<longleftrightarrow> 32 \<notin> set p)))"
  using assms database_credentials [of s] redis_credentials [of s] unquote_same by (simp add: Let_def)

theorem url_credentials_witness:
  "unquote (takeWhile (\<lambda>c. c \<noteq> CHR ''@'')
     (drop 9 (redis_url (default_settings\<lparr>REDIS_PASSWORD := Some (u ''p@ss/word'')\<rparr>)))) = utf8 (u ''p@ss/word'') \<and>
   unquote (takeWhile (\<lambda>c. c \<noteq> CHR ''@'')
     (drop 9 (redis_url (default_settings\<lparr>REDIS_PASSWORD := Some (u ''my pass'')\<rparr>)))) \<noteq> utf8 (u ''my pass'')"
proof -
  let ?s = "\<lambda>p. default_settings\<lparr>REDIS_PASSWORD := p\<rparr>"
  have s: "unicode (MYSQL_USER (?s p))" "unicode (MYSQL_PASSWORD (?s p))" for p
    by (simp_all add: default_settings_def)
  have h: "\<forall>p. REDIS_PASSWORD (?s (Some (u x))) = Some p \<longrightarrow> unicode p" for x by simp
  have r: "unquote (takeWhile (\<lambda>c. c \<noteq> CHR ''@'') (drop 9 (redis_url (?s (Some (u x)))))) = utf8 (u x) \<longleftrightarrow>
      32 \<notin> set (u x)" for x
  proof -
    have "REDIS_PASSWORD (?s (Some (u x))) = Some (u x)" by simp
    from url_credentials [OF s h, THEN conjunct2, THEN spec, THEN mp, OF this, unfolded Let_def]
    show ?thesis by (elim conjE)
  qed
  have "32 \<notin> set (u ''p@ss/word'')" and "32 \<in> set (u ''my pass'')" by (simp_all add: u_def)
  with r show ?thesis by blast
qed

end
