(* ===== verification/Environment.thy ===== *)
theory Environment
  imports Access Config
begin

text \<open>
  What surrounds the application: the options of the database engine and of the Redis pool,
  \<^verbatim>\<open>alembic/env.py\<close>, the seed script and the assembly of the routers.  The libraries these
  configure are not modelled; what is handed to them is.
\<close>

section \<open>Connections\<close>

text \<open>\<^verbatim>\<open>infrastructure/database/session.py\<close> and \<^verbatim>\<open>infrastructure/cache/redis.py\<close>.\<close>

record engine_options =
  en_url :: string
  en_pool_size :: int
  en_max_overflow :: int
  en_pool_timeout :: int
  en_pool_pre_ping :: bool
  en_pool_recycle :: int
  en_echo :: bool

definition POOL_RECYCLE_SECONDS :: int where "POOL_RECYCLE_SECONDS = 3600"

definition engine :: "settings \<Rightarrow> engine_options" where
  "engine S =
     \<lparr>en_url = database_url S, en_pool_size = DB_POOL_SIZE S, en_max_overflow = DB_MAX_OVERFLOW S,
      en_pool_timeout = DB_POOL_TIMEOUT S, en_pool_pre_ping = True, en_pool_recycle = POOL_RECYCLE_SECONDS,
      en_echo = DB_ECHO S\<rparr>"

text \<open>The statement every new connection executes.\<close>

definition set_session_timezone :: string where
  "set_session_timezone = ''SET SESSION time_zone = '' @ [CHR 0x27] @ ''+00:00'' @ [CHR 0x27]"

record redis_pool =
  rp_url :: string
  rp_max_connections :: int
  rp_decode_responses :: bool
  rp_socket_connect_timeout :: int
  rp_socket_timeout :: int
  rp_health_check_interval :: int

definition redis_client :: "settings \<Rightarrow> redis_pool" where
  "redis_client S =
     \<lparr>rp_url = redis_url S, rp_max_connections = THREADPOOL_MAX_WORKERS S, rp_decode_responses = True,
      rp_socket_connect_timeout = 3, rp_socket_timeout = 3, rp_health_check_interval = 30\<rparr>"

text \<open>Each of \<open>n\<close> busy workers holds one connection of either kind.\<close>

definition serves :: "settings \<Rightarrow> int \<Rightarrow> bool" where
  "serves S n \<longleftrightarrow> n \<le> en_pool_size (engine S) + en_max_overflow (engine S) \<and> n \<le> rp_max_connections (redis_client S)"

lemma accepted_serves:
  assumes "Settings raw = Inr S" shows "serves S (THREADPOOL_MAX_WORKERS S)"
proof -
  have "THREADPOOL_MAX_WORKERS S \<le> DB_POOL_SIZE S + DB_MAX_OVERFLOW S" using assms unfolding Settings_accepts by blast
  then show ?thesis by (simp add: serves_def engine_def redis_client_def)
qed

section \<open>Routers\<close>

text \<open>\<^verbatim>\<open>api/v1/router.py\<close>: the routers it includes, and whether they stand behind the login.\<close>

datatype router = Auth_router | Users_router | Posts_router | Comments_router | Menus_router | Reports_router

definition api_router :: "(router \<times> bool) list" where
  "api_router = (Auth_router, False) # map (\<lambda>r. (r, True)) [Users_router, Posts_router, Comments_router, Menus_router]"

lemma only_auth_is_open: "(r, False) \<in> set api_router \<longleftrightarrow> r = Auth_router"
  by (auto simp: api_router_def)

lemma reports_not_mounted: "(Reports_router, b) \<notin> set api_router"
  by (simp add: api_router_def)

section \<open>The seed script\<close>

text \<open>
  \<^verbatim>\<open>scripts/seed.py\<close>.  The declarative constructor of a model accepts the names of its attributes only and
  raises \<^verbatim>\<open>TypeError\<close> on any other keyword; \<open>user_attrs\<close> etc. are the mapped attributes.
\<close>

abbreviation TypeError :: exn where "TypeError \<equiv> OtherError ''TypeError''"

definition user_attrs :: "string list" where
  "user_attrs = [''user_id'', ''user_email'', ''user_password_hash'', ''user_nickname'', ''user_role'',
     ''user_is_active'', ''created_at'', ''updated_at'']"

definition post_attrs :: "string list" where
  "post_attrs = [''post_id'', ''post_title'', ''post_content'', ''author_id'', ''post_view_count'', ''post_status'',
     ''post_is_notice'', ''created_at'', ''updated_at'', ''deleted_at'']"

definition comment_attrs :: "string list" where
  "comment_attrs = [''comment_id'', ''comment_content'', ''post_id'', ''author_id'', ''parent_comment_id'',
     ''created_at'', ''updated_at'', ''deleted_at'']"

definition orm_init :: "string list \<Rightarrow> string list \<Rightarrow> ('s, exn, unit) prog" where
  "orm_init attrs kwargs = (if set kwargs \<subseteq> set attrs then returnP () else raiseP TypeError)"

definition ADMIN_EMAIL :: string where "ADMIN_EMAIL = ''admin@example.com''"
definition USER_EMAIL :: string where "USER_EMAIL = ''user@example.com''"
definition DEFAULT_PASSWORD :: utext where "DEFAULT_PASSWORD = u ''password123''"

text \<open>The rows are written with what the keywords are meant for.\<close>

definition get_or_create_user ::
  "crypto \<Rightarrow> (string \<Rightarrow> string) \<Rightarrow> string \<Rightarrow> time \<Rightarrow> string \<Rightarrow> utext \<Rightarrow> user_role \<Rightarrow>
   ('x session_scheme, exn, user) prog" where
  "get_or_create_user C coll salt now email nickname role =
     bindP (\<lambda>s. (user_get_by_email coll email s, s)) (\<lambda>existing.
     case existing of
       Some x \<Rightarrow> returnP x
     | None \<Rightarrow>
         bindP (liftP (hash_password C salt DEFAULT_PASSWORD)) (\<lambda>h.
         bindP (orm_init user_attrs [''email'', ''password_hash'', ''nickname'', ''role'']) (\<lambda>_.
         ins_row T_users users_update (\<lambda>i. \<lparr>user_id = i, user_email = email, user_password_hash = h,
           user_nickname = nickname, user_role = role, user_is_active = True, user_created_at = now,
           user_updated_at = now\<rparr>))))"

definition seed_posts :: "time \<Rightarrow> user \<Rightarrow> user \<Rightarrow> ('x session_scheme, exn, unit) prog" where
  "seed_posts now admin member =
     bindP (getsP (\<lambda>s. length (posts (working s)))) (\<lambda>n.
     if n \<noteq> 0 then returnP ()
     else
       bindP (orm_init post_attrs [''title'', ''content'', ''author_id'']) (\<lambda>_.
       bindP (ins_row T_posts posts_update (\<lambda>i. \<lparr>post_id = i,
          post_title = [54872, 50689, 54633, 45768, 45796, 32, 127881],
          post_content = [51060, 32, 44172, 49884, 44544, 51008, 32, 49884, 46300, 32, 49828, 53356, 47549, 53944, 44032,
            32, 49373, 49457, 54664, 49845, 45768, 45796, 46],
          author_id = user_id admin, post_view_count = 0, post_status = PUBLISHED, post_is_notice = False,
          post_deleted_at = None, post_created_at = now, post_updated_at = now\<rparr>)) (\<lambda>p.
       bindP (orm_init comment_attrs [''content'', ''post_id'', ''author_id'']) (\<lambda>_.
       bindP (ins_row T_comments comments_update (\<lambda>i. \<lparr>comment_id = i,
          comment_content = [52395, 32, 45843, 44544, 51077, 45768, 45796, 46], cm_post_id = post_id p,
          cm_author_id = user_id member, parent_comment_id = None, cm_deleted_at = None, cm_created_at = now,
          cm_updated_at = now\<rparr>)) (\<lambda>_.
       returnP ())))))"

text \<open>\<^verbatim>\<open>with SessionLocal() as db\<close> closes the session at the end, like \<open>get_db\<close>.\<close>

definition seed ::
  "crypto \<Rightarrow> (string \<Rightarrow> string) \<Rightarrow> string \<Rightarrow> string \<Rightarrow> time \<Rightarrow> ('x session_scheme, exn, unit) prog" where
  "seed C coll salt1 salt2 now =
     get_db
       (bindP (get_or_create_user C coll salt1 now ADMIN_EMAIL [44288, 47532, 51088] ADMIN) (\<lambda>admin.
        bindP (get_or_create_user C coll salt2 now USER_EMAIL [51068, 48152, 50976, 51200] USER) (\<lambda>member.
        bindP (seed_posts now admin member) (\<lambda>_.
        modifyP commit))))"

section \<open>Alembic's configuration\<close>

text \<open>
  \<^verbatim>\<open>alembic/env.py\<close> passes the URL through an option of a \<^verbatim>\<open>ConfigParser\<close>, which interpolates: on reading, \<open>%%\<close> is a
  per cent sign, and \<open>%\<close> before anything else but a reference is an error (references do not occur here;
  they are \<open>None\<close> too).  Setting a value checks the same.
\<close>

definition escape_percent :: "string \<Rightarrow> string" where
  "escape_percent s = concat (map (\<lambda>c. if c = CHR ''%'' then ''%%'' else [c]) s)"

fun interpolate :: "string \<Rightarrow> string option" where
  "interpolate [] = Some []"
| "interpolate [c] = (if c = CHR ''%'' then None else Some [c])"
| "interpolate (c # c' # cs) =
     (if c = CHR ''%'' then (if c' = CHR ''%'' then map_option (Cons (CHR ''%'')) (interpolate cs) else None)
      else map_option (Cons c) (interpolate (c' # cs)))"

definition set_main_option :: "string \<Rightarrow> string \<Rightarrow> (string \<Rightarrow> string option) \<Rightarrow> exn + (string \<Rightarrow> string option)" where
  "set_main_option k value cfg =
     (if interpolate value = None then Inl (ValueError (MsgText ''invalid interpolation syntax'')) else Inr (cfg(k \<mapsto> value)))"

definition get_main_option :: "string \<Rightarrow> (string \<Rightarrow> string option) \<Rightarrow> string option" where
  "get_main_option k cfg = Option.bind (cfg k) interpolate"

record migration_context =
  mc_url :: "string option"
  mc_literal_binds :: bool
  mc_paramstyle :: "string option"
  mc_poolclass :: "string option"
  mc_compare_type :: bool
  mc_compare_server_default :: bool

text \<open>Offline the URL is the option itself, online it is read by \<^verbatim>\<open>engine_from_config\<close> with \<^verbatim>\<open>NullPool\<close>.\<close>

definition run_migrations_offline :: "(string \<Rightarrow> string option) \<Rightarrow> migration_context" where
  "run_migrations_offline cfg =
     \<lparr>mc_url = get_main_option ''sqlalchemy.url'' cfg, mc_literal_binds = True,
      mc_paramstyle = Some ''named'', mc_poolclass = None,
      mc_compare_type = True, mc_compare_server_default = True\<rparr>"

definition run_migrations_online :: "(string \<Rightarrow> string option) \<Rightarrow> migration_context" where
  "run_migrations_online cfg =
     \<lparr>mc_url = get_main_option ''sqlalchemy.url'' cfg, mc_literal_binds = False,
      mc_paramstyle = None, mc_poolclass = Some ''NullPool'',
      mc_compare_type = True, mc_compare_server_default = True\<rparr>"

definition alembic_env :: "settings \<Rightarrow> bool \<Rightarrow> (string \<Rightarrow> string option) \<Rightarrow> exn + migration_context" where
  "alembic_env S offline cfg =
     (case set_main_option ''sqlalchemy.url'' (escape_percent (database_url S)) cfg of
        Inl e \<Rightarrow> Inl e
      | Inr cfg' \<Rightarrow> Inr (if offline then run_migrations_offline cfg' else run_migrations_online cfg'))"

section \<open>Lemmas\<close>

lemma interpolate_Cons: "c \<noteq> CHR ''%'' \<Longrightarrow> interpolate (c # cs) = map_option (Cons c) (interpolate cs)"
  by (cases cs) simp_all

lemma interpolate_escape: "interpolate (escape_percent s) = Some s"
  by (induction s) (auto simp: escape_percent_def interpolate_Cons)

lemma get_set_option:
  "set_main_option k (escape_percent v) cfg = Inr cfg' \<Longrightarrow> get_main_option k cfg' = Some v"
  by (auto simp: set_main_option_def get_main_option_def interpolate_escape split: if_splits)

lemma alembic_env_url:
  "\<exists>ctx. alembic_env S offline cfg = Inr ctx \<and> mc_url ctx = Some (database_url S)"
  by (simp add: alembic_env_def set_main_option_def interpolate_escape run_migrations_offline_def
      run_migrations_online_def get_main_option_def)

lemma seed_keywords:
  "orm_init user_attrs [''email'', ''password_hash'', ''nickname'', ''role''] = raiseP TypeError"
  "orm_init post_attrs [''title'', ''content'', ''author_id''] = raiseP TypeError"
  by (simp_all add: orm_init_def user_attrs_def post_attrs_def)

lemma default_password_ok: "\<exists>h. hash_password C salt DEFAULT_PASSWORD = Inr h"
proof -
  have "length (utf8 DEFAULT_PASSWORD) = 11" by code_simp
  then show ?thesis by (simp add: hash_password_def Let_def bcrypt_max_password_bytes_def)
qed

lemma get_or_create_run:
  assumes "session_ok coll s"
  shows "get_or_create_user C coll salt now email n role s =
    (case find (\<lambda>r. coll (user_email r) = coll email) (users (working s)) of Some x \<Rightarrow> Inr x | None \<Rightarrow> Inl TypeError, s)"
proof -
  obtain h where h: "hash_password C salt DEFAULT_PASSWORD = Inr h" using default_password_ok by blast
  have g: "user_get_by_email coll email s = Inr (find (\<lambda>r. coll (user_email r) = coll email) (users (working s)))"
    by (rule get_by_email_unique) (rule schema_ok_ids(7) [OF session_ok_working [OF assms]])
  show ?thesis by (simp add: get_or_create_user_def bindP_def g h liftP_def seed_keywords raiseP_def returnP_def split: option.split)
qed

lemma find_email: "find (\<lambda>r. coll (user_email r) = coll e) us = None \<longleftrightarrow> coll e \<notin> (\<lambda>r. coll (user_email r)) ` set us"
  by (induction us) auto

section \<open>Properties\<close>

text \<open>
  The seed script never creates anything.  Whatever the database holds, running it leaves every committed
  row as it was; it ends without an error exactly if both accounts and at least one post are
  there already, and with \<^verbatim>\<open>TypeError\<close> otherwise, in particular on an empty database.
\<close>

theorem seed_creates_nothing:
  assumes "session_ok coll s" and "working s = committed s" and "seed C coll salt1 salt2 now s = (r, t)"
  shows "t = s \<and> (r = Inr () \<or> r = Inl TypeError) \<and>
    (r = Inr () \<longleftrightarrow> coll ADMIN_EMAIL \<in> (\<lambda>x. coll (user_email x)) ` set (users (committed s)) \<and>
       coll USER_EMAIL \<in> (\<lambda>x. coll (user_email x)) ` set (users (committed s)) \<and> posts (committed s) \<noteq> [])"
proof -
  have roll: "rollback s = s" "commit s = s" using assms(2) by (simp_all add: rollback_def commit_def)
  have w: "users (working s) = users (committed s)" "posts (working s) = posts (committed s)" using assms(2) by simp_all
  let ?f = "\<lambda>e. find (\<lambda>x. coll (user_email x) = coll e) (users (committed s))"
  have "seed C coll salt1 salt2 now s =
      (if ?f ADMIN_EMAIL = None \<or> ?f USER_EMAIL = None \<or> posts (committed s) = [] then Inl TypeError else Inr (), s)"
    by (cases "?f ADMIN_EMAIL"; cases "?f USER_EMAIL")
      (simp_all add: seed_def get_db_def bindP_def get_or_create_run [OF assms(1)] w seed_posts_def seed_keywords roll
        getsP_def modifyP_def raiseP_def returnP_def)
  with assms(3) show ?thesis by (auto simp: find_email split: if_splits)
qed

theorem seed_creates_nothing_witness:
  "let s = \<lparr>committed = empty_db, working = empty_db, seq = (\<lambda>_. 1)\<rparr> :: session
   in seed demo_crypto lower ''a'' ''b'' 5 s = (Inl TypeError, s)"
proof -
  let ?s = "\<lparr>committed = empty_db, working = empty_db, seq = (\<lambda>_. 1)\<rparr> :: session"
  have "session_ok lower ?s" "working ?s = committed ?s" by (simp_all add: session_ok_def schema_ok_empty)
  from seed_creates_nothing [OF this prod.collapse [symmetric], of demo_crypto "''a''" "''b''" 5] show ?thesis
    by (auto simp: Let_def empty_db_def prod_eq_iff)
qed

text \<open>
  The migrations reach the database of the application.  Whatever characters the settings hold, both
  modes of Alembic read, out of the interpolating configuration, exactly the URL the engine of the
  application connects to; and the password a client takes out of it is the one configured, byte for byte, except
  that a space is read as a plus sign.
\<close>

theorem alembic_reads_engine_url:
  assumes "unicode (MYSQL_USER S)" and "unicode (MYSQL_PASSWORD S)"
  shows "\<exists>ctx url. alembic_env S offline cfg = Inr ctx \<and> mc_url ctx = Some url \<and> url = en_url (engine S) \<and>
    (let authority = takeWhile (\<lambda>c. c \<noteq> CHR ''@'') (drop 16 url);
         user = takeWhile (\<lambda>c. c \<noteq> CHR '':'') authority; password = drop (Suc (length user)) authority
     in unquote user = map (\<lambda>b. if b = 32 then 43 else b) (utf8 (MYSQL_USER S)) \<and>
        (unquote password = utf8 (MYSQL_PASSWORD S) \<longleftrightarrow> 32 \<notin> set (MYSQL_PASSWORD S)))"
proof -
  obtain ctx where "alembic_env S offline cfg = Inr ctx" "mc_url ctx = Some (database_url S)"
    using alembic_env_url by blast
  then show ?thesis
    using assms database_credentials [of S] unquote_same [of "MYSQL_PASSWORD S"] by (auto simp: engine_def Let_def)
qed

theorem alembic_reads_engine_url_witness:
  "let S = default_settings\<lparr>MYSQL_PASSWORD := u ''100%:@p''\<rparr>
   in \<exists>ctx url. alembic_env S True Map.empty = Inr ctx \<and> mc_url ctx = Some url \<and> url = en_url (engine S) \<and>
     unquote (drop (Suc (length (takeWhile (\<lambda>c. c \<noteq> CHR '':'') (takeWhile (\<lambda>c. c \<noteq> CHR ''@'') (drop 16 url)))))
       (takeWhile (\<lambda>c. c \<noteq> CHR ''@'') (drop 16 url))) = utf8 (u ''100%:@p'')"
proof -
  let ?S = "default_settings\<lparr>MYSQL_PASSWORD := u ''100%:@p''\<rparr>"
  have "unicode (MYSQL_USER ?S)" "unicode (MYSQL_PASSWORD ?S)" by (simp_all add: default_settings_def)
  note claim = alembic_reads_engine_url [OF this, of True Map.empty, unfolded Let_def]
  have "32 \<notin> set (MYSQL_PASSWORD ?S)" by (simp add: u_def)
  with claim show ?thesis unfolding Let_def by auto
qed

end
