(* ===== verification/Logging.thy ===== *)
theory Logging
  imports PyString
begin

text \<open>
  \<^verbatim>\<open>core/logging_config.py\<close>: the processor that masks sensitive keys in every log event.  Keys are ASCII
  (the code compares \<^verbatim>\<open>str(key)\<close>); values that are neither text nor containers are \<open>Other\<close>.
\<close>

datatype 'a log_value =
    Text string
  | Other 'a
  | Dict "(string \<times> 'a log_value) list"
  | Listing "'a log_value list"
  | Tuple "'a log_value list"

type_synonym 'a event_dict = "(string \<times> 'a log_value) list"

definition SENSITIVE_KEY_PARTS :: "string list" where
  "SENSITIVE_KEY_PARTS =
     [''password'', ''secret'', ''token'', ''authorization'', ''cookie'', ''api_key'', ''apikey'']"

definition MASK :: "'a log_value" where
  "MASK = Text ''***''"

definition MAX_MASK_DEPTH :: nat where
  "MAX_MASK_DEPTH = 6"

definition is_sensitive :: "string \<Rightarrow> bool" where
  "is_sensitive key = (let lowered = lower key in list_ex (\<lambda>part. contains_sub part lowered) SENSITIVE_KEY_PARTS)"

fun mask_value :: "'a log_value \<Rightarrow> nat \<Rightarrow> 'a log_value" where
  "mask_value (Dict kvs) depth =
     (if depth \<ge> MAX_MASK_DEPTH then Dict kvs
      else Dict (map (\<lambda>(k, v). (k, if is_sensitive k then MASK else mask_value v (depth + 1))) kvs))"
| "mask_value (Listing vs) depth =
     (if depth \<ge> MAX_MASK_DEPTH then Listing vs else Listing (map (\<lambda>item. mask_value item (depth + 1)) vs))"
| "mask_value (Tuple vs) depth =
     (if depth \<ge> MAX_MASK_DEPTH then Tuple vs else Listing (map (\<lambda>item. mask_value item (depth + 1)) vs))"
| "mask_value (Text t) depth = Text t"
| "mask_value (Other a) depth = Other a"

definition mask_sensitive_data :: "'a event_dict \<Rightarrow> 'a event_dict" where
  "mask_sensitive_data event_dict =
     map (\<lambda>(key, value). (key, if is_sensitive key then MASK else mask_value value 0)) event_dict"

section \<open>Where a value stands\<close>

text \<open>
  The atoms of a value with the way to each: \<open>Some k\<close> is a step through the dict key \<open>k\<close>, \<open>None\<close> a step
  into a list or tuple.
\<close>

type_synonym path = "string option list"

fun atoms :: "'a log_value \<Rightarrow> (path \<times> 'a log_value) list" where
  "atoms (Dict kvs) = concat (map (\<lambda>(k, v). map (\<lambda>(p, a). (Some k # p, a)) (atoms v)) kvs)"
| "atoms (Listing vs) = concat (map (\<lambda>v. map (\<lambda>(p, a). (None # p, a)) (atoms v)) vs)"
| "atoms (Tuple vs) = concat (map (\<lambda>v. map (\<lambda>(p, a). (None # p, a)) (atoms v)) vs)"
| "atoms (Text t) = [([], Text t)]"
| "atoms (Other a) = [([], Other a)]"

text \<open>A step is exposed if it goes through no sensitive key; the first \<open>n\<close> steps of a path are checked.\<close>

definition exposed :: "nat \<Rightarrow> path \<Rightarrow> bool" where
  "exposed n p \<longleftrightarrow> (\<forall>k. Some k \<in> set (take n p) \<longrightarrow> \<not> is_sensitive k)"

lemma exposed_Nil [simp]: "exposed n []"
  by (simp add: exposed_def)

lemma exposed_0 [simp]: "exposed 0 p"
  by (simp add: exposed_def)

lemma exposed_None [simp]: "exposed (Suc n) (None # p) \<longleftrightarrow> exposed n p"
  by (simp add: exposed_def)

lemma exposed_Some [simp]: "exposed (Suc n) (Some k # p) \<longleftrightarrow> \<not> is_sensitive k \<and> exposed n p"
  by (auto simp: exposed_def)

definition masked_at :: "path \<times> 'a log_value \<Rightarrow> bool" where
  "masked_at pa \<longleftrightarrow> snd pa = MASK \<and> (\<exists>k. fst pa \<noteq> [] \<and> last (fst pa) = Some k \<and> is_sensitive k)"

text \<open>One masking step of a dict, whatever masks the values below with \<open>n\<close> more checked levels.\<close>

lemma atoms_MASK [simp]: "atoms MASK = [([], MASK)]"
  by (simp add: MASK_def)

lemma masked_at_Cons: "masked_at (p, a) \<Longrightarrow> masked_at (x # p, a)"
  by (auto simp: masked_at_def)

lemma masked_at_key [simp]: "is_sensitive k \<Longrightarrow> masked_at ([Some k], MASK)"
  by (simp add: masked_at_def)

definition masks :: "nat \<Rightarrow> 'a log_value \<Rightarrow> 'a log_value \<Rightarrow> bool" where
  "masks n v w \<longleftrightarrow>
     (\<forall>p a. (p, a) \<in> set (atoms w) \<longrightarrow> (p, a) \<in> set (atoms v) \<and> exposed n p \<or> masked_at (p, a)) \<and>
     (\<forall>p a. (p, a) \<in> set (atoms v) \<longrightarrow> exposed n p \<longrightarrow> (p, a) \<in> set (atoms w))"

lemma masks_refl: "masks 0 v v"
  by (simp add: masks_def)

lemma masks_dict:
  assumes "\<And>k v. (k, v) \<in> set kvs \<Longrightarrow> \<not> is_sensitive k \<Longrightarrow> masks n v (f v)"
  shows "masks (Suc n) (Dict kvs) (Dict (map (\<lambda>(k, v). (k, if is_sensitive k then MASK else f v)) kvs))"
  unfolding masks_def
proof (intro conjI allI impI)
  fix p a
  assume "(p, a) \<in> set (atoms (Dict (map (\<lambda>(k, v). (k, if is_sensitive k then MASK else f v)) kvs)))"
  then obtain k v q where kv: "(k, v) \<in> set kvs" and p: "p = Some k # q"
    and q: "(q, a) \<in> set (atoms (if is_sensitive k then MASK else f v))" by auto
  show "(p, a) \<in> set (atoms (Dict kvs)) \<and> exposed (Suc n) p \<or> masked_at (p, a)"
  proof (cases "is_sensitive k")
    case True
    then show ?thesis using q p by simp
  next
    case False
    then have "(q, a) \<in> set (atoms v) \<and> exposed n q \<or> masked_at (q, a)"
      using assms [OF kv] q by (auto simp: masks_def)
    then show ?thesis using kv p False by (force intro: masked_at_Cons)
  qed
next
  fix p a
  assume "(p, a) \<in> set (atoms (Dict kvs))" and e: "exposed (Suc n) p"
  then obtain k v q where kv: "(k, v) \<in> set kvs" and p: "p = Some k # q" and q: "(q, a) \<in> set (atoms v)" by auto
  then have "(q, a) \<in> set (atoms (f v))" and "\<not> is_sensitive k"
    using assms [OF kv] e by (auto simp: masks_def)
  then show "(p, a) \<in> set (atoms (Dict (map (\<lambda>(k, v). (k, if is_sensitive k then MASK else f v)) kvs)))"
    using kv p by force
qed

lemma masks_items:
  assumes "\<And>v. v \<in> set vs \<Longrightarrow> masks n v (f v)"
  shows "masks (Suc n) (Listing vs) (Listing (map f vs))" and "masks (Suc n) (Tuple vs) (Listing (map f vs))"
proof -
  have "(p, a) \<in> set (atoms (Listing vs)) \<and> exposed (Suc n) p \<or> masked_at (p, a)"
    if pa: "(p, a) \<in> set (atoms (Listing (map f vs)))" for p a
  proof -
    obtain v q where v: "v \<in> set vs" and p: "p = None # q" and "(q, a) \<in> set (atoms (f v))" using pa by auto
    then have "(q, a) \<in> set (atoms v) \<and> exposed n q \<or> masked_at (q, a)"
      using assms [OF v] by (simp add: masks_def)
    then show ?thesis using v p by (force intro: masked_at_Cons)
  qed
  moreover have "(p, a) \<in> set (atoms (Listing (map f vs)))"
    if pa: "(p, a) \<in> set (atoms (Listing vs))" "exposed (Suc n) p" for p a
  proof -
    obtain v q where v: "v \<in> set vs" and p: "p = None # q" and "(q, a) \<in> set (atoms v)" using pa by auto
    then have "(q, a) \<in> set (atoms (f v))" using assms [OF v] pa(2) by (simp add: masks_def)
    then show ?thesis using v p by force
  qed
  ultimately show "masks (Suc n) (Listing vs) (Listing (map f vs))" unfolding masks_def by blast
  then show "masks (Suc n) (Tuple vs) (Listing (map f vs))" by (simp add: masks_def)
qed

lemma mask_value_masks: "d \<le> MAX_MASK_DEPTH \<Longrightarrow> masks (MAX_MASK_DEPTH - d) v (mask_value v d)"
proof (induction v d rule: mask_value.induct)
  case (1 kvs d)
  show ?case
  proof (cases "d = MAX_MASK_DEPTH")
    case False
    then have d: "d < MAX_MASK_DEPTH" using 1(2) by simp
    then have "masks (MAX_MASK_DEPTH - Suc d) v (mask_value v (d + 1))"
      if "(k, v) \<in> set kvs" "\<not> is_sensitive k" for k v
      using 1(1) [OF _ that(1) refl that(2)] by simp
    from masks_dict [OF this] show ?thesis using d by (simp add: Suc_diff_Suc)
  qed (simp add: masks_refl)
next
  case (2 vs d)
  show ?case
  proof (cases "d = MAX_MASK_DEPTH")
    case False
    then have d: "d < MAX_MASK_DEPTH" using 2(2) by simp
    then have "masks (MAX_MASK_DEPTH - Suc d) v (mask_value v (d + 1))" if "v \<in> set vs" for v
      using 2(1) [OF _ that] by simp
    from masks_items(1) [OF this] show ?thesis using d by (simp add: Suc_diff_Suc)
  qed (simp add: masks_refl)
next
  case (3 vs d)
  show ?case
  proof (cases "d = MAX_MASK_DEPTH")
    case False
    then have d: "d < MAX_MASK_DEPTH" using 3(2) by simp
    then have "masks (MAX_MASK_DEPTH - Suc d) v (mask_value v (d + 1))" if "v \<in> set vs" for v
      using 3(1) [OF _ that] by simp
    from masks_items(2) [OF this] show ?thesis using d by (simp add: Suc_diff_Suc)
  qed (simp add: masks_refl)
qed (simp_all add: masks_def)

lemma mask_sensitive_data_masks: "masks 7 (Dict ev) (Dict (mask_sensitive_data ev))"
proof -
  have "masks 6 v (mask_value v 0)" for v :: "'a log_value"
    using mask_value_masks [of 0 v] by (simp add: MAX_MASK_DEPTH_def)
  then have "masks (Suc 6) (Dict ev) (Dict (map (\<lambda>(k, v). (k, if is_sensitive k then MASK else mask_value v 0)) ev))"
    by (intro masks_dict)
  then show ?thesis by (simp add: mask_sensitive_data_def)
qed

lemma masks_kept: "masks n v w \<Longrightarrow> (p, a) \<in> set (atoms v) \<Longrightarrow> exposed n p \<Longrightarrow> (p, a) \<in> set (atoms w)"
  by (simp add: masks_def)

section \<open>Properties\<close>

text \<open>
  C33.  Secrets in the log.  In a masked event every value is either the mask, standing exactly where a
  sensitive key leads, or an unchanged value of the event whose first seven steps lead through no
  sensitive key; and every value of the latter kind is still there.  So an event nested at most
  seven deep shows no value below a sensitive key; a deeper secret is logged in clear.
\<close>

theorem masking_contract:
  fixes ev :: "'a event_dict"
  shows "(\<forall>p a. (p, a) \<in> set (atoms (Dict (mask_sensitive_data ev))) \<longrightarrow>
      (p, a) \<in> set (atoms (Dict ev)) \<and> exposed 7 p \<or>
      a = MASK \<and> (\<exists>q k. p = q @ [Some k] \<and> is_sensitive k)) \<and>
    (\<forall>p a. (p, a) \<in> set (atoms (Dict ev)) \<longrightarrow> exposed 7 p \<longrightarrow> (p, a) \<in> set (atoms (Dict (mask_sensitive_data ev)))) \<and>
    (\<forall>p a. (p, a) \<in> set (atoms (Dict (mask_sensitive_data ev))) \<longrightarrow> length p \<le> 7 \<longrightarrow> a \<noteq> MASK \<longrightarrow>
      (\<forall>k. Some k \<in> set p \<longrightarrow> \<not> is_sensitive k)) \<and>
    (\<exists>secret_event :: 'a event_dict. \<exists>p. (p, Text ''hunter2'') \<in> set (atoms (Dict (mask_sensitive_data secret_event))) \<and>
       last p = Some ''password'')"
proof -
  have m: "masked_at (p, a) \<longleftrightarrow> a = MASK \<and> (\<exists>q k. p = q @ [Some k] \<and> is_sensitive k)" for p and a :: "'a log_value"
    by (auto simp: masked_at_def) (metis append_butlast_last_id)
  have e: "exposed 7 p \<longleftrightarrow> (\<forall>k. Some k \<in> set p \<longrightarrow> \<not> is_sensitive k)" if "length p \<le> 7" for p
    using that by (simp add: exposed_def)
  define deep :: "'a log_value" where "deep = ((\<lambda>v. Listing [v]) ^^ 6) (Dict [(''password'', Text ''hunter2'')])"
  have a: "atoms (Dict [(''event'', deep)]) = [(Some ''event'' # replicate 6 None @ [Some ''password''], Text ''hunter2'')]"
    by (simp add: deep_def numeral_eq_Suc)
  have "\<not> is_sensitive ''event''" by code_simp
  then have "exposed 7 (Some ''event'' # replicate 6 None @ [Some ''password''])"
    by (simp add: numeral_eq_Suc)
  then have "(Some ''event'' # replicate 6 None @ [Some ''password''], Text ''hunter2'') \<in>
      set (atoms (Dict (mask_sensitive_data [(''event'', deep)])))"
    by (intro masks_kept [OF mask_sensitive_data_masks]) (simp_all only: a list.set insertI1)
  then have "\<exists>secret_event :: 'a event_dict. \<exists>p.
      (p, Text ''hunter2'') \<in> set (atoms (Dict (mask_sensitive_data secret_event))) \<and> last p = Some ''password''"
    by (intro exI conjI) (assumption, simp)
  then show ?thesis
    using mask_sensitive_data_masks [of ev] e unfolding masks_def m by blast
qed

theorem masking_contract_witness:
  "set (atoms (Dict (mask_sensitive_data [(''user_Password'', Text ''hunter2''), (''id'', Other (1 :: int))]))) =
     {([Some ''user_Password''], MASK), ([Some ''id''], Other 1)}"
proof -
  let ?ev = "[(''user_Password'', Text ''hunter2''), (''id'', Other (1 :: int))]"
  have s: "is_sensitive ''user_Password''" "\<not> is_sensitive ''id''" by code_simp+
  have "([Some ''id''], Other 1) \<in> set (atoms (Dict (mask_sensitive_data ?ev)))"
    using masking_contract [of ?ev, THEN conjunct2, THEN conjunct1] s by (simp add: exposed_def)
  then show ?thesis using s by (auto simp: mask_sensitive_data_def)
qed

end
