(* ===== verification/Log_Setup.thy ===== *)
theory Log_Setup
  imports Config Logging
begin

text \<open>
  \<^verbatim>\<open>configure_logging\<close> of \<^verbatim>\<open>core/logging_config.py\<close>, on the state of Python's \<^verbatim>\<open>logging\<close> and of \<^verbatim>\<open>structlog\<close>, and
  the way of a record through what it sets up.  Only the masking processor is the application's own
  (\<^verbatim>\<open>Logging.thy\<close>); the others are parameters of \<open>emit\<close>.
\<close>

datatype processor =
    Merge_contextvars
  | Add_log_level
  | Add_logger_name
  | TimeStamper string bool
  | StackInfoRenderer
  | Format_exc_info
  | UnicodeDecoder
  | Mask_sensitive_data
  | Wrap_for_formatter
  | Remove_processors_meta
  | JSONRenderer bool
  | ConsoleRenderer bool

record formatter =
  foreign_pre_chain :: "processor list"
  fm_processors :: "processor list"

text \<open>Libraries such as boto3 and urllib3 give their loggers a \<open>NullHandler\<close>, which writes nothing.\<close>

datatype handler = StreamHandler formatter | OtherHandler nat | NullHandler

record py_logger =
  handlers :: "handler list"
  propagate :: bool
  disabled :: bool
  level :: int

text \<open>The loggers by name; the root is the empty name, a logger nobody has asked for has no handler and propagates.\<close>

record logging_state =
  loggers :: "string \<Rightarrow> py_logger"
  structlog_processors :: "processor list"
  cache_logger :: bool
  stdout_encoding :: string

definition DEBUG :: int where "DEBUG = 10"
definition INFO :: int where "INFO = 20"

definition build_processors :: "processor list" where
  "build_processors =
     [Merge_contextvars, Add_log_level, Add_logger_name, TimeStamper ''iso'' True, StackInfoRenderer, Format_exc_info,
      UnicodeDecoder, Mask_sensitive_data]"

definition renderer :: "settings \<Rightarrow> bool \<Rightarrow> processor" where
  "renderer S tty = (if is_production S then JSONRenderer False else ConsoleRenderer tty)"

definition uvicorn_loggers :: "string list" where
  "uvicorn_loggers = [''uvicorn'', ''uvicorn.error'', ''uvicorn.access'']"

definition update_logger :: "string \<Rightarrow> (py_logger \<Rightarrow> py_logger) \<Rightarrow> logging_state \<Rightarrow> logging_state" where
  "update_logger n f st = st\<lparr>loggers := (loggers st)(n := f (loggers st n))\<rparr>"

text \<open>\<open>tty\<close> is \<^verbatim>\<open>sys.stderr.isatty()\<close>, \<open>can\<close> is \<^verbatim>\<open>hasattr(sys.stdout, "reconfigure")\<close>.\<close>

definition configure_logging :: "settings \<Rightarrow> bool \<Rightarrow> bool \<Rightarrow> logging_state \<Rightarrow> logging_state" where
  "configure_logging S tty can st =
     (let shared_processors = build_processors;
          st1 = st\<lparr>structlog_processors := shared_processors @ [Wrap_for_formatter], cache_logger := True\<rparr>;
          fm = \<lparr>foreign_pre_chain = shared_processors, fm_processors = [Remove_processors_meta, renderer S tty]\<rparr>;
          st2 = (if can then st1\<lparr>stdout_encoding := ''utf-8''\<rparr> else st1);
          st3 = update_logger [] (\<lambda>l. l\<lparr>handlers := [StreamHandler fm], level := if DB_ECHO S then DEBUG else INFO\<rparr>) st2;
          st4 = fold (\<lambda>n. update_logger n (\<lambda>l. l\<lparr>handlers := [], propagate := True\<rparr>)) uvicorn_loggers st3
      in update_logger ''uvicorn.access'' (\<lambda>l. l\<lparr>disabled := True\<rparr>) st4)"

text \<open>
  \<^verbatim>\<open>create_engine(..., echo=settings.DB_ECHO)\<close> in \<^verbatim>\<open>infrastructure/database/session.py\<close>.  As SQLAlchemy documents, an
  engine that echoes attaches a handler to its logger if that has none, a \<^verbatim>\<open>StreamHandler\<close> on the standard output with a
  format of its own: \<open>OtherHandler k\<close>.
\<close>

definition engine_logger :: string where
  "engine_logger = ''sqlalchemy.engine.Engine''"

definition create_engine_echo :: "settings \<Rightarrow> nat \<Rightarrow> logging_state \<Rightarrow> logging_state" where
  "create_engine_echo S k st =
     (if DB_ECHO S \<and> handlers (loggers st engine_logger) = []
      then update_logger engine_logger (\<lambda>l. l\<lparr>handlers := [OtherHandler k]\<rparr>) st else st)"

text \<open>
  Python's \<^verbatim>\<open>logging\<close>: a record goes to the handlers of its logger and of the loggers above it, up to the first that
  does not propagate, if the logger is not disabled and the first level set on the way up lets it pass.
\<close>

definition parent :: "string \<Rightarrow> string" where
  "parent n = rev (drop 1 (dropWhile (\<lambda>c. c \<noteq> CHR ''.'') (rev n)))"

lemma parent_shorter: "n \<noteq> [] \<Longrightarrow> length (parent n) < length n"
  using length_dropWhile_le [of "\<lambda>c. c \<noteq> CHR ''.''" "rev n"] by (cases n) (simp_all add: parent_def)

function logger_chain :: "string \<Rightarrow> string list" where
  "logger_chain n = (if n = [] then [[]] else n # logger_chain (parent n))"
  by pat_completeness auto
termination by (relation "measure length") (simp_all add: parent_shorter)

declare logger_chain.simps [simp del]

fun call_handlers :: "logging_state \<Rightarrow> string list \<Rightarrow> handler list" where
  "call_handlers st [] = []"
| "call_handlers st (n # ns) =
     handlers (loggers st n) @ (if propagate (loggers st n) then call_handlers st ns else [])"

definition effective_level :: "logging_state \<Rightarrow> string \<Rightarrow> int" where
  "effective_level st n =
     (case find (\<lambda>m. level (loggers st m) \<noteq> 0) (logger_chain n) of Some m \<Rightarrow> level (loggers st m) | None \<Rightarrow> 0)"

text \<open>
  What reaches the output: by one of the application's handlers, a renderer and the event it is given, or an event in
  another handler's own format.
\<close>

datatype 'a log_line = Rendered processor "'a event_dict" | Plain nat "'a event_dict"

definition run_processors ::
  "(processor \<Rightarrow> 'a event_dict \<Rightarrow> 'a event_dict) \<Rightarrow> processor list \<Rightarrow> 'a event_dict \<Rightarrow> 'a event_dict" where
  "run_processors P ps = fold (\<lambda>p. if p = Mask_sensitive_data then mask_sensitive_data else P p) ps"

definition handle_record ::
  "(processor \<Rightarrow> 'a event_dict \<Rightarrow> 'a event_dict) \<Rightarrow> logging_state \<Rightarrow> bool \<Rightarrow> string \<Rightarrow> 'a event_dict \<Rightarrow> 'a log_line list" where
  "handle_record P st structlog n ev =
     (if disabled (loggers st n) then []
      else concat (map (\<lambda>h. case h of
          StreamHandler fm \<Rightarrow>
            [Rendered (last (fm_processors fm))
              (run_processors P (butlast (fm_processors fm))
                (run_processors P (if structlog then structlog_processors st else foreign_pre_chain fm) ev))]
        | OtherHandler k \<Rightarrow> [Plain k ev]
        | NullHandler \<Rightarrow> [])
        (call_handlers st (logger_chain n))))"

definition emit ::
  "(processor \<Rightarrow> 'a event_dict \<Rightarrow> 'a event_dict) \<Rightarrow> logging_state \<Rightarrow> bool \<Rightarrow> string \<Rightarrow> int \<Rightarrow> 'a event_dict \<Rightarrow>
   'a log_line list" where
  "emit P st structlog n lvl ev = (if lvl < effective_level st n then [] else handle_record P st structlog n ev)"

text \<open>An echoing engine logs its statements at INFO, past the level of its logger.\<close>

definition echo_statement ::
  "(processor \<Rightarrow> 'a event_dict \<Rightarrow> 'a event_dict) \<Rightarrow> settings \<Rightarrow> logging_state \<Rightarrow> 'a event_dict \<Rightarrow> 'a log_line list" where
  "echo_statement P S st ev =
     (if DB_ECHO S then handle_record P st False engine_logger ev else emit P st False engine_logger INFO ev)"

section \<open>Lemmas\<close>

lemma configured_logger:
  "loggers (configure_logging S tty can st) n =
    (if n = [] then (loggers st n)\<lparr>handlers := [StreamHandler \<lparr>foreign_pre_chain = build_processors,
         fm_processors = [Remove_processors_meta, renderer S tty]\<rparr>], level := if DB_ECHO S then DEBUG else INFO\<rparr>
     else if n \<in> set uvicorn_loggers
       then (loggers st n)\<lparr>handlers := [], propagate := True, disabled := disabled (loggers st n) \<or> n = ''uvicorn.access''\<rparr>
     else loggers st n)"
  by (simp add: configure_logging_def Let_def update_logger_def uvicorn_loggers_def)

lemma configured_processors:
  "structlog_processors (configure_logging S tty can st) = build_processors @ [Wrap_for_formatter]"
  by (simp add: configure_logging_def Let_def update_logger_def uvicorn_loggers_def)

lemma configure_logging_idem:
  "configure_logging S tty can (configure_logging S tty can st) = configure_logging S tty can st"
  by (simp add: configure_logging_def Let_def update_logger_def uvicorn_loggers_def fun_upd_twist)

text \<open>
  Before the engine is created, nobody but the root and uvicorn has handlers that write or keeps its records to itself, and
  the engine's logger has none.
\<close>

definition plain_loggers :: "logging_state \<Rightarrow> bool" where
  "plain_loggers st \<longleftrightarrow>
     (\<forall>n. n \<noteq> [] \<longrightarrow> n \<notin> set uvicorn_loggers \<longrightarrow> set (handlers (loggers st n)) \<subseteq> {NullHandler} \<and> propagate (loggers st n)) \<and>
     handlers (loggers st engine_logger) = []"

lemma logger_chain_shorter: "m \<in> set (logger_chain n) \<Longrightarrow> length m \<le> length n"
proof (induction n rule: logger_chain.induct)
  case (1 n)
  show ?case
  proof (cases "n = []")
    case False
    with 1 parent_shorter [OF False] show ?thesis
      by (auto simp: logger_chain.simps [of n])
  qed (use 1 in \<open>simp add: logger_chain.simps\<close>)
qed

lemma concat_map_filter: "(\<And>x. \<not> Q x \<Longrightarrow> f x = []) \<Longrightarrow> concat (map f xs) = concat (map f (filter Q xs))"
  by (induction xs) auto

text \<open>The handlers a record meets: the engine's own, if it echoes and the record comes from it, and the application's.\<close>

definition meets_engine :: "settings \<Rightarrow> string \<Rightarrow> bool" where
  "meets_engine S n \<longleftrightarrow> DB_ECHO S \<and> engine_logger \<in> set (logger_chain n)"

lemma configured_handlers:
  assumes "plain_loggers st"
  shows "filter (\<lambda>h. h \<noteq> NullHandler) (call_handlers (configure_logging S tty can (create_engine_echo S k st)) (logger_chain n)) =
    (if meets_engine S n then [OtherHandler k] else []) @
    [StreamHandler \<lparr>foreign_pre_chain = build_processors, fm_processors = [Remove_processors_meta, renderer S tty]\<rparr>]"
proof (induction n rule: logger_chain.induct)
  case (1 n)
  let ?st = "configure_logging S tty can (create_engine_echo S k st)"
  have e: "engine_logger \<noteq> []" "engine_logger \<notin> set uvicorn_loggers"
    by (simp_all add: engine_logger_def uvicorn_loggers_def)
  then have e': "handlers (loggers st engine_logger) = []" using assms by (simp add: plain_loggers_def)
  show ?case
  proof (cases "n = []")
    case False
    have "filter (\<lambda>h. h \<noteq> NullHandler) (handlers (loggers ?st n)) = (if DB_ECHO S \<and> n = engine_logger then [OtherHandler k] else []) \<and>
        propagate (loggers ?st n)"
      using assms False e e'
      by (auto simp: configured_logger plain_loggers_def create_engine_echo_def update_logger_def filter_empty_conv)
    moreover have "n \<notin> set (logger_chain (parent n))"
      using logger_chain_shorter [of n "parent n"] parent_shorter [OF False] by auto
    ultimately show ?thesis using 1 [OF False] False
      by (subst logger_chain.simps) (auto simp: meets_engine_def logger_chain.simps [of n])
  qed (use e in \<open>simp add: configured_logger logger_chain.simps meets_engine_def\<close>)
qed

lemma masked_prefix: "\<exists>d. run_processors P build_processors ev = mask_sensitive_data d"
  by (simp add: run_processors_def build_processors_def) blast

lemma run_processors_snoc: "run_processors P (ps @ [p]) ev =
    (if p = Mask_sensitive_data then mask_sensitive_data (run_processors P ps ev) else P p (run_processors P ps ev))"
  by (simp add: run_processors_def)

lemma run_processors_one: "p \<noteq> Mask_sensitive_data \<Longrightarrow> run_processors P [p] ev = P p ev"
  by (simp add: run_processors_def)

lemma atoms_mono: "set d \<subseteq> set e \<Longrightarrow> set (atoms (Dict d)) \<subseteq> set (atoms (Dict e))"
  by (simp only: atoms.simps set_concat set_map) blast

lemma masked_shallow:
  "(p, a) \<in> set (atoms (Dict (mask_sensitive_data ev))) \<Longrightarrow> length p \<le> 7 \<Longrightarrow> a \<noteq> MASK \<Longrightarrow> Some k \<in> set p \<Longrightarrow> \<not> is_sensitive k"
  using mask_sensitive_data_masks [of ev] unfolding masks_def masked_at_def exposed_def by fastforce

section \<open>Properties\<close>

text \<open>
  C34.  What the application's handler renders, and what passes it by.  Once the engine is created and logging is configured, any
  record of any logger that is loud enough is rendered exactly once by the application's handler, whether it was made with
  \<^verbatim>\<open>structlog\<close> or with plain \<^verbatim>\<open>logging\<close>; the access log of uvicorn not at all.  Whatever the library's processors
  add, no value nested at most seven deep below a sensitive key is rendered.  With \<^verbatim>\<open>DB_ECHO\<close> off there is no other line.
  With it on, every record of the engine, each of its statements among them, comes out a second time, as it is: by the
  handler SQLAlchemy attached, which does not mask.  Configuring a second time changes nothing.
\<close>

theorem records_masked_once:
  fixes P :: "processor \<Rightarrow> 'a event_dict \<Rightarrow> 'a event_dict"
  assumes "plain_loggers st" and "\<And>p d. p \<in> {Wrap_for_formatter, Remove_processors_meta} \<Longrightarrow> set (P p d) \<subseteq> set d"
    and "st' = configure_logging S tty can (create_engine_echo S k st)"
    and "\<not> disabled (loggers st n)" and "effective_level st' n \<le> lvl"
  shows "\<exists>d. emit P st' structlog n lvl ev =
      (if n = ''uvicorn.access'' then []
       else (if meets_engine S n then [Plain k ev] else []) @ [Rendered (renderer S tty) d]) \<and>
    (n = engine_logger \<and> DB_ECHO S \<and> \<not> structlog \<longrightarrow>
       echo_statement P S st' ev = [Plain k ev, Rendered (renderer S tty) d]) \<and>
    (\<forall>p a. (p, a) \<in> set (atoms (Dict d)) \<longrightarrow> length p \<le> 7 \<longrightarrow> a \<noteq> MASK \<longrightarrow> (\<forall>k. Some k \<in> set p \<longrightarrow> \<not> is_sensitive k)) \<and>
    configure_logging S tty can st' = st'"
proof -
  obtain m where m: "run_processors P build_processors ev = mask_sensitive_data m" using masked_prefix by blast
  let ?d = "P Remove_processors_meta
    (if structlog then P Wrap_for_formatter (mask_sensitive_data m) else mask_sensitive_data m)"
  have "set ?d \<subseteq> set (mask_sensitive_data m)"
    using assms(2) [of Remove_processors_meta] assms(2) [of Wrap_for_formatter] by (auto split: if_splits)
  then have "set (atoms (Dict ?d)) \<subseteq> set (atoms (Dict (mask_sensitive_data m)))" by (rule atoms_mono)
  then have deep: "\<forall>p a. (p, a) \<in> set (atoms (Dict ?d)) \<longrightarrow> length p \<le> 7 \<longrightarrow> a \<noteq> MASK \<longrightarrow>
      (\<forall>k. Some k \<in> set p \<longrightarrow> \<not> is_sensitive k)"
    using masked_shallow by blast
  have lines: "handle_record P st' structlog n ev =
      (if n = ''uvicorn.access'' then []
       else (if meets_engine S n then [Plain k ev] else []) @ [Rendered (renderer S tty) ?d])"
  proof -
    have "disabled (loggers (create_engine_echo S k st) n) = disabled (loggers st n)"
      by (simp add: create_engine_echo_def update_logger_def)
    with assms(3,4) m configured_handlers [OF assms(1), of S tty can k n] show ?thesis
      unfolding handle_record_def
      by (subst concat_map_filter [where Q = "\<lambda>h. h \<noteq> NullHandler"], simp)
        (cases "n = []"; simp add: configured_logger configured_processors run_processors_snoc run_processors_one
          uvicorn_loggers_def)
  qed
  have "emit P st' structlog n lvl ev = handle_record P st' structlog n ev"
    using assms(5) by (simp add: emit_def)
  note this [unfolded lines]
  moreover have "echo_statement P S st' ev = [Plain k ev, Rendered (renderer S tty) ?d]"
    if "n = engine_logger \<and> DB_ECHO S \<and> \<not> structlog"
  proof -
    have "engine_logger \<noteq> []" "engine_logger \<noteq> ''uvicorn.access''" by (simp_all add: engine_logger_def)
    then have "meets_engine S n" "n \<noteq> ''uvicorn.access''"
      using that by (simp_all add: meets_engine_def logger_chain.simps [of engine_logger])
    with that lines show ?thesis by (simp add: echo_statement_def)
  qed
  ultimately show ?thesis using deep configure_logging_idem unfolding assms(3) by (intro exI [of _ ?d]) blast
qed

theorem records_masked_once_witness:
  "let st = \<lparr>loggers = (\<lambda>_. \<lparr>handlers = [], propagate = True, disabled = False, level = 0\<rparr>)
       (''uvicorn'' := \<lparr>handlers = [OtherHandler 0], propagate = False, disabled = False, level = 20\<rparr>),
       structlog_processors = [], cache_logger = False, stdout_encoding = ''cp949''\<rparr>;
     st' = configure_logging default_settings True True (create_engine_echo default_settings 1 st);
     ev = [(''event'', Text ''login''), (''password'', Text ''hunter2'')] :: nat event_dict
   in emit (\<lambda>_ d. d) st True ''uvicorn.error'' INFO ev = [Plain 0 ev] \<and>
     (\<exists>d. emit (\<lambda>_ d. d) st' True ''uvicorn.error'' INFO ev = [Rendered (ConsoleRenderer True) d] \<and>
       ([Some ''password''], Text ''hunter2'') \<notin> set (atoms (Dict d)))"
proof -
  let ?st = "\<lparr>loggers = (\<lambda>_. \<lparr>handlers = [], propagate = True, disabled = False, level = 0\<rparr>)
       (''uvicorn'' := \<lparr>handlers = [OtherHandler 0], propagate = False, disabled = False, level = 20\<rparr>),
       structlog_processors = [], cache_logger = False, stdout_encoding = ''cp949''\<rparr>"
  let ?ev = "[(''event'', Text ''login''), (''password'', Text ''hunter2'')] :: nat event_dict"
  let ?st' = "configure_logging default_settings True True (create_engine_echo default_settings 1 ?st)"
  have p: "plain_loggers ?st" by (simp add: plain_loggers_def uvicorn_loggers_def engine_logger_def)
  have c: "logger_chain ''uvicorn.error'' = [''uvicorn.error'', ''uvicorn'', []]"
    by (simp add: logger_chain.simps [of "CHR ''u'' # _"] logger_chain.simps [of "[]"] parent_def)
  have l: "effective_level ?st ''uvicorn.error'' = 20" "effective_level ?st' ''uvicorn.error'' = 20"
    by (simp_all add: effective_level_def c configured_logger uvicorn_loggers_def create_engine_echo_def default_settings_def)
  have r: "renderer default_settings True = ConsoleRenderer True"
    by (simp add: renderer_def is_production_def default_settings_def)
  have s: "is_sensitive ''password''" by code_simp
  have "emit (\<lambda>_ d. d) ?st True ''uvicorn.error'' INFO ?ev = [Plain 0 ?ev]"
    by (simp add: emit_def handle_record_def l c INFO_def)
  moreover have "\<exists>d. emit (\<lambda>_ d. d) ?st' True ''uvicorn.error'' INFO ?ev = [Rendered (ConsoleRenderer True) d] \<and>
      ([Some ''password''], Text ''hunter2'') \<notin> set (atoms (Dict d))"
  proof -
    have "\<not> meets_engine default_settings ''uvicorn.error''" by (simp add: meets_engine_def default_settings_def)
    then show ?thesis
      using records_masked_once [OF p, of "\<lambda>_ d. d" ?st' default_settings True True 1 "''uvicorn.error''" INFO True ?ev] l r s
      by (force simp: INFO_def MASK_def)
  qed
  ultimately show ?thesis by (simp add: Let_def)
qed

end
