(* ===== verification/Migrations.thy ===== *)
theory Migrations
  imports Prelude "HOL-Library.Multiset"
begin

text \<open>
  \<^verbatim>\<open>alembic/versions\<close> and the table definitions of the models.  A revision is a list of the operations of
  \<^verbatim>\<open>alembic.op\<close>; their meaning is that of the MySQL statements they emit: an operation on a table,
  column, index or constraint that does not exist (or already exists) is an error, so is dropping an index
  a foreign key needs, a rename is followed by indexes and foreign keys, and \<^verbatim>\<open>CHANGE\<close>/\<^verbatim>\<open>MODIFY\<close> restate
  a column, so that attributes not repeated are lost.  The texts of column comments are identifiers.  The history of revisions has a
  branch that is merged again; the property says where it leads, from every order Alembic may take.
\<close>

section \<open>Schemas\<close>

datatype col_type = INTEGER | VARCHAR nat | TEXT | DATETIME | BOOLEAN | ENUM "string list"

datatype default_value = Now | Lit string

datatype column_comment = Created_at | Updated_at | Deleted_at | Login_email | Display_name | Inactive_refused

datatype column =
  Column (cl_name: string) (cl_type: col_type) (cl_nullable: bool) (cl_default: "default_value option")
    (cl_serial: bool) (cl_comment: "column_comment option")

datatype foreign_key =
  ForeignKey (fk_columns: "string list") (fk_table: string) (fk_refs: "string list") (fk_cascade: bool)

text \<open>Indexes by name, with their columns; the flag says unique.  A unique constraint is a unique index.\<close>

datatype table =
  Table (tb_columns: "column list") (tb_key: "string list") (tb_indexes: "(string \<times> string list \<times> bool) list")
    (tb_foreign: "(string \<times> foreign_key) list")

type_synonym schema = "(string \<times> table) list"

definition col :: "string \<Rightarrow> col_type \<Rightarrow> bool \<Rightarrow> column" where
  "col n ty nullable = Column n ty nullable None False None"

fun with_default :: "default_value \<Rightarrow> column \<Rightarrow> column" where
  "with_default d (Column n ty nl _ a c) = Column n ty nl (Some d) a c"

fun serial :: "column \<Rightarrow> column" where
  "serial (Column n ty nl d _ c) = Column n ty nl d True c"

fun commented :: "column_comment \<Rightarrow> column \<Rightarrow> column" where
  "commented c (Column n ty nl d a _) = Column n ty nl d a (Some c)"

section \<open>Operations\<close>

datatype constraint_kind = FOREIGN | UNIQUE

datatype alteration =
    New_name string
  | Server_default "default_value option"
  | Autoincrement bool
  | Comment "column_comment option"
  | Existing_type col_type
  | Existing_nullable bool
  | Existing_server_default default_value
  | Existing_comment column_comment

datatype ddl =
    CreateTable string table
  | DropTable string
  | AddColumn string column
  | DropColumn string string
  | AlterColumn string string "alteration list"
  | CreateIndex string string "string list" bool
  | DropIndex string string
  | DropConstraint string string constraint_kind
  | CreateForeignKey string string foreign_key

text \<open>The last value of an argument, if it was given.\<close>

fun given :: "(alteration \<Rightarrow> 'a option) \<Rightarrow> alteration list \<Rightarrow> 'a option" where
  "given f [] = None"
| "given f (a # as) = (case given f as of Some v \<Rightarrow> Some v | None \<Rightarrow> f a)"

abbreviation "new_name \<equiv> given (\<lambda>a. case a of New_name n \<Rightarrow> Some n | _ \<Rightarrow> None)"
abbreviation "server_default \<equiv> given (\<lambda>a. case a of Server_default d \<Rightarrow> Some d | _ \<Rightarrow> None)"
abbreviation "autoincrement \<equiv> given (\<lambda>a. case a of Autoincrement b \<Rightarrow> Some b | _ \<Rightarrow> None)"
abbreviation "comment_arg \<equiv> given (\<lambda>a. case a of Comment c \<Rightarrow> Some c | _ \<Rightarrow> None)"
abbreviation "existing_type \<equiv> given (\<lambda>a. case a of Existing_type t \<Rightarrow> Some t | _ \<Rightarrow> None)"
abbreviation "existing_nullable \<equiv> given (\<lambda>a. case a of Existing_nullable b \<Rightarrow> Some b | _ \<Rightarrow> None)"
abbreviation "existing_default \<equiv> given (\<lambda>a. case a of Existing_server_default d \<Rightarrow> Some d | _ \<Rightarrow> None)"
abbreviation "existing_comment \<equiv> given (\<lambda>a. case a of Existing_comment c \<Rightarrow> Some c | _ \<Rightarrow> None)"

text \<open>
  \<^verbatim>\<open>alter_column\<close> on MySQL.  A new name, auto-increment or comment needs \<^verbatim>\<open>CHANGE\<close>/\<^verbatim>\<open>MODIFY\<close>, which restates
  type, nullability, default, auto-increment and comment; a server default alone is \<^verbatim>\<open>SET\<close>/\<^verbatim>\<open>DROP DEFAULT\<close>.
\<close>

fun alter :: "alteration list \<Rightarrow> column \<Rightarrow> column" where
  "alter as (Column n ty nl d a c) =
     (if new_name as \<noteq> None \<or> autoincrement as \<noteq> None \<or> comment_arg as \<noteq> None then
        Column (case new_name as of Some n' \<Rightarrow> n' | None \<Rightarrow> n)
          (case existing_type as of Some t \<Rightarrow> t | None \<Rightarrow> ty)
          (case existing_nullable as of Some b \<Rightarrow> b | None \<Rightarrow> True)
          (case server_default as of Some d' \<Rightarrow> d' | None \<Rightarrow> existing_default as)
          (autoincrement as = Some True)
          (case comment_arg as of Some c' \<Rightarrow> c' | None \<Rightarrow> existing_comment as)
      else Column n ty nl (case server_default as of Some d' \<Rightarrow> d' | None \<Rightarrow> d) a c)"

definition has_columns :: "table \<Rightarrow> string list \<Rightarrow> bool" where
  "has_columns t cs \<longleftrightarrow> list_all (\<lambda>c. c \<in> set (map cl_name (tb_columns t))) cs"

text \<open>
  InnoDB wants an index (or the primary key) that begins with the columns of a foreign key, and one on the table
  it refers to that begins with the columns it names.  The first it creates itself if need be, under the name of the
  constraint, and gives it up when an explicit index serves; an index that is needed is not dropped (error 1553).
\<close>

definition covers :: "string list \<Rightarrow> table \<Rightarrow> bool" where
  "covers cs t \<longleftrightarrow> list_ex (\<lambda>ks. take (length cs) ks = cs) (tb_key t # map (\<lambda>(_, ks, _). ks) (tb_indexes t))"

fun add_foreign :: "string \<times> foreign_key \<Rightarrow> table \<Rightarrow> table" where
  "add_foreign (i, f) t = Table (tb_columns t) (tb_key t)
     (tb_indexes t @ (if covers (fk_columns f) t then [] else [(i, fk_columns f, False)])) (tb_foreign t @ [(i, f)])"

definition supplanted :: "table \<Rightarrow> string list \<Rightarrow> string \<times> string list \<times> bool \<Rightarrow> bool" where
  "supplanted t cs k \<longleftrightarrow> fst k \<in> set (map fst (tb_foreign t)) \<and> take (length (fst (snd k))) cs = fst (snd k)"

definition indexes_suffice :: "schema \<Rightarrow> string \<Rightarrow> table \<Rightarrow> bool" where
  "indexes_suffice s n t \<longleftrightarrow> list_all (\<lambda>(_, f). covers (fk_columns f) t) (tb_foreign t) \<and>
     list_all (\<lambda>(_, x). list_all (\<lambda>(_, f). fk_table f = n \<longrightarrow> covers (fk_refs f) t) (tb_foreign x)) s"

definition foreign_ok :: "schema \<Rightarrow> table \<Rightarrow> foreign_key \<Rightarrow> bool" where
  "foreign_ok s t f \<longleftrightarrow> has_columns t (fk_columns f) \<and>
     (case map_of s (fk_table f) of None \<Rightarrow> False | Some r \<Rightarrow> has_columns r (fk_refs f) \<and> covers (fk_refs f) r)"

text \<open>Does a foreign key of the schema refer to table \<open>n\<close> (through a column accepted by \<open>p\<close>)?\<close>

definition referenced :: "schema \<Rightarrow> string \<Rightarrow> (string \<Rightarrow> bool) \<Rightarrow> bool" where
  "referenced s n p \<longleftrightarrow> list_ex (\<lambda>(_, t). list_ex (\<lambda>(_, f). fk_table f = n \<and> list_ex p (fk_refs f)) (tb_foreign t)) s"

definition on_table :: "string \<Rightarrow> (table \<Rightarrow> table option) \<Rightarrow> schema \<Rightarrow> schema option" where
  "on_table n f s =
     (case map_of s n of
        None \<Rightarrow> None
      | Some t \<Rightarrow> map_option (\<lambda>t'. map (\<lambda>(k, x). (k, if k = n then t' else x)) s) (f t))"

definition rename_refs :: "string \<Rightarrow> string \<Rightarrow> string \<Rightarrow> schema \<Rightarrow> schema" where
  "rename_refs n old new s = map (\<lambda>(k, t).
     (k, Table (tb_columns t) (tb_key t) (tb_indexes t)
           (map (\<lambda>(i, f). (i, if fk_table f = n
                then ForeignKey (fk_columns f) n (map (\<lambda>c. if c = old then new else c) (fk_refs f)) (fk_cascade f)
                else f)) (tb_foreign t)))) s"

definition alter_table :: "string \<Rightarrow> alteration list \<Rightarrow> table \<Rightarrow> table option" where
  "alter_table c as t =
     (let new = (case new_name as of Some n \<Rightarrow> n | None \<Rightarrow> c);
          ren = (\<lambda>x. if x = c then new else x)
      in if \<not> has_columns t [c] \<or> (new \<noteq> c \<and> has_columns t [new]) then None
         else Some (Table (map (\<lambda>x. if cl_name x = c then alter as x else x) (tb_columns t)) (map ren (tb_key t))
           (map (\<lambda>(i, cs, u). (i, map ren cs, u)) (tb_indexes t))
           (map (\<lambda>(i, f). (i, ForeignKey (map ren (fk_columns f)) (fk_table f) (fk_refs f) (fk_cascade f)))
              (tb_foreign t))))"

text \<open>
  A column of a foreign key, on either side, keeps its type, is not made \<^verbatim>\<open>AUTO_INCREMENT\<close>, and is not renamed by a change
  that has to copy the table (errors 1832 and 1833).
\<close>

definition change_allowed :: "schema \<Rightarrow> string \<Rightarrow> string \<Rightarrow> alteration list \<Rightarrow> table \<Rightarrow> bool" where
  "change_allowed s n c as t \<longleftrightarrow> list_all (\<lambda>x.
     let y = alter as x
     in cl_name x \<noteq> c \<or>
        \<not> (list_ex (\<lambda>(_, f). c \<in> set (fk_columns f)) (tb_foreign t) \<or> referenced s n (\<lambda>x. x = c)) \<or>
        (cl_type y = cl_type x \<and>
         (cl_serial y = cl_serial x \<or> (cl_serial x \<and> cl_name y = cl_name x)))) (tb_columns t)"

fun apply_ddl :: "ddl \<Rightarrow> schema \<Rightarrow> schema option" where
  "apply_ddl (CreateTable n t) s =
     (if map_of s n \<noteq> None \<or> \<not> has_columns t (tb_key t @ concat (map (\<lambda>(_, cs, _). cs) (tb_indexes t))) \<or>
         \<not> list_all (\<lambda>(_, f). foreign_ok s t f) (tb_foreign t) then None
      else Some (s @ [(n, fold add_foreign (tb_foreign t) (Table (tb_columns t) (tb_key t) (tb_indexes t) []))]))"
| "apply_ddl (DropTable n) s =
     (if map_of s n = None \<or> referenced (filter (\<lambda>(k, _). k \<noteq> n) s) n (\<lambda>_. True) then None
      else Some (filter (\<lambda>(k, _). k \<noteq> n) s))"
| "apply_ddl (AddColumn n c) s = on_table n (\<lambda>t. if has_columns t [cl_name c] then None
     else Some (Table (tb_columns t @ [c]) (tb_key t) (tb_indexes t) (tb_foreign t))) s"
| "apply_ddl (DropColumn n c) s =
     (if referenced s n (\<lambda>x. x = c) then None
      else on_table n (\<lambda>t. if \<not> has_columns t [c] \<or> list_ex (\<lambda>(_, f). c \<in> set (fk_columns f)) (tb_foreign t) then None
        else Some (Table (filter (\<lambda>x. cl_name x \<noteq> c) (tb_columns t)) (filter (\<lambda>x. x \<noteq> c) (tb_key t))
          (filter (\<lambda>(_, cs, _). cs \<noteq> []) (map (\<lambda>(i, cs, u). (i, filter (\<lambda>x. x \<noteq> c) cs, u)) (tb_indexes t)))
          (tb_foreign t))) s)"
| "apply_ddl (AlterColumn n c as) s =
     map_option (case new_name as of Some new \<Rightarrow> rename_refs n c new | None \<Rightarrow> id) 
       (on_table n (\<lambda>t. if change_allowed s n c as t then alter_table c as t else None) s)"
| "apply_ddl (CreateIndex i n cs u) s = on_table n (\<lambda>t.
     if i \<in> set (map fst (tb_indexes t)) \<or> \<not> has_columns t cs then None
     else Some (Table (tb_columns t) (tb_key t) (filter (\<lambda>k. \<not> supplanted t cs k) (tb_indexes t) @ [(i, cs, u)]) (tb_foreign t))) s"
| "apply_ddl (DropIndex i n) s = on_table n (\<lambda>t.
     let t' = Table (tb_columns t) (tb_key t) (filter (\<lambda>(j, _). j \<noteq> i) (tb_indexes t)) (tb_foreign t)
     in if i \<notin> set (map fst (tb_indexes t)) \<or> \<not> indexes_suffice s n t' then None else Some t') s"
| "apply_ddl (DropConstraint i n UNIQUE) s = on_table n (\<lambda>t.
     let t' = Table (tb_columns t) (tb_key t) (filter (\<lambda>(j, _). j \<noteq> i) (tb_indexes t)) (tb_foreign t)
     in if \<not> list_ex (\<lambda>(j, _, u). j = i \<and> u) (tb_indexes t) \<or> \<not> indexes_suffice s n t' then None else Some t') s"
| "apply_ddl (DropConstraint i n FOREIGN) s = on_table n (\<lambda>t.
     if i \<notin> set (map fst (tb_foreign t)) then None
     else Some (Table (tb_columns t) (tb_key t) (tb_indexes t) (filter (\<lambda>(j, _). j \<noteq> i) (tb_foreign t)))) s"
| "apply_ddl (CreateForeignKey i n f) s = on_table n (\<lambda>t.
     if i \<in> set (map fst (tb_foreign t)) \<or> \<not> foreign_ok s t f then None
     else Some (add_foreign (i, f) t)) s"

fun run_ddl :: "ddl list \<Rightarrow> schema \<Rightarrow> schema option" where
  "run_ddl [] s = Some s"
| "run_ddl (d # ds) s = (case apply_ddl d s of None \<Rightarrow> None | Some s' \<Rightarrow> run_ddl ds s')"

section \<open>The revisions\<close>

subsection \<open>\<^verbatim>\<open>20260722_2152-3eb81cd3f427_create_initial_schema.py\<close>\<close>

definition upgrade_3eb81cd3f427 :: "ddl list" where
  "upgrade_3eb81cd3f427 = [
     CreateTable ''users'' (Table
       [serial (col ''id'' INTEGER False),
        commented Login_email (col ''email'' (VARCHAR 255) False),
        col ''password_hash'' (VARCHAR 255) False,
        commented Display_name (col ''nickname'' (VARCHAR 50) False),
        with_default (Lit ''USER'') (col ''role'' (VARCHAR 20) False),
        commented Inactive_refused (with_default (Lit ''1'') (col ''is_active'' BOOLEAN False)),
        commented Created_at (with_default Now (col ''created_at'' DATETIME False)),
        commented Updated_at (with_default Now (col ''updated_at'' DATETIME False))]
       [''id''] [(''uq_users_email'', [''email''], True)]
       []),
     CreateTable ''posts'' (Table
       [serial (col ''id'' INTEGER False),
        col ''title'' (VARCHAR 200) False,
        col ''content'' TEXT False,
        col ''author_id'' INTEGER False,
        commented Created_at (with_default Now (col ''created_at'' DATETIME False)),
        commented Updated_at (with_default Now (col ''updated_at'' DATETIME False)),
        commented Deleted_at (col ''deleted_at'' DATETIME True)]
       [''id''] []
       [(''fk_posts_author_id_users'', ForeignKey [''author_id''] ''users'' [''id''] False)]),
     CreateIndex ''ix_posts_author_id'' ''posts'' [''author_id''] False,
     CreateIndex ''ix_posts_deleted_at'' ''posts'' [''deleted_at''] False,
     CreateTable ''comments'' (Table
       [serial (col ''id'' INTEGER False),
        col ''content'' TEXT False,
        col ''post_id'' INTEGER False,
        col ''author_id'' INTEGER False,
        commented Created_at (with_default Now (col ''created_at'' DATETIME False)),
        commented Updated_at (with_default Now (col ''updated_at'' DATETIME False)),
        commented Deleted_at (col ''deleted_at'' DATETIME True)]
       [''id''] []
       [(''fk_comments_author_id_users'', ForeignKey [''author_id''] ''users'' [''id''] False),
        (''fk_comments_post_id_posts'', ForeignKey [''post_id''] ''posts'' [''id''] True)]),
     CreateIndex ''ix_comments_author_id'' ''comments'' [''author_id''] False,
     CreateIndex ''ix_comments_deleted_at'' ''comments'' [''deleted_at''] False,
     CreateIndex ''ix_comments_post_id'' ''comments'' [''post_id''] False]"

definition downgrade_3eb81cd3f427 :: "ddl list" where
  "downgrade_3eb81cd3f427 = [
     DropIndex ''ix_comments_post_id'' ''comments'',
     DropIndex ''ix_comments_deleted_at'' ''comments'',
     DropIndex ''ix_comments_author_id'' ''comments'',
     DropTable ''comments'',
     DropIndex ''ix_posts_deleted_at'' ''posts'',
     DropIndex ''ix_posts_author_id'' ''posts'',
     DropTable ''posts'',
     DropTable ''users'']"

subsection \<open>\<^verbatim>\<open>20260801_1952-b686b1a38ef2_add_menus_table.py\<close>\<close>

definition upgrade_b686b1a38ef2 :: "ddl list" where
  "upgrade_b686b1a38ef2 = [
     CreateTable ''menus'' (Table
       [serial (col ''menu_id'' INTEGER False),
        col ''menu_name'' (VARCHAR 50) False,
        col ''menu_parent_id'' INTEGER True,
        commented Created_at (with_default Now (col ''created_at'' DATETIME False)),
        commented Updated_at (with_default Now (col ''updated_at'' DATETIME False)),
        commented Deleted_at (col ''deleted_at'' DATETIME True)]
       [''menu_id''] [(''uq_menus_parent_name'', [''menu_parent_id'', ''menu_name'', ''deleted_at''], True)]
       []),
     CreateIndex ''ix_menus_deleted_at'' ''menus'' [''deleted_at''] False,
     CreateIndex ''ix_menus_menu_parent_id'' ''menus'' [''menu_parent_id''] False]"

definition downgrade_b686b1a38ef2 :: "ddl list" where
  "downgrade_b686b1a38ef2 = [
     DropIndex ''ix_menus_menu_parent_id'' ''menus'',
     DropIndex ''ix_menus_deleted_at'' ''menus'',
     DropTable ''menus'']"

subsection \<open>\<^verbatim>\<open>20260810_2343-6e316f4b3ead_add_post_view_count.py\<close>\<close>

definition upgrade_6e316f4b3ead :: "ddl list" where
  "upgrade_6e316f4b3ead = [
     DropConstraint ''fk_comments_post_id_posts'' ''comments'' FOREIGN,
     AlterColumn ''posts'' ''id''
       [New_name ''post_id'', Existing_type INTEGER, Existing_nullable False],
     AlterColumn ''posts'' ''title''
       [New_name ''post_title'', Existing_type (VARCHAR 200), Existing_nullable False],
     AlterColumn ''posts'' ''content''
       [New_name ''post_content'', Existing_type TEXT, Existing_nullable False],
     AddColumn ''posts'' (with_default (Lit ''0'') (col ''post_view_count'' INTEGER False))]"

definition downgrade_6e316f4b3ead :: "ddl list" where
  "downgrade_6e316f4b3ead = [
     DropColumn ''posts'' ''post_view_count'',
     AlterColumn ''posts'' ''post_content''
       [New_name ''content'', Existing_type TEXT, Existing_nullable False],
     AlterColumn ''posts'' ''post_title''
       [New_name ''title'', Existing_type (VARCHAR 200), Existing_nullable False],
     AlterColumn ''posts'' ''post_id''
       [New_name ''id'', Existing_type INTEGER, Existing_nullable False]]"

subsection \<open>\<^verbatim>\<open>20260812_1529-70998f3f80d7_rename_user_id_to_user_id.py\<close>\<close>

definition upgrade_70998f3f80d7 :: "ddl list" where
  "upgrade_70998f3f80d7 = [
     AlterColumn ''users'' ''id''
       [New_name ''user_id'', Autoincrement True, Existing_type INTEGER, Existing_nullable False]]"

definition downgrade_70998f3f80d7 :: "ddl list" where
  "downgrade_70998f3f80d7 = [
     AlterColumn ''users'' ''user_id''
       [New_name ''id'', Autoincrement True, Existing_type INTEGER, Existing_nullable False]]"

subsection \<open>\<^verbatim>\<open>20260812_1534-d4394054ec4a_add_posts_like.py\<close>\<close>

definition upgrade_d4394054ec4a :: "ddl list" where
  "upgrade_d4394054ec4a = [
     CreateTable ''posts_like'' (Table
       [serial (col ''like_id'' INTEGER False),
        col ''post_id'' INTEGER False,
        col ''user_id'' INTEGER False,
        commented Created_at (with_default Now (col ''created_at'' DATETIME False)),
        commented Updated_at (with_default Now (col ''updated_at'' DATETIME False))]
       [''like_id''] [(''uq_posts_like_post_id_user_id'', [''post_id'', ''user_id''], True)]
       []),
     CreateIndex ''ix_posts_like_post_id'' ''posts_like'' [''post_id''] False,
     CreateIndex ''ix_posts_like_user_id'' ''posts_like'' [''user_id''] False,
     AlterColumn ''comments'' ''id''
       [New_name ''comment_id'', Autoincrement True, Existing_type INTEGER, Existing_nullable False],
     AlterColumn ''comments'' ''content''
       [New_name ''comment_content'', Existing_type TEXT, Existing_nullable False],
     CreateForeignKey ''fk_comments_post_id_posts'' ''comments'' (ForeignKey [''post_id''] ''posts'' [''post_id''] True),
     AlterColumn ''posts'' ''post_view_count''
       [Server_default None, Existing_type INTEGER, Existing_nullable False],
     DropConstraint ''fk_posts_author_id_users'' ''posts'' FOREIGN,
     DropIndex ''uq_users_email'' ''users'',
     AlterColumn ''users'' ''email''
       [New_name ''user_email'', Existing_type (VARCHAR 255), Existing_nullable False],
     AlterColumn ''users'' ''password_hash''
       [New_name ''user_password_hash'', Existing_type (VARCHAR 255), Existing_nullable False],
     AlterColumn ''users'' ''nickname''
       [New_name ''user_nickname'', Existing_type (VARCHAR 50), Existing_nullable False],
     AlterColumn ''users'' ''role''
       [New_name ''user_role'', Existing_type (VARCHAR 20), Existing_nullable False, Existing_server_default (Lit ''USER'')],
     CreateIndex ''uq_users_user_email'' ''users'' [''user_email''] True]"

definition downgrade_d4394054ec4a :: "ddl list" where
  "downgrade_d4394054ec4a = [
     DropConstraint ''uq_users_user_email'' ''users'' UNIQUE,
     AlterColumn ''users'' ''user_role''
       [New_name ''role'', Existing_type (VARCHAR 20), Existing_nullable False, Existing_server_default (Lit ''USER'')],
     AlterColumn ''users'' ''user_nickname''
       [New_name ''nickname'', Existing_type (VARCHAR 50), Existing_nullable False],
     AlterColumn ''users'' ''user_password_hash''
       [New_name ''password_hash'', Existing_type (VARCHAR 255), Existing_nullable False],
     AlterColumn ''users'' ''user_email''
       [New_name ''email'', Existing_type (VARCHAR 255), Existing_nullable False],
     CreateIndex ''uq_users_email'' ''users'' [''email''] True,
     CreateForeignKey ''fk_posts_author_id_users'' ''posts'' (ForeignKey [''author_id''] ''users'' [''user_id''] False),
     AlterColumn ''posts'' ''post_view_count''
       [Server_default (Some (Lit ''0'')), Existing_type INTEGER, Existing_nullable False],
     DropConstraint ''fk_comments_post_id_posts'' ''comments'' FOREIGN,
     AlterColumn ''comments'' ''comment_content''
       [New_name ''content'', Existing_type TEXT, Existing_nullable False],
     AlterColumn ''comments'' ''comment_id''
       [New_name ''id'', Autoincrement True, Existing_type INTEGER, Existing_nullable False],
     DropIndex ''ix_posts_like_user_id'' ''posts_like'',
     DropIndex ''ix_posts_like_post_id'' ''posts_like'',
     DropTable ''posts_like'']"

subsection \<open>\<^verbatim>\<open>20260812_1750-d439f5babf47_add_posts_image.py\<close>\<close>

definition upgrade_d439f5babf47 :: "ddl list" where
  "upgrade_d439f5babf47 = [
     CreateTable ''posts_image'' (Table
       [serial (col ''image_id'' INTEGER False),
        col ''post_id'' INTEGER False,
        col ''image_path'' (VARCHAR 500) False,
        commented Created_at (with_default Now (col ''created_at'' DATETIME False)),
        commented Updated_at (with_default Now (col ''updated_at'' DATETIME False))]
       [''image_id''] []
       []),
     CreateIndex ''ix_posts_image_post_id'' ''posts_image'' [''post_id''] False,
     AlterColumn ''users'' ''user_email''
       [Comment (Some Login_email), Existing_type (VARCHAR 255), Existing_nullable False],
     AlterColumn ''users'' ''user_nickname''
       [Comment (Some Display_name), Existing_type (VARCHAR 50), Existing_nullable False]]"

definition downgrade_d439f5babf47 :: "ddl list" where
  "downgrade_d439f5babf47 = [
     AlterColumn ''users'' ''user_nickname''
       [Comment None, Existing_type (VARCHAR 50), Existing_nullable False, Existing_comment Display_name],
     AlterColumn ''users'' ''user_email''
       [Comment None, Existing_type (VARCHAR 255), Existing_nullable False, Existing_comment Login_email],
     DropIndex ''ix_posts_image_post_id'' ''posts_image'',
     DropTable ''posts_image'']"

subsection \<open>\<^verbatim>\<open>20260825_2137-6c1f3338a488_merge_migration_heads.py\<close>\<close>

definition upgrade_6c1f3338a488 :: "ddl list" where
  "upgrade_6c1f3338a488 = []"

definition downgrade_6c1f3338a488 :: "ddl list" where
  "downgrade_6c1f3338a488 = []"

subsection \<open>\<^verbatim>\<open>20260825_2141-e8547669b5ed_add_user_is_active.py\<close>\<close>

definition upgrade_e8547669b5ed :: "ddl list" where
  "upgrade_e8547669b5ed = [
     AlterColumn ''users'' ''is_active''
       [New_name ''user_is_active'', Existing_type BOOLEAN, Existing_nullable False]]"

definition downgrade_e8547669b5ed :: "ddl list" where
  "downgrade_e8547669b5ed = [
     AlterColumn ''users'' ''user_is_active''
       [New_name ''is_active'', Existing_type BOOLEAN, Existing_nullable False]]"

subsection \<open>\<^verbatim>\<open>20260826_1955-8c26dc833443_add_auto_increment_to_posts_post_id.py\<close>\<close>

definition upgrade_8c26dc833443 :: "ddl list" where
  "upgrade_8c26dc833443 = [
     DropConstraint ''fk_comments_post_id_posts'' ''comments'' FOREIGN,
     AlterColumn ''posts'' ''post_id''
       [Autoincrement True, Existing_type INTEGER, Existing_nullable False],
     CreateForeignKey ''fk_comments_post_id_posts'' ''comments'' (ForeignKey [''post_id''] ''posts'' [''post_id''] True)]"

definition downgrade_8c26dc833443 :: "ddl list" where
  "downgrade_8c26dc833443 = [
     DropConstraint ''fk_comments_post_id_posts'' ''comments'' FOREIGN,
     AlterColumn ''posts'' ''post_id''
       [Autoincrement False, Existing_type INTEGER, Existing_nullable False],
     CreateForeignKey ''fk_comments_post_id_posts'' ''comments'' (ForeignKey [''post_id''] ''posts'' [''post_id''] True)]"

subsection \<open>\<^verbatim>\<open>20260903_1929-1829bc9d8c4a_update_post_image_model.py\<close>\<close>

definition upgrade_1829bc9d8c4a :: "ddl list" where
  "upgrade_1829bc9d8c4a = [
     AddColumn ''comments'' (col ''parent_comment_id'' INTEGER True),
     CreateIndex ''ix_comments_parent_comment_id'' ''comments'' [''parent_comment_id''] False,
     DropConstraint ''fk_comments_post_id_posts'' ''comments'' FOREIGN,
     DropConstraint ''fk_comments_author_id_users'' ''comments'' FOREIGN,
     AddColumn ''posts_image'' (col ''image_original_path'' (VARCHAR 500) False),
     AddColumn ''posts_image'' (col ''image_content_path'' (VARCHAR 500) False),
     AddColumn ''posts_image'' (col ''image_thumbnail_path'' (VARCHAR 500) False),
     DropColumn ''posts_image'' ''image_path'',
     AlterColumn ''users'' ''user_is_active''
       [Server_default (Some (Lit ''1'')), Comment (Some Inactive_refused), Existing_type BOOLEAN, Existing_nullable False]]"

definition downgrade_1829bc9d8c4a :: "ddl list" where
  "downgrade_1829bc9d8c4a = [
     AlterColumn ''users'' ''user_is_active''
       [Server_default None, Comment None, Existing_type BOOLEAN, Existing_nullable False, Existing_comment Inactive_refused],
     AddColumn ''posts_image'' (col ''image_path'' (VARCHAR 500) False),
     DropColumn ''posts_image'' ''image_thumbnail_path'',
     DropColumn ''posts_image'' ''image_content_path'',
     DropColumn ''posts_image'' ''image_original_path'',
     CreateForeignKey ''fk_comments_author_id_users'' ''comments'' (ForeignKey [''author_id''] ''users'' [''user_id''] False),
     CreateForeignKey ''fk_comments_post_id_posts'' ''comments'' (ForeignKey [''post_id''] ''posts'' [''post_id''] True),
     DropIndex ''ix_comments_parent_comment_id'' ''comments'',
     DropColumn ''comments'' ''parent_comment_id'']"

subsection \<open>\<^verbatim>\<open>20261015_1631-0c55fdbb6962_add_post_is_notice.py\<close>\<close>

definition upgrade_0c55fdbb6962 :: "ddl list" where
  "upgrade_0c55fdbb6962 = [
     AddColumn ''posts'' (with_default (Lit ''PUBLISHED'') (col ''post_status'' (ENUM [''PUBLISHED'', ''HIDDEN'', ''DELETED'']) False)),
     AddColumn ''posts'' (with_default (Lit ''0'') (col ''post_is_notice'' BOOLEAN False)),
     CreateIndex ''ix_posts_post_status'' ''posts'' [''post_status''] False]"

definition downgrade_0c55fdbb6962 :: "ddl list" where
  "downgrade_0c55fdbb6962 = [
     DropIndex ''ix_posts_post_status'' ''posts'',
     DropColumn ''posts'' ''post_is_notice'',
     DropColumn ''posts'' ''post_status'']"

section \<open>The history\<close>

datatype revision = Revision (rv_id: string) (rv_down: "string list") (rv_upgrade: "ddl list") (rv_downgrade: "ddl list")

definition versions :: "revision list" where
  "versions = [
     Revision ''3eb81cd3f427'' [] upgrade_3eb81cd3f427 downgrade_3eb81cd3f427,
     Revision ''b686b1a38ef2'' [''3eb81cd3f427''] upgrade_b686b1a38ef2 downgrade_b686b1a38ef2,
     Revision ''6e316f4b3ead'' [''3eb81cd3f427''] upgrade_6e316f4b3ead downgrade_6e316f4b3ead,
     Revision ''70998f3f80d7'' [''6e316f4b3ead''] upgrade_70998f3f80d7 downgrade_70998f3f80d7,
     Revision ''d4394054ec4a'' [''70998f3f80d7''] upgrade_d4394054ec4a downgrade_d4394054ec4a,
     Revision ''d439f5babf47'' [''d4394054ec4a''] upgrade_d439f5babf47 downgrade_d439f5babf47,
     Revision ''6c1f3338a488'' [''b686b1a38ef2'', ''d439f5babf47''] upgrade_6c1f3338a488 downgrade_6c1f3338a488,
     Revision ''e8547669b5ed'' [''6c1f3338a488''] upgrade_e8547669b5ed downgrade_e8547669b5ed,
     Revision ''8c26dc833443'' [''e8547669b5ed''] upgrade_8c26dc833443 downgrade_8c26dc833443,
     Revision ''1829bc9d8c4a'' [''8c26dc833443''] upgrade_1829bc9d8c4a downgrade_1829bc9d8c4a,
     Revision ''0c55fdbb6962'' [''1829bc9d8c4a''] upgrade_0c55fdbb6962 downgrade_0c55fdbb6962]"

text \<open>
  The orders in which \<^verbatim>\<open>alembic upgrade head\<close> may apply them: each revision after those it names in
  \<^verbatim>\<open>down_revision\<close>.
\<close>

function orders :: "string list \<Rightarrow> revision list \<Rightarrow> revision list list" where
  "orders applied pending =
     (if pending = [] then [[]]
      else concat (map (\<lambda>r. if list_all (\<lambda>d. d \<in> set applied) (rv_down r)
             then map ((#) r) (orders (rv_id r # applied) (remove1 r pending)) else []) pending))"
  by pat_completeness auto

termination
  by (relation "measure (\<lambda>(_, pending). length pending)") (auto simp: length_remove1 intro: length_pos_if_in_set)

definition upgrade_all :: "revision list \<Rightarrow> schema \<Rightarrow> schema option" where
  "upgrade_all rs = run_ddl (concat (map rv_upgrade rs))"

definition downgrade_all :: "revision list \<Rightarrow> schema \<Rightarrow> schema option" where
  "downgrade_all rs = run_ddl (concat (map rv_downgrade (rev rs)))"

section \<open>The models\<close>

text \<open>\<^verbatim>\<open>Base.metadata\<close>, with the names of \<^verbatim>\<open>NAMING_CONVENTION\<close>.\<close>

definition ix :: "string \<Rightarrow> string \<Rightarrow> string \<times> string list \<times> bool" where
  "ix t c = (''ix_'' @ t @ ''_'' @ c, [c], False)"

definition uq :: "string \<Rightarrow> string \<Rightarrow> string \<times> string list \<times> bool" where
  "uq t c = (''uq_'' @ t @ ''_'' @ c, [c], True)"

definition timestamps :: "column list" where
  "timestamps =
     [commented Created_at (with_default Now (col ''created_at'' DATETIME False)),
      commented Updated_at (with_default Now (col ''updated_at'' DATETIME False))]"

definition deleted_at :: column where
  "deleted_at = commented Deleted_at (col ''deleted_at'' DATETIME True)"

definition users_table :: table where
  "users_table = Table
     ([serial (col ''user_id'' INTEGER False), commented Login_email (col ''user_email'' (VARCHAR 255) False),
       col ''user_password_hash'' (VARCHAR 255) False, commented Display_name (col ''user_nickname'' (VARCHAR 50) False),
       with_default (Lit ''USER'') (col ''user_role'' (VARCHAR 20) False),
       commented Inactive_refused (with_default (Lit ''1'') (col ''user_is_active'' BOOLEAN False))] @ timestamps)
     [''user_id''] [uq ''users'' ''user_email''] []"

definition posts_table :: table where
  "posts_table = Table
     ([serial (col ''post_id'' INTEGER False), col ''post_title'' (VARCHAR 200) False, col ''post_content'' TEXT False,
       col ''author_id'' INTEGER False, col ''post_view_count'' INTEGER False,
       with_default (Lit ''PUBLISHED'') (col ''post_status'' (ENUM [''PUBLISHED'', ''HIDDEN'', ''DELETED'']) False),
       with_default (Lit ''0'') (col ''post_is_notice'' BOOLEAN False)] @ timestamps @ [deleted_at])
     [''post_id''] [ix ''posts'' ''author_id'', ix ''posts'' ''post_status'', ix ''posts'' ''deleted_at''] []"

definition posts_like_table :: table where
  "posts_like_table = Table
     ([serial (col ''like_id'' INTEGER False), col ''post_id'' INTEGER False, col ''user_id'' INTEGER False] @ timestamps)
     [''like_id''] [(''uq_posts_like_post_id_user_id'', [''post_id'', ''user_id''], True),
       ix ''posts_like'' ''post_id'', ix ''posts_like'' ''user_id''] []"

definition posts_image_table :: table where
  "posts_image_table = Table
     ([serial (col ''image_id'' INTEGER False), col ''post_id'' INTEGER False,
       col ''image_original_path'' (VARCHAR 500) False, col ''image_content_path'' (VARCHAR 500) False,
       col ''image_thumbnail_path'' (VARCHAR 500) False] @ timestamps)
     [''image_id''] [ix ''posts_image'' ''post_id''] []"

definition comments_table :: table where
  "comments_table = Table
     ([serial (col ''comment_id'' INTEGER False), col ''comment_content'' TEXT False, col ''post_id'' INTEGER False,
       col ''author_id'' INTEGER False, col ''parent_comment_id'' INTEGER True] @ timestamps @ [deleted_at])
     [''comment_id''] [ix ''comments'' ''post_id'', ix ''comments'' ''author_id'', ix ''comments'' ''parent_comment_id'',
       ix ''comments'' ''deleted_at''] []"

definition menus_table :: table where
  "menus_table = Table
     ([serial (col ''menu_id'' INTEGER False), col ''menu_name'' (VARCHAR 50) False,
       col ''menu_parent_id'' INTEGER True] @ timestamps @ [deleted_at])
     [''menu_id''] [(''uq_menus_parent_name'', [''menu_parent_id'', ''menu_name'', ''deleted_at''], True),
       ix ''menus'' ''menu_parent_id'', ix ''menus'' ''deleted_at''] []"

definition reports_table :: table where
  "reports_table = Table
     ([serial (col ''report_id'' INTEGER False), col ''reporter_user_id'' INTEGER True,
       col ''report_content_type'' (ENUM [''POST'', ''COMMENT'', ''USER'']) False, col ''post_id'' INTEGER True,
       col ''post_title'' (VARCHAR 200) False, col ''post_content'' TEXT False, col ''comment_id'' INTEGER True,
       col ''comment_content'' TEXT False, col ''reported_user_id'' INTEGER False,
       col ''report_category'' (VARCHAR 50) False, col ''report_reason'' TEXT True,
       with_default (Lit ''PENDING'') (col ''report_status'' (ENUM [''PENDING'', ''ACCEPTED'', ''REJECTED'']) False),
       col ''user_sanction_type'' (ENUM [''WARNING'', ''SUSPENDED'', ''BANNED'']) True,
       col ''reviewer_user_id'' INTEGER True, col ''processed_at'' DATETIME True] @ timestamps)
     [''report_id''] [(''ix_reports_status_created_at'', [''report_status'', ''created_at''], False),
       ix ''reports'' ''reporter_user_id'', ix ''reports'' ''report_content_type'', ix ''reports'' ''post_id'',
       ix ''reports'' ''comment_id'', ix ''reports'' ''reported_user_id'', ix ''reports'' ''report_status'',
       ix ''reports'' ''user_sanction_type'', ix ''reports'' ''reviewer_user_id''] []"

definition user_sanctions_table :: table where
  "user_sanctions_table = Table
     ([serial (col ''user_sanction_id'' INTEGER False), col ''reported_user_id'' INTEGER False,
       col ''user_sanction_type'' (ENUM [''WARNING'', ''SUSPENDED'', ''BANNED'']) False,
       col ''user_sanction_reason'' TEXT False, col ''report_id'' INTEGER False,
       col ''expires_at'' DATETIME True] @ timestamps)
     [''user_sanction_id''] [ix ''user_sanctions'' ''reported_user_id'', ix ''user_sanctions'' ''user_sanction_type'',
       ix ''user_sanctions'' ''report_id''] []"

text \<open>\<^verbatim>\<open>model_registry.py\<close>\<close>

definition metadata :: schema where
  "metadata =
     [(''comments'', comments_table), (''menus'', menus_table), (''posts_image'', posts_image_table),
      (''posts_like'', posts_like_table), (''posts'', posts_table), (''reports'', reports_table),
      (''users'', users_table), (''user_sanctions'', user_sanctions_table)]"

section \<open>Comparing schemas\<close>

text \<open>The order of tables, columns, indexes and foreign keys does not matter.\<close>

definition same_elements :: "'a list \<Rightarrow> 'a list \<Rightarrow> bool" where
  "same_elements xs ys \<longleftrightarrow> list_all (\<lambda>x. x \<in> set ys) xs \<and> list_all (\<lambda>y. y \<in> set xs) ys"

definition same_table :: "table \<Rightarrow> table \<Rightarrow> bool" where
  "same_table t t' \<longleftrightarrow> same_elements (tb_columns t) (tb_columns t') \<and> tb_key t = tb_key t' \<and>
     same_elements (tb_indexes t) (tb_indexes t') \<and> same_elements (tb_foreign t) (tb_foreign t')"

definition same_schema :: "schema \<Rightarrow> schema \<Rightarrow> bool" where
  "same_schema s s' \<longleftrightarrow> same_elements (map fst s) (map fst s') \<and>
     list_all (\<lambda>(n, t). case map_of s' n of None \<Rightarrow> False | Some t' \<Rightarrow> same_table t t') s"

text \<open>Does the downgrade of a revision take back its upgrade, after the revisions before it?\<close>

definition undone :: "schema \<Rightarrow> revision \<Rightarrow> bool" where
  "undone s r =
     (case run_ddl (rv_upgrade r @ rv_downgrade r) s of None \<Rightarrow> False | Some s' \<Rightarrow> same_schema s' s)"

fun not_undone :: "schema \<Rightarrow> revision list \<Rightarrow> string list" where
  "not_undone s [] = []"
| "not_undone s (r # rs) =
     (case run_ddl (rv_upgrade r) s of
        None \<Rightarrow> rv_id r # not_undone s rs
      | Some s' \<Rightarrow> (if undone s r then [] else [rv_id r]) @ not_undone s' rs)"

section \<open>Lemmas\<close>

text \<open>An order respects the history if every revision comes after those it names.\<close>

fun in_order :: "string list \<Rightarrow> revision list \<Rightarrow> bool" where
  "in_order applied [] \<longleftrightarrow> True"
| "in_order applied (r # rs) \<longleftrightarrow>
     list_all (\<lambda>d. d \<in> set applied) (rv_down r) \<and> in_order (rv_id r # applied) rs"

declare orders.simps [simp del]

lemma orders_iff: "rs \<in> set (orders applied pending) \<longleftrightarrow> mset rs = mset pending \<and> in_order applied rs"
proof (induction applied pending arbitrary: rs rule: orders.induct)
  case (1 applied pending)
  show ?case
  proof (cases "pending = []")
    case True
    then show ?thesis by (auto simp: orders.simps [of applied])
  next
    case False
    have IH: "qs \<in> set (orders (rv_id r # applied) (remove1 r pending)) \<longleftrightarrow>
        mset qs = mset pending - {#r#} \<and> in_order (rv_id r # applied) qs"
      if "r \<in> set pending" "list_all (\<lambda>d. d \<in> set applied) (rv_down r)" for r qs
      using 1 [OF False that] by simp
    show ?thesis
    proof (cases rs)
      case Nil
      then show ?thesis using False by (auto simp: orders.simps [of applied pending] split: if_splits)
    next
      case (Cons r qs)
      have "rs \<in> set (orders applied pending) \<longleftrightarrow>
          r \<in> set pending \<and> list_all (\<lambda>d. d \<in> set applied) (rv_down r) \<and>
          qs \<in> set (orders (rv_id r # applied) (remove1 r pending))"
        using False Cons by (auto simp: orders.simps [of applied pending] split: if_splits)
      also have "\<dots> \<longleftrightarrow> r \<in> set pending \<and> mset qs = mset pending - {#r#} \<and> in_order applied rs"
        using IH Cons by auto
      also have "\<dots> \<longleftrightarrow> mset rs = mset pending \<and> in_order applied rs"
        using Cons by (auto simp: insert_DiffM in_multiset_in_set dest: union_single_eq_member)
          (metis add_mset_remove_trivial set_mset_mset union_single_eq_member)+
      finally show ?thesis .
    qed
  qed
qed

text \<open>What is checked of the schema at the head, and of the way back.\<close>

definition unmigrated :: schema where
  "unmigrated = filter (\<lambda>(n, _). n \<in> {''reports'', ''user_sanctions''}) metadata"

definition head_ok :: "schema \<Rightarrow> bool" where
  "head_ok s \<longleftrightarrow> same_schema (s @ unmigrated) metadata \<and>
     list_all (\<lambda>(n, t). n \<notin> {''reports'', ''user_sanctions''} \<and> tb_foreign t = []) s"

definition reaches_head :: "revision list \<Rightarrow> bool" where
  "reaches_head rs \<longleftrightarrow> (case upgrade_all rs [] of None \<Rightarrow> False | Some s \<Rightarrow> head_ok s)"

text \<open>The way back to the first revision, whose own downgrade fails at its third statement.\<close>

definition stuck_at_first :: "revision list \<Rightarrow> bool" where
  "stuck_at_first rs \<longleftrightarrow>
     (case upgrade_all rs [] of None \<Rightarrow> False
      | Some s \<Rightarrow> (case downgrade_all (tl rs) s of None \<Rightarrow> False
      | Some s1 \<Rightarrow> same_elements (map fst s1) [''users'', ''posts'', ''comments''] \<and>
          (case run_ddl (take 2 downgrade_3eb81cd3f427) s1 of None \<Rightarrow> False
           | Some s2 \<Rightarrow> apply_ddl (DropIndex ''ix_comments_author_id'' ''comments'') s2 = None)))"

lemma all_orders_reach_head: "list_all reaches_head (orders [] versions)"
  by code_simp

lemma all_orders_stuck: "list_all stuck_at_first (orders [] versions)"
  by code_simp

lemma history_respected: "in_order [] versions"
  by code_simp

lemma run_ddl_append:
  "run_ddl (ds @ es) s = (case run_ddl ds s of None \<Rightarrow> None | Some s' \<Rightarrow> run_ddl es s')"
  by (induction ds arbitrary: s) (auto split: option.split)

text \<open>Every order begins with the first revision.\<close>

lemma first_revision:
  assumes "mset rs = mset versions" and "in_order [] rs"
  shows "rs = hd versions # tl rs"
proof (cases rs)
  case Nil
  with assms(1) show ?thesis by (simp add: versions_def)
next
  case (Cons r qs)
  have "\<forall>v\<in>set (tl versions). rv_down v \<noteq> []" by code_simp
  moreover have "rv_down r = []" using assms(2) Cons by (cases "rv_down r") simp_all
  moreover have "r \<in> set versions" using Cons mset_eq_setD [OF assms(1)] by auto
  moreover have "versions = hd versions # tl versions" by (simp add: versions_def)
  ultimately have "r = hd versions" by (metis set_ConsD)
  with Cons show ?thesis by simp
qed

text \<open>So the whole way back fails, wherever it begins.\<close>

lemma stuck_fails:
  assumes "stuck_at_first rs" and "rs = hd versions # tl rs" and "upgrade_all rs [] = Some s"
  shows "downgrade_all rs s = None"
proof -
  obtain s1 s2 where s1: "downgrade_all (tl rs) s = Some s1" "run_ddl (take 2 downgrade_3eb81cd3f427) s1 = Some s2"
    "apply_ddl (DropIndex ''ix_comments_author_id'' ''comments'') s2 = None"
    using assms(1,3) by (auto simp: stuck_at_first_def split: option.splits)
  have "rv_downgrade (hd versions) = take 2 downgrade_3eb81cd3f427 @ DropIndex ''ix_comments_author_id'' ''comments'' #
      drop 3 downgrade_3eb81cd3f427"
    by (simp add: versions_def downgrade_3eb81cd3f427_def)
  then have "concat (map rv_downgrade (rev rs)) = concat (map rv_downgrade (rev (tl rs))) @
      take 2 downgrade_3eb81cd3f427 @ DropIndex ''ix_comments_author_id'' ''comments'' # drop 3 downgrade_3eb81cd3f427"
    by (subst assms(2)) simp
  with s1 show ?thesis by (simp add: downgrade_all_def run_ddl_append)
qed

section \<open>Properties\<close>

text \<open>
  C35.  Migrations.  In whatever order Alembic applies the revisions, an empty database is brought to one
  and the same schema without an error: exactly the tables of the models, columns, defaults, keys and
  indexes included, and no foreign keys, except that \<open>reports\<close> and \<open>user_sanctions\<close> are never created.
  The way back leads to the first revision and no further: its downgrade drops the index
  \<open>ix_comments_author_id\<close>, which the foreign key of the authors still needs, so MySQL refuses it after two other indexes are
  gone, and the three tables remain.  Four downgrades do not take back their upgrade even at once, and after a
  downgrade to the first revision the upgrade fails.
\<close>

theorem migrations_contract:
  assumes "mset rs = mset versions" and "in_order [] rs"
  shows "(\<exists>s s1. upgrade_all rs [] = Some s \<and> same_schema (s @ unmigrated) metadata \<and>
      list_all (\<lambda>(n, t). n \<notin> {''reports'', ''user_sanctions''} \<and> tb_foreign t = []) s \<and>
      downgrade_all rs s = None \<and> downgrade_all (tl rs) s = Some s1 \<and>
      same_elements (map fst s1) [''users'', ''posts'', ''comments''] \<and>
      (\<exists>s2. run_ddl (take 2 (rv_downgrade (hd rs))) s1 = Some s2 \<and>
         apply_ddl (DropIndex ''ix_comments_author_id'' ''comments'') s2 = None)) \<and>
    map fst unmigrated = [''reports'', ''user_sanctions''] \<and>
    not_undone [] versions = [''3eb81cd3f427'', ''6e316f4b3ead'', ''d4394054ec4a'', ''e8547669b5ed''] \<and>
    (case upgrade_all (take 3 versions) [] of None \<Rightarrow> None | Some s \<Rightarrow>
      case downgrade_all [versions ! 2] s of None \<Rightarrow> None | Some s' \<Rightarrow> Some (upgrade_all [versions ! 2] s')) = Some None"
proof (intro conjI)
  have rs: "rs \<in> set (orders [] versions)" using assms by (simp add: orders_iff)
  have h: "reaches_head rs" and b: "stuck_at_first rs"
    using all_orders_reach_head all_orders_stuck rs by (auto simp: list_all_iff)
  have hd: "rv_downgrade (hd rs) = downgrade_3eb81cd3f427"
    by (subst first_revision [OF assms]) (simp add: versions_def)
  obtain s where s: "upgrade_all rs [] = Some s" "head_ok s"
    using h by (auto simp: reaches_head_def split: option.splits)
  note fails = stuck_fails [OF b first_revision [OF assms] s(1)]
  show "\<exists>s s1. upgrade_all rs [] = Some s \<and> same_schema (s @ unmigrated) metadata \<and>
      list_all (\<lambda>(n, t). n \<notin> {''reports'', ''user_sanctions''} \<and> tb_foreign t = []) s \<and>
      downgrade_all rs s = None \<and> downgrade_all (tl rs) s = Some s1 \<and>
      same_elements (map fst s1) [''users'', ''posts'', ''comments''] \<and>
      (\<exists>s2. run_ddl (take 2 (rv_downgrade (hd rs))) s1 = Some s2 \<and>
         apply_ddl (DropIndex ''ix_comments_author_id'' ''comments'') s2 = None)"
    using b s fails unfolding hd stuck_at_first_def head_ok_def
    by (auto simp del: apply_ddl.simps run_ddl.simps split: option.splits)
  show "map fst unmigrated = [''reports'', ''user_sanctions'']"
    by code_simp
  show "not_undone [] versions = [''3eb81cd3f427'', ''6e316f4b3ead'', ''d4394054ec4a'', ''e8547669b5ed'']"
    by code_simp
  show "(case upgrade_all (take 3 versions) [] of None \<Rightarrow> None | Some s \<Rightarrow>
      case downgrade_all [versions ! 2] s of None \<Rightarrow> None | Some s' \<Rightarrow> Some (upgrade_all [versions ! 2] s')) = Some None"
    by code_simp
qed

theorem migrations_contract_witness:
  "\<exists>s. upgrade_all versions [] = Some s \<and> same_schema (s @ unmigrated) metadata \<and> downgrade_all versions s = None"
  using migrations_contract [OF refl history_respected] by blast

end
