(* ===== verification/Api.thy ===== *)
theory Api
  imports Config Sync Images
begin

text \<open>
  \<^verbatim>\<open>main.py\<close>, \<^verbatim>\<open>api/health.py\<close>, \<^verbatim>\<open>core/middleware.py\<close> and \<^verbatim>\<open>infrastructure/scheduler\<close>: how the process starts
  and how one request passes the layers of the application.  The layers are Starlette's, from the
  outside in: the handler for unexpected exceptions, \<open>RequestContextMiddleware\<close>, CORS, the handlers for all
  other exceptions, the route.
\<close>

section \<open>Start and stop\<close>

record 'd process = "'d sync_world" +
  thread_tokens :: int
  jobs :: "(string \<times> nat) list"
  scheduler_running :: bool

definition start_scheduler :: "(('d, 'x) process_scheme, string, unit) prog" where
  "start_scheduler =
     bindP (modifyP (\<lambda>w. w\<lparr>jobs := filter (\<lambda>(i, _). i \<noteq> ''post_like_sync'') (jobs w) @ [(''post_like_sync'', 5 * 60)]\<rparr>)) (\<lambda>_.
     modifyP (\<lambda>w. w\<lparr>scheduler_running := True\<rparr>))"

definition shutdown_scheduler :: "(('d, 'x) process_scheme, string, unit) prog" where
  "shutdown_scheduler = modifyP (\<lambda>w. w\<lparr>scheduler_running := False\<rparr>)"

text \<open>\<open>lifespan\<close> up to its \<^verbatim>\<open>yield\<close>; what follows is \<open>shutdown_scheduler\<close>.\<close>

definition lifespan_enter ::
  "settings \<Rightarrow> 'd autogenerate \<Rightarrow> (op_info \<Rightarrow> 'd \<Rightarrow> string + 'd) \<Rightarrow> (('d, 'x) process_scheme, string, unit) prog" where
  "lifespan_enter S produce invoke =
     bindP (modifyP (\<lambda>w. w\<lparr>thread_tokens := THREADPOOL_MAX_WORKERS S\<rparr>)) (\<lambda>_.
     bindP (whenP (DB_SYNCHRONIZE S) (bindP (synchronize_database produce invoke) (\<lambda>_. returnP ()))) (\<lambda>_.
     start_scheduler))"

datatype middleware = RequestContextMiddleware | CORSMiddleware "utext list" bool

record fastapi =
  title :: utext
  docs_url :: "string option"
  redoc_url :: "string option"
  openapi_url :: "string option"
  middleware :: "middleware list"
  prefixes :: "utext list"

text \<open>\<open>create_app\<close>; the middleware is listed from the outside in, the reverse of the registration.\<close>

definition create_app :: "settings \<Rightarrow> fastapi" where
  "create_app S =
     \<lparr>title = PROJECT_NAME S,
      docs_url = (if is_production S then None else Some ''/docs''),
      redoc_url = (if is_production S then None else Some ''/redoc''),
      openapi_url = (if is_production S then None else Some ''/openapi.json''),
      middleware = rev [CORSMiddleware (cors_origins S) True, RequestContextMiddleware],
      prefixes = [[], API_V1_PREFIX S]\<rparr>"

section \<open>Health\<close>

record readiness_response =
  rd_status :: string
  rd_database :: string
  rd_redis :: string

text \<open>A probe is the outcome of \<^verbatim>\<open>SELECT 1\<close> or \<^verbatim>\<open>PING\<close>; \<open>OtherError ''RedisError''\<close> is an error of redis-py.\<close>

definition check_database :: "exn + unit \<Rightarrow> exn + bool" where
  "check_database probe =
     (case probe of Inr _ \<Rightarrow> Inr True | Inl (SQLAlchemyError _) \<Rightarrow> Inr False | Inl e \<Rightarrow> Inl e)"

definition check_redis :: "exn + unit \<Rightarrow> exn + bool" where
  "check_redis probe =
     (case probe of Inr _ \<Rightarrow> Inr True | Inl e \<Rightarrow> if e = OtherError ''RedisError'' then Inr False else Inl e)"

definition liveness :: string where
  "liveness = ''ok''"

definition readiness :: "exn + unit \<Rightarrow> exn + unit \<Rightarrow> exn + int \<times> readiness_response" where
  "readiness db cache =
     bindE (check_database db) (\<lambda>database_ok.
     bindE (check_redis cache) (\<lambda>redis_ok.
     let healthy = database_ok \<and> redis_ok; show = (\<lambda>b. if b then ''ok'' else ''error'') in
     Inr (if healthy then 200 else 503,
          \<lparr>rd_status = show healthy, rd_database = show database_ok, rd_redis = show redis_ok\<rparr>)))"

section \<open>The request context\<close>

record request =
  rq_method :: string
  url_path :: string
  request_id_header :: "string option"

record 'b http_response =
  hr_status :: int
  hr_headers :: "(string \<times> string) list"
  hr_body :: 'b

datatype access_event = Request_completed string string int string | Request_failed string string string

definition REQUEST_ID_HEADER :: string where
  "REQUEST_ID_HEADER = ''X-Request-ID''"

definition request_id_of :: "request \<Rightarrow> string \<Rightarrow> string" where
  "request_id_of q uuid = (case request_id_header q of Some x \<Rightarrow> if x = [] then uuid else x | None \<Rightarrow> uuid)"

definition dispatch ::
  "request \<Rightarrow> string \<Rightarrow> (string \<Rightarrow> exn + 'b http_response) \<Rightarrow> access_event list \<times> (exn + 'b http_response)" where
  "dispatch q uuid call_next =
     (let rid = request_id_of q uuid in
      case call_next rid of
        Inl e \<Rightarrow> ([Request_failed (rq_method q) (url_path q) rid], Inl e)
      | Inr r \<Rightarrow> ([Request_completed (rq_method q) (url_path q) (hr_status r) rid],
                 Inr (r\<lparr>hr_headers := filter (\<lambda>(k, _). k \<noteq> REQUEST_ID_HEADER) (hr_headers r) @ [(REQUEST_ID_HEADER, rid)]\<rparr>)))"

section \<open>One request through the layers\<close>

datatype 'a body = Payload 'a | Failure error_response

definition json_response :: "error_response \<Rightarrow> 'a body http_response" where
  "json_response r = \<lparr>hr_status = resp_status r, hr_headers = resp_headers r, hr_body = Failure r\<rparr>"

text \<open>The exceptions whose only handler is the one registered for \<^verbatim>\<open>Exception\<close>; Starlette runs it outermost.\<close>

fun unexpected :: "exn \<Rightarrow> bool" where
  "unexpected (ValueError _) \<longleftrightarrow> True"
| "unexpected (OtherError _) \<longleftrightarrow> True"
| "unexpected _ \<longleftrightarrow> False"

definition handled :: "bool \<Rightarrow> string \<Rightarrow> exn + 'a body http_response \<Rightarrow> exn + 'a body http_response" where
  "handled production rid outcome =
     (case outcome of
        Inr r \<Rightarrow> Inr r
      | Inl e \<Rightarrow> if unexpected e then Inl e
                else (case handle production (Some rid) e of Inl e' \<Rightarrow> Inl e' | Inr (_, r) \<Rightarrow> Inr (json_response r)))"

definition serve ::
  "bool \<Rightarrow> request \<Rightarrow> string \<Rightarrow> (string \<Rightarrow> exn + 'a body http_response) \<Rightarrow> access_event list \<times> 'a body http_response" where
  "serve production q uuid route =
     (case dispatch q uuid (\<lambda>rid. handled production rid (route rid)) of
        (log, Inr r) \<Rightarrow> (log, r)
      | (log, Inl e) \<Rightarrow>
          (log, json_response (snd (unhandled_exception_handler production (Some (request_id_of q uuid)) e))))"

section \<open>Lemmas\<close>

lemma readiness_ok:
  "readiness db cache = Inr (c, r) \<Longrightarrow> c = 200 \<longleftrightarrow> db = Inr () \<and> cache = Inr ()"
  by (auto simp: readiness_def bindE_def check_database_def check_redis_def Let_def
      split: sum.splits exn.splits if_splits)

lemma start_scheduler_run:
  "start_scheduler w = (Inr (), w\<lparr>jobs := filter (\<lambda>(i, _). i \<noteq> ''post_like_sync'') (jobs w) @ [(''post_like_sync'', 300)],
     scheduler_running := True\<rparr>)"
  by (simp add: start_scheduler_def prog_simps)

lemma enter_without_synchronisation:
  assumes "\<not> DB_SYNCHRONIZE S"
  shows "lifespan_enter S produce invoke w =
    (Inr (), w\<lparr>thread_tokens := THREADPOOL_MAX_WORKERS S,
       jobs := filter (\<lambda>(i, _). i \<noteq> ''post_like_sync'') (jobs w) @ [(''post_like_sync'', 300)], scheduler_running := True\<rparr>)"
  using assms by (simp add: lifespan_enter_def prog_simps start_scheduler_run)

text \<open>The answer to a request, by the outcome of its route.\<close>

lemma serve_cases:
  "serve production q uuid route =
     (let rid = request_id_of q uuid; fail = [Request_failed (rq_method q) (url_path q) rid];
          done = (\<lambda>r. ([Request_completed (rq_method q) (url_path q) (hr_status r) rid],
            r\<lparr>hr_headers := filter (\<lambda>(k, _). k \<noteq> REQUEST_ID_HEADER) (hr_headers r) @ [(REQUEST_ID_HEADER, rid)]\<rparr>));
          crash = (\<lambda>e. (fail, json_response (snd (unhandled_exception_handler production (Some rid) e))))
      in case route rid of
        Inr r \<Rightarrow> done r
      | Inl e \<Rightarrow> if unexpected e then crash e
                else (case handle production (Some rid) e of Inl e' \<Rightarrow> crash e' | Inr (_, r) \<Rightarrow> done (json_response r)))"
  by (simp add: serve_def dispatch_def handled_def Let_def split: sum.split prod.split)

lemma handle_answers:
  assumes "handle production rid e = Inr (lvl, r)"
  shows "resp_request_id r = rid" and "resp_detail r = Repr x \<Longrightarrow> \<not> production"
  using assms
  by (cases e; auto simp: handler_defs split: option.splits if_splits)+

lemma serve_answers:
  assumes "\<And>r x. route (request_id_of q uuid) = Inr r \<Longrightarrow> hr_body r \<noteq> Failure x"
  shows "\<exists>line answer. serve (production) q uuid route = ([line], answer) \<and>
       (line = Request_completed (rq_method q) (url_path q) (hr_status answer) (request_id_of q uuid) \<and>
          (REQUEST_ID_HEADER, request_id_of q uuid) \<in> set (hr_headers answer) \<or>
        line = Request_failed (rq_method q) (url_path q) (request_id_of q uuid) \<and> hr_status answer = 500 \<and>
          hr_headers answer = [] \<and> (\<exists>e. hr_body answer = Failure e)) \<and>
       (\<forall>e. hr_body answer = Failure e \<longrightarrow> resp_request_id e = Some (request_id_of q uuid) \<and>
          (production \<longrightarrow> (\<forall>x. resp_detail e \<noteq> Repr x)))"
proof (cases "route (request_id_of q uuid)")
  case (Inr r)
  then show ?thesis using assms by (auto simp: serve_cases Let_def)
next
  case (Inl e)
  show ?thesis
  proof (cases "unexpected e")
    case True
    with Inl show ?thesis
      by (simp add: serve_cases Let_def json_response_def unhandled_exception_handler_def build_response_def)
  next
    case False
    show ?thesis
    proof (cases "handle (production) (Some (request_id_of q uuid)) e")
      case (Inl e')
      with \<open>route _ = Inl e\<close> False show ?thesis
        by (simp add: serve_cases Let_def json_response_def unhandled_exception_handler_def build_response_def)
    next
      case (Inr lr)
      obtain l r where "lr = (l, r)" by (rule prod.exhaust)
      with Inr handle_answers [of "production" "Some (request_id_of q uuid)" e l r] \<open>route _ = Inl e\<close> False
      show ?thesis by (auto simp: serve_cases Let_def json_response_def)
    qed
  qed
qed

section \<open>Properties\<close>

text \<open>
  C36.  Start and request frame.  Under settings that were accepted, a start outside local and dev leaves
  the schema alone, gives the thread pool no more threads than there are connections, and runs
  the like job every five minutes; in production no API description is served.  Every request
  leaves one line in the log with its id, which the client may choose; the answer carries the id in
  its header, error answers also in their body, but the answer to an unexpected exception
  carries it only in the body; in production no answer describes an exception.  The instance is
  ready exactly if database and Redis answer.
\<close>

theorem application_frame:
  assumes "Settings raw = Inr S" and "ENVIRONMENT S \<notin> {''local'', ''dev''}"
    and "\<And>r x. route (request_id_of q uuid) = Inr r \<Longrightarrow> hr_body r \<noteq> Failure x"
  shows "(\<exists>w'. lifespan_enter S produce invoke w = (Inr (), w') \<and> schema w' = schema w \<and> sync_log w' = sync_log w \<and>
       thread_tokens w' \<le> DB_POOL_SIZE S + DB_MAX_OVERFLOW S \<and> (''post_like_sync'', 300) \<in> set (jobs w')) \<and>
    (is_production S \<longrightarrow> docs_url (create_app S) = None \<and> redoc_url (create_app S) = None \<and> openapi_url (create_app S) = None) \<and>
    (\<exists>line answer. serve (is_production S) q uuid route = ([line], answer) \<and>
       (line = Request_completed (rq_method q) (url_path q) (hr_status answer) (request_id_of q uuid) \<and>
          (REQUEST_ID_HEADER, request_id_of q uuid) \<in> set (hr_headers answer) \<or>
        line = Request_failed (rq_method q) (url_path q) (request_id_of q uuid) \<and> hr_status answer = 500 \<and>
          hr_headers answer = [] \<and> (\<exists>e. hr_body answer = Failure e)) \<and>
       (\<forall>e. hr_body answer = Failure e \<longrightarrow> resp_request_id e = Some (request_id_of q uuid) \<and>
          (is_production S \<longrightarrow> (\<forall>x. resp_detail e \<noteq> Repr x)))) \<and>
    (\<forall>c r. readiness db cache = Inr (c, r) \<longrightarrow> (c = 200 \<longleftrightarrow> db = Inr () \<and> cache = Inr ()))"
proof (intro conjI)
  note ok = conjunct2 [OF assms(1) [unfolded Settings_accepts field_errors_empty]]
  then have "\<not> DB_SYNCHRONIZE S" using assms(2) by (auto simp: DB_SYNCHRONIZE_ALLOWED_ENVIRONMENTS_def)
  from enter_without_synchronisation [OF this, of produce invoke w] ok
  show "\<exists>w'. lifespan_enter S produce invoke w = (Inr (), w') \<and> schema w' = schema w \<and> sync_log w' = sync_log w \<and>
       thread_tokens w' \<le> DB_POOL_SIZE S + DB_MAX_OVERFLOW S \<and> (''post_like_sync'', 300) \<in> set (jobs w')"
    by simp
  show "is_production S \<longrightarrow> docs_url (create_app S) = None \<and> redoc_url (create_app S) = None \<and> openapi_url (create_app S) = None"
    by (simp add: create_app_def)
  show "\<forall>c r. readiness db cache = Inr (c, r) \<longrightarrow> (c = 200 \<longleftrightarrow> db = Inr () \<and> cache = Inr ())"
    using readiness_ok by blast
  show "\<exists>line answer. serve (is_production S) q uuid route = ([line], answer) \<and>
       (line = Request_completed (rq_method q) (url_path q) (hr_status answer) (request_id_of q uuid) \<and>
          (REQUEST_ID_HEADER, request_id_of q uuid) \<in> set (hr_headers answer) \<or>
        line = Request_failed (rq_method q) (url_path q) (request_id_of q uuid) \<and> hr_status answer = 500 \<and>
          hr_headers answer = [] \<and> (\<exists>e. hr_body answer = Failure e)) \<and>
       (\<forall>e. hr_body answer = Failure e \<longrightarrow> resp_request_id e = Some (request_id_of q uuid) \<and>
          (is_production S \<longrightarrow> (\<forall>x. resp_detail e \<noteq> Repr x)))"
    using assms(3) by (rule serve_answers)
qed

text \<open>A production deployment.\<close>

definition demo_production :: settings where
  "demo_production = default_settings\<lparr>ENVIRONMENT := ''production'', SECRET_KEY := u ''0123456789abcdef0123456789abcdef''\<rparr>"

lemma demo_production_accepted: "Settings demo_production = Inr demo_production"
proof -
  have n: "normalise demo_production = demo_production"
    by (simp add: normalise_def demo_production_def default_settings_def empty_str_to_none_def u_def strip_text_def strip_by_def uspace_def)
  have "MIN_SECRET_KEY_BYTES \<le> length (utf8 (SECRET_KEY demo_production))"
    using length_utf8_ge [of "SECRET_KEY demo_production"]
    by (simp add: demo_production_def u_def MIN_SECRET_KEY_BYTES_def)
  moreover have "SECRET_KEY demo_production \<noteq> insecure_secret_key"
    by (simp add: demo_production_def insecure_secret_key_def u_def)
  ultimately show ?thesis
    unfolding Settings_accepts n
    by (simp add: field_errors_empty demo_production_def default_settings_def is_production_def)
qed

theorem application_frame_witness:
  "docs_url (create_app demo_production) = None \<and>
   (\<exists>line answer. serve True \<lparr>rq_method = ''GET'', url_path = ''/x'', request_id_header = Some ''abc''\<rparr> ''uuid''
       (\<lambda>_. Inl (ValueError MsgReportDone) :: exn + unit body http_response) = ([line], answer) \<and>
     line = Request_failed ''GET'' ''/x'' ''abc'' \<and> hr_headers answer = [])"
proof -
  let ?q = "\<lparr>rq_method = ''GET'', url_path = ''/x'', request_id_header = Some ''abc''\<rparr>"
  let ?route = "\<lambda>_ :: string. Inl (ValueError MsgReportDone) :: exn + unit body http_response"
  have p: "is_production demo_production" "ENVIRONMENT demo_production \<notin> {''local'', ''dev''}"
    by (simp_all add: demo_production_def is_production_def)
  have r: "\<And>r x. ?route (request_id_of ?q ''uuid'') = Inr r \<Longrightarrow> hr_body r \<noteq> Failure x" by simp
  note frame = application_frame [where route = ?route and q = ?q and uuid = "''uuid''", OF demo_production_accepted p(2) r,
      THEN conjunct2]
  have d: "docs_url (create_app demo_production) = None" using conjunct1 [OF frame] p(1) by blast
  have e: "request_id_of ?q ''uuid'' = ''abc''" by (simp add: request_id_of_def)
  from frame [THEN conjunct2, THEN conjunct1]
  obtain line answer where l: "serve (is_production demo_production) ?q ''uuid'' ?route = ([line], answer)"
    and c: "line = Request_completed (rq_method ?q) (url_path ?q) (hr_status answer) (request_id_of ?q ''uuid'') \<or>
        line = Request_failed (rq_method ?q) (url_path ?q) (request_id_of ?q ''uuid'') \<and> hr_headers answer = []"
    by blast
  have "line = Request_failed ''GET'' ''/x'' ''abc''"
    using l by (simp add: serve_cases Let_def request_id_of_def)
  with c have "hr_headers answer = []" by simp
  with d l p(1) \<open>line = _\<close> show ?thesis by auto
qed

end
