(* ===== verification/Spec2Isabelle.thy ===== *)
theory Spec2Isabelle
  imports Token_Spec Typing Auth_Overlap Menu_Overlap Report_Overlap Like_Overlap Sync Environment Log_Setup Migrations Api
begin

text \<open>
  A verification library for the green community backend, a FastAPI service over MySQL (through
  SQLAlchemy), Redis and an S3-like object store.

  \<^bold>\<open>The program.\<close>  A request passes the layers of \<^verbatim>\<open>main.py\<close> to a router; the router asks for the current user
  (\<^verbatim>\<open>common/dependencies.py\<close>), builds a service, and the service works through repositories on one
  database session per request.  A service commits; \<^verbatim>\<open>get_db\<close> rolls back whatever was not committed.  The auth
  service keeps refresh tokens and login counters in Redis.  Likes are written to Redis first and
  moved to the database by a scheduled job.  Images go to the object store, their keys to the database.
  Moderation of reports hides posts and records sanctions.  The schema comes from Alembic
  revisions or, in development, from a synchronisation at start.

  \<^bold>\<open>Theories.\<close>  Paths are below \<^verbatim>\<open>src/app\<close> unless they begin otherwise.

    \<^item> \<open>Prelude\<close>: programs with state and exceptions (\<open>prog\<close>, \<open>bindP\<close>, \<open>raiseP\<close>, \<open>catchP\<close>), \<open>keeps\<close>, list lemmas.
    \<^item> \<open>PyString\<close>: the parts of Python's strings and integers the code uses, with their round trips.
    \<^item> \<open>Errors\<close>: \<^verbatim>\<open>core/exceptions.py\<close>, \<^verbatim>\<open>core/exception_handlers.py\<close>, \<^verbatim>\<open>common/schemas.py\<close>.
    \<^item> \<open>Redis_Api\<close>: the Redis commands as a record \<open>redis_api\<close>, their laws as the locale \<open>redis\<close>, and an interpretation
      on an executable store.
    \<^item> \<open>Rate_Limit\<close>: \<^verbatim>\<open>common/rate_limit.py\<close>, refining a window counter (\<open>abs_hit\<close>, \<open>abs_tick\<close>).
    \<^item> \<open>Security\<close>: \<^verbatim>\<open>core/security.py\<close>; bcrypt, PyJWT and SHA-256 are the record \<open>crypto\<close> with \<open>crypto_ok\<close>, which asks
      for a round trip of tokens with the HMAC algorithms and within the range of \<^verbatim>\<open>datetime\<close> only (\<open>issuable\<close>).
    \<^item> \<open>Token_Store\<close>: \<^verbatim>\<open>modules/auth/token_store.py\<close>.
    \<^item> \<open>Pagination\<close>: \<^verbatim>\<open>common/pagination.py\<close>.
    \<^item> \<open>Database\<close>: the rows of all \<^verbatim>\<open>*_model.py\<close>, \<^verbatim>\<open>infrastructure/database/session.py\<close> and \<^verbatim>\<open>mixins.py\<close>; \<open>session\<close> holds the
      committed and the working database and the AUTO_INCREMENT counters.  The locale \<open>table\<close> states what
      reading and updating by primary key give, and is interpreted on all eight tables.
    \<^item> \<open>Users\<close>, \<open>Access\<close>, \<open>Auth\<close>: \<^verbatim>\<open>modules/users\<close>, \<^verbatim>\<open>common/dependencies.py\<close>, \<^verbatim>\<open>modules/auth\<close>.
    \<^item> \<open>Menus\<close>: \<^verbatim>\<open>modules/menus\<close>.
    \<^item> \<open>Likes\<close>: the likes of \<^verbatim>\<open>modules/posts/post_repository.py\<close> and \<^verbatim>\<open>post_like_sync.py\<close>.
    \<^item> \<open>Storage\<close>: \<^verbatim>\<open>infrastructure/storage\<close>; the locale \<open>boto\<close> has the laws of boto3, \<open>storage_contract\<close> what the image service
      relies on; both implementations are sublocales.
    \<^item> \<open>Posts\<close>, \<open>Images\<close>: the rest of \<^verbatim>\<open>modules/posts\<close>; Pillow is the record \<open>pillow\<close>.
    \<^item> \<open>Comments\<close>: \<^verbatim>\<open>modules/comments\<close>.
    \<^item> \<open>Reports\<close>: \<^verbatim>\<open>modules/reports\<close>, and \<open>moderation\<close>, the step relation of its requests.
    \<^item> \<open>Sync\<close>: \<^verbatim>\<open>infrastructure/database/synchronize.py\<close>; comparison engine and executor of Alembic are arguments.
    \<^item> \<open>Config\<close>: \<^verbatim>\<open>core/config.py\<close>; \<open>jwt_of\<close>, \<open>auth_of\<close>, \<open>storage_of\<close> give the other components their settings.
    \<^item> \<open>Logging\<close>, \<open>Log_Setup\<close>: \<^verbatim>\<open>core/logging_config.py\<close>: the masking of an event; the set-up of the loggers on a model of
      Python's \<^verbatim>\<open>logging\<close>, and the way of a record through it, also past it when the engine echoes.
    \<^item> \<open>Environment\<close>: the options of the engine and the Redis pool (\<^verbatim>\<open>infrastructure/database/session.py\<close>,
      \<^verbatim>\<open>infrastructure/cache/redis.py\<close>), \<^verbatim>\<open>api/v1/router.py\<close>, \<^verbatim>\<open>src/scripts/seed.py\<close> and \<^verbatim>\<open>src/alembic/env.py\<close>.
    \<^item> \<open>Migrations\<close>: \<^verbatim>\<open>src/alembic/versions\<close> and the tables of the models, with the indexes InnoDB needs for foreign keys.
    \<^item> \<open>Api\<close>: \<^verbatim>\<open>main.py\<close>, \<^verbatim>\<open>api/health.py\<close>, \<^verbatim>\<open>core/middleware.py\<close>, \<^verbatim>\<open>infrastructure/scheduler\<close>.
    \<^item> \<open>Token_Spec\<close>: the abstract token store (active and spent tokens with the time they have left) that
      \<open>Token_Store\<close> implements.
    \<^item> \<open>Frames\<close>: what each operation leaves alone: a part \<open>f\<close> of the database (\<open>framed\<close>), or Redis up to events of the token
      store and of the limiter (locale \<open>kv_steps\<close>).
    \<^item> \<open>System\<close>: the components together: a \<open>deployment\<close>, the requests of every router as step relations, \<open>app_step\<close> (a request,
      an upload, the like job, waiting), \<open>app_run\<close>, and the invariant \<open>app_ok\<close> of every reachable state.
    \<^item> \<open>Threads\<close>: requests that overlap: a \<open>thread\<close> is a sequence of round trips to the shared state, \<open>runs E\<close> every interleaving of a
      pool of threads with steps \<open>E\<close> of the environment, \<open>play\<close> one schedule; \<open>sat\<close> and the locale \<open>rely_guarantee\<close> prove
      properties of all interleavings.
    \<^item> \<open>Auth_Threads\<close>, \<open>Auth_Overlap\<close>: the methods of \<^verbatim>\<open>modules/auth/service.py\<close> trip by trip, and what holds of them in every
      interleaving; the locale \<open>service_trips\<close> says what a request does to Redis before it saves a token.
    \<^item> \<open>Menu_Overlap\<close>: \<^verbatim>\<open>create\<close>, \<^verbatim>\<open>update\<close> and \<^verbatim>\<open>delete\<close> of \<^verbatim>\<open>modules/menus/menu_service.py\<close> as transactions that overlap.
    \<^item> \<open>Report_Overlap\<close>: \<^verbatim>\<open>process_report\<close> of \<^verbatim>\<open>modules/reports/report_service.py\<close> when two moderators decide at once.
    \<^item> \<open>Like_Overlap\<close>: the job of \<^verbatim>\<open>modules/posts/post_like_sync.py\<close>, any number of times at once, and
      the requests that read a like on their own snapshot meanwhile.
    \<^item> \<open>Typing\<close>: every text in a reachable database is one its schema accepts, so it fits its column.

  Operations keep the names of the source, with the component in front where two share a name
  (\<open>menu_create\<close>, \<open>post_create\<close>); an endpoint whose name is taken ends in \<open>_route\<close>.

  \<^bold>\<open>Properties.\<close>  Each component has its contract: who may call an operation, what it answers on
  every branch, and that it changes nothing else.  Invariants hold over every sequence of
  operations: menus stay a forest with distinct sibling names, threads stay flat, a decided report is final and
  each sanction belongs to an accepted report.  The token store and the limiter are traced over arbitrary
  histories of commands and of passing time.  The like job, run alone, is equivalent to doing nothing, as
  seen by users.  \<open>System\<close> joins the invariants: an operation keeps those of its own component by that component's lemmas
  and those of the others because it leaves their tables and keys alone (\<open>Frames\<close>), so they hold in every state the
  application reaches, and end-to-end properties of logins and log-outs are proved in those states.

  For requests that overlap, each threaded definition run without interruption is tied to the sequential one
  (\<open>threads_refine_requests\<close>, \<open>alone_menu_createT\<close>, \<open>alone_menu_updateT\<close>, \<open>alone_menu_deleteT\<close>,
  \<open>alone_process_reportT\<close>, \<open>alone_post_like_syncT\<close>).  Over all
  interleavings every session was handed to a client, "log out everywhere" ends the sessions that existed, parallel
  guesses stay within the limit, and overlapping like jobs lose no like that its user leaves alone (a request whose
  snapshot is older than the job's commit may miss it).  Where an
  interleaving does harm, the schedule is written out (also as \<open>env\<close> steps and two-phase definitions such as
  \<open>refresh_check\<close> and \<open>refresh_rotate\<close>) and the harm is proved, with the serial orders that exclude it.

  The last section of a theory with properties holds them; each has a witness at a concrete deployment.

  \<^bold>\<open>Modelling choices.\<close>

    \<^item> A request runs alone, except where a definition has an explicit step of the environment and in the theories named
      \<open>_Overlap\<close>.  There a trip is atomic: one pipeline, one Redis command, one query, or, for menus and reports, the
      reads of one REPEATABLE READ snapshot and then the flush with its commit.
    \<^item> Times are whole seconds; \<open>now\<close>, the UUIDs and the salt drawn by a request are its arguments.
    \<^item> Collation of names and e-mail addresses, LIKE matching, and the order in which the database returns rows that ORDER
      BY does not separate are arguments, restricted only where a property says so.
    \<^item> Lower-casing of e-mail addresses, file suffixes and log keys is that of ASCII; texts are Unicode code points.
    \<^item> Each distinct message of the source is an English constant of type \<open>message\<close>.
    \<^item> The length limits of the schemas and of the columns that a request can exceed are checked where the code or
      the database checks them: VARCHAR columns in characters, the TEXT columns of posts and of report reasons in bytes.
    \<^item> Nothing validates the JWT algorithm and the life times of tokens.  \<open>create_token\<close> and what calls it are the code
      for settings with which \<^verbatim>\<open>jwt.encode\<close> and \<^verbatim>\<open>datetime\<close> do not raise; that others are accepted too is part of
      the property of \<open>Config\<close>.

  \<^bold>\<open>Termination and bounds.\<close>  The walk to the root of a menu is \<open>partial_function (option)\<close>; that it ends on a forest
  is part of the invariant.  The tree of menus is built with as much fuel as there are live menus, which bounds the
  depth of a forest (proved with the tree property).  The worklist of \<open>Sync\<close> ends because the number
  of constructors shrinks.  Everything else is structural.  Identifiers and counters are unbounded integers, as
  in Python; the overflow of a MySQL INTEGER column is not modelled.

  \<^bold>\<open>Not modelled.\<close>  Path matching, JSON and the OpenAPI document (FastAPI, pydantic); the behaviour of the connection pools,
  of Alembic and of structlog's own processors, to which the modelled options are handed; CORS; the durations in the
  access log; the overlap of requests in \<open>app_step\<close>, and of those to other components than auth, menus, likes and
  reports; tests, containers and shell scripts.  What the code lines that no definition models hold is documentation,
  imports, log statements and the \<^verbatim>\<open>__repr__\<close> of the models.
\<close>

end
